(* ===== verification/Prelude.thy ===== *)
theory Prelude
  imports Main "HOL-Library.AList"
begin

text \<open>
  Shared vocabulary of the development: computations that carry a state and may raise, Python
  dictionaries as association lists in insertion order, and the generic lemmas on lists that
  more than one component uses.
\<close>

section \<open>Stateful computations that may raise\<close>

named_theorems act_defs \<comment> \<open>the combinators, for unfolding a whole handler\<close>

text \<open>
  A Python call that mutates shared state and may raise is a function from the state to a
  result and a new state. The state is returned on both branches: what the call had written
  before the raise stays written, as in the source.
\<close>

type_synonym ('e, 'a, 's) act = "'s \<Rightarrow> ('e + 'a) \<times> 's"

definition ret :: "'a \<Rightarrow> ('e, 'a, 's) act" where
  [act_defs]: "ret x = (\<lambda>s. (Inr x, s))"

definition raise :: "'e \<Rightarrow> ('e, 'a, 's) act" where
  [act_defs]: "raise e = (\<lambda>s. (Inl e, s))"

definition bind_act :: "('e, 'a, 's) act \<Rightarrow> ('a \<Rightarrow> ('e, 'b, 's) act) \<Rightarrow> ('e, 'b, 's) act" where
  [act_defs]: "bind_act m f = (\<lambda>s. case m s of (Inl e, s') \<Rightarrow> (Inl e, s') | (Inr x, s') \<Rightarrow> f x s')"

definition seq_act :: "('e, 'a, 's) act \<Rightarrow> ('e, 'b, 's) act \<Rightarrow> ('e, 'b, 's) act" where
  [act_defs]: "seq_act m n = bind_act m (\<lambda>_. n)"

definition try_act :: "('e, 'a, 's) act \<Rightarrow> ('e \<Rightarrow> ('e, 'a, 's) act) \<Rightarrow> ('e, 'a, 's) act" where
  [act_defs]: "try_act m h = (\<lambda>s. case m s of (Inl e, s') \<Rightarrow> h e s' | (Inr x, s') \<Rightarrow> (Inr x, s'))"

definition gets_act :: "('s \<Rightarrow> 'a) \<Rightarrow> ('e, 'a, 's) act" where
  [act_defs]: "gets_act f = (\<lambda>s. (Inr (f s), s))"

definition modify_act :: "('s \<Rightarrow> 's) \<Rightarrow> ('e, unit, 's) act" where
  [act_defs]: "modify_act f = (\<lambda>s. (Inr (), f s))"

definition lift_act :: "('e + 'a) \<Rightarrow> ('e, 'a, 's) act" where
  [act_defs]: "lift_act r = (\<lambda>s. (r, s))"

text \<open>The list of results of running \<open>f\<close> on each element in order; the first raise ends it.\<close>

fun map_act :: "('a \<Rightarrow> ('e, 'b, 's) act) \<Rightarrow> 'a list \<Rightarrow> ('e, 'b list, 's) act" where
  "map_act f [] = ret []"
| "map_act f (x # xs) = bind_act (f x) (\<lambda>y. bind_act (map_act f xs) (\<lambda>ys. ret (y # ys)))"

text \<open>Running a computation on one half of a pair of states.\<close>

definition on_fst :: "('e, 'a, 's) act \<Rightarrow> ('e, 'a, 's \<times> 't) act" where
  [act_defs]: "on_fst m = (\<lambda>(s, t). case m s of (r, s') \<Rightarrow> (r, (s', t)))"

definition on_snd :: "('e, 'a, 't) act \<Rightarrow> ('e, 'a, 's \<times> 't) act" where
  [act_defs]: "on_snd m = (\<lambda>(s, t). case m t of (r, t') \<Rightarrow> (r, (s, t')))"

lemma bind_act_Inr:
  "bind_act m f s = (Inr y, s') \<longleftrightarrow> (\<exists>x s1. m s = (Inr x, s1) \<and> f x s1 = (Inr y, s'))"
  by (auto simp: bind_act_def split: prod.splits sum.splits)

lemma bind_act_Inl:
  "bind_act m f s = (Inl e, s') \<longleftrightarrow>
     m s = (Inl e, s') \<or> (\<exists>x s1. m s = (Inr x, s1) \<and> f x s1 = (Inl e, s'))"
  by (auto simp: bind_act_def split: prod.splits sum.splits)

lemma bind_act_ret [simp]: "bind_act (ret x) f = f x"
  by (simp add: bind_act_def ret_def)

lemma bind_act_raise [simp]: "bind_act (raise e) f = raise e"
  by (simp add: bind_act_def raise_def)

lemma ret_apply [simp]: "ret x s = (Inr x, s)"
  by (simp add: ret_def)

lemma raise_apply [simp]: "raise e s = (Inl e, s)"
  by (simp add: raise_def)

lemma seq_act_apply: "m s = (Inr x, s1) \<Longrightarrow> seq_act m n s = n s1"
  by (simp add: seq_act_def bind_act_def)

lemma bind_act_apply: "m s = (Inr x, s1) \<Longrightarrow> bind_act m f s = f x s1"
  by (simp add: bind_act_def)

lemma bind_act_apply_raise: "m s = (Inl e, s1) \<Longrightarrow> bind_act m f s = (Inl e, s1)"
  by (simp add: bind_act_def)

lemma seq_act_bind: "seq_act (bind_act m f) n = bind_act m (\<lambda>x. seq_act (f x) n)"
  by (rule ext) (simp add: seq_act_def bind_act_def split: prod.splits sum.splits)

lemma seq_act_assoc: "seq_act (seq_act m n) k = seq_act m (seq_act n k)"
  by (simp add: seq_act_def [of m] seq_act_bind)

lemma seq_act_ret [simp]: "seq_act (ret x) m = m" "seq_act (Pair (Inr x)) m = m"
  by (simp_all add: seq_act_def bind_act_def)

lemma seq_map_act_append:
  "seq_act (map_act f (xs @ ys)) n = seq_act (map_act f xs) (seq_act (map_act f ys) n)"
proof (induction xs)
  case (Cons x xs)
  have drop: "seq_act (map_act f (z # zs)) k = seq_act (f z) (seq_act (map_act f zs) k)" for z zs k
    by (simp add: seq_act_bind) (simp add: seq_act_def)
  show ?case unfolding append_Cons drop Cons seq_act_assoc by (rule refl)
qed simp

section \<open>Python dictionaries\<close>

text \<open>
  A dictionary iterates in insertion order, and assigning to a present key keeps its place, so
  it is an association list with \<^const>\<open>AList.update\<close> and \<^const>\<open>AList.delete\<close>.
\<close>

type_synonym ('k, 'v) dict = "('k \<times> 'v) list"

abbreviation dict_get :: "('k, 'v) dict \<Rightarrow> 'k \<Rightarrow> 'v option" where
  "dict_get \<equiv> map_of"

abbreviation dict_set :: "'k \<Rightarrow> 'v \<Rightarrow> ('k, 'v) dict \<Rightarrow> ('k, 'v) dict" where
  "dict_set \<equiv> AList.update"

abbreviation dict_del :: "'k \<Rightarrow> ('k, 'v) dict \<Rightarrow> ('k, 'v) dict" where
  "dict_del \<equiv> AList.delete"

abbreviation dict_keys :: "('k, 'v) dict \<Rightarrow> 'k list" where
  "dict_keys d \<equiv> map fst d"

definition dict_has :: "('k, 'v) dict \<Rightarrow> 'k \<Rightarrow> bool" where
  "dict_has d k \<longleftrightarrow> map_of d k \<noteq> None"

lemma dict_has_iff: "dict_has d k \<longleftrightarrow> k \<in> set (dict_keys d)"
  by (simp add: dict_has_def map_of_eq_None_iff)

lemma dict_get_set [simp]: "dict_get (dict_set k v d) k' = (if k' = k then Some v else dict_get d k')"
  by (simp add: update_conv')

lemma dict_get_del [simp]: "dict_get (dict_del k d) k' = (if k' = k then None else dict_get d k')"
  by (simp add: delete_conv')

lemma dict_keys_set:
  "dict_keys (dict_set k v d) = (if dict_has d k then dict_keys d else dict_keys d @ [k])"
  by (simp add: update_keys dict_has_iff)

lemma dict_distinct_set: "distinct (dict_keys d) \<Longrightarrow> distinct (dict_keys (dict_set k v d))"
  by (rule distinct_update)

lemma dict_distinct_del: "distinct (dict_keys d) \<Longrightarrow> distinct (dict_keys (dict_del k d))"
  by (rule distinct_delete)

lemma dict_set_append: "\<not> dict_has d k \<Longrightarrow> dict_set k v d = d @ [(k, v)]"
  by (induction d) (auto simp: dict_has_iff)

section \<open>Lists\<close>

text \<open>\<open>tuple(dict.fromkeys(xs))\<close>: the first occurrence of each element, in order.\<close>

fun dedup :: "'a list \<Rightarrow> 'a list" where
  "dedup [] = []"
| "dedup (x # xs) = x # filter (\<lambda>y. y \<noteq> x) (dedup xs)"

lemma set_dedup [simp]: "set (dedup xs) = set xs"
  by (induction xs) auto

lemma distinct_dedup [simp]: "distinct (dedup xs)"
  by (induction xs) auto

lemma dedup_distinct: "distinct xs \<Longrightarrow> dedup xs = xs"
proof (induction xs)
  case (Cons x xs)
  then have "filter (\<lambda>y. y \<noteq> x) xs = xs" by (auto intro: filter_True)
  with Cons show ?case by simp
qed simp

end
