(* ===== verification/Values.thy ===== *)
theory Values
  imports Prelude
begin

text \<open>
  The values that travel between actors: the exception classes of
  \<open>utils/exceptions.py\<close> with their cause chains, the chain data of \<open>utils/types.py\<close>, the
  dataclasses the actors pass on, and one datatype \<open>pyval\<close> of the Python objects a payload or
  a user-data slot can hold. Python checks types at run time, so an \<open>isinstance\<close> test of the
  source is a case distinction on \<open>pyval\<close>. Texts of exceptions raised by the framework are not
  modelled; a text that the code itself reads is the \<open>exn_msg\<close> field.
\<close>

section \<open>Chain data\<close>

datatype axon_protocol = AxonHttp | AxonOther nat

record neuron =
  hotkey :: string
  validator_permit :: bool
  axon_ip :: string
  axon_port :: int
  axon_proto :: axon_protocol

record block_beat =
  block_number :: int
  block_timestamp :: int
  block_hash :: string

record epoch =
  first_block :: int
  last_block :: int

section \<open>Exceptions\<close>

datatype exn_class =
    NexusException
  | InternalStateCorruptionException
  | SafeInvokeWrappedException
  | NoRoutableNeuronsException
  | InternalFrameworkException
  | FlowMisconfiguredException
  | ActorMisconfiguredException
  | SubnetMisconfiguredException
  | ExecutorFailureException exn \<comment> \<open>\<open>executor_error\<close>\<close>
  | UnsupportedAxonProtocolException axon_protocol axon_protocol
  | AsyncHttpNeuronCommunicatorException
  | NeuronAddressInvalidException
  | MinerMtlsVerificationException
  | RemoteRequestFailedException
  | RemoteRequestRejectedException
  | RemoteResponseTimeoutException
  | ResponseInvalidException
  | ResponseValidationException
  | RemoteExecutionException
  | WeightSettingException
  | RetryTaskAfterExecutorFailureException
  | TaskResultNotFoundException string nat
  | EmbeddedExecutorFailureException
  | RetriesExhaustedException
  | OpenRouterInferenceExecutorFailure
  | EvenSucks
  | InvalidContextIdException \<comment> \<open>this class and the two below do not extend \<open>NexusException\<close>\<close>
  | ContextCompletedException
  | OtherException string
and exn = Exn (exn_class: exn_class) (exn_msg: string) (exn_cause: "exn option") (exn_context: "exn option")

definition is_nexus_class :: "exn_class \<Rightarrow> bool" where
  "is_nexus_class c =
     (case c of InvalidContextIdException \<Rightarrow> False | ContextCompletedException \<Rightarrow> False
      | OtherException _ \<Rightarrow> False | _ \<Rightarrow> True)"

definition is_nexus :: "exn \<Rightarrow> bool" where
  "is_nexus e = is_nexus_class (exn_class e)"

definition is_async_http_class :: "exn_class \<Rightarrow> bool" where
  "is_async_http_class c \<longleftrightarrow>
     c \<in> {AsyncHttpNeuronCommunicatorException, NeuronAddressInvalidException,
           MinerMtlsVerificationException, RemoteRequestFailedException,
           RemoteRequestRejectedException, RemoteResponseTimeoutException,
           ResponseInvalidException, ResponseValidationException, RemoteExecutionException}"

text \<open>\<open>C(...)\<close> raised outside a handler, and \<open>raise C(...) from e\<close> inside one.\<close>

definition exn_of :: "exn_class \<Rightarrow> exn" where
  "exn_of c = Exn c [] None None"

definition exn_from :: "exn_class \<Rightarrow> exn \<Rightarrow> exn" where
  "exn_from c e = Exn c [] (Some e) (Some e)"

text \<open>An exception object whose \<open>__cause__\<close> was assigned without raising it.\<close>

definition exn_with_cause :: "exn_class \<Rightarrow> exn \<Rightarrow> exn" where
  "exn_with_cause c e = Exn c [] (Some e) None"

text \<open>Validation of data against a model: the value, a \<open>ValidationError\<close> with its text, or any other exception.\<close>

datatype 'a validated = Valid 'a | NotValid string | Broken exn

definition executor_failure :: "exn \<Rightarrow> exn" where
  "executor_failure e =
     Exn (ExecutorFailureException e) ''Executor failed to process input'' (Some e) None"

definition is_executor_failure :: "exn \<Rightarrow> bool" where
  "is_executor_failure e = (case exn_class e of ExecutorFailureException _ \<Rightarrow> True | _ \<Rightarrow> False)"

abbreviation framework_exn :: exn where "framework_exn \<equiv> exn_of InternalFrameworkException"
abbreviation corruption_exn :: exn where "corruption_exn \<equiv> exn_of InternalStateCorruptionException"
abbreviation attribute_error :: exn where "attribute_error \<equiv> exn_of (OtherException ''AttributeError'')"
abbreviation key_error :: exn where "key_error \<equiv> exn_of (OtherException ''KeyError'')"
abbreviation value_error :: exn where "value_error \<equiv> exn_of (OtherException ''ValueError'')"
abbreviation runtime_error :: exn where "runtime_error \<equiv> exn_of (OtherException ''RuntimeError'')"

section \<open>Dataclasses passed between actors\<close>

datatype 'v routed = Routed (routed_input: 'v) (routed_target: neuron)

datatype ('i, 'o) processed_input = ProcessedInput (processed_in: 'i) (processed_out: 'o)

datatype 'v timestamped =
  Timestamped (executor_output: 'v) (processing_started: int) (processing_finished: int)
    (block_at_finish: block_beat)

datatype 'v succ_result =
  SuccessfulTaskResult (succ_id: nat) (succ_started: int) (succ_finished: int)
    (succ_block: block_beat) (succ_payload: 'v) (succ_target: neuron) (succ_output: 'v)
    (succ_public: 'v)

datatype 'v fail_result =
  ExecutorFailureTaskResult (fail_id: nat) (fail_started: int) (fail_finished: int)
    (fail_block: block_beat) (fail_payload: 'v) (fail_target: neuron) (fail_exn: exn)

section \<open>Python objects\<close>

datatype pyval =
    PNone
  | PBool bool
  | PInt int
  | PStr string
  | PTuple "pyval list"
  | PDict "(string \<times> pyval) list"
  | PDatetime int bool \<comment> \<open>instant in microseconds, timezone-aware or naive\<close>
  | PExn exn
  | PRouted "pyval routed"
  | PProcessed "(pyval routed, pyval) processed_input"
  | PBlockBeat block_beat
  | PTimestamped "pyval timestamped"
  | PRetryState pyval nat \<comment> \<open>\<open>original_input\<close>, \<open>attempts\<close>\<close>
  | PRoutingState nat \<comment> \<open>\<open>routed_count\<close>\<close>
  | PSuccToPersist "pyval timestamped" pyval
  | PFailToPersist "pyval timestamped"
  | PSucc "pyval succ_result"
  | PFail "pyval fail_result"
  | PEpochBeat epoch
  | PSetWeightsBeat epoch int
  | PWeightSettingSuccess

type_synonym stored_task_execution = "(pyval routed, pyval) processed_input timestamped"

text \<open>
  Attribute access \<open>x.executor_output.output\<close> on a timestamped value: the access raises when
  the wrapped object is not a \<open>ProcessedInput\<close>.
\<close>

definition as_stored_execution :: "pyval timestamped \<Rightarrow> exn + stored_task_execution" where
  "as_stored_execution t =
     (case executor_output t of
        PProcessed p \<Rightarrow>
          Inr (Timestamped p (processing_started t) (processing_finished t) (block_at_finish t))
      | _ \<Rightarrow> Inl attribute_error)"

lemma executor_failure_is_nexus [simp]: "is_nexus (executor_failure e)"
  by (simp add: is_nexus_def is_nexus_class_def executor_failure_def)

lemma executor_failure_recognised [simp]: "is_executor_failure (executor_failure e)"
  by (simp add: is_executor_failure_def executor_failure_def)

lemma exn_of_class [simp]: "exn_class (exn_of c) = c"
  by (simp add: exn_of_def)

lemma exn_of_chain [simp]: "exn_cause (exn_of c) = None" "exn_context (exn_of c) = None"
  by (simp_all add: exn_of_def)

lemma exn_from_sel [simp]:
  "exn_class (exn_from c e) = c" "exn_cause (exn_from c e) = Some e" "exn_context (exn_from c e) = Some e"
  by (simp_all add: exn_from_def)

lemma exn_with_cause_sel [simp]:
  "exn_class (exn_with_cause c e) = c" "exn_cause (exn_with_cause c e) = Some e"
  by (simp_all add: exn_with_cause_def)

lemma async_http_is_nexus: "is_async_http_class c \<Longrightarrow> is_nexus_class c"
  by (auto simp: is_async_http_class_def is_nexus_class_def)

end
