(* ===== verification/ContextLog.thy ===== *)
theory ContextLog
  imports Values
begin

text \<open>
  The log of a context (\<open>core/runtime/context_store_types.py\<close>) and the in-memory persistence
  layer that keeps it (\<open>InMemoryContextStorePersistence\<close> of \<open>context_store.py\<close>). The interface
  \<open>ContextStorePersistence\<close> is the locale \<open>log_persistence\<close>: what its client, the context store,
  may rely on. Deltas are values of a type \<open>'d\<close> that the third-party diff library produces.
\<close>

section \<open>Context ids\<close>

text \<open>
  A context id is the text of a \<open>uuid7\<close> or the reserved id \<open>stop\<close>. The texts of two uuids have
  the same length and compare as the numbers do, and every hexadecimal digit comes before \<open>s\<close>.
\<close>

datatype context_id = Uuid nat | StopCtx

instantiation context_id :: linorder
begin

fun less_eq_context_id :: "context_id \<Rightarrow> context_id \<Rightarrow> bool" where
  "less_eq_context_id (Uuid m) (Uuid n) = (m \<le> n)"
| "less_eq_context_id (Uuid m) StopCtx = True"
| "less_eq_context_id StopCtx (Uuid n) = False"
| "less_eq_context_id StopCtx StopCtx = True"

definition less_context_id :: "context_id \<Rightarrow> context_id \<Rightarrow> bool" where
  "less_context_id a b = (a \<le> b \<and> \<not> b \<le> a)"

instance
proof
  fix a b c :: context_id
  show "a < b \<longleftrightarrow> a \<le> b \<and> \<not> b \<le> a" by (simp add: less_context_id_def)
  show "a \<le> a" by (cases a) simp_all
  show "a \<le> b \<or> b \<le> a" by (cases a; cases b) auto
  show "a \<le> b \<Longrightarrow> b \<le> c \<Longrightarrow> a \<le> c" by (cases a; cases b; cases c) auto
  show "a \<le> b \<Longrightarrow> b \<le> a \<Longrightarrow> a = b" by (cases a; cases b) auto
qed

end

section \<open>Log entries\<close>

record snapshot =
  snap_ctx :: context_id
  snap_payload :: pyval
  snap_user_data :: "(string, pyval) dict"

datatype 'd entry_data =
    MessageSent string 'd
  | UserDataChange string 'd
  | UserNote string
  | ContextDataInitialized pyval "(string, pyval) dict" "snapshot list"
  | ChildContextCreated context_id
  | ContextCreated "context_id list"
  | ContextCompleted

record 'd log_entry =
  le_ctx :: context_id
  le_step :: nat
  le_time :: int
  le_data :: "'d entry_data"

section \<open>In-memory persistence\<close>

record 'd mem_persistence =
  mp_data :: "(context_id, 'd log_entry list) dict"
  mp_tree :: "(context_id, context_id list) dict"

definition mem_persistence_init :: "'d mem_persistence" where
  "mem_persistence_init = \<lparr>mp_data = [], mp_tree = []\<rparr>"

definition next_entry :: "context_id \<Rightarrow> 'd entry_data \<Rightarrow> int \<Rightarrow> 'd log_entry list \<Rightarrow> 'd log_entry" where
  "next_entry c d now es = \<lparr>le_ctx = c, le_step = length es, le_time = now, le_data = d\<rparr>"

definition mem_append_entry ::
  "context_id \<Rightarrow> 'd entry_data \<Rightarrow> int \<Rightarrow> (exn, unit, 'd mem_persistence) act" where
  "mem_append_entry ctx entry now p =
     (case dict_get (mp_data p) ctx of
        None \<Rightarrow> (Inl framework_exn, p)
      | Some es \<Rightarrow>
          (Inr (), p\<lparr>mp_data := dict_set ctx (es @ [next_entry ctx entry now es]) (mp_data p)\<rparr>))"

text \<open>The body of the second loop of \<open>create_context\<close>: one parent gets its log entry and its child.\<close>

definition link_child :: "context_id \<Rightarrow> int \<Rightarrow> context_id \<Rightarrow> 'd mem_persistence \<Rightarrow> 'd mem_persistence" where
  "link_child child now par p =
     (case (dict_get (mp_data p) par, dict_get (mp_tree p) par) of
        (Some es, Some kids) \<Rightarrow>
          p\<lparr>mp_data := dict_set par (es @ [next_entry par (ChildContextCreated child) now es]) (mp_data p),
            mp_tree := dict_set par (kids @ [child]) (mp_tree p)\<rparr>
      | _ \<Rightarrow> p)"

definition mem_create_context ::
  "context_id list \<Rightarrow> context_id \<Rightarrow> int \<Rightarrow> (exn, context_id, 'd mem_persistence) act" where
  "mem_create_context parents child now p =
     (if (\<exists>par \<in> set parents. \<not> dict_has (mp_tree p) par \<or> \<not> dict_has (mp_data p) par)
      then (Inl framework_exn, p)
      else
        let p1 = fold (link_child child now) parents p
        in (Inr child,
            p1\<lparr>mp_data := dict_set child [next_entry child (ContextCreated parents) now []] (mp_data p1),
               mp_tree := dict_set child [] (mp_tree p1)\<rparr>))"

definition mem_log_entries :: "'d mem_persistence \<Rightarrow> 'd log_entry list" where
  "mem_log_entries p = sort_key le_step (concat (map snd (mp_data p)))"

section \<open>The persistence interface\<close>

text \<open>
  \<open>hist p c\<close> is the log of context \<open>c\<close>, empty when the layer does not know \<open>c\<close>. The laws: an
  append goes to one log and nowhere else; creating a context adds one entry to the log of each
  parent and starts the child's; \<open>entries\<close> lists every log in the order of its steps.
\<close>

locale log_persistence =
  fixes hist :: "'p \<Rightarrow> context_id \<Rightarrow> 'd log_entry list"
    and ok :: "'p \<Rightarrow> bool"
    and append :: "context_id \<Rightarrow> 'd entry_data \<Rightarrow> int \<Rightarrow> (exn, unit, 'p) act"
    and create :: "context_id list \<Rightarrow> context_id \<Rightarrow> int \<Rightarrow> (exn, context_id, 'p) act"
    and entries :: "'p \<Rightarrow> 'd log_entry list"
  assumes append_known: "ok p \<Longrightarrow> hist p c \<noteq> [] \<Longrightarrow>
        \<exists>p'. append c d now p = (Inr (), p') \<and> ok p'
           \<and> hist p' = (hist p)(c := hist p c @ [next_entry c d now (hist p c)])"
    and append_unknown: "ok p \<Longrightarrow> hist p c = [] \<Longrightarrow> append c d now p = (Inl framework_exn, p)"
    and create_known: "ok p \<Longrightarrow> distinct ps \<Longrightarrow> (\<And>c. c \<in> set ps \<Longrightarrow> hist p c \<noteq> []) \<Longrightarrow> hist p k = [] \<Longrightarrow>
        \<exists>p'. create ps k now p = (Inr k, p') \<and> ok p'
           \<and> hist p' = (\<lambda>c. if c = k then [next_entry k (ContextCreated ps) now []]
                            else if c \<in> set ps
                              then hist p c @ [next_entry c (ChildContextCreated k) now (hist p c)]
                              else hist p c)"
    and entries_project: "ok p \<Longrightarrow> filter (\<lambda>e. le_ctx e = c) (entries p) = hist p c"
    and ok_steps: "ok p \<Longrightarrow> map le_step (hist p c) = [0..<length (hist p c)]"
    and ok_owner: "ok p \<Longrightarrow> \<forall>e \<in> set (hist p c). le_ctx e = c"
begin

text \<open>An append never shortens or rewrites any log.\<close>

lemma append_extends:
  assumes "ok p" "append c d now p = (r, p')"
  shows "\<exists>es. hist p' k = hist p k @ es"
proof (cases "hist p c = []")
  case True
  with assms append_unknown have "p' = p" by fastforce
  then show ?thesis by simp
next
  case False
  with assms append_known [OF assms(1) False, of d now] show ?thesis by auto
qed

lemma create_extends:
  assumes "ok p" "distinct ps" "\<And>c. c \<in> set ps \<Longrightarrow> hist p c \<noteq> []" "hist p n = []"
    and "create ps n now p = (r, p')"
  shows "\<exists>es. hist p' k = hist p k @ es"
  using create_known [OF assms(1-4), of now] assms(4,5) by auto

end

section \<open>The in-memory layer implements the interface\<close>

definition mem_hist :: "'d mem_persistence \<Rightarrow> context_id \<Rightarrow> 'd log_entry list" where
  "mem_hist p c = (case dict_get (mp_data p) c of None \<Rightarrow> [] | Some es \<Rightarrow> es)"

definition mem_ok :: "'d mem_persistence \<Rightarrow> bool" where
  "mem_ok p \<longleftrightarrow> distinct (dict_keys (mp_data p)) \<and>
     (\<forall>c. dict_has (mp_tree p) c \<longleftrightarrow> dict_has (mp_data p) c) \<and>
     (\<forall>c es. dict_get (mp_data p) c = Some es \<longrightarrow>
        es \<noteq> [] \<and> map le_step es = [0..<length es] \<and> (\<forall>e \<in> set es. le_ctx e = c))"

lemma mem_hist_nonempty: "mem_ok p \<Longrightarrow> mem_hist p c \<noteq> [] \<longleftrightarrow> dict_has (mp_data p) c"
  by (auto simp: mem_hist_def mem_ok_def dict_has_def split: option.splits)

lemma mem_hist_get: "mem_hist p c \<noteq> [] \<Longrightarrow> dict_get (mp_data p) c = Some (mem_hist p c)"
  by (auto simp: mem_hist_def split: option.splits)

lemma next_entry_steps:
  "map le_step es = [0..<length es] \<Longrightarrow> map le_step (es @ [next_entry c d now es]) = [0..<length (es @ [next_entry c d now es])]"
  by (simp add: next_entry_def)

lemma mem_ok_set:
  assumes "mem_ok p" "es \<noteq> []" "map le_step es = [0..<length es]" "\<forall>e \<in> set es. le_ctx e = c"
    and "dict_has t c" "\<And>k. k \<noteq> c \<Longrightarrow> dict_has t k \<longleftrightarrow> dict_has (mp_tree p) k"
  shows "mem_ok (p\<lparr>mp_data := dict_set c es (mp_data p), mp_tree := t\<rparr>)"
  using assms by (auto simp: mem_ok_def dict_has_def dict_distinct_set)

lemma mem_hist_set:
  "mem_hist (p\<lparr>mp_data := dict_set c es (mp_data p), mp_tree := t\<rparr>) = (mem_hist p)(c := es)"
  "mem_hist (p\<lparr>mp_data := dict_set c es (mp_data p)\<rparr>) = (mem_hist p)(c := es)"
  by (auto simp: mem_hist_def)

lemma mem_ok_append:
  assumes "mem_ok p" "mem_hist p c \<noteq> []" "dict_has t c" "\<And>k. k \<noteq> c \<Longrightarrow> dict_has t k \<longleftrightarrow> dict_has (mp_tree p) k"
  shows "mem_ok (p\<lparr>mp_data := dict_set c (mem_hist p c @ [next_entry c d now (mem_hist p c)]) (mp_data p), mp_tree := t\<rparr>)"
proof -
  have "map le_step (mem_hist p c) = [0..<length (mem_hist p c)]" "\<forall>e \<in> set (mem_hist p c). le_ctx e = c"
    using assms(1) mem_hist_get [OF assms(2)] by (auto simp: mem_ok_def)
  then show ?thesis
    using assms next_entry_steps [of "mem_hist p c" c d now]
    by (intro mem_ok_set) (auto simp: next_entry_def)
qed

lemma link_child_hist:
  assumes "mem_ok p" "mem_hist p par \<noteq> []"
  shows "mem_ok (link_child k now par p)"
    "mem_hist (link_child k now par p) =
       (mem_hist p)(par := mem_hist p par @ [next_entry par (ChildContextCreated k) now (mem_hist p par)])"
proof -
  have "dict_has (mp_tree p) par" using assms by (simp add: mem_ok_def mem_hist_nonempty)
  then obtain kids where kids: "dict_get (mp_tree p) par = Some kids" by (auto simp: dict_has_def)
  have link: "link_child k now par p =
      p\<lparr>mp_data := dict_set par (mem_hist p par @ [next_entry par (ChildContextCreated k) now (mem_hist p par)]) (mp_data p),
        mp_tree := dict_set par (kids @ [k]) (mp_tree p)\<rparr>"
    by (simp add: link_child_def kids mem_hist_get [OF assms(2)])
  show "mem_ok (link_child k now par p)"
    unfolding link by (intro mem_ok_append assms) (auto simp: dict_has_def)
  show "mem_hist (link_child k now par p) =
       (mem_hist p)(par := mem_hist p par @ [next_entry par (ChildContextCreated k) now (mem_hist p par)])"
    unfolding link by (simp add: mem_hist_set)
qed

lemma fold_link_child:
  assumes "mem_ok p" "distinct ps" "\<forall>c \<in> set ps. mem_hist p c \<noteq> []"
  shows "mem_ok (fold (link_child k now) ps p) \<and>
    mem_hist (fold (link_child k now) ps p) =
      (\<lambda>c. if c \<in> set ps then mem_hist p c @ [next_entry c (ChildContextCreated k) now (mem_hist p c)]
           else mem_hist p c)"
  using assms
proof (induction ps arbitrary: p)
  case (Cons par ps)
  note l = link_child_hist [OF Cons.prems(1), of par k now]
  from Cons.prems l have "\<forall>c \<in> set ps. mem_hist (link_child k now par p) c \<noteq> []" by auto
  with Cons.IH [of "link_child k now par p"] Cons.prems l show ?case
    by (auto simp: fun_eq_iff)
qed simp

lemma filter_owner_concat:
  assumes "distinct (map fst d)" "\<And>k es. (k, es) \<in> set d \<Longrightarrow> \<forall>e \<in> set es. le_ctx e = k"
  shows "filter (\<lambda>e. le_ctx e = c) (concat (map snd d)) = (case map_of d c of None \<Rightarrow> [] | Some es \<Rightarrow> es)"
  using assms
proof (induction d)
  case (Cons x d)
  obtain k es where x: "x = (k, es)" by (cases x)
  have es: "\<forall>e \<in> set es. le_ctx e = k" using Cons.prems(2) x by auto
  have rest: "filter (\<lambda>e. le_ctx e = c) (concat (map snd d)) = (case map_of d c of None \<Rightarrow> [] | Some es \<Rightarrow> es)"
    using Cons.prems by (intro Cons.IH) auto
  show ?case
  proof (cases "k = c")
    case True
    with Cons.prems(1) x have "map_of d c = None" by (auto simp: map_of_eq_None_iff)
    with True es rest x show ?thesis by (simp add: filter_True)
  next
    case False
    with es have "filter (\<lambda>e. le_ctx e = c) es = []" by (auto simp: filter_empty_conv)
    with False rest x show ?thesis by simp
  qed
qed simp

interpretation mem: log_persistence mem_hist mem_ok mem_append_entry mem_create_context mem_log_entries
proof
  fix p :: "'a mem_persistence" and c d now
  assume ok: "mem_ok p" and known: "mem_hist p c \<noteq> []"
  have "dict_has (mp_tree p) c" using ok known by (simp add: mem_ok_def mem_hist_nonempty)
  with mem_ok_append [OF ok known, of "mp_tree p" d now] mem_hist_get [OF known]
  show "\<exists>p'. mem_append_entry c d now p = (Inr (), p') \<and> mem_ok p'
          \<and> mem_hist p' = (mem_hist p)(c := mem_hist p c @ [next_entry c d now (mem_hist p c)])"
    by (simp add: mem_append_entry_def mem_hist_set)
next
  fix p :: "'a mem_persistence" and c d now
  assume "mem_ok p" and "mem_hist p c = []"
  then show "mem_append_entry c d now p = (Inl framework_exn, p)"
    using mem_hist_nonempty [of p c] by (simp add: mem_append_entry_def dict_has_def)
next
  fix p :: "'a mem_persistence" and ps k now
  assume ok: "mem_ok p" and ps: "distinct ps" "\<And>c. c \<in> set ps \<Longrightarrow> mem_hist p c \<noteq> []"
    and k: "mem_hist p k = []"
  let ?p1 = "fold (link_child k now) ps p"
  have p1: "mem_ok ?p1" "mem_hist ?p1 = (\<lambda>c. if c \<in> set ps
      then mem_hist p c @ [next_entry c (ChildContextCreated k) now (mem_hist p c)] else mem_hist p c)"
    using fold_link_child [OF ok ps(1), of k now] ps(2) by auto
  have known: "\<forall>c \<in> set ps. dict_has (mp_tree p) c \<and> dict_has (mp_data p) c"
    using ps(2) ok mem_hist_nonempty [OF ok] by (auto simp: mem_ok_def)
  have "mem_ok (?p1\<lparr>mp_data := dict_set k [next_entry k (ContextCreated ps) now []] (mp_data ?p1),
                    mp_tree := dict_set k [] (mp_tree ?p1)\<rparr>)"
    by (intro mem_ok_set p1(1)) (auto simp: next_entry_def dict_has_def)
  then show "\<exists>p'. mem_create_context ps k now p = (Inr k, p') \<and> mem_ok p'
      \<and> mem_hist p' = (\<lambda>c. if c = k then [next_entry k (ContextCreated ps) now []]
                       else if c \<in> set ps
                         then mem_hist p c @ [next_entry c (ChildContextCreated k) now (mem_hist p c)]
                         else mem_hist p c)"
    using known by (auto simp: mem_create_context_def Let_def mem_hist_set p1(2) fun_eq_iff)
next
  fix p :: "'a mem_persistence" and c
  assume ok: "mem_ok p"
  have "filter (\<lambda>e. le_ctx e = c) (mem_log_entries p) =
        sort_key le_step (filter (\<lambda>e. le_ctx e = c) (concat (map snd (mp_data p))))"
    by (simp add: mem_log_entries_def filter_sort)
  also have "filter (\<lambda>e. le_ctx e = c) (concat (map snd (mp_data p))) = mem_hist p c"
    using ok by (subst filter_owner_concat) (auto simp: mem_ok_def mem_hist_def)
  also have "sort_key le_step (mem_hist p c) = mem_hist p c"
    using ok by (intro sort_key_id_if_sorted) (auto simp: mem_ok_def mem_hist_def split: option.splits)
  finally show "filter (\<lambda>e. le_ctx e = c) (mem_log_entries p) = mem_hist p c" .
next
  fix p :: "'a mem_persistence" and c
  assume "mem_ok p"
  then show "map le_step (mem_hist p c) = [0..<length (mem_hist p c)]"
    and "\<forall>e \<in> set (mem_hist p c). le_ctx e = c"
    by (auto simp: mem_ok_def mem_hist_def split: option.splits)
qed

lemma mem_ok_init [simp]: "mem_ok mem_persistence_init"
  by (simp add: mem_ok_def mem_persistence_init_def dict_has_def)

lemma mem_hist_init [simp]: "mem_hist mem_persistence_init c = []"
  by (simp add: mem_hist_def mem_persistence_init_def)

end
