(* ===== verification/ContextStore.thy ===== *)
theory ContextStore
  imports ContextLog
begin

text \<open>
  \<open>Context\<close> and \<open>ContextStore\<close> of \<open>core/runtime/context_store.py\<close>: the live contexts, their
  mutation through logged operations, child creation and recovery by replay. Values are
  immutable here, so \<open>copy.deepcopy\<close> is the identity. \<open>deepdiff\<close> is third-party and enters as a
  record of functions; \<open>uuid.uuid7\<close> and \<open>datetime.now\<close> are a counter and a stream of readings.
\<close>

section \<open>State\<close>

record Context =
  ctx_id :: context_id
  payload :: pyval
  user_data :: "(string, pyval) dict"
  parent_contexts :: "snapshot list"
  is_completed :: bool

text \<open>
  The world a handler runs in: the persistence layer, the store's dictionary of contexts, the
  ids with a registered lock, the uuids drawn so far and the clock's readings. Waiting between
  threads is not modelled; inside one handler a lock is either registered,
  and then taken (reentrantly), or the call raises.
\<close>

record 'd world =
  persistence :: "'d mem_persistence"
  contexts :: "(context_id, Context) dict"
  locks :: "context_id list"
  uuids :: nat
  clock :: "nat \<Rightarrow> int"
  ticks :: nat

record 'd deepdiff =
  dd_delta :: "pyval \<Rightarrow> pyval \<Rightarrow> exn + 'd"
  dd_apply :: "pyval \<Rightarrow> 'd \<Rightarrow> pyval"
  dd_same :: "pyval \<Rightarrow> pyval \<Rightarrow> bool"

definition read_now :: "(exn, int, ('d, 'x) world_scheme) act" where
  "read_now w = (Inr (clock w (ticks w)), w\<lparr>ticks := Suc (ticks w)\<rparr>)"

definition fresh_uuid :: "(exn, nat, ('d, 'x) world_scheme) act" where
  "fresh_uuid w = (Inr (uuids w), w\<lparr>uuids := Suc (uuids w)\<rparr>)"

definition on_persistence :: "(exn, 'a, 'd mem_persistence) act \<Rightarrow> (exn, 'a, ('d, 'x) world_scheme) act" where
  "on_persistence m w = (case m (persistence w) of (r, p) \<Rightarrow> (r, w\<lparr>persistence := p\<rparr>))"

section \<open>Locks, as one handler sees them\<close>

definition register_context :: "context_id \<Rightarrow> (exn, unit, ('d, 'x) world_scheme) act" where
  "register_context c w =
     (if c \<in> set (locks w) then (Inl framework_exn, w) else (Inr (), w\<lparr>locks := locks w @ [c]\<rparr>))"

definition lock_context :: "context_id \<Rightarrow> (exn, unit, ('d, 'x) world_scheme) act" where
  "lock_context c w =
     (if c \<in> set (locks w) then (Inr (), w) else (Inl (exn_of InvalidContextIdException), w))"

definition lock_contexts :: "context_id list \<Rightarrow> (exn, unit list, ('d, 'x) world_scheme) act" where
  "lock_contexts cs = map_act lock_context (sort (dedup cs))"

section \<open>Operations of a context\<close>

definition the_context :: "context_id \<Rightarrow> (exn, Context, ('d, 'x) world_scheme) act" where
  "the_context c w =
     (case dict_get (contexts w) c of None \<Rightarrow> (Inl framework_exn, w) | Some x \<Rightarrow> (Inr x, w))"

definition update_context :: "context_id \<Rightarrow> (Context \<Rightarrow> Context) \<Rightarrow> (exn, unit, ('d, 'x) world_scheme) act" where
  "update_context c f w =
     (case dict_get (contexts w) c of
        None \<Rightarrow> (Inl framework_exn, w)
      | Some x \<Rightarrow> (Inr (), w\<lparr>contexts := dict_set c (f x) (contexts w)\<rparr>))"

definition assert_mutable :: "Context \<Rightarrow> exn + unit" where
  "assert_mutable x = (if is_completed x then Inl (exn_of ContextCompletedException) else Inr ())"

definition append_entry :: "context_id \<Rightarrow> 'd entry_data \<Rightarrow> (exn, unit, ('d, 'x) world_scheme) act" where
  "append_entry c entry =
     bind_act (the_context c) (\<lambda>x.
       if is_completed x then raise (exn_of ContextCompletedException)
       else bind_act read_now (\<lambda>now. on_persistence (mem_append_entry c entry now)))"

definition assert_recovery :: "'d deepdiff \<Rightarrow> pyval \<Rightarrow> 'd \<Rightarrow> pyval \<Rightarrow> exn + unit" where
  "assert_recovery dd old delta new =
     (if dd_same dd (dd_apply dd old delta) new then Inr () else Inl framework_exn)"

definition append_message ::
  "'d deepdiff \<Rightarrow> context_id \<Rightarrow> string \<Rightarrow> pyval \<Rightarrow> (exn, unit, ('d, 'x) world_scheme) act" where
  "append_message dd c src v =
     bind_act (the_context c) (\<lambda>x.
     seq_act (lift_act (assert_mutable x))
     (bind_act (lift_act (dd_delta dd (payload x) v)) (\<lambda>delta.
     seq_act (append_entry c (MessageSent src delta))
     (seq_act (lift_act (assert_recovery dd (payload x) delta v))
     (update_context c (\<lambda>x. x\<lparr>payload := v\<rparr>))))))"

definition user_data_get :: "Context \<Rightarrow> string \<Rightarrow> pyval" where
  "user_data_get x k = (case dict_get (user_data x) k of None \<Rightarrow> PNone | Some v \<Rightarrow> v)"

definition set_user_data ::
  "'d deepdiff \<Rightarrow> context_id \<Rightarrow> string \<Rightarrow> pyval \<Rightarrow> (exn, unit, ('d, 'x) world_scheme) act" where
  "set_user_data dd c k v =
     bind_act (the_context c) (\<lambda>x.
     seq_act (lift_act (assert_mutable x))
     (bind_act (lift_act (dd_delta dd (user_data_get x k) v)) (\<lambda>delta.
     seq_act (append_entry c (UserDataChange k delta))
     (seq_act (lift_act (assert_recovery dd (user_data_get x k) delta v))
     (update_context c (\<lambda>x. x\<lparr>user_data := dict_set k v (user_data x)\<rparr>))))))"

definition append_user_note :: "context_id \<Rightarrow> string \<Rightarrow> (exn, unit, ('d, 'x) world_scheme) act" where
  "append_user_note c note =
     bind_act (the_context c) (\<lambda>x.
     seq_act (lift_act (assert_mutable x)) (append_entry c (UserNote note)))"

definition complete :: "context_id \<Rightarrow> (exn, unit, ('d, 'x) world_scheme) act" where
  "complete c =
     bind_act (the_context c) (\<lambda>x.
     seq_act (lift_act (assert_mutable x))
     (seq_act (append_entry c ContextCompleted)
     (update_context c (\<lambda>x. x\<lparr>is_completed := True\<rparr>))))"

definition copy_user_data :: "context_id \<Rightarrow> (exn, (string, pyval) dict, ('d, 'x) world_scheme) act" where
  "copy_user_data c = bind_act (the_context c) (\<lambda>x. ret (user_data x))"

text \<open>\<open>ImmutableMap\<close> of the snapshots: a later snapshot of the same parent replaces an earlier one.\<close>

definition copy_parent_context_snapshots :: "Context \<Rightarrow> (context_id, snapshot) dict" where
  "copy_parent_context_snapshots x = fold (\<lambda>s. dict_set (snap_ctx s) s) (parent_contexts x) []"

section \<open>Operations of the store\<close>

definition with_context :: "context_id \<Rightarrow> (exn, 'a, ('d, 'x) world_scheme) act \<Rightarrow> (exn, 'a, ('d, 'x) world_scheme) act" where
  "with_context c body =
     seq_act (lock_context c)
     (bind_act (gets_act (\<lambda>w. dict_has (contexts w) c)) (\<lambda>known.
        if known then body else raise (exn_of InvalidContextIdException)))"

definition get_user_data :: "context_id \<Rightarrow> string \<Rightarrow> (pyval \<Rightarrow> bool) \<Rightarrow> (exn, pyval, ('d, 'x) world_scheme) act" where
  "get_user_data c k is_type =
     bind_act (with_context c (copy_user_data c)) (\<lambda>ud.
       case (case dict_get ud k of None \<Rightarrow> PNone | Some v \<Rightarrow> v) of
         PNone \<Rightarrow> raise corruption_exn
       | v \<Rightarrow> if is_type v then ret v else raise corruption_exn)"

definition parent_snapshot :: "context_id \<Rightarrow> (exn, snapshot, ('d, 'x) world_scheme) act" where
  "parent_snapshot c w =
     (case dict_get (contexts w) c of
        None \<Rightarrow> (Inl (exn_of InvalidContextIdException), w)
      | Some x \<Rightarrow>
          if is_completed x then (Inl (exn_of ContextCompletedException), w)
          else (Inr \<lparr>snap_ctx = ctx_id x, snap_payload = payload x, snap_user_data = user_data x\<rparr>, w))"

definition initial_data :: "snapshot list \<Rightarrow> pyval \<times> (string, pyval) dict" where
  "initial_data ps = (if length ps = 1 then (snap_payload (hd ps), snap_user_data (hd ps)) else (PNone, []))"

definition persist_new_context :: "context_id list \<Rightarrow> (exn, context_id, ('d, 'x) world_scheme) act" where
  "persist_new_context parents =
     bind_act fresh_uuid (\<lambda>u. bind_act read_now (\<lambda>now. on_persistence (mem_create_context parents (Uuid u) now)))"

definition create_context :: "context_id list \<Rightarrow> (exn, context_id, ('d, 'x) world_scheme) act" where
  "create_context parents =
     (let parent_ids = dedup parents in
      seq_act (lock_contexts parent_ids)
      (bind_act (map_act parent_snapshot parent_ids) (\<lambda>snaps.
       let (pay, ud) = initial_data snaps in
       bind_act (persist_new_context parent_ids) (\<lambda>new.
       seq_act (modify_act (\<lambda>w. w\<lparr>contexts := dict_set new
                  \<lparr>ctx_id = new, payload = pay, user_data = ud, parent_contexts = snaps, is_completed = False\<rparr>
                  (contexts w)\<rparr>))
       (seq_act (register_context new)
       (seq_act (if snaps \<noteq> [] then append_entry new (ContextDataInitialized pay ud snaps) else ret ())
       (seq_act (lock_context new) (ret new))))))))"

section \<open>Recovery\<close>

record 'd recovery =
  rc_contexts :: "(context_id, Context) dict"
  rc_last :: "(context_id, string \<times> 'd) dict"
  rc_completed :: "context_id list"
  rc_steps :: "(context_id, nat) dict"

definition recovery_init :: "'d recovery" where
  "recovery_init = \<lparr>rc_contexts = [], rc_last = [], rc_completed = [], rc_steps = []\<rparr>"

definition recover_data :: "'d deepdiff \<Rightarrow> context_id \<Rightarrow> 'd entry_data \<Rightarrow> 'd recovery \<Rightarrow> exn + 'd recovery" where
  "recover_data dd c d st =
     (case d of
        ContextCreated _ \<Rightarrow>
          if dict_has (rc_contexts st) c then Inl corruption_exn
          else Inr (st\<lparr>rc_contexts := dict_set c
                 \<lparr>ctx_id = c, payload = PNone, user_data = [], parent_contexts = [], is_completed = False\<rparr>
                 (rc_contexts st)\<rparr>)
      | ContextDataInitialized pay ud ps \<Rightarrow>
          (case dict_get (rc_contexts st) c of
             None \<Rightarrow> Inl corruption_exn
           | Some x \<Rightarrow> Inr (st\<lparr>rc_contexts := dict_set c (x\<lparr>payload := pay, user_data := ud, parent_contexts := ps\<rparr>)
                 (rc_contexts st)\<rparr>))
      | ChildContextCreated _ \<Rightarrow> Inr st
      | MessageSent src delta \<Rightarrow>
          (case dict_get (rc_contexts st) c of
             None \<Rightarrow> Inl corruption_exn
           | Some x \<Rightarrow> Inr (st\<lparr>rc_contexts := dict_set c (x\<lparr>payload := dd_apply dd (payload x) delta\<rparr>) (rc_contexts st),
                               rc_last := dict_set c (src, delta) (rc_last st)\<rparr>))
      | UserNote _ \<Rightarrow> Inr st
      | UserDataChange k delta \<Rightarrow>
          (case dict_get (rc_contexts st) c of
             None \<Rightarrow> Inl corruption_exn
           | Some x \<Rightarrow> Inr (st\<lparr>rc_contexts := dict_set c
                 (x\<lparr>user_data := dict_set k (dd_apply dd (user_data_get x k) delta) (user_data x)\<rparr>)
                 (rc_contexts st)\<rparr>))
      | ContextCompleted \<Rightarrow>
          if dict_has (rc_contexts st) c
          then Inr (st\<lparr>rc_contexts := dict_del c (rc_contexts st), rc_completed := c # rc_completed st,
                       rc_last := dict_del c (rc_last st)\<rparr>)
          else Inl corruption_exn)"

definition recover_entry :: "'d deepdiff \<Rightarrow> 'd log_entry \<Rightarrow> 'd recovery \<Rightarrow> exn + 'd recovery" where
  "recover_entry dd e st =
     (let c = le_ctx e; previous_step = dict_get (rc_steps st) c in
      if \<not> (previous_step = None \<and> le_step e = 0
            \<or> (case previous_step of None \<Rightarrow> False | Some k \<Rightarrow> le_step e = k + 1)) then Inl corruption_exn
      else if c \<in> set (rc_completed st) then Inl corruption_exn
      else recover_data dd c (le_data e) (st\<lparr>rc_steps := dict_set c (le_step e) (rc_steps st)\<rparr>))"

fun recover_entries :: "'d deepdiff \<Rightarrow> 'd log_entry list \<Rightarrow> 'd recovery \<Rightarrow> exn + 'd recovery" where
  "recover_entries dd [] st = Inr st"
| "recover_entries dd (e # es) st =
     (case recover_entry dd e st of Inl x \<Rightarrow> Inl x | Inr st' \<Rightarrow> recover_entries dd es st')"

text \<open>\<open>recover_from\<close>: the world of the new store and the last message of each live context.\<close>

definition recover_from ::
  "'d deepdiff \<Rightarrow> ('d, 'x) world_scheme \<Rightarrow> exn + ('d, 'x) world_scheme \<times> (context_id, string \<times> 'd) dict" where
  "recover_from dd w =
     (case recover_entries dd (mem_log_entries (persistence w)) recovery_init of
        Inl x \<Rightarrow> Inl x
      | Inr st \<Rightarrow>
          (case fold (\<lambda>c r. case r of (Inl e, v) \<Rightarrow> (Inl e, v) | (Inr _, v) \<Rightarrow> register_context c v)
                  (dict_keys (rc_contexts st)) (Inr (), w\<lparr>contexts := rc_contexts st, locks := []\<rparr>) of
             (Inl x, _) \<Rightarrow> Inl x
           | (Inr _, v) \<Rightarrow> Inr (v, rc_last st)))"

end
