(* ===== verification/Recovery.thy ===== *)
theory Recovery
  imports ContextStore
begin

text \<open>
  What the log of a context means, and why the store can be rebuilt from it. The replay of one
  context's log is the function \<open>local_run\<close>; the interleaved replay of \<open>recover_from\<close> is shown to
  be \<open>local_run\<close> on each context's log, and every operation of the store keeps the live contexts
  equal to the replay of their logs. Crashing after any sequence of operations and recovering is
  therefore lossless for the contexts that were not completed.
\<close>

section \<open>Replay of one context\<close>

record 'd local_state =
  ls_ctx :: "Context option"
  ls_last :: "(string \<times> 'd) option"
  ls_done :: bool
  ls_step :: "nat option"

definition local_init :: "'d local_state" where
  "local_init = \<lparr>ls_ctx = None, ls_last = None, ls_done = False, ls_step = None\<rparr>"

definition local_data :: "'d deepdiff \<Rightarrow> context_id \<Rightarrow> 'd entry_data \<Rightarrow> 'd local_state \<Rightarrow> 'd local_state option" where
  "local_data dd c d l =
     (case d of
        ContextCreated _ \<Rightarrow>
          (case ls_ctx l of
             None \<Rightarrow> Some (l\<lparr>ls_ctx := Some \<lparr>ctx_id = c, payload = PNone, user_data = [],
                                            parent_contexts = [], is_completed = False\<rparr>\<rparr>)
           | Some _ \<Rightarrow> None)
      | ContextDataInitialized pay ud ps \<Rightarrow>
          map_option (\<lambda>x. l\<lparr>ls_ctx := Some (x\<lparr>payload := pay, user_data := ud, parent_contexts := ps\<rparr>)\<rparr>) (ls_ctx l)
      | ChildContextCreated _ \<Rightarrow> Some l
      | MessageSent src delta \<Rightarrow>
          map_option (\<lambda>x. l\<lparr>ls_ctx := Some (x\<lparr>payload := dd_apply dd (payload x) delta\<rparr>),
                            ls_last := Some (src, delta)\<rparr>) (ls_ctx l)
      | UserNote _ \<Rightarrow> Some l
      | UserDataChange k delta \<Rightarrow>
          map_option (\<lambda>x. l\<lparr>ls_ctx := Some (x\<lparr>user_data :=
             dict_set k (dd_apply dd (user_data_get x k) delta) (user_data x)\<rparr>)\<rparr>) (ls_ctx l)
      | ContextCompleted \<Rightarrow>
          map_option (\<lambda>_. l\<lparr>ls_ctx := None, ls_last := None, ls_done := True\<rparr>) (ls_ctx l))"

definition local_entry :: "'d deepdiff \<Rightarrow> 'd log_entry \<Rightarrow> 'd local_state \<Rightarrow> 'd local_state option" where
  "local_entry dd e l =
     (if le_step e = (case ls_step l of None \<Rightarrow> 0 | Some k \<Rightarrow> Suc k) \<and> \<not> ls_done l
      then local_data dd (le_ctx e) (le_data e) (l\<lparr>ls_step := Some (le_step e)\<rparr>) else None)"

fun local_run :: "'d deepdiff \<Rightarrow> 'd log_entry list \<Rightarrow> 'd local_state \<Rightarrow> 'd local_state option" where
  "local_run dd [] l = Some l"
| "local_run dd (e # es) l = (case local_entry dd e l of None \<Rightarrow> None | Some l' \<Rightarrow> local_run dd es l')"

lemma local_run_append:
  "local_run dd (xs @ ys) l = (case local_run dd xs l of None \<Rightarrow> None | Some l' \<Rightarrow> local_run dd ys l')"
  by (induction xs arbitrary: l) (auto split: option.splits)

lemma local_run_snoc:
  "local_run dd es l = Some l1 \<Longrightarrow> local_run dd (es @ [e]) l = local_entry dd e l1"
  by (auto simp: local_run_append split: option.splits)

section \<open>The interleaved replay, context by context\<close>

definition view :: "context_id \<Rightarrow> 'd recovery \<Rightarrow> 'd local_state" where
  "view c st = \<lparr>ls_ctx = dict_get (rc_contexts st) c, ls_last = dict_get (rc_last st) c,
                ls_done = (c \<in> set (rc_completed st)), ls_step = dict_get (rc_steps st) c\<rparr>"

lemma recover_data_view:
  "recover_data dd c d st = Inr st' \<Longrightarrow>
     local_data dd c d (view c st) = Some (view c st') \<and> (\<forall>k. k \<noteq> c \<longrightarrow> view k st' = view k st)"
  by (auto simp: recover_data_def local_data_def view_def dict_has_def
      split: entry_data.splits if_splits option.splits)

lemma recover_data_defined:
  "local_data dd c d (view c st) = Some l \<Longrightarrow> \<exists>st'. recover_data dd c d st = Inr st'"
  by (auto simp: recover_data_def local_data_def view_def dict_has_def
      split: entry_data.splits if_splits option.splits)

lemma view_steps:
  "view c (st\<lparr>rc_steps := dict_set k n (rc_steps st)\<rparr>) =
     (if c = k then (view c st)\<lparr>ls_step := Some n\<rparr> else view c st)"
  by (simp add: view_def)

lemma recover_entry_view:
  assumes "recover_entry dd e st = Inr st'"
  shows "local_entry dd e (view (le_ctx e) st) = Some (view (le_ctx e) st')"
    and "k \<noteq> le_ctx e \<Longrightarrow> view k st' = view k st"
proof -
  from assms have step: "le_step e = (case dict_get (rc_steps st) (le_ctx e) of None \<Rightarrow> 0 | Some k \<Rightarrow> Suc k)"
    and live: "le_ctx e \<notin> set (rc_completed st)"
    and rec: "recover_data dd (le_ctx e) (le_data e) (st\<lparr>rc_steps := dict_set (le_ctx e) (le_step e) (rc_steps st)\<rparr>) = Inr st'"
    by (auto simp: recover_entry_def Let_def split: if_splits option.splits)
  note v = recover_data_view [OF rec]
  show "local_entry dd e (view (le_ctx e) st) = Some (view (le_ctx e) st')"
    using v step live by (simp add: local_entry_def view_steps) (simp add: view_def)
  show "k \<noteq> le_ctx e \<Longrightarrow> view k st' = view k st" using v by (simp add: view_steps)
qed

lemma recover_entry_defined:
  assumes "local_entry dd e (view (le_ctx e) st) = Some l"
  shows "\<exists>st'. recover_entry dd e st = Inr st'"
proof -
  let ?st = "st\<lparr>rc_steps := dict_set (le_ctx e) (le_step e) (rc_steps st)\<rparr>"
  from assms have g: "le_step e = (case dict_get (rc_steps st) (le_ctx e) of None \<Rightarrow> 0 | Some k \<Rightarrow> Suc k)"
    "le_ctx e \<notin> set (rc_completed st)" "local_data dd (le_ctx e) (le_data e) (view (le_ctx e) ?st) = Some l"
    unfolding view_steps
    by (auto simp: local_entry_def view_def split: if_splits)
  from recover_data_defined [OF g(3)] obtain st' where "recover_data dd (le_ctx e) (le_data e) ?st = Inr st'" by blast
  then show ?thesis using g(1,2)
    by (auto simp: recover_entry_def Let_def split: option.splits)
qed

lemma recover_entries_view:
  "recover_entries dd es st = Inr st' \<Longrightarrow>
     local_run dd (filter (\<lambda>e. le_ctx e = c) es) (view c st) = Some (view c st')"
proof (induction es arbitrary: st)
  case (Cons e es)
  from Cons.prems obtain st1 where st1: "recover_entry dd e st = Inr st1" "recover_entries dd es st1 = Inr st'"
    by (auto split: sum.splits)
  from Cons.IH [OF st1(2)] recover_entry_view [OF st1(1)] show ?case by (cases "le_ctx e = c") auto
qed simp

lemma recover_entries_defined:
  "(\<And>c. local_run dd (filter (\<lambda>e. le_ctx e = c) es) (view c st) \<noteq> None) \<Longrightarrow>
     \<exists>st'. recover_entries dd es st = Inr st'"
proof (induction es arbitrary: st)
  case (Cons e es)
  from Cons.prems [of "le_ctx e"] obtain l where "local_entry dd e (view (le_ctx e) st) = Some l"
    by (auto split: option.splits)
  then obtain st1 where st1: "recover_entry dd e st = Inr st1"
    using recover_entry_defined by blast
  have "local_run dd (filter (\<lambda>e. le_ctx e = c) es) (view c st1) \<noteq> None" for c
    using Cons.prems [of c] recover_entry_view [OF st1] by (cases "le_ctx e = c") auto
  from Cons.IH [OF this] st1 show ?case by simp
qed simp

text \<open>\<open>ContextCompleted\<close> ends a replayable log.\<close>

lemma local_entry_done:
  "local_entry dd e l = Some l' \<Longrightarrow> \<not> ls_done l \<and> (ls_done l' \<longleftrightarrow> le_data e = ContextCompleted)"
  by (auto simp: local_entry_def local_data_def split: if_splits entry_data.splits option.splits)

lemma local_run_done:
  "local_run dd es l = Some l' \<Longrightarrow> \<not> ls_done l \<Longrightarrow>
     (\<forall>e \<in> set (butlast es). le_data e \<noteq> ContextCompleted)
     \<and> (ls_done l' \<longleftrightarrow> es \<noteq> [] \<and> le_data (last es) = ContextCompleted)"
proof (induction es arbitrary: l)
  case (Cons e es)
  from Cons.prems obtain l1 where l1: "local_entry dd e l = Some l1" "local_run dd es l1 = Some l'"
    by (auto split: option.splits)
  note d = local_entry_done [OF l1(1)]
  show ?case
  proof (cases "es = []")
    case True
    with d l1 show ?thesis by simp
  next
    case False
    then obtain e2 es2 where es: "es = e2 # es2" by (cases es) auto
    then have "\<not> ls_done l1" using l1(2) local_entry_done by (auto split: option.splits)
    with Cons.IH [OF l1(2)] d es show ?thesis by auto
  qed
qed simp

section \<open>The store invariant\<close>

definition log_matches :: "'d deepdiff \<Rightarrow> context_id \<Rightarrow> 'd log_entry list \<Rightarrow> Context option \<Rightarrow> bool" where
  "log_matches dd c es xo \<longleftrightarrow>
     (\<exists>ps. es \<noteq> [] \<and> le_data (hd es) = ContextCreated ps) \<and>
     (\<exists>l. local_run dd es local_init = Some l \<and> ls_step l = Some (length es - 1) \<and>
        (case xo of
           None \<Rightarrow> ls_done l \<and> ls_ctx l = None
         | Some x \<Rightarrow> ctx_id x = c \<and> ls_done l = is_completed x \<and> ls_ctx l = (if is_completed x then None else Some x)))"

definition store_inv :: "'d deepdiff \<Rightarrow> ('d, 'x) world_scheme \<Rightarrow> bool" where
  "store_inv dd w \<longleftrightarrow>
     mem_ok (persistence w) \<and> distinct (dict_keys (contexts w)) \<and>
     set (locks w) = set (dict_keys (contexts w)) \<and>
     (\<forall>c. mem_hist (persistence w) c \<noteq> [] \<longrightarrow> (\<exists>n < uuids w. c = Uuid n)) \<and>
     (\<forall>c. mem_hist (persistence w) c = [] \<longrightarrow> dict_get (contexts w) c = None) \<and>
     (\<forall>c. mem_hist (persistence w) c \<noteq> [] \<longrightarrow>
        log_matches dd c (mem_hist (persistence w) c) (dict_get (contexts w) c))"

text \<open>What the model relies on in the diff library: applying a delta it made gives the new value,
  and comparing equal values finds no difference.\<close>

definition deepdiff_ok :: "'d deepdiff \<Rightarrow> bool" where
  "deepdiff_ok dd \<longleftrightarrow>
     (\<forall>old new d. dd_delta dd old new = Inr d \<longrightarrow> dd_apply dd old d = new) \<and> (\<forall>v. dd_same dd v v)"

lemma store_invD:
  assumes "store_inv dd w"
  shows "mem_ok (persistence w)" "c \<in> set (locks w) \<longleftrightarrow> dict_has (contexts w) c"
  using assms by (simp_all add: store_inv_def dict_has_iff)

lemma store_inv_known:
  assumes "store_inv dd w" "dict_get (contexts w) c = Some x"
  shows "mem_hist (persistence w) c \<noteq> []" "log_matches dd c (mem_hist (persistence w) c) (Some x)" "ctx_id x = c"
proof -
  show h: "mem_hist (persistence w) c \<noteq> []" using assms unfolding store_inv_def by (metis option.distinct(1))
  show "log_matches dd c (mem_hist (persistence w) c) (Some x)" using assms h unfolding store_inv_def by metis
  then show "ctx_id x = c" by (auto simp: log_matches_def)
qed

lemma log_matches_append:
  assumes "log_matches dd c es (Some x)" "\<not> is_completed x"
    and "\<And>l. ls_ctx l = Some x \<Longrightarrow> \<not> ls_done l \<Longrightarrow>
          \<exists>l'. local_data dd c d l = Some l' \<and> ls_step l' = ls_step l \<and> ls_done l' = is_completed x'
             \<and> ls_ctx l' = (if is_completed x' then None else Some x')"
    and "ctx_id x' = c"
  shows "log_matches dd c (es @ [next_entry c d now es]) (Some x')"
proof -
  from assms(1,2) obtain l where l: "local_run dd es local_init = Some l" "ls_step l = Some (length es - 1)"
    "\<not> ls_done l" "ls_ctx l = Some x" "es \<noteq> []" by (auto simp: log_matches_def)
  let ?l = "l\<lparr>ls_step := Some (length es)\<rparr>"
  from assms(3) [of ?l] l obtain l' where l': "local_data dd c d ?l = Some l'" "ls_step l' = Some (length es)"
    "ls_done l' = is_completed x'" "ls_ctx l' = (if is_completed x' then None else Some x')" by auto
  then have "local_entry dd (next_entry c d now es) l = Some l'"
    using l by (simp add: local_entry_def next_entry_def)
  with l' assms(1,4) l show ?thesis
    by (auto simp: log_matches_def local_run_snoc [OF l(1)] hd_append)
qed

text \<open>One logged step on one live context.\<close>

lemma store_inv_step:
  assumes inv: "store_inv dd w" and x: "dict_get (contexts w) c = Some x" and live: "\<not> is_completed x"
    and data: "\<And>l. ls_ctx l = Some x \<Longrightarrow> \<not> ls_done l \<Longrightarrow>
          \<exists>l'. local_data dd c d l = Some l' \<and> ls_step l' = ls_step l \<and> ls_done l' = is_completed x'
             \<and> ls_ctx l' = (if is_completed x' then None else Some x')"
    and id: "ctx_id x' = c"
    and p: "mem_ok p" "mem_hist p = (mem_hist (persistence w))(c := mem_hist (persistence w) c
                @ [next_entry c d now (mem_hist (persistence w) c)])"
  shows "store_inv dd (w\<lparr>persistence := p, ticks := t, contexts := dict_set c x' (contexts w)\<rparr>)"
proof -
  let ?h = "mem_hist (persistence w)"
  note known = store_inv_known [OF inv x]
  from log_matches_append [OF known(2) live data id]
  have new: "log_matches dd c (?h c @ [next_entry c d now (?h c)]) (Some x')" .
  have keys: "dict_keys (dict_set c x' (contexts w)) = dict_keys (contexts w)"
    using x by (simp add: dict_keys_set dict_has_def)
  show ?thesis
    using inv known(1) p new keys unfolding store_inv_def by simp
qed

lemma store_inv_ticks: "store_inv dd (w\<lparr>ticks := t\<rparr>) = store_inv dd w"
  by (simp add: store_inv_def)

lemma store_inv_uuids: "store_inv dd w \<Longrightarrow> uuids w \<le> u \<Longrightarrow> store_inv dd (w\<lparr>uuids := u\<rparr>)"
  by (force simp: store_inv_def)

section \<open>Every operation keeps the invariant\<close>

lemma append_entry_known:
  assumes "mem_ok (persistence w)" "mem_hist (persistence w) c \<noteq> []"
    and "dict_get (contexts w) c = Some x" "\<not> is_completed x"
  obtains p where
    "append_entry c d w = (Inr (), w\<lparr>persistence := p, ticks := Suc (ticks w)\<rparr>)" "mem_ok p"
    "mem_hist p = (mem_hist (persistence w))(c := mem_hist (persistence w) c
        @ [next_entry c d (clock w (ticks w)) (mem_hist (persistence w) c)])"
proof -
  from mem.append_known [OF assms(1,2), of d "clock w (ticks w)"]
  obtain p where "mem_append_entry c d (clock w (ticks w)) (persistence w) = (Inr (), p)" "mem_ok p"
    "mem_hist p = (mem_hist (persistence w))(c := mem_hist (persistence w) c
        @ [next_entry c d (clock w (ticks w)) (mem_hist (persistence w) c)])" by blast
  with assms(3,4) show ?thesis
    by (intro that [of p])
      (auto simp: append_entry_def the_context_def bind_act_def read_now_def on_persistence_def)
qed

lemmas append_entry_live = append_entry_known [OF store_invD(1) store_inv_known(1)]

lemma update_same: "dict_get d c = Some x \<Longrightarrow> dict_set c x d = d"
  by (rule update_triv)

text \<open>The shape shared by the four mutators: guarded by \<open>assert_mutable\<close>, one entry, one update.\<close>

lemma store_inv_mutate:
  assumes inv: "store_inv dd w" and x: "dict_get (contexts w) c = Some x" and live: "\<not> is_completed x"
    and data: "\<And>l. ls_ctx l = Some x \<Longrightarrow> \<not> ls_done l \<Longrightarrow>
          \<exists>l'. local_data dd c d l = Some l' \<and> ls_step l' = ls_step l \<and> ls_done l' = is_completed x'
             \<and> ls_ctx l' = (if is_completed x' then None else Some x')"
    and id: "ctx_id x' = c"
  shows "\<exists>w1. append_entry c d w = (Inr (), w1) \<and> contexts w1 = contexts w
      \<and> store_inv dd (w1\<lparr>contexts := dict_set c x' (contexts w1)\<rparr>)"
proof -
  obtain p where p: "append_entry c d w = (Inr (), w\<lparr>persistence := p, ticks := Suc (ticks w)\<rparr>)" "mem_ok p"
    "mem_hist p = (mem_hist (persistence w))(c := mem_hist (persistence w) c
        @ [next_entry c d (clock w (ticks w)) (mem_hist (persistence w) c)])"
    using append_entry_live [OF inv inv x x live] by blast
  have "store_inv dd (w\<lparr>persistence := p, ticks := Suc (ticks w), contexts := dict_set c x' (contexts w)\<rparr>)"
    by (rule store_inv_step [OF inv x live data id p(2,3)])
  with p(1) show ?thesis by auto
qed

lemma append_message_inv:
  assumes dd: "deepdiff_ok dd" and inv: "store_inv dd w" and op: "append_message dd c src v w = (r, w')"
  shows "store_inv dd w'"
proof (cases "dict_get (contexts w) c")
  case None
  with op inv show ?thesis by (simp add: append_message_def the_context_def bind_act_def)
next
  case (Some x)
  show ?thesis
  proof (cases "is_completed x \<or> (\<exists>e. dd_delta dd (payload x) v = Inl e)")
    case True
    with op inv Some show ?thesis
      by (auto simp: append_message_def the_context_def assert_mutable_def act_defs split: if_splits)
  next
    case False
    then obtain delta where delta: "dd_delta dd (payload x) v = Inr delta" by (cases "dd_delta dd (payload x) v") auto
    with dd have app: "dd_apply dd (payload x) delta = v" "dd_same dd v v" by (auto simp: deepdiff_ok_def)
    obtain w1 where w1: "append_entry c (MessageSent src delta) w = (Inr (), w1)" "contexts w1 = contexts w"
      "store_inv dd (w1\<lparr>contexts := dict_set c (x\<lparr>payload := v\<rparr>) (contexts w1)\<rparr>)"
      using store_inv_mutate [OF inv Some, of "MessageSent src delta" "x\<lparr>payload := v\<rparr>"] False app
        store_inv_known(3) [OF inv Some] by (auto simp: local_data_def)
    with op Some False delta app show ?thesis
      by (auto simp: append_message_def the_context_def assert_mutable_def assert_recovery_def
          update_context_def act_defs)
  qed
qed

lemma set_user_data_inv:
  assumes dd: "deepdiff_ok dd" and inv: "store_inv dd w" and op: "set_user_data dd c k v w = (r, w')"
  shows "store_inv dd w'"
proof (cases "dict_get (contexts w) c")
  case None
  with op inv show ?thesis by (simp add: set_user_data_def the_context_def bind_act_def)
next
  case (Some x)
  show ?thesis
  proof (cases "is_completed x \<or> (\<exists>e. dd_delta dd (user_data_get x k) v = Inl e)")
    case True
    with op inv Some show ?thesis
      by (auto simp: set_user_data_def the_context_def assert_mutable_def act_defs split: if_splits)
  next
    case False
    then obtain delta where delta: "dd_delta dd (user_data_get x k) v = Inr delta"
      by (cases "dd_delta dd (user_data_get x k) v") auto
    with dd have app: "dd_apply dd (user_data_get x k) delta = v" "dd_same dd v v" by (auto simp: deepdiff_ok_def)
    let ?x = "x\<lparr>user_data := dict_set k v (user_data x)\<rparr>"
    obtain w1 where w1: "append_entry c (UserDataChange k delta) w = (Inr (), w1)" "contexts w1 = contexts w"
      "store_inv dd (w1\<lparr>contexts := dict_set c ?x (contexts w1)\<rparr>)"
      using store_inv_mutate [OF inv Some, of "UserDataChange k delta" ?x] False app
        store_inv_known(3) [OF inv Some] by (auto simp: local_data_def)
    with op Some False delta app show ?thesis
      by (auto simp: set_user_data_def the_context_def assert_mutable_def assert_recovery_def
          update_context_def act_defs)
  qed
qed

lemma append_user_note_inv:
  assumes inv: "store_inv dd w" and op: "append_user_note c note w = (r, w')"
  shows "store_inv dd w'"
proof (cases "dict_get (contexts w) c")
  case None
  with op inv show ?thesis by (simp add: append_user_note_def the_context_def bind_act_def)
next
  case (Some x)
  show ?thesis
  proof (cases "is_completed x")
    case True
    with op inv Some show ?thesis
      by (auto simp: append_user_note_def the_context_def assert_mutable_def act_defs)
  next
    case False
    obtain w1 where w1: "append_entry c (UserNote note) w = (Inr (), w1)" "contexts w1 = contexts w"
      "store_inv dd (w1\<lparr>contexts := dict_set c x (contexts w1)\<rparr>)"
      using store_inv_mutate [OF inv Some, of "UserNote note" x] False
        store_inv_known(3) [OF inv Some] by (auto simp: local_data_def)
    then have "w1\<lparr>contexts := dict_set c x (contexts w1)\<rparr> = w1" using Some by (simp add: update_same)
    with w1 op Some False show ?thesis
      by (auto simp: append_user_note_def the_context_def assert_mutable_def act_defs)
  qed
qed

lemma complete_inv:
  assumes inv: "store_inv dd w" and op: "complete c w = (r, w')"
  shows "store_inv dd w'"
proof (cases "dict_get (contexts w) c")
  case None
  with op inv show ?thesis by (simp add: complete_def the_context_def bind_act_def)
next
  case (Some x)
  show ?thesis
  proof (cases "is_completed x")
    case True
    with op inv Some show ?thesis
      by (auto simp: complete_def the_context_def assert_mutable_def act_defs)
  next
    case False
    obtain w1 where w1: "append_entry c ContextCompleted w = (Inr (), w1)" "contexts w1 = contexts w"
      "store_inv dd (w1\<lparr>contexts := dict_set c (x\<lparr>is_completed := True\<rparr>) (contexts w1)\<rparr>)"
      using store_inv_mutate [OF inv Some, of ContextCompleted "x\<lparr>is_completed := True\<rparr>"] False
        store_inv_known(3) [OF inv Some] by (auto simp: local_data_def)
    with op Some False show ?thesis
      by (auto simp: complete_def the_context_def assert_mutable_def update_context_def act_defs)
  qed
qed

section \<open>Creating contexts\<close>

definition live :: "('d, 'x) world_scheme \<Rightarrow> context_id \<Rightarrow> bool" where
  "live w c \<longleftrightarrow> (\<exists>x. dict_get (contexts w) c = Some x \<and> \<not> is_completed x)"

definition snapshot_of :: "Context \<Rightarrow> snapshot" where
  "snapshot_of x = \<lparr>snap_ctx = ctx_id x, snap_payload = payload x, snap_user_data = user_data x\<rparr>"

definition snapshots_of :: "('d, 'x) world_scheme \<Rightarrow> context_id list \<Rightarrow> snapshot list" where
  "snapshots_of w cs = map (\<lambda>c. snapshot_of (the (dict_get (contexts w) c))) cs"

lemma lock_contexts_run:
  "lock_contexts cs w =
     (if set cs \<subseteq> set (locks w) then (Inr (map (\<lambda>_. ()) (sort (dedup cs))), w)
      else (Inl (exn_of InvalidContextIdException), w))"
proof -
  have "map_act lock_context ds w =
     (if set ds \<subseteq> set (locks w) then (Inr (map (\<lambda>_. ()) ds), w)
      else (Inl (exn_of InvalidContextIdException), w))" for ds
    by (induction ds) (auto simp: act_defs lock_context_def)
  then show ?thesis by (simp add: lock_contexts_def)
qed

lemma parent_snapshots_run:
  "(\<forall>c \<in> set cs. live w c) \<Longrightarrow> map_act parent_snapshot cs w = (Inr (snapshots_of w cs), w)"
  by (induction cs) (auto simp: act_defs parent_snapshot_def live_def snapshots_of_def snapshot_of_def)

lemma parent_snapshots_fail:
  "\<not> (\<forall>c \<in> set cs. live w c) \<Longrightarrow> \<exists>e. map_act parent_snapshot cs w = (Inl e, w)"
proof (induction cs)
  case (Cons c cs)
  show ?case
  proof (cases "live w c")
    case True
    with Cons obtain e where e: "map_act parent_snapshot cs w = (Inl e, w)" by auto
    from True obtain s where "parent_snapshot c w = (Inr s, w)" by (auto simp: parent_snapshot_def live_def)
    with e show ?thesis by (simp add: bind_act_def)
  next
    case False
    then show ?thesis by (auto simp: act_defs parent_snapshot_def live_def split: option.splits)
  qed
qed simp

lemma create_context_rejects:
  assumes "\<not> (\<forall>c \<in> set parents. live w c)"
  shows "\<exists>e. create_context parents w = (Inl e, w)"
proof -
  from assms have "\<not> (\<forall>c \<in> set (dedup parents). live w c)" by simp
  from parent_snapshots_fail [OF this] show ?thesis
    by (auto simp: create_context_def Let_def lock_contexts_run act_defs)
qed

text \<open>The log and the context of a child right after \<open>persistence.create_context\<close>.\<close>

definition blank_context :: "context_id \<Rightarrow> Context" where
  "blank_context c = \<lparr>ctx_id = c, payload = PNone, user_data = [], parent_contexts = [], is_completed = False\<rparr>"

lemma log_matches_created:
  "log_matches dd c [next_entry c (ContextCreated ps) now []] (Some (blank_context c))"
  by (simp add: log_matches_def next_entry_def local_entry_def local_data_def local_init_def blank_context_def)

lemma fresh_uuid_unknown:
  "store_inv dd w \<Longrightarrow> mem_hist (persistence w) (Uuid (uuids w)) = []"
  by (force simp: store_inv_def)

lemma store_inv_new_context:
  assumes inv: "store_inv dd w" and ps: "\<forall>c \<in> set ps. live w c"
    and n: "n = Uuid (uuids w)" and p: "mem_ok p"
    and hist: "mem_hist p = (\<lambda>c. if c = n then [next_entry n (ContextCreated ps) now []]
          else if c \<in> set ps
            then mem_hist (persistence w) c @ [next_entry c (ChildContextCreated n) now (mem_hist (persistence w) c)]
          else mem_hist (persistence w) c)"
  shows "store_inv dd (w\<lparr>uuids := Suc (uuids w), ticks := t, persistence := p,
            contexts := dict_set n (blank_context n) (contexts w), locks := locks w @ [n]\<rparr>)"
proof -
  let ?h = "mem_hist (persistence w)"
  have fresh: "?h n = []" using fresh_uuid_unknown [OF inv] n by simp
  then have none: "dict_get (contexts w) n = None" using inv by (simp add: store_inv_def)
  have parent: "log_matches dd c (mem_hist p c) (dict_get (contexts w) c)"
    if "c \<in> set ps" "c \<noteq> n" for c
  proof -
    from ps that obtain x where x: "dict_get (contexts w) c = Some x" "\<not> is_completed x" by (auto simp: live_def)
    note k = store_inv_known [OF inv x(1)]
    have "log_matches dd c (?h c @ [next_entry c (ChildContextCreated n) now (?h c)]) (Some x)"
      by (rule log_matches_append [OF k(2) x(2) _ k(3)]) (simp add: local_data_def x(2))
    with that x(1) hist show ?thesis by simp
  qed
  have matches: "log_matches dd c (mem_hist p c) (dict_get (dict_set n (blank_context n) (contexts w)) c)"
    if "mem_hist p c \<noteq> []" for c
  proof -
    consider "c = n" | "c \<noteq> n" "c \<in> set ps" | "c \<noteq> n" "c \<notin> set ps" by blast
    then show ?thesis
    proof cases
      case 1
      then show ?thesis using log_matches_created [of dd n ps now] hist by simp
    next
      case 2
      then show ?thesis using parent by simp
    next
      case 3
      then show ?thesis using that hist inv by (simp add: store_inv_def)
    qed
  qed
  have ids: "\<exists>k < Suc (uuids w). c = Uuid k" if "mem_hist p c \<noteq> []" for c
  proof (cases "c = n")
    case False
    have "?h c \<noteq> []"
    proof
      assume e: "?h c = []"
      then have "c \<notin> set ps" using ps store_inv_known(1) [OF inv] by (auto simp: live_def)
      with e False that hist show False by simp
    qed
    then show ?thesis using inv unfolding store_inv_def by (meson less_SucI)
  qed (simp add: n)
  have dom: "dict_get (dict_set n (blank_context n) (contexts w)) c = None" if "mem_hist p c = []" for c
  proof -
    have "c \<noteq> n" "?h c = []" using that unfolding hist by (auto split: if_splits)
    with inv show ?thesis by (simp add: store_inv_def)
  qed
  have keys: "set (locks w @ [n]) = set (dict_keys (dict_set n (blank_context n) (contexts w)))"
    using inv none by (simp add: store_inv_def dict_keys_set dict_has_def)
  show ?thesis
    using inv p matches ids dom keys unfolding store_inv_def by (simp add: dict_distinct_set)
qed

lemma create_context_run:
  assumes inv: "store_inv dd w" and ps: "\<forall>c \<in> set parents. live w c"
  defines "n \<equiv> Uuid (uuids w)" and "snaps \<equiv> snapshots_of w (dedup parents)"
  defines "x \<equiv> \<lparr>ctx_id = n, payload = fst (initial_data snaps), user_data = snd (initial_data snaps),
                 parent_contexts = snaps, is_completed = False\<rparr>"
  shows "\<exists>w'. create_context parents w = (Inr n, w') \<and> store_inv dd w'
      \<and> contexts w' = dict_set n x (contexts w) \<and> uuids w' = Suc (uuids w)
      \<and> (\<forall>c. c \<noteq> n \<longrightarrow> mem_hist (persistence w') c = mem_hist (persistence w) c @
            (if c \<in> set parents then [next_entry c (ChildContextCreated n) (clock w (ticks w)) (mem_hist (persistence w) c)]
             else []))
      \<and> map le_data (mem_hist (persistence w') n) =
           ContextCreated (dedup parents) #
             (if parents = [] then [] else [ContextDataInitialized (payload x) (user_data x) snaps])"
proof -
  let ?ps = "dedup parents" and ?h = "mem_hist (persistence w)" and ?now = "clock w (ticks w)"
  have live: "\<forall>c \<in> set ?ps. live w c" using ps by simp
  have locked: "set ?ps \<subseteq> set (locks w)"
    using ps store_invD(2) [OF inv] by (auto simp: live_def dict_has_def)
  have fresh: "?h n = []" using fresh_uuid_unknown [OF inv] by (simp add: n_def)
  have known: "?h c \<noteq> []" if "c \<in> set ?ps" for c
    using that ps store_inv_known(1) [OF inv] by (auto simp: live_def)
  from mem.create_known [OF store_invD(1) [OF inv] distinct_dedup known fresh, where now = ?now]
  obtain p where p: "mem_create_context ?ps n ?now (persistence w) = (Inr n, p)" "mem_ok p"
    and hist: "mem_hist p = (\<lambda>c. if c = n then [next_entry n (ContextCreated ?ps) ?now []]
          else if c \<in> set ?ps then ?h c @ [next_entry c (ChildContextCreated n) ?now (?h c)] else ?h c)" by blast
  let ?w1 = "w\<lparr>uuids := Suc (uuids w), ticks := Suc (ticks w), persistence := p,
              contexts := dict_set n (blank_context n) (contexts w), locks := locks w @ [n]\<rparr>"
  let ?w2 = "w\<lparr>uuids := Suc (uuids w), ticks := Suc (ticks w), persistence := p,
              contexts := dict_set n x (contexts w), locks := locks w @ [n]\<rparr>"
  have inv1: "store_inv dd ?w1"
    by (rule store_inv_new_context [OF inv live meta_eq_to_obj_eq [OF n_def] p(2) hist])
  have unlocked: "n \<notin> set (locks w)"
    using store_invD(2) [OF inv, of n] fresh inv by (auto simp: store_inv_def dict_has_def)
  have lock: "lock_contexts ?ps w = (Inr (map (\<lambda>_. ()) (sort (dedup ?ps))), w)"
    using locked by (simp add: lock_contexts_run)
  have pers: "persist_new_context ?ps w = (Inr n, w\<lparr>uuids := Suc (uuids w), ticks := Suc (ticks w), persistence := p\<rparr>)"
    using p(1) by (simp add: persist_new_context_def fresh_uuid_def read_now_def on_persistence_def act_defs n_def)
  have snap: "map_act parent_snapshot ?ps w = (Inr snaps, w)"
    using parent_snapshots_run [OF live] by (simp add: snaps_def)
  have prefix: "create_context parents w =
      seq_act (if snaps \<noteq> [] then append_entry n (ContextDataInitialized (payload x) (user_data x) snaps) else ret ())
        (seq_act (lock_context n) (ret n)) ?w2"
    using unlocked
    by (simp add: create_context_def Let_def lock snap pers seq_act_apply bind_act_apply
        modify_act_def register_context_def split_beta x_def)
  have empty: "snaps = [] \<longleftrightarrow> parents = []"
    by (cases parents) (simp_all add: snaps_def snapshots_of_def)
  show ?thesis
  proof (cases "parents = []")
    case True
    then have "x = blank_context n" using empty by (simp add: x_def blank_context_def initial_data_def)
    with True inv1 prefix empty hist show ?thesis
      by (auto simp: act_defs lock_context_def next_entry_def)
  next
    case False
    let ?d = "ContextDataInitialized (payload x) (user_data x) snaps"
    have x2: "dict_get (contexts ?w2) n = Some x" "\<not> is_completed x" by (simp_all add: x_def)
    have h2: "mem_hist (persistence ?w2) n \<noteq> []" using hist by simp
    obtain q where q: "append_entry n ?d ?w2 = (Inr (), ?w2\<lparr>persistence := q, ticks := Suc (ticks ?w2)\<rparr>)" "mem_ok q"
      and hq: "mem_hist q = (mem_hist p)(n := mem_hist p n @ [next_entry n ?d (clock ?w2 (ticks ?w2)) (mem_hist p n)])"
      using append_entry_known [OF _ h2 x2, of ?d] p(2) by auto
    have b: "dict_get (contexts ?w1) n = Some (blank_context n)" "\<not> is_completed (blank_context n)"
      by (simp_all add: blank_context_def)
    have "store_inv dd (?w1\<lparr>persistence := q, ticks := Suc (ticks ?w2), contexts := dict_set n x (contexts ?w1)\<rparr>)"
      using hq by (intro store_inv_step [OF inv1 b, where d = ?d and x' = x and p = q and now = "clock ?w2 (ticks ?w2)"] q(2))
        (auto simp: local_data_def x_def blank_context_def)
    moreover have "?w1\<lparr>persistence := q, ticks := Suc (ticks ?w2), contexts := dict_set n x (contexts ?w1)\<rparr> =
        ?w2\<lparr>persistence := q, ticks := Suc (ticks ?w2)\<rparr>"
      by (rule world.equality) simp_all
    ultimately have "store_inv dd (?w2\<lparr>persistence := q, ticks := Suc (ticks ?w2)\<rparr>)" by (simp only:)
    with prefix q(1) False empty hist hq show ?thesis
      by (auto simp: act_defs lock_context_def next_entry_def x_def)
  qed
qed

lemma create_context_inv:
  assumes inv: "store_inv dd w" and op: "create_context parents w = (r, w')"
  shows "store_inv dd w'"
proof (cases "\<forall>c \<in> set parents. live w c")
  case True
  from create_context_run [OF inv True] op show ?thesis by auto
next
  case False
  from create_context_rejects [OF False] op inv show ?thesis by auto
qed

section \<open>Recovery of a consistent store\<close>

definition last_message :: "'d log_entry list \<Rightarrow> (string \<times> 'd) option" where
  "last_message es =
     foldl (\<lambda>m e. case le_data e of MessageSent s d \<Rightarrow> Some (s, d) | ContextCompleted \<Rightarrow> None | _ \<Rightarrow> m) None es"

lemma local_run_last:
  "local_run dd es l = Some l' \<Longrightarrow>
     ls_last l' = foldl (\<lambda>m e. case le_data e of MessageSent s d \<Rightarrow> Some (s, d) | ContextCompleted \<Rightarrow> None | _ \<Rightarrow> m)
       (ls_last l) es"
proof (induction es arbitrary: l)
  case (Cons e es)
  from Cons.prems obtain l1 where l1: "local_entry dd e l = Some l1" "local_run dd es l1 = Some l'"
    by (auto split: option.splits)
  have "ls_last l1 = (case le_data e of MessageSent s d \<Rightarrow> Some (s, d) | ContextCompleted \<Rightarrow> None | _ \<Rightarrow> ls_last l)"
    using l1(1) by (auto simp: local_entry_def local_data_def split: if_splits entry_data.splits option.splits)
  with Cons.IH [OF l1(2)] show ?case by simp
qed simp

lemma recover_entries_distinct:
  "recover_entries dd es st = Inr st' \<Longrightarrow> distinct (dict_keys (rc_contexts st)) \<Longrightarrow> distinct (dict_keys (rc_contexts st'))"
proof (induction es arbitrary: st)
  case (Cons e es)
  from Cons.prems obtain st1 where st1: "recover_entry dd e st = Inr st1" "recover_entries dd es st1 = Inr st'"
    by (auto split: sum.splits)
  have "distinct (dict_keys (rc_contexts st1))"
    using st1(1) Cons.prems(2)
    by (auto simp: recover_entry_def recover_data_def Let_def dict_distinct_set dict_distinct_del
        split: if_splits entry_data.splits option.splits)
  with Cons.IH [OF st1(2)] show ?case .
qed simp

lemma register_all:
  assumes "distinct cs" "set cs \<inter> set (locks w) = {}"
  shows "fold (\<lambda>c r. case r of (Inl e, v) \<Rightarrow> (Inl e, v) | (Inr _, v) \<Rightarrow> register_context c v) cs (Inr (), w) =
           (Inr (), w\<lparr>locks := locks w @ cs\<rparr>)"
  using assms
proof (induction cs arbitrary: w)
  case (Cons c cs)
  then have "register_context c w = (Inr (), w\<lparr>locks := locks w @ [c]\<rparr>)" by (simp add: register_context_def)
  with Cons.IH [of "w\<lparr>locks := locks w @ [c]\<rparr>"] Cons.prems show ?case by simp
qed simp

lemma view_init [simp]: "view c recovery_init = local_init"
  by (simp add: view_def recovery_init_def local_init_def)

lemma recover_from_run:
  assumes inv: "store_inv dd w"
  shows "\<exists>w' last. recover_from dd w = Inr (w', last) \<and> store_inv dd w' \<and> persistence w' = persistence w
      \<and> (\<forall>c. dict_get (contexts w') c = (if live w c then dict_get (contexts w) c else None))
      \<and> (\<forall>c. dict_get last c = (if live w c then last_message (mem_hist (persistence w) c) else None))"
proof -
  let ?h = "mem_hist (persistence w)" and ?es = "mem_log_entries (persistence w)"
  have proj: "filter (\<lambda>e. le_ctx e = c) ?es = ?h c" for c
    by (rule mem.entries_project [OF store_invD(1) [OF inv]])
  have runs: "\<exists>l. local_run dd (?h c) local_init = Some l" for c
  proof (cases "?h c = []")
    case False
    then have "log_matches dd c (?h c) (dict_get (contexts w) c)" using inv by (simp add: store_inv_def)
    then show ?thesis by (auto simp: log_matches_def)
  qed simp
  from recover_entries_defined [of dd ?es recovery_init] runs proj
  obtain st where st: "recover_entries dd ?es recovery_init = Inr st" by fastforce
  have view: "local_run dd (?h c) local_init = Some (view c st)" for c
    using recover_entries_view [OF st, of c] proj by simp
  have dist: "distinct (dict_keys (rc_contexts st))"
    using recover_entries_distinct [OF st] by (simp add: recovery_init_def)
  let ?w = "w\<lparr>contexts := rc_contexts st, locks := dict_keys (rc_contexts st)\<rparr>"
  have run: "recover_from dd w = Inr (?w, rc_last st)"
    using st register_all [OF dist, of "w\<lparr>contexts := rc_contexts st, locks := []\<rparr>"]
    by (simp add: recover_from_def)
  have ctx: "dict_get (rc_contexts st) c = (if live w c then dict_get (contexts w) c else None)" for c
  proof (cases "?h c = []")
    case True
    then have "dict_get (contexts w) c = None" using inv by (simp add: store_inv_def)
    moreover from True view [of c] have "dict_get (rc_contexts st) c = None" by (simp add: view_def local_init_def)
    ultimately show ?thesis by (simp add: live_def)
  next
    case False
    then have "log_matches dd c (?h c) (dict_get (contexts w) c)" using inv by (simp add: store_inv_def)
    with view [of c] show ?thesis
      by (auto simp: log_matches_def live_def view_def split: option.splits)
  qed
  have last: "dict_get (rc_last st) c = (if live w c then last_message (?h c) else None)" for c
  proof -
    have l: "dict_get (rc_last st) c = last_message (?h c)"
      using local_run_last [OF view [of c]] by (simp add: view_def local_init_def last_message_def)
    have "last_message (?h c) = None" if "\<not> live w c"
    proof (cases "?h c = []")
      case False
      then have m: "log_matches dd c (?h c) (dict_get (contexts w) c)" using inv by (simp add: store_inv_def)
      with view [of c] that have "ls_done (view c st)"
        by (auto simp: log_matches_def live_def split: option.splits)
      with local_run_done [OF view [of c]] have "le_data (last (?h c)) = ContextCompleted"
        by (simp add: local_init_def)
      with False show ?thesis
        by (cases "?h c" rule: rev_cases) (simp_all add: last_message_def)
    qed (simp add: last_message_def)
    with l show ?thesis by simp
  qed
  have match: "log_matches dd c (?h c) (dict_get (rc_contexts st) c)" if "?h c \<noteq> []" for c
  proof -
    have "log_matches dd c (?h c) (dict_get (contexts w) c)" using that inv by (simp add: store_inv_def)
    with view [of c] ctx [of c] show ?thesis
      by (auto simp: log_matches_def live_def split: option.splits if_splits)
  qed
  have "store_inv dd ?w"
    using inv dist match ctx unfolding store_inv_def by simp
  with run ctx last show ?thesis by auto
qed

end
