(* ===== verification/StoreProperties.thy ===== *)
theory StoreProperties
  imports Recovery
begin

text \<open>
  The worlds a running system can reach, crashes included, and what the context store promises
  in each of them.
\<close>

section \<open>Reachable worlds\<close>

definition world_init :: "(nat \<Rightarrow> int) \<Rightarrow> 'd world" where
  "world_init clk = \<lparr>persistence = mem_persistence_init, contexts = [], locks = [], uuids = 0, clock = clk, ticks = 0\<rparr>"

text \<open>
  Any operation may return or raise, in any order. \<open>crash\<close> drops the store's memory and recovers
  from the persistence layer; \<open>env\<close> lets everything outside the store move, uuids only forward.
\<close>

inductive store_reach :: "'d deepdiff \<Rightarrow> ('d, 'x) world_scheme \<Rightarrow> bool" for dd where
  start: "persistence w = mem_persistence_init \<Longrightarrow> contexts w = [] \<Longrightarrow> locks w = [] \<Longrightarrow> store_reach dd w"
| create: "store_reach dd w \<Longrightarrow> create_context ps w = (r, w') \<Longrightarrow> store_reach dd w'"
| message: "store_reach dd w \<Longrightarrow> append_message dd c src v w = (r, w') \<Longrightarrow> store_reach dd w'"
| user_data: "store_reach dd w \<Longrightarrow> set_user_data dd c k v w = (r, w') \<Longrightarrow> store_reach dd w'"
| unote: "store_reach dd w \<Longrightarrow> append_user_note c n w = (r, w') \<Longrightarrow> store_reach dd w'"
| complete: "store_reach dd w \<Longrightarrow> complete c w = (r, w') \<Longrightarrow> store_reach dd w'"
| crash: "store_reach dd w \<Longrightarrow> recover_from dd w = Inr (w', lst) \<Longrightarrow> store_reach dd w'"
| env: "store_reach dd w \<Longrightarrow> persistence w' = persistence w \<Longrightarrow> contexts w' = contexts w \<Longrightarrow>
          locks w' = locks w \<Longrightarrow> uuids w \<le> uuids w' \<Longrightarrow> store_reach dd w'"

lemma store_inv_empty:
  "persistence w = mem_persistence_init \<Longrightarrow> contexts w = [] \<Longrightarrow> locks w = [] \<Longrightarrow> store_inv dd w"
  by (simp add: store_inv_def)

lemma store_inv_env:
  assumes "store_inv dd w" "persistence w' = persistence w" "contexts w' = contexts w"
    "locks w' = locks w" "uuids w \<le> uuids w'"
  shows "store_inv dd w'"
proof -
  have "\<exists>n < uuids w'. c = Uuid n" if "mem_hist (persistence w) c \<noteq> []" for c
    using that assms(1,5) unfolding store_inv_def by (meson order_less_le_trans)
  with assms show ?thesis unfolding store_inv_def by simp
qed

lemma store_reach_inv:
  assumes "store_reach dd w" "deepdiff_ok dd"
  shows "store_inv dd w"
  using assms(1)
proof (induction rule: store_reach.induct)
  case (crash w w' lst)
  then show ?case using recover_from_run [of dd w] by auto
next
  case (env w w')
  then show ?case by (blast intro: store_inv_env)
qed (use assms(2) in \<open>blast intro: store_inv_empty create_context_inv append_message_inv set_user_data_inv
      append_user_note_inv complete_inv\<close>)+

section \<open>A concrete diff library and a concrete run, for the witnesses\<close>

definition plain_diff :: "pyval deepdiff" where
  "plain_diff = \<lparr>dd_delta = (\<lambda>_ new. Inr new), dd_apply = (\<lambda>_ d. d), dd_same = (=)\<rparr>"

lemma plain_diff_ok: "deepdiff_ok plain_diff"
  by (simp add: deepdiff_ok_def plain_diff_def)

definition demo_run :: "(exn, unit, pyval world) act" where
  "demo_run =
     seq_act (create_context [])
     (seq_act (append_message plain_diff (Uuid 0) ''src'' (PInt 5))
     (seq_act (set_user_data plain_diff (Uuid 0) ''k'' (PStr ''v''))
     (seq_act (create_context [Uuid 0]) (complete (Uuid 0)))))"

definition demo_world :: "pyval world" where
  "demo_world = snd (demo_run (world_init int))"

lemma store_reach_seq:
  assumes "store_reach dd (snd (m w))" "\<And>x s. m w = (Inr x, s) \<Longrightarrow> store_reach dd s \<Longrightarrow> store_reach dd (snd (n s))"
  shows "store_reach dd (snd (seq_act m n w))"
  using assms by (auto simp: seq_act_def bind_act_def split: prod.splits sum.splits)

lemma demo_reach: "store_reach plain_diff demo_world"
proof -
  have "store_reach plain_diff (world_init int)"
    by (rule store_reach.start) (simp_all add: world_init_def)
  then show ?thesis
    unfolding demo_world_def demo_run_def
    by (intro store_reach_seq)
      (auto intro: store_reach.create [OF _ surjective_pairing] store_reach.message [OF _ surjective_pairing]
        store_reach.user_data [OF _ surjective_pairing] store_reach.complete [OF _ surjective_pairing])
qed

lemmas demo_eval = demo_world_def demo_run_def world_init_def create_context_def append_message_def
  set_user_data_def complete_def lock_contexts_def lock_context_def persist_new_context_def fresh_uuid_def
  read_now_def on_persistence_def mem_create_context_def mem_persistence_init_def register_context_def
  append_entry_def the_context_def update_context_def mem_append_entry_def assert_mutable_def
  assert_recovery_def plain_diff_def initial_data_def parent_snapshot_def link_child_def next_entry_def
  user_data_get_def dict_has_def act_defs

lemma demo_contexts:
  "live demo_world (Uuid 1)" "\<not> live demo_world (Uuid 0)"
  "map_option payload (dict_get (contexts demo_world) (Uuid 1)) = Some (PInt 5)"
  "map_option is_completed (dict_get (contexts demo_world) (Uuid 0)) = Some True"
  by (simp_all add: demo_eval live_def Let_def)

section \<open>Properties\<close>

text \<open>C1: after any sequence of store operations, returning or raising, crashes included,
  \<open>recover_from\<close> succeeds on the log and rebuilds exactly the contexts that were not completed,
  with their payload, user data and parent snapshots, and for each of them the last message
  sent; completed contexts are dropped.\<close>

theorem recovery_is_lossless:
  assumes "deepdiff_ok dd" and "store_reach dd w"
  shows "\<exists>w' lst. recover_from dd w = Inr (w', lst)
      \<and> (\<forall>c. dict_get (contexts w') c = (if live w c then dict_get (contexts w) c else None))
      \<and> (\<forall>c. dict_get lst c = (if live w c then last_message (mem_hist (persistence w) c) else None))"
  using recover_from_run [OF store_reach_inv [OF assms(2,1)]] by blast

theorem recovery_is_lossless_witness:
  "\<exists>w' lst. recover_from plain_diff demo_world = Inr (w', lst)
     \<and> map_option payload (dict_get (contexts w') (Uuid 1)) = Some (PInt 5)
     \<and> dict_get (contexts w') (Uuid 0) = None"
proof -
  from recovery_is_lossless [OF plain_diff_ok demo_reach] obtain w' lst where
    r: "recover_from plain_diff demo_world = Inr (w', lst)"
    and "\<forall>c. dict_get (contexts w') c = (if live demo_world c then dict_get (contexts demo_world) c else None)"
    by blast
  then have "dict_get (contexts w') (Uuid 1) = dict_get (contexts demo_world) (Uuid 1)"
    and "dict_get (contexts w') (Uuid 0) = None"
    by (simp_all add: demo_contexts del: One_nat_def)
  with r demo_contexts(3) show ?thesis by (intro exI [of _ w'] exI [of _ lst]) (simp del: One_nat_def)
qed

text \<open>C23: in every reachable world the log of a known context starts with \<open>ContextCreated\<close>, numbers
  its entries 0, 1, 2, ... and holds \<open>ContextCompleted\<close> nowhere but at its end, and it ends there
  exactly when the context is no longer live.\<close>

theorem log_shape:
  assumes "deepdiff_ok dd" and "store_reach dd w" and "mem_hist (persistence w) c \<noteq> []"
  defines "es \<equiv> mem_hist (persistence w) c"
  shows "(\<exists>ps. le_data (hd es) = ContextCreated ps)
      \<and> map le_step es = [0..<length es]
      \<and> ContextCompleted \<notin> le_data ` set (butlast es)
      \<and> (le_data (last es) = ContextCompleted \<longleftrightarrow> \<not> live w c)"
proof -
  note inv = store_reach_inv [OF assms(2,1)]
  have m: "log_matches dd c es (dict_get (contexts w) c)"
    using inv assms(3) by (simp add: store_inv_def es_def)
  then obtain l where run: "local_run dd es local_init = Some l" and
    dn: "ls_done l \<longleftrightarrow> \<not> live w c" and start: "\<exists>ps. le_data (hd es) = ContextCreated ps"
    by (auto simp: log_matches_def live_def split: option.splits)
  have "map le_step es = [0..<length es]"
    using mem.ok_steps [OF store_invD(1) [OF inv]] by (simp add: es_def)
  then show ?thesis
    using local_run_done [OF run] dn start assms(3) by (auto simp: local_init_def es_def)
qed

theorem log_shape_witness:
  "le_data (last (mem_hist (persistence demo_world) (Uuid 0))) = ContextCompleted"
proof -
  have "mem_hist (persistence demo_world) (Uuid 0) \<noteq> []"
    by (simp add: demo_eval Let_def mem_hist_def)
  from log_shape [OF plain_diff_ok demo_reach this] show ?thesis by (simp add: demo_contexts del: One_nat_def)
qed

text \<open>C7: in every reachable world \<open>create_context\<close> with live parents returns a new id, adds that
  one context with a snapshot of each distinct parent in order (payload and user data inherited
  exactly when there is one parent, empty otherwise), and logs \<open>ChildContextCreated\<close> to the parents
  and nothing to any other context; with a parent that is unknown or completed it raises and
  changes nothing.\<close>

theorem child_context_inherits:
  assumes "deepdiff_ok dd" and "store_reach dd w"
  shows "if \<forall>c \<in> set parents. live w c
         then \<exists>n w' x. create_context parents w = (Inr n, w')
            \<and> dict_get (contexts w) n = None \<and> contexts w' = dict_set n x (contexts w)
            \<and> ctx_id x = n \<and> \<not> is_completed x
            \<and> parent_contexts x = map (\<lambda>c. snapshot_of (the (dict_get (contexts w) c))) (dedup parents)
            \<and> (payload x, user_data x) =
                (case dedup parents of
                   [c] \<Rightarrow> (payload (the (dict_get (contexts w) c)), user_data (the (dict_get (contexts w) c)))
                 | _ \<Rightarrow> (PNone, []))
            \<and> (\<forall>c. c \<noteq> n \<longrightarrow> map le_data (mem_hist (persistence w') c) =
                 map le_data (mem_hist (persistence w) c) @ (if c \<in> set parents then [ChildContextCreated n] else []))
         else \<exists>e. create_context parents w = (Inl e, w)"
proof (cases "\<forall>c \<in> set parents. live w c")
  case True
  let ?n = "Uuid (uuids w)" and ?snaps = "snapshots_of w (dedup parents)"
  note inv = store_reach_inv [OF assms(2,1)]
  from create_context_run [OF inv True] obtain w' where
    w': "create_context parents w = (Inr ?n, w')"
    "contexts w' = dict_set ?n \<lparr>ctx_id = ?n, payload = fst (initial_data ?snaps),
       user_data = snd (initial_data ?snaps), parent_contexts = ?snaps, is_completed = False\<rparr> (contexts w)"
    "\<forall>c. c \<noteq> ?n \<longrightarrow> mem_hist (persistence w') c = mem_hist (persistence w) c @
            (if c \<in> set parents then [next_entry c (ChildContextCreated ?n) (clock w (ticks w)) (mem_hist (persistence w) c)]
             else [])" by auto
  have "dict_get (contexts w) ?n = None"
    using fresh_uuid_unknown [OF inv] inv by (simp add: store_inv_def)
  moreover have "(fst (initial_data ?snaps), snd (initial_data ?snaps)) =
      (case dedup parents of
         [c] \<Rightarrow> (payload (the (dict_get (contexts w) c)), user_data (the (dict_get (contexts w) c)))
       | _ \<Rightarrow> (PNone, []))"
    by (auto simp: initial_data_def snapshots_of_def snapshot_of_def split: list.splits)
  ultimately show ?thesis
    using w' True by (auto simp: snapshots_of_def next_entry_def)
next
  case False
  with create_context_rejects [OF False] show ?thesis by auto
qed

theorem child_context_inherits_witness:
  "(\<exists>n w'. create_context [Uuid 1, Uuid 1] demo_world = (Inr n, w')
      \<and> map_option payload (dict_get (contexts w') n) = Some (PInt 5))
   \<and> (\<exists>e. create_context [Uuid 1, Uuid 0] demo_world = (Inl e, demo_world))"
proof
  have "\<forall>c \<in> set [Uuid 1, Uuid 1]. live demo_world c" using demo_contexts(1) by simp
  with child_context_inherits [OF plain_diff_ok demo_reach, of "[Uuid 1, Uuid 1]"] obtain n w' x where
    "create_context [Uuid 1, Uuid 1] demo_world = (Inr n, w')" "contexts w' = dict_set n x (contexts demo_world)"
    "payload x = payload (the (dict_get (contexts demo_world) (Uuid 1)))" by auto
  with demo_contexts(3) show "\<exists>n w'. create_context [Uuid 1, Uuid 1] demo_world = (Inr n, w')
      \<and> map_option payload (dict_get (contexts w') n) = Some (PInt 5)" by auto
next
  have "\<not> (\<forall>c \<in> set [Uuid 1, Uuid 0]. live demo_world c)" using demo_contexts(2) by simp
  with child_context_inherits [OF plain_diff_ok demo_reach, of "[Uuid 1, Uuid 0]"]
  show "\<exists>e. create_context [Uuid 1, Uuid 0] demo_world = (Inl e, demo_world)" by (simp only: if_False)
qed

text \<open>C36: a completed context is frozen: sending a message, writing user data, adding a note and
  completing it again raise \<open>ContextCompletedException\<close>, creating a child of it raises, and none of
  these calls changes a context, the log, the locks or the clock.\<close>

theorem completed_context_is_frozen:
  assumes "dict_get (contexts w) c = Some x" and "is_completed x"
  shows "append_message dd c src v w = (Inl (exn_of ContextCompletedException), w)
       \<and> set_user_data dd c k v w = (Inl (exn_of ContextCompletedException), w)
       \<and> append_user_note c txt w = (Inl (exn_of ContextCompletedException), w)
       \<and> complete c w = (Inl (exn_of ContextCompletedException), w)
       \<and> (\<exists>e. create_context (before @ c # after) w = (Inl e, w))"
proof (intro conjI)
  have "\<not> (\<forall>d \<in> set (before @ c # after). live w d)" using assms by (auto simp: live_def)
  then show "\<exists>e. create_context (before @ c # after) w = (Inl e, w)" by (rule create_context_rejects)
qed (simp_all add: assms append_message_def set_user_data_def append_user_note_def complete_def
    the_context_def assert_mutable_def act_defs)

theorem completed_context_is_frozen_witness:
  "complete (Uuid 0) demo_world = (Inl (exn_of ContextCompletedException), demo_world)"
proof -
  from demo_contexts(4) obtain x where "dict_get (contexts demo_world) (Uuid 0) = Some x" "is_completed x" by auto
  from completed_context_is_frozen [OF this] show ?thesis by simp
qed

lemma local_run_steps:
  "local_run dd es l = Some l' \<Longrightarrow>
     map le_step es = (let s = (case ls_step l of None \<Rightarrow> 0 | Some k \<Rightarrow> Suc k) in [s..<s + length es])"
proof (induction es arbitrary: l)
  case (Cons e es)
  from Cons.prems obtain l1 where l1: "local_entry dd e l = Some l1" "local_run dd es l1 = Some l'"
    by (auto split: option.splits)
  then have "ls_step l1 = Some (le_step e)" and e: "le_step e = (case ls_step l of None \<Rightarrow> 0 | Some k \<Rightarrow> Suc k)"
    by (auto simp: local_entry_def local_data_def split: if_splits entry_data.splits option.splits)
  with Cons.IH [OF l1(2)] have "map le_step es = [Suc (le_step e)..<Suc (le_step e) + length es]"
    by (simp add: Let_def)
  then show ?case by (simp add: e [symmetric] Let_def upt_conv_Cons del: upt_Suc)
qed simp

text \<open>C25: \<open>recover_from\<close> accepts a log, of whatever origin, only if the steps of every context in
  it are 0, 1, 2, ... without a gap or a repetition and nothing follows a \<open>ContextCompleted\<close>; any
  other log raises.\<close>

theorem recovery_rejects_corrupt_logs:
  assumes "recover_from dd w = Inr r"
  defines "es \<equiv> \<lambda>c. filter (\<lambda>e. le_ctx e = c) (mem_log_entries (persistence w))"
  shows "map le_step (es c) = [0..<length (es c)] \<and> ContextCompleted \<notin> le_data ` set (butlast (es c))"
proof -
  from assms(1) obtain st where st: "recover_entries dd (mem_log_entries (persistence w)) recovery_init = Inr st"
    by (auto simp: recover_from_def split: sum.splits)
  from recover_entries_view [OF st, of c] have run: "local_run dd (es c) local_init = Some (view c st)"
    by (simp add: es_def)
  from local_run_steps [OF run] local_run_done [OF run] show ?thesis
    by (auto simp: local_init_def Let_def)
qed

theorem recovery_rejects_corrupt_logs_witness:
  "\<exists>r. recover_from plain_diff demo_world = Inr r
     \<and> map le_step (filter (\<lambda>e. le_ctx e = Uuid 0) (mem_log_entries (persistence demo_world))) = [0..<5]"
proof -
  from recover_from_run [OF store_reach_inv [OF demo_reach plain_diff_ok]] obtain r where
    r: "recover_from plain_diff demo_world = Inr r" by blast
  have "length (filter (\<lambda>e. le_ctx e = Uuid 0) (mem_log_entries (persistence demo_world))) = 5"
    by (simp add: demo_eval Let_def mem_log_entries_def)
  with recovery_rejects_corrupt_logs [OF r, of "Uuid 0"] r show ?thesis by auto
qed

end
