(* ===== verification/Nodes.thy ===== *)
theory Nodes
  imports Values
begin

text \<open>
  The graph vocabulary of \<open>core/dsl/nodes.py\<close>: endpoints, the \<open>NodeSources\<close> and
  \<open>NodeSinks\<close> tables with their \<open>__post_init__\<close> checks, the node base classes, \<open>Targets\<close>
  and the \<open>Pipes\<close> connection graph. An endpoint object is named by its id, which the source
  documents as globally unique. A \<open>frozenset\<close> of taps is a list without duplicates whose
  order stands for the unspecified iteration order; a \<open>set\<close> is a set.
\<close>

section \<open>Endpoints and endpoint tables\<close>

datatype source = Source (source_id: string)

datatype sink = Sink (sink_id: string)

record node_sources =
  sources_of :: "(string, source) dict"
  default_source :: "source option"

record node_sinks =
  sinks_of :: "(string, sink) dict"
  default_sink :: "sink option"

definition node_sources_init :: "(string, source) dict \<Rightarrow> source option \<Rightarrow> exn + node_sources" where
  "node_sources_init srcs dflt =
     (if \<not> (dflt = None \<or> dflt \<in> Some ` set (map snd srcs)) then Inl framework_exn
      else if length srcs = 1 then Inr \<lparr>sources_of = srcs, default_source = Some (snd (hd srcs))\<rparr>
      else Inr \<lparr>sources_of = srcs, default_source = dflt\<rparr>)"

definition node_sources_empty :: "node_sources \<Rightarrow> bool" where
  "node_sources_empty ns \<longleftrightarrow> sources_of ns = []"

text \<open>
  \<open>NodeSinks.__post_init__\<close> tests \<open>default_sink in self.sinks\<close>, that is, membership of a \<open>Sink\<close>
  object among the dictionary's keys, which are strings.
\<close>

definition node_sinks_init :: "(string, sink) dict \<Rightarrow> sink option \<Rightarrow> exn + node_sinks" where
  "node_sinks_init snks dflt =
     (if \<not> (case dflt of None \<Rightarrow> True
             | Some s \<Rightarrow> (Inr s :: string + sink) \<in> Inl ` set (dict_keys snks)) then Inl framework_exn
      else if length snks = 1 then Inr \<lparr>sinks_of = snks, default_sink = Some (snd (hd snks))\<rparr>
      else Inr \<lparr>sinks_of = snks, default_sink = dflt\<rparr>)"

section \<open>Node base classes\<close>

definition source_node_sources :: "source \<Rightarrow> exn + node_sources" where
  "source_node_sources s = node_sources_init [(''self'', s)] None"

definition source_node_sinks :: "source \<Rightarrow> exn + node_sinks" where
  "source_node_sinks s = node_sinks_init [] None"

definition sink_node_sources :: "sink \<Rightarrow> exn + node_sources" where
  "sink_node_sources s = node_sources_init [] None"

definition sink_node_sinks :: "sink \<Rightarrow> exn + node_sinks" where
  "sink_node_sinks s = node_sinks_init [(''self'', s)] None"

record producer =
  prod_id :: string
  prod_source :: source
  prod_sink :: sink

definition mk_producer :: "string \<Rightarrow> producer" where
  "mk_producer i = \<lparr>prod_id = i, prod_source = Source i, prod_sink = Sink (i @ ''-sink'')\<rparr>"

definition producer_sinks :: "producer \<Rightarrow> exn + node_sinks" where
  "producer_sinks p = node_sinks_init [(''sink'', prod_sink p)] None"

definition producer_sources :: "producer \<Rightarrow> exn + node_sources" where
  "producer_sources p = node_sources_init [(''source'', prod_source p)] None"

record fork =
  fork_id :: string
  fork_sink :: sink
  fork_left :: source
  fork_right :: source

definition mk_fork :: "string \<Rightarrow> fork" where
  "mk_fork i = \<lparr>fork_id = i, fork_sink = Sink (i @ ''-sink''),
                fork_left = Source (i @ ''-left-source''), fork_right = Source (i @ ''-right-source'')\<rparr>"

definition fork_sinks :: "fork \<Rightarrow> exn + node_sinks" where
  "fork_sinks f = node_sinks_init [(''sink'', fork_sink f)] None"

definition fork_sources :: "fork \<Rightarrow> exn + node_sources" where
  "fork_sources f = node_sources_init [(''left'', fork_left f), (''right'', fork_right f)] None"

text \<open>A \<open>Transform\<close> is a \<open>Fork\<close> whose left source is \<open>ok\<close> and whose right source is \<open>error\<close>.\<close>

type_synonym transform = fork

abbreviation tr_ok :: "transform \<Rightarrow> source" where "tr_ok \<equiv> fork_left"
abbreviation tr_error :: "transform \<Rightarrow> source" where "tr_error \<equiv> fork_right"

definition transform_sources :: "transform \<Rightarrow> exn + node_sources" where
  "transform_sources t = node_sources_init [(''ok'', tr_ok t), (''error'', tr_error t)] (Some (tr_ok t))"

record double_transform =
  dt_id :: string
  dt_input :: transform
  dt_output :: transform

definition mk_double_transform :: "string \<Rightarrow> double_transform" where
  "mk_double_transform i =
     \<lparr>dt_id = i, dt_input = mk_fork (i @ ''-input-transform''),
      dt_output = mk_fork (i @ ''-output-transform'')\<rparr>"

definition double_transform_sources :: "double_transform \<Rightarrow> exn + node_sources" where
  "double_transform_sources d =
     node_sources_init
       [(''input_ok'', tr_ok (dt_input d)), (''input_error'', tr_error (dt_input d)),
        (''output_ok'', tr_ok (dt_output d)), (''output_error'', tr_error (dt_output d))] None"

definition double_transform_sinks :: "double_transform \<Rightarrow> exn + node_sinks" where
  "double_transform_sinks d =
     node_sinks_init [(''input_sink'', fork_sink (dt_input d)), (''output_sink'', fork_sink (dt_output d))] None"

section \<open>Targets and pipes\<close>

record 'a targets =
  primary :: "'a option"
  taps :: "'a list"

definition mk_targets :: "'a option \<Rightarrow> 'a list \<Rightarrow> 'a targets" where
  "mk_targets p ts = \<lparr>primary = p, taps = dedup ts\<rparr>"

type_synonym pipes = "(source, sink targets) dict"

definition pipes_get :: "pipes \<Rightarrow> source \<Rightarrow> sink targets" where
  "pipes_get p s = (case dict_get p s of None \<Rightarrow> mk_targets None [] | Some t \<Rightarrow> t)"

definition merge_targets :: "source \<Rightarrow> sink targets \<Rightarrow> sink targets \<Rightarrow> exn + sink targets" where
  "merge_targets src existing incoming =
     (if primary existing \<noteq> None \<and> primary incoming \<noteq> None \<and> primary existing \<noteq> primary incoming
      then Inl (exn_of FlowMisconfiguredException)
      else Inr (mk_targets
             (if primary existing \<noteq> None then primary existing else primary incoming)
             (taps existing @ taps incoming)))"

definition validate_roles :: "source \<Rightarrow> sink targets \<Rightarrow> exn + unit" where
  "validate_roles src t =
     (if primary t \<noteq> None \<and> the (primary t) \<in> set (taps t)
      then Inl (exn_of FlowMisconfiguredException) else Inr ())"

definition pipes_connect :: "source \<Rightarrow> sink option \<Rightarrow> sink list \<Rightarrow> (exn, unit, pipes) act" where
  "pipes_connect src prim tps p =
     (let t = mk_targets prim tps
      in if primary t = None \<and> taps t = [] then (Inl (exn_of FlowMisconfiguredException), p)
         else
           case (case dict_get p src of None \<Rightarrow> Inr t | Some existing \<Rightarrow> merge_targets src existing t) of
             Inl e \<Rightarrow> (Inl e, p)
           | Inr t' \<Rightarrow>
               (case validate_roles src t' of
                  Inl e \<Rightarrow> (Inl e, p)
                | Inr _ \<Rightarrow> (Inr (), dict_set src t' p)))"

text \<open>\<open>merge\<close> connects the other graph's entries one by one and stops at the first that fails.\<close>

fun pipes_merge :: "pipes \<Rightarrow> (exn, unit, pipes) act" where
  "pipes_merge [] = ret ()"
| "pipes_merge ((src, t) # other) = seq_act (pipes_connect src (primary t) (taps t)) (pipes_merge other)"

section \<open>Role invariant\<close>

definition targets_ok :: "sink targets \<Rightarrow> bool" where
  "targets_ok t \<longleftrightarrow>
     distinct (taps t) \<and> (primary t \<noteq> None \<or> taps t \<noteq> []) \<and> (\<forall>x \<in> set (taps t). primary t \<noteq> Some x)"

definition pipes_ok :: "pipes \<Rightarrow> bool" where
  "pipes_ok p \<longleftrightarrow> distinct (dict_keys p) \<and> (\<forall>s t. dict_get p s = Some t \<longrightarrow> targets_ok t)"

lemma mk_targets_sel [simp]:
  "primary (mk_targets p ts) = p" "set (taps (mk_targets p ts)) = set ts" "distinct (taps (mk_targets p ts))"
  by (simp_all add: mk_targets_def)

lemma taps_mk_targets_empty [simp]: "taps (mk_targets p ts) = [] \<longleftrightarrow> ts = []"
  by (metis mk_targets_sel(2) set_empty)

lemma pipes_ok_empty [simp]: "pipes_ok []"
  by (simp add: pipes_ok_def)

lemma pipes_connect_ok_inv:
  assumes "pipes_connect src prim tps p = (r, p')" "pipes_ok p"
  shows "pipes_ok p'"
proof (cases r)
  case (Inl e)
  then have "p' = p"
    using assms(1) by (auto simp: pipes_connect_def Let_def split: if_splits sum.splits)
  with assms show ?thesis by simp
next
  case (Inr u)
  then obtain t where t: "p' = dict_set src t p" "targets_ok t"
    using assms(1)
    by (force simp: pipes_connect_def Let_def targets_ok_def merge_targets_def validate_roles_def
        split: if_splits sum.splits option.splits)
  with assms(2) show ?thesis
    by (auto simp: pipes_ok_def intro: dict_distinct_set)
qed

lemma pipes_merge_ok_inv: "pipes_merge other p = (r, p') \<Longrightarrow> pipes_ok p \<Longrightarrow> pipes_ok p'"
proof (induction other arbitrary: p r p' rule: pipes_merge.induct)
  case (2 src t other)
  obtain r1 p1 where c: "pipes_connect src (primary t) (taps t) p = (r1, p1)" by fastforce
  with 2 have ok: "pipes_ok p1" by (blast intro: pipes_connect_ok_inv)
  show ?case
  proof (cases r1)
    case (Inl e)
    with 2 c ok show ?thesis by (simp add: seq_act_def bind_act_def)
  next
    case (Inr u)
    with 2 c ok show ?thesis by (auto simp: seq_act_def bind_act_def)
  qed
qed simp

section \<open>What a list of declarations means\<close>

text \<open>
  A declaration is one call \<open>connect(source, primary, taps=...)\<close>. The abstract reading of a list
  of declarations forgets its order: the sinks declared primary for a source, and the sinks
  declared taps.
\<close>

type_synonym decl = "source \<times> sink option \<times> sink list"

definition declared_primaries :: "decl list \<Rightarrow> source \<Rightarrow> sink set" where
  "declared_primaries ds s = {x. \<exists>ts. (s, Some x, ts) \<in> set ds}"

definition declared_taps :: "decl list \<Rightarrow> source \<Rightarrow> sink set" where
  "declared_taps ds s = {x. \<exists>q ts. (s, q, ts) \<in> set ds \<and> x \<in> set ts}"

definition consistent :: "decl list \<Rightarrow> bool" where
  "consistent ds \<longleftrightarrow>
     (\<forall>(s, q, ts) \<in> set ds. q \<noteq> None \<or> ts \<noteq> []) \<and>
     (\<forall>s x y. x \<in> declared_primaries ds s \<longrightarrow> y \<in> declared_primaries ds s \<longrightarrow> x = y) \<and>
     (\<forall>s. declared_primaries ds s \<inter> declared_taps ds s = {})"

fun connect_all :: "decl list \<Rightarrow> (exn, unit, pipes) act" where
  "connect_all [] = ret ()"
| "connect_all ((s, q, ts) # ds) = seq_act (pipes_connect s q ts) (connect_all ds)"

definition represents :: "pipes \<Rightarrow> decl list \<Rightarrow> bool" where
  "represents p ds \<longleftrightarrow>
     (\<forall>s. (\<forall>x. primary (pipes_get p s) = Some x \<longleftrightarrow> x \<in> declared_primaries ds s) \<and>
          set (taps (pipes_get p s)) = declared_taps ds s)"

lemma declared_snoc:
  "declared_primaries (ds @ [(s, q, ts)]) s' =
     declared_primaries ds s' \<union> (if s' = s then set_option q else {})"
  "declared_taps (ds @ [(s, q, ts)]) s' = declared_taps ds s' \<union> (if s' = s then set ts else {})"
  by (auto simp: declared_primaries_def declared_taps_def)

lemma declared_mono:
  "set ds \<subseteq> set ds' \<Longrightarrow> declared_primaries ds s \<subseteq> declared_primaries ds' s"
  "set ds \<subseteq> set ds' \<Longrightarrow> declared_taps ds s \<subseteq> declared_taps ds' s"
  by (auto simp: declared_primaries_def declared_taps_def)

lemma consistent_mono:
  assumes "consistent ds'" "set ds \<subseteq> set ds'"
  shows "consistent ds"
  using assms declared_mono [OF assms(2)] unfolding consistent_def by blast

lemma declared_cong:
  "set ds = set ds' \<Longrightarrow> declared_primaries ds = declared_primaries ds'"
  "set ds = set ds' \<Longrightarrow> declared_taps ds = declared_taps ds'"
  by (simp_all add: declared_primaries_def declared_taps_def fun_eq_iff)

lemma consistent_cong: "set ds = set ds' \<Longrightarrow> consistent ds \<longleftrightarrow> consistent ds'"
  by (metis consistent_mono order_refl)

lemma represents_Nil: "represents [] []"
  by (simp add: represents_def pipes_get_def declared_primaries_def declared_taps_def)

lemma connect_represents:
  assumes rep: "represents p ds" and ok: "pipes_ok p" and con: "consistent ds"
  shows "if consistent (ds @ [(s, q, ts)])
         then \<exists>p'. pipes_connect s q ts p = (Inr (), p') \<and> represents p' (ds @ [(s, q, ts)])
         else \<exists>e. pipes_connect s q ts p = (Inl e, p)"
proof -
  have prim: "primary (pipes_get p s) = Some x \<longleftrightarrow> x \<in> declared_primaries ds s"
    and tap: "set (taps (pipes_get p s)) = declared_taps ds s" for x
    using rep by (auto simp: represents_def)
  let ?P = "primary (pipes_get p s)" and ?T = "taps (pipes_get p s)"
  define t where "t = (case dict_get p s of None \<Rightarrow> mk_targets q ts
    | Some old \<Rightarrow> mk_targets (if ?P \<noteq> None then ?P else q) (?T @ taps (mk_targets q ts)))"
  have fresh: "dict_get p s = None \<Longrightarrow> ?P = None \<and> ?T = []"
    by (simp add: pipes_get_def mk_targets_def)
  have t: "primary t = (if ?P \<noteq> None then ?P else q)" "set (taps t) = set ?T \<union> set ts"
    using fresh by (auto simp: t_def split: option.splits)
  have old: "dict_get p s = Some old \<Longrightarrow> old = pipes_get p s" for old
    by (simp add: pipes_get_def)
  let ?bad = "q = None \<and> ts = [] \<or> ?P \<noteq> None \<and> q \<noteq> None \<and> ?P \<noteq> q
      \<or> (\<exists>x. primary t = Some x \<and> x \<in> set (taps t))"
  have step: "pipes_connect s q ts p =
      (if ?bad then (Inl (exn_of FlowMisconfiguredException), p) else (Inr (), dict_set s t p))"
  proof (cases "dict_get p s")
    case None
    with fresh show ?thesis
      by (auto simp: pipes_connect_def Let_def validate_roles_def t_def)
  next
    case (Some a)
    with old show ?thesis
      by (auto simp: pipes_connect_def Let_def merge_targets_def validate_roles_def t_def)
  qed
  have cons: "consistent (ds @ [(s, q, ts)]) \<longleftrightarrow> \<not> ?bad" (is "?l = ?r")
  proof -
    have "?l \<longleftrightarrow> (q \<noteq> None \<or> ts \<noteq> []) \<and>
        (\<forall>x y. x \<in> declared_primaries ds s \<union> set_option q \<longrightarrow> y \<in> declared_primaries ds s \<union> set_option q \<longrightarrow> x = y) \<and>
        (declared_primaries ds s \<union> set_option q) \<inter> (declared_taps ds s \<union> set ts) = {}"
      using con unfolding consistent_def by (auto simp: declared_snoc split: if_splits)
    also have "\<dots> \<longleftrightarrow> ?r"
      by (cases ?P; cases q) (auto simp: t prim [symmetric] tap [symmetric])
    finally show ?thesis .
  qed
  have rep': "represents (dict_set s t p) (ds @ [(s, q, ts)])" if "\<not> ?bad"
  proof -
    have get: "pipes_get (dict_set s t p) s' = (if s' = s then t else pipes_get p s')" for s'
      by (simp add: pipes_get_def)
    have "(primary t = Some x) = (x \<in> declared_primaries ds s \<union> set_option q)" for x
      using that by (cases ?P; cases q) (auto simp: t prim [symmetric])
    moreover have "set (taps t) = declared_taps ds s \<union> set ts"
      by (simp add: t tap)
    ultimately show ?thesis
      using rep unfolding represents_def get declared_snoc by simp
  qed
  show ?thesis using step cons rep' by (cases ?bad) simp_all
qed

lemma connect_all_represents:
  assumes "represents p ds" "pipes_ok p" "consistent ds"
  shows "if consistent (ds @ es)
         then \<exists>p'. connect_all es p = (Inr (), p') \<and> represents p' (ds @ es) \<and> pipes_ok p'
         else \<exists>e p'. connect_all es p = (Inl e, p')"
  using assms
proof (induction es arbitrary: p ds rule: connect_all.induct)
  case (2 s q ts es)
  note step = connect_represents [OF 2(2-4), of s q ts]
  show ?case
  proof (cases "consistent (ds @ [(s, q, ts)])")
    case True
    with step obtain p1 where c: "pipes_connect s q ts p = (Inr (), p1)"
      and r: "represents p1 (ds @ [(s, q, ts)])" by auto
    from 2(1) [OF r pipes_connect_ok_inv [OF c 2(3)] True] show ?thesis
      using c by (auto simp: seq_act_apply split: if_splits)
  next
    case False
    with step obtain e where "pipes_connect s q ts p = (Inl e, p)" by auto
    moreover from False have "\<not> consistent (ds @ (s, q, ts) # es)"
      using consistent_mono [of "ds @ (s, q, ts) # es" "ds @ [(s, q, ts)]"] by auto
    ultimately show ?thesis by (simp add: seq_act_def bind_act_def)
  qed
qed simp

section \<open>Properties\<close>

text \<open>Declaring connections in any order succeeds exactly when the declarations are consistent
  as a set (each names a target, no source has two primaries, no sink is primary and tap of one
  source), and the graph built then holds exactly the declared primary and taps of every source.\<close>

theorem declarations_order_independent:
  assumes "set ds' = set ds"
  shows "(if consistent ds
          then \<exists>p p'. connect_all ds [] = (Inr (), p) \<and> connect_all ds' [] = (Inr (), p')
                 \<and> represents p ds \<and> represents p' ds
          else (\<exists>e p. connect_all ds [] = (Inl e, p)) \<and> (\<exists>e p. connect_all ds' [] = (Inl e, p)))"
proof -
  have nil: "consistent []" by (simp add: consistent_def declared_primaries_def)
  note run = connect_all_represents [OF represents_Nil pipes_ok_empty nil, simplified]
  have "represents p ds' = represents p ds" for p
    using declared_cong [OF assms] by (simp add: represents_def)
  then show ?thesis
    using run [of ds] run [of ds'] consistent_cong [OF assms] by auto
qed

theorem declarations_order_independent_witness:
  "\<exists>p p'. connect_all [(Source ''a'', Some (Sink ''x''), []), (Source ''a'', None, [Sink ''y''])] [] = (Inr (), p)
     \<and> connect_all [(Source ''a'', None, [Sink ''y'']), (Source ''a'', Some (Sink ''x''), [])] [] = (Inr (), p')"
proof -
  have c: "consistent [(Source ''a'', Some (Sink ''x''), []), (Source ''a'', None, [Sink ''y''])]"
    by (auto simp: consistent_def declared_primaries_def declared_taps_def)
  from declarations_order_independent
    [of "[(Source ''a'', None, [Sink ''y'']), (Source ''a'', Some (Sink ''x''), [])]"
        "[(Source ''a'', Some (Sink ''x''), []), (Source ''a'', None, [Sink ''y''])]"] c
  show ?thesis by auto
qed

text \<open>\<open>Pipes.connect\<close> and \<open>Pipes.merge\<close> keep the role invariant of the graph whether they
  return or raise: at least one target per source, no sink both primary and tap, and no source
  listed twice.\<close>

theorem pipes_role_invariant:
  assumes "pipes_ok p"
  shows "pipes_ok (snd (pipes_connect src prim tps p)) \<and> pipes_ok (snd (pipes_merge other p))"
  using assms pipes_connect_ok_inv [of src prim tps p] pipes_merge_ok_inv [of other p]
  by (metis prod.collapse)

theorem pipes_role_invariant_witness:
  "pipes_ok (snd (pipes_connect (Source ''a'') (Some (Sink ''x'')) [Sink ''x''] []))"
  using pipes_role_invariant [of "[]"] by simp

text \<open>\<open>NodeSinks\<close> rejects every explicit default sink, even one of its own sinks, while
  \<open>NodeSources\<close> accepts a default source exactly when it is one of its sources.\<close>

theorem node_table_defaults:
  "node_sinks_init snks (Some s) = Inl framework_exn
   \<and> ((\<exists>ns. node_sources_init srcs (Some x) = Inr ns) \<longleftrightarrow> x \<in> snd ` set srcs)"
  by (auto simp: node_sinks_init_def node_sources_init_def)

end
