(* ===== verification/Bus.thy ===== *)
theory Bus
  imports StoreProperties Nodes
begin

text \<open>
  Events, the event bus and the actor loop: \<open>core/runtime/events.py\<close>, \<open>event_bus.py\<close> and
  \<open>actor.py\<close>. A queue is a list, an actor is named by its position in the list of actors, and one
  turn of a loop is a function of the world. \<open>bus_step\<close> and \<open>actor_step\<close> return \<open>None\<close> when the
  queue is empty, where the thread blocks; a raise that leaves a loop ends its thread.
\<close>

section \<open>Events and pipes\<close>

datatype send_event = SendEvent (ev_ctx: context_id) source pyval | StopBusEvent

datatype receive_event = ReceiveEvent context_id sink pyval | StopActorEvent

record 'd bus_world = "'d world" +
  bus_in :: "send_event list"
  inbox :: "nat \<Rightarrow> receive_event list"

record event_bus =
  connections :: pipes
  sink_owner :: "(sink, nat) dict"

definition event_bus_init :: "pipes \<Rightarrow> (nat \<times> sink list) list \<Rightarrow> event_bus" where
  "event_bus_init p actors =
     \<lparr>connections = p, sink_owner = fold (\<lambda>(i, snks) d. fold (\<lambda>s. dict_set s i) snks d) actors []\<rparr>"

definition put_bus :: "send_event \<Rightarrow> (exn, unit, ('d, 'x) bus_world_scheme) act" where
  "put_bus ev = modify_act (\<lambda>w. w\<lparr>bus_in := bus_in w @ [ev]\<rparr>)"

definition put_inbox :: "nat \<Rightarrow> receive_event \<Rightarrow> ('d, 'x) bus_world_scheme \<Rightarrow> ('d, 'x) bus_world_scheme" where
  "put_inbox i ev w = w\<lparr>inbox := (inbox w)(i := inbox w i @ [ev])\<rparr>"

section \<open>The event bus\<close>

definition pass_message_to_sink ::
  "event_bus \<Rightarrow> pyval \<Rightarrow> sink \<Rightarrow> context_id \<Rightarrow> (exn, unit, ('d, 'x) bus_world_scheme) act" where
  "pass_message_to_sink bus v s c =
     (case dict_get (sink_owner bus) s of
        None \<Rightarrow> raise key_error
      | Some i \<Rightarrow> modify_act (put_inbox i (ReceiveEvent c s v)))"

definition tap_context :: "context_id \<Rightarrow> sink \<Rightarrow> (exn, sink \<times> context_id, ('d, 'x) bus_world_scheme) act" where
  "tap_context c tap = bind_act (create_context [c]) (\<lambda>child. ret (tap, child))"

definition pass_message_downstream ::
  "event_bus \<Rightarrow> context_id \<Rightarrow> source \<Rightarrow> pyval \<Rightarrow> (exn, unit, ('d, 'x) bus_world_scheme) act" where
  "pass_message_downstream bus c src v =
     (let t = pipes_get (connections bus) src in
      if primary t = None \<and> taps t = [] then ret ()
      else
        bind_act (map_act (tap_context c) (taps t)) (\<lambda>tap_events.
        seq_act (case primary t of None \<Rightarrow> ret () | Some s \<Rightarrow> pass_message_to_sink bus v s c)
        (seq_act (map_act (\<lambda>(tap, child). pass_message_to_sink bus v tap child) tap_events) (ret ()))))"

definition bus_handle ::
  "'d deepdiff \<Rightarrow> event_bus \<Rightarrow> context_id \<Rightarrow> source \<Rightarrow> pyval \<Rightarrow> (exn, unit, ('d, 'x) bus_world_scheme) act" where
  "bus_handle dd bus c src v =
     seq_act (with_context c (append_message dd c (source_id src) v)) (pass_message_downstream bus c src v)"

definition stop_actors :: "event_bus \<Rightarrow> ('d, 'x) bus_world_scheme \<Rightarrow> ('d, 'x) bus_world_scheme" where
  "stop_actors bus w = fold (\<lambda>i. put_inbox i StopActorEvent) (map snd (sink_owner bus)) w"

text \<open>One turn of \<open>_loop\<close>: \<open>Inr True\<close> goes on, \<open>Inr False\<close> is the \<open>break\<close>, \<open>Inl\<close> ends the thread.\<close>

definition bus_step ::
  "'d deepdiff \<Rightarrow> event_bus \<Rightarrow> ('d, 'x) bus_world_scheme \<Rightarrow> ((exn + bool) \<times> ('d, 'x) bus_world_scheme) option" where
  "bus_step dd bus w =
     (case bus_in w of
        [] \<Rightarrow> None
      | StopBusEvent # evs \<Rightarrow> Some (Inr False, stop_actors bus (w\<lparr>bus_in := evs\<rparr>))
      | SendEvent c src v # evs \<Rightarrow>
          Some (seq_act (bus_handle dd bus c src v) (ret True) (w\<lparr>bus_in := evs\<rparr>)))"

section \<open>The actor loop\<close>

text \<open>A handler gets the context id and the payload of the event it was called for.\<close>

type_synonym ('d, 'x) handler =
  "context_id \<Rightarrow> sink \<Rightarrow> pyval \<Rightarrow> (exn, send_event list, ('d, 'x) bus_world_scheme) act"

fun put_all :: "send_event list \<Rightarrow> (exn, unit, ('d, 'x) bus_world_scheme) act" where
  "put_all [] = ret ()"
| "put_all (ev # evs) = seq_act (put_bus ev) (put_all evs)"

definition run_handler ::
  "(sink, ('d, 'x) handler) dict \<Rightarrow> context_id \<Rightarrow> sink \<Rightarrow> pyval \<Rightarrow> (exn, send_event list, ('d, 'x) bus_world_scheme) act" where
  "run_handler handlers c s v =
     (case dict_get handlers s of
        None \<Rightarrow> ret []
      | Some h \<Rightarrow> try_act (with_context c (h c s v)) (\<lambda>_. ret []))"

definition actor_step ::
  "(sink, ('d, 'x) handler) dict \<Rightarrow> (('d, 'x) bus_world_scheme \<Rightarrow> ('d, 'x) bus_world_scheme) \<Rightarrow> nat \<Rightarrow>
     ('d, 'x) bus_world_scheme \<Rightarrow> ((exn + bool) \<times> ('d, 'x) bus_world_scheme) option" where
  "actor_step handlers on_stop i w =
     (case inbox w i of
        [] \<Rightarrow> None
      | StopActorEvent # evs \<Rightarrow> Some (Inr False, on_stop (w\<lparr>inbox := (inbox w)(i := evs)\<rparr>))
      | ReceiveEvent c s v # evs \<Rightarrow>
          Some (bind_act (run_handler handlers c s v) (\<lambda>produced. seq_act (put_all produced) (ret True))
                  (w\<lparr>inbox := (inbox w)(i := evs)\<rparr>)))"

section \<open>Payloads in the log\<close>

definition MAX_EXCEPTION_DEPTH :: nat where "MAX_EXCEPTION_DEPTH = 8"
definition MAX_PAYLOAD_LOG_CHARS :: nat where "MAX_PAYLOAD_LOG_CHARS = 80"

text \<open>Decimal text of a natural number, as \<open>str\<close> writes it.\<close>

fun nat_text :: "nat \<Rightarrow> string" where
  "nat_text n = (if n < 10 then [''0123456789'' ! n] else nat_text (n div 10) @ [''0123456789'' ! (n mod 10)])"

declare nat_text.simps [simp del]

definition truncate_text :: "string \<Rightarrow> nat \<Rightarrow> string" where
  "truncate_text text max_chars =
     (if length text \<le> max_chars then text
      else take max_chars text @ ''... <truncated '' @ nat_text (length text - max_chars) @ '' chars>'')"

text \<open>The walk down the cause chain; \<open>part\<close> renders one exception (its type name and message).\<close>

fun exception_parts :: "(exn \<Rightarrow> string) \<Rightarrow> nat \<Rightarrow> exn option \<Rightarrow> string list" where
  "exception_parts part depth None = []"
| "exception_parts part 0 (Some e) = [''... (cause chain truncated)'']"
| "exception_parts part (Suc depth) (Some e) =
     part e # exception_parts part depth (case exn_cause e of None \<Rightarrow> exn_context e | Some c \<Rightarrow> Some c)"

fun join_text :: "string \<Rightarrow> string list \<Rightarrow> string" where
  "join_text sep [] = []"
| "join_text sep [x] = x"
| "join_text sep (x # y # ys) = x @ sep @ join_text sep (y # ys)"

definition format_exception_payload :: "(exn \<Rightarrow> string) \<Rightarrow> exn \<Rightarrow> string" where
  "format_exception_payload part e = join_text '' <- '' (exception_parts part MAX_EXCEPTION_DEPTH (Some e))"

section \<open>The store's operations leave the queues alone\<close>

definition keeps_rest :: "(exn, 'a, ('d, 'x) world_scheme) act \<Rightarrow> bool" where
  "keeps_rest m \<longleftrightarrow> (\<forall>w. world.more (snd (m w)) = world.more w)"

named_theorems keeps \<comment> \<open>operations that leave the queues alone\<close>

lemma keeps_bind [keeps]: "keeps_rest m \<Longrightarrow> (\<And>x. keeps_rest (f x)) \<Longrightarrow> keeps_rest (bind_act m f)"
  by (auto simp: keeps_rest_def bind_act_def split: prod.splits sum.splits) (metis snd_conv)+

lemma keeps_seq [keeps]: "keeps_rest m \<Longrightarrow> keeps_rest n \<Longrightarrow> keeps_rest (seq_act m n)"
  by (simp add: seq_act_def keeps_bind)

lemma keeps_pure [keeps]: "keeps_rest (ret x)" "keeps_rest (raise e)" "keeps_rest (lift_act r)" "keeps_rest (gets_act g)"
  by (simp_all add: keeps_rest_def act_defs)

lemma keeps_map [keeps]: "(\<And>x. keeps_rest (f x)) \<Longrightarrow> keeps_rest (map_act f xs)"
  by (induction xs) (simp_all only: map_act.simps keeps)

lemma keeps_basic [keeps]:
  "keeps_rest read_now" "keeps_rest fresh_uuid" "keeps_rest (on_persistence m)" "keeps_rest (register_context c)"
  "keeps_rest (lock_context c)" "keeps_rest (the_context c)" "keeps_rest (update_context c f)"
  "keeps_rest (parent_snapshot c)" "keeps_rest (modify_act (\<lambda>w. w\<lparr>contexts := g w\<rparr>))"
  by (auto simp: keeps_rest_def read_now_def fresh_uuid_def on_persistence_def register_context_def lock_context_def
      the_context_def update_context_def parent_snapshot_def modify_act_def split: prod.splits option.splits)

lemma keeps_append_entry [keeps]: "keeps_rest (append_entry c d)"
  unfolding append_entry_def by (intro keeps) (simp add: keeps)

lemma keeps_append_message: "keeps_rest (append_message dd c src v)"
  unfolding append_message_def by (intro keeps)

lemma keeps_create_context: "keeps_rest (create_context ps)"
  unfolding create_context_def Let_def lock_contexts_def persist_new_context_def
  by (simp add: case_prod_beta) (intro keeps; simp add: keeps)

lemma keeps_queues:
  assumes "keeps_rest m" "m w = (r, w')"
  shows "bus_in w' = bus_in (w :: ('d, 'x) bus_world_scheme)" "inbox w' = inbox w"
proof -
  from assms have "world.more w' = world.more w" unfolding keeps_rest_def by (metis snd_conv)
  then show "bus_in w' = bus_in w" "inbox w' = inbox w" by (cases w; cases w'; simp)+
qed

section \<open>Dispatch of one message\<close>

text \<open>What the log holds of a context, without steps and times.\<close>

definition log_data :: "('d, 'x) world_scheme \<Rightarrow> context_id \<Rightarrow> 'd entry_data list" where
  "log_data w c = map le_data (mem_hist (persistence w) c)"

lemma append_message_run:
  assumes dd: "deepdiff_ok dd" and inv: "store_inv dd w" and x: "dict_get (contexts w) c = Some x"
    and live: "\<not> is_completed x" and delta: "dd_delta dd (payload x) v = Inr d"
  shows "\<exists>w'. append_message dd c src v w = (Inr (), w') \<and> store_inv dd w'
      \<and> contexts w' = dict_set c (x\<lparr>payload := v\<rparr>) (contexts w) \<and> uuids w' = uuids w
      \<and> log_data w' = (log_data w)(c := log_data w c @ [MessageSent src d])"
proof -
  have app: "dd_apply dd (payload x) d = v" "dd_same dd v v" using dd delta by (auto simp: deepdiff_ok_def)
  obtain p where p: "append_entry c (MessageSent src d) w = (Inr (), w\<lparr>persistence := p, ticks := Suc (ticks w)\<rparr>)"
    "mem_hist p = (mem_hist (persistence w))(c := mem_hist (persistence w) c
        @ [next_entry c (MessageSent src d) (clock w (ticks w)) (mem_hist (persistence w) c)])"
    using append_entry_live [OF inv inv x x live] by blast
  have "append_message dd c src v w =
      (Inr (), w\<lparr>persistence := p, ticks := Suc (ticks w), contexts := dict_set c (x\<lparr>payload := v\<rparr>) (contexts w)\<rparr>)"
    using x live delta app p
    by (auto simp: append_message_def the_context_def assert_mutable_def assert_recovery_def update_context_def act_defs)
  with append_message_inv [OF dd inv this] p(2) show ?thesis
    by (auto simp: log_data_def next_entry_def fun_eq_iff)
qed

definition tap_child :: "Context \<Rightarrow> nat \<Rightarrow> Context" where
  "tap_child x n = \<lparr>ctx_id = Uuid n, payload = payload x, user_data = user_data x,
                     parent_contexts = [snapshot_of x], is_completed = False\<rparr>"

definition tap_log :: "context_id \<Rightarrow> Context \<Rightarrow> 'd entry_data list" where
  "tap_log c x = [ContextCreated [c], ContextDataInitialized (payload x) (user_data x) [snapshot_of x]]"

lemma tap_context_run:
  assumes inv: "store_inv dd w" and x: "dict_get (contexts w) c = Some x" and live: "\<not> is_completed x"
  shows "\<exists>w'. tap_context c tap w = (Inr (tap, Uuid (uuids w)), w') \<and> store_inv dd w'
      \<and> contexts w' = dict_set (Uuid (uuids w)) (tap_child x (uuids w)) (contexts w) \<and> uuids w' = Suc (uuids w)
      \<and> (\<forall>k. log_data w' k = (if k = Uuid (uuids w) then tap_log c x
            else log_data w k @ (if k = c then [ChildContextCreated (Uuid (uuids w))] else [])))"
proof -
  have "\<forall>k \<in> set [c]. live w k" using x live by (simp add: live_def)
  from create_context_run [OF inv this] x show ?thesis
    by (auto simp: tap_context_def bind_act_def snapshots_of_def initial_data_def snapshot_of_def tap_child_def
        log_data_def tap_log_def next_entry_def)
qed

lemma tap_contexts_run:
  assumes "store_inv dd w" "dict_get (contexts w) c = Some x" "\<not> is_completed x"
  defines "ids \<equiv> \<lambda>k. [uuids w..<uuids w + k]"
  shows "\<exists>w'. map_act (tap_context c) tps w = (Inr (zip tps (map Uuid (ids (length tps)))), w') \<and> store_inv dd w'
      \<and> (\<forall>k. dict_get (contexts w') k =
            (case k of Uuid n \<Rightarrow> if n \<in> set (ids (length tps)) then Some (tap_child x n) else dict_get (contexts w) k
             | StopCtx \<Rightarrow> dict_get (contexts w) k))
      \<and> (\<forall>k. log_data w' k = (if k \<in> Uuid ` set (ids (length tps)) then tap_log c x
            else log_data w k @ (if k = c then map (\<lambda>n. ChildContextCreated (Uuid n)) (ids (length tps)) else [])))"
  using assms(1-3) unfolding ids_def
proof (induction tps arbitrary: w)
  case Nil
  then show ?case by (auto split: context_id.splits)
next
  case (Cons tap tps)
  from tap_context_run [OF Cons.prems, of tap] obtain w1 where
    w1: "tap_context c tap w = (Inr (tap, Uuid (uuids w)), w1)" "store_inv dd w1"
    "contexts w1 = dict_set (Uuid (uuids w)) (tap_child x (uuids w)) (contexts w)" "uuids w1 = Suc (uuids w)"
    "\<forall>k. log_data w1 k = (if k = Uuid (uuids w) then tap_log c x
        else log_data w k @ (if k = c then [ChildContextCreated (Uuid (uuids w))] else []))" by blast
  have "mem_hist (persistence w) c \<noteq> []" using store_inv_known(1) [OF Cons.prems(1,2)] .
  then obtain n where n: "c = Uuid n" "n < uuids w" using Cons.prems(1) unfolding store_inv_def by blast
  then have "dict_get (contexts w1) c = Some x" using w1 Cons.prems(2) by simp
  from Cons.IH [OF w1(2) this Cons.prems(3)] obtain w' where w':
    "map_act (tap_context c) tps w1 = (Inr (zip tps (map Uuid [uuids w1..<uuids w1 + length tps])), w')"
    "store_inv dd w'"
    "\<forall>k. dict_get (contexts w') k =
            (case k of Uuid n \<Rightarrow> if n \<in> set [uuids w1..<uuids w1 + length tps] then Some (tap_child x n)
               else dict_get (contexts w1) k | StopCtx \<Rightarrow> dict_get (contexts w1) k)"
    "\<forall>k. log_data w' k = (if k \<in> Uuid ` set [uuids w1..<uuids w1 + length tps] then tap_log c x
        else log_data w1 k @ (if k = c then map (\<lambda>n. ChildContextCreated (Uuid n)) [uuids w1..<uuids w1 + length tps] else []))"
    by blast
  have ids: "[uuids w..<uuids w + length (tap # tps)] = uuids w # [uuids w1..<uuids w1 + length tps]"
    by (simp add: w1(4) upt_conv_Cons del: upt_Suc)
  have logs: "\<forall>k. log_data w' k = (if k \<in> Uuid ` set [uuids w..<uuids w + length (tap # tps)] then tap_log c x
      else log_data w k @ (if k = c then map (\<lambda>n. ChildContextCreated (Uuid n)) [uuids w..<uuids w + length (tap # tps)] else []))"
    using w'(4) w1(4,5) n unfolding ids by auto
  have "map_act (tap_context c) (tap # tps) w = (Inr (zip (tap # tps) (map Uuid [uuids w..<uuids w + length (tap # tps)])), w')"
    using w'(1) w1(1) unfolding ids by (simp add: bind_act_apply)
  moreover have "\<forall>k. dict_get (contexts w') k =
      (case k of Uuid n \<Rightarrow> if n \<in> set [uuids w..<uuids w + length (tap # tps)] then Some (tap_child x n) else dict_get (contexts w) k
       | StopCtx \<Rightarrow> dict_get (contexts w) k)"
    using w'(3) w1(3) unfolding ids by (auto split: context_id.splits)
  ultimately show ?case using w'(2) logs by blast
qed

definition delivered :: "event_bus \<Rightarrow> pyval \<Rightarrow> (sink \<times> context_id) list \<Rightarrow> nat \<Rightarrow> receive_event list" where
  "delivered bus v dl i =
     map (\<lambda>(s, k). ReceiveEvent k s v) (filter (\<lambda>(s, k). dict_get (sink_owner bus) s = Some i) dl)"

lemma pass_all_run:
  fixes w :: "('d, 'x) bus_world_scheme"
  assumes "\<forall>(s, k) \<in> set dl. dict_has (sink_owner bus) s"
  shows "\<exists>us. map_act (\<lambda>(s, k). pass_message_to_sink bus v s k) dl w =
           (Inr us, w\<lparr>inbox := \<lambda>i. inbox w i @ delivered bus v dl i\<rparr>)"
  using assms
proof (induction dl arbitrary: w)
  case Nil
  then show ?case by (simp add: delivered_def)
next
  case (Cons d dl)
  obtain s k where d: "d = (s, k)" by (cases d)
  with Cons.prems obtain i where i: "dict_get (sink_owner bus) s = Some i" by (auto simp: dict_has_def)
  let ?w = "put_inbox i (ReceiveEvent k s v) w"
  have run: "pass_message_to_sink bus v s k w = (Inr (), ?w)"
    by (simp add: pass_message_to_sink_def i modify_act_def)
  from Cons.IH [of ?w] Cons.prems obtain us where
    "map_act (\<lambda>(s, k). pass_message_to_sink bus v s k) dl ?w =
       (Inr us, ?w\<lparr>inbox := \<lambda>j. inbox ?w j @ delivered bus v dl j\<rparr>)" by auto
  moreover have "inbox ?w j @ delivered bus v dl j = inbox w j @ delivered bus v (d # dl) j" for j
    by (simp add: put_inbox_def delivered_def d i)
  ultimately show ?case by (simp add: d bind_act_def run) (simp add: put_inbox_def)
qed

text \<open>A sink that no actor handles ends the deliveries; those before it are made.\<close>

lemma pass_all_fails:
  fixes w :: "('d, 'x) bus_world_scheme"
  assumes "\<not> (\<forall>(s, k) \<in> set dl. dict_has (sink_owner bus) s)"
  shows "map_act (\<lambda>(s, k). pass_message_to_sink bus v s k) dl w =
     (Inl key_error, w\<lparr>inbox := \<lambda>i. inbox w i @ delivered bus v (takeWhile (\<lambda>(s, k). dict_has (sink_owner bus) s) dl) i\<rparr>)"
  using assms
proof (induction dl arbitrary: w)
  case (Cons d dl)
  obtain s k where d: "d = (s, k)" by (cases d)
  show ?case
  proof (cases "dict_get (sink_owner bus) s")
    case None
    then show ?thesis by (simp add: d pass_message_to_sink_def bind_act_def delivered_def dict_has_def)
  next
    case (Some i)
    let ?w = "put_inbox i (ReceiveEvent k s v) w"
    have run: "pass_message_to_sink bus v s k w = (Inr (), ?w)" by (simp add: pass_message_to_sink_def Some modify_act_def)
    have has: "dict_has (sink_owner bus) s" using Some by (simp add: dict_has_def)
    from Cons.IH [of ?w] Cons.prems has d have
      "map_act (\<lambda>(s, k). pass_message_to_sink bus v s k) dl ?w = (Inl key_error,
         ?w\<lparr>inbox := \<lambda>j. inbox ?w j @ delivered bus v (takeWhile (\<lambda>(s, k). dict_has (sink_owner bus) s) dl) j\<rparr>)" by auto
    moreover have "inbox ?w j @ delivered bus v (takeWhile (\<lambda>(s, k). dict_has (sink_owner bus) s) dl) j =
        inbox w j @ delivered bus v (takeWhile (\<lambda>(s, k). dict_has (sink_owner bus) s) (d # dl)) j" for j
      using has Some by (simp add: put_inbox_def delivered_def d)
    ultimately show ?thesis by (simp add: d bind_act_def run) (simp add: put_inbox_def)
  qed
qed simp

text \<open>What one dispatch does to a consistent store before it puts anything into an inbox.\<close>

lemma bus_handle_deliveries:
  fixes w :: "('d, 'x) bus_world_scheme" and bus :: event_bus and src :: source
  assumes dd: "deepdiff_ok dd" and inv: "store_inv dd w" and x: "dict_get (contexts w) c = Some x"
    and live: "\<not> is_completed x" and delta: "dd_delta dd (payload x) v = Inr d"
  defines "t \<equiv> pipes_get (connections bus) src"
  defines "ids \<equiv> [uuids w..<uuids w + length (taps t)]"
  defines "dl \<equiv> (case primary t of None \<Rightarrow> [] | Some s \<Rightarrow> [(s, c)]) @ zip (taps t) (map Uuid ids)"
  shows "\<exists>w'. bus_handle dd bus c src v w = seq_act (map_act (\<lambda>(s, k). pass_message_to_sink bus v s k) dl) (ret ()) w'
      \<and> bus_in w' = bus_in w \<and> inbox w' = inbox w
      \<and> dict_get (contexts w') c = Some (x\<lparr>payload := v\<rparr>)
      \<and> (\<forall>n. n \<in> set ids \<longrightarrow> dict_get (contexts w') (Uuid n) = Some (tap_child (x\<lparr>payload := v\<rparr>) n))
      \<and> (\<forall>k. k \<noteq> c \<longrightarrow> k \<notin> Uuid ` set ids \<longrightarrow> dict_get (contexts w') k = dict_get (contexts w) k)
      \<and> log_data w' c = log_data w c @ MessageSent (source_id src) d # map (\<lambda>n. ChildContextCreated (Uuid n)) ids
      \<and> (\<forall>n. n \<in> set ids \<longrightarrow> log_data w' (Uuid n) = tap_log c (x\<lparr>payload := v\<rparr>))
      \<and> (\<forall>k. k \<noteq> c \<longrightarrow> k \<notin> Uuid ` set ids \<longrightarrow> log_data w' k = log_data w k)"
proof -
  let ?x = "x\<lparr>payload := v\<rparr>"
  obtain n where n: "c = Uuid n" "n < uuids w"
    using inv store_inv_known(1) [OF inv x] unfolding store_inv_def by blast
  from append_message_run [OF dd inv x live delta, of "source_id src"] obtain w1 where
    w1: "append_message dd c (source_id src) v w = (Inr (), w1)" "store_inv dd w1"
    "contexts w1 = dict_set c ?x (contexts w)" "uuids w1 = uuids w"
    "log_data w1 = (log_data w)(c := log_data w c @ [MessageSent (source_id src) d])" by blast
  have lock: "c \<in> set (locks w)" using store_invD(2) [OF inv] x by (simp add: dict_has_def)
  have "with_context c (append_message dd c (source_id src) v) w = (Inr (), w1)"
    using w1(1) lock x by (simp add: with_context_def lock_context_def act_defs dict_has_def)
  then have start: "bus_handle dd bus c src v w = pass_message_downstream bus c src v w1"
    by (simp add: bus_handle_def seq_act_apply [of _ w])
  have x1: "dict_get (contexts w1) c = Some ?x" "\<not> is_completed ?x" using w1(3) live by simp_all
  from tap_contexts_run [OF w1(2) x1, of "taps t"] obtain w2 where
    w2: "map_act (tap_context c) (taps t) w1 = (Inr (zip (taps t) (map Uuid ids)), w2)"
    "\<forall>k. dict_get (contexts w2) k =
        (case k of Uuid n \<Rightarrow> if n \<in> set ids then Some (tap_child ?x n) else dict_get (contexts w1) k
         | StopCtx \<Rightarrow> dict_get (contexts w1) k)"
    "\<forall>k. log_data w2 k = (if k \<in> Uuid ` set ids then tap_log c ?x
        else log_data w1 k @ (if k = c then map (\<lambda>n. ChildContextCreated (Uuid n)) ids else []))"
    unfolding ids_def w1(4) by blast
  have tap: "keeps_rest (tap_context c tap)" for tap
    unfolding tap_context_def by (intro keeps keeps_create_context)
  have queues: "bus_in w2 = bus_in w" "inbox w2 = inbox w"
    using keeps_queues [OF keeps_append_message w1(1)] keeps_queues [OF keeps_map [OF tap] w2(1)] by simp_all
  have fresh: "n \<notin> set ids" using n by (simp add: ids_def)
  let ?prim = "case primary t of None \<Rightarrow> [] | Some s \<Rightarrow> [(s, c)]" and ?tl = "zip (taps t) (map Uuid ids)"
  have prim: "seq_act (case primary t of None \<Rightarrow> ret () | Some s \<Rightarrow> pass_message_to_sink bus v s c) m =
      seq_act (map_act (\<lambda>(s, k). pass_message_to_sink bus v s k) ?prim) m" for m
    by (cases "primary t") (simp_all add: seq_act_bind, simp add: seq_act_def)
  have "pass_message_downstream bus c src v w1 = seq_act (map_act (\<lambda>(s, k). pass_message_to_sink bus v s k) dl) (ret ()) w2"
  proof (cases "primary t = None \<and> taps t = []")
    case True
    then have "w2 = w1" "dl = []" using w2(1) by (auto simp: dl_def)
    then show ?thesis using True by (simp add: pass_message_downstream_def t_def)
  next
    case False
    then show ?thesis
      by (simp add: pass_message_downstream_def t_def [symmetric] Let_def bind_act_apply [of "map_act (tap_context c) (taps t)" w1, OF w2(1)]
          prim seq_map_act_append dl_def del: de_Morgan_conj)
  qed
  with start have run: "bus_handle dd bus c src v w = seq_act (map_act (\<lambda>(s, k). pass_message_to_sink bus v s k) dl) (ret ()) w2" by simp
  have "log_data w2 c = log_data w c @ MessageSent (source_id src) d # map (\<lambda>n. ChildContextCreated (Uuid n)) ids"
    using w2(3) w1(5) fresh n(1) by auto
  moreover have "\<forall>n. n \<in> set ids \<longrightarrow> log_data w2 (Uuid n) = tap_log c ?x"
    "\<forall>k. k \<noteq> c \<longrightarrow> k \<notin> Uuid ` set ids \<longrightarrow> log_data w2 k = log_data w k"
    using w2(3) w1(5) by auto
  moreover have "dict_get (contexts w2) c = Some ?x"
    "\<forall>n. n \<in> set ids \<longrightarrow> dict_get (contexts w2) (Uuid n) = Some (tap_child ?x n)"
    "\<forall>k. k \<noteq> c \<longrightarrow> k \<notin> Uuid ` set ids \<longrightarrow> dict_get (contexts w2) k = dict_get (contexts w) k"
    using w2(2) w1(3) fresh n(1) by (auto split: context_id.splits)
  ultimately show ?thesis using run queues by (intro exI [of _ w2]) simp
qed

text \<open>And then, when every sink has its actor.\<close>

lemma bus_handle_run:
  fixes w :: "('d, 'x) bus_world_scheme" and bus :: event_bus and src :: source
  assumes "deepdiff_ok dd" "store_inv dd w" "dict_get (contexts w) c = Some x" "\<not> is_completed x" "dd_delta dd (payload x) v = Inr d"
  defines "t \<equiv> pipes_get (connections bus) src"
  assumes owned: "\<forall>s \<in> set_option (primary t) \<union> set (taps t). dict_has (sink_owner bus) s"
  defines "ids \<equiv> [uuids w..<uuids w + length (taps t)]"
  defines "dl \<equiv> (case primary t of None \<Rightarrow> [] | Some s \<Rightarrow> [(s, c)]) @ zip (taps t) (map Uuid ids)"
  shows "\<exists>w'. bus_handle dd bus c src v w = (Inr (), w')
      \<and> bus_in w' = bus_in w \<and> (\<forall>i. inbox w' i = inbox w i @ delivered bus v dl i)
      \<and> dict_get (contexts w') c = Some (x\<lparr>payload := v\<rparr>)
      \<and> (\<forall>n. n \<in> set ids \<longrightarrow> dict_get (contexts w') (Uuid n) = Some (tap_child (x\<lparr>payload := v\<rparr>) n))
      \<and> (\<forall>k. k \<noteq> c \<longrightarrow> k \<notin> Uuid ` set ids \<longrightarrow> dict_get (contexts w') k = dict_get (contexts w) k)
      \<and> log_data w' c = log_data w c @ MessageSent (source_id src) d # map (\<lambda>n. ChildContextCreated (Uuid n)) ids
      \<and> (\<forall>n. n \<in> set ids \<longrightarrow> log_data w' (Uuid n) = tap_log c (x\<lparr>payload := v\<rparr>))
      \<and> (\<forall>k. k \<noteq> c \<longrightarrow> k \<notin> Uuid ` set ids \<longrightarrow> log_data w' k = log_data w k)"
proof -
  have own: "\<forall>(s, k) \<in> set dl. dict_has (sink_owner bus) s"
    using owned by (auto simp: dl_def dest: set_zip_leftD split: option.splits)
  note all = bus_handle_deliveries [OF assms(1-5), of bus src, folded t_def, folded ids_def, folded dl_def]
  then obtain w2 where w2: "bus_handle dd bus c src v w = seq_act (map_act (\<lambda>(s, k). pass_message_to_sink bus v s k) dl) (ret ()) w2"
    "bus_in w2 = bus_in w \<and> inbox w2 = inbox w
      \<and> dict_get (contexts w2) c = Some (x\<lparr>payload := v\<rparr>)
      \<and> (\<forall>n. n \<in> set ids \<longrightarrow> dict_get (contexts w2) (Uuid n) = Some (tap_child (x\<lparr>payload := v\<rparr>) n))
      \<and> (\<forall>k. k \<noteq> c \<longrightarrow> k \<notin> Uuid ` set ids \<longrightarrow> dict_get (contexts w2) k = dict_get (contexts w) k)
      \<and> log_data w2 c = log_data w c @ MessageSent (source_id src) d # map (\<lambda>n. ChildContextCreated (Uuid n)) ids
      \<and> (\<forall>n. n \<in> set ids \<longrightarrow> log_data w2 (Uuid n) = tap_log c (x\<lparr>payload := v\<rparr>))
      \<and> (\<forall>k. k \<noteq> c \<longrightarrow> k \<notin> Uuid ` set ids \<longrightarrow> log_data w2 k = log_data w k)" by (elim exE conjE) blast
  from pass_all_run [OF own, of v w2] obtain us where
    "map_act (\<lambda>(s, k). pass_message_to_sink bus v s k) dl w2 = (Inr us, w2\<lparr>inbox := \<lambda>i. inbox w2 i @ delivered bus v dl i\<rparr>)" by blast
  with w2 show ?thesis
    by (intro exI [of _ "w2\<lparr>inbox := \<lambda>i. inbox w2 i @ delivered bus v dl i\<rparr>"]) (simp add: seq_act_apply log_data_def)
qed

section \<open>Properties\<close>

text \<open>C13: for a message of a live context, one turn of the bus appends an entry with its source to the
  log of that context and delivers it once to every connected sink: the primary receives it in the
  same context, each tap in a child context of its own, created by this turn from the state after the
  message and logged in both contexts. Every inbox only grows, by the deliveries of the sinks its
  actor owns; no other context and no other log changes.\<close>

theorem bus_dispatches_message:
  fixes w :: "('d, 'x) bus_world_scheme" and bus :: event_bus
  assumes "deepdiff_ok dd" and "store_reach dd w" and "bus_in w = SendEvent c src v # evs"
    and "dict_get (contexts w) c = Some x" and "\<not> is_completed x" and "dd_delta dd (payload x) v = Inr d"
  defines "t \<equiv> pipes_get (connections bus) src"
  assumes "\<forall>s \<in> set_option (primary t) \<union> set (taps t). dict_has (sink_owner bus) s"
  defines "ids \<equiv> [uuids w..<uuids w + length (taps t)]"
  defines "dl \<equiv> (case primary t of None \<Rightarrow> [] | Some s \<Rightarrow> [(s, c)]) @ zip (taps t) (map Uuid ids)"
  shows "\<exists>w'. bus_step dd bus w = Some (Inr True, w') \<and> bus_in w' = evs
      \<and> (\<forall>i. inbox w' i = inbox w i @
            map (\<lambda>(s, k). ReceiveEvent k s v) (filter (\<lambda>(s, k). dict_get (sink_owner bus) s = Some i) dl))
      \<and> dict_get (contexts w') c = Some (x\<lparr>payload := v\<rparr>)
      \<and> (\<forall>n. n \<in> set ids \<longrightarrow> dict_get (contexts w) (Uuid n) = None
            \<and> dict_get (contexts w') (Uuid n) = Some (tap_child (x\<lparr>payload := v\<rparr>) n))
      \<and> (\<forall>k. k \<noteq> c \<longrightarrow> k \<notin> Uuid ` set ids \<longrightarrow> dict_get (contexts w') k = dict_get (contexts w) k)
      \<and> log_data w' c = log_data w c @ MessageSent (source_id src) d # map (\<lambda>n. ChildContextCreated (Uuid n)) ids
      \<and> (\<forall>n. n \<in> set ids \<longrightarrow> log_data w (Uuid n) = [] \<and> log_data w' (Uuid n) = tap_log c (x\<lparr>payload := v\<rparr>))
      \<and> (\<forall>k. k \<noteq> c \<longrightarrow> k \<notin> Uuid ` set ids \<longrightarrow> log_data w' k = log_data w k)"
proof -
  note inv = store_reach_inv [OF assms(2,1)]
  let ?w = "w\<lparr>bus_in := evs\<rparr>"
  have "store_reach dd ?w" by (rule store_reach.env [OF assms(2)]) simp_all
  note inv' = store_reach_inv [OF this assms(1)]
  have logs: "log_data ?w k = log_data w k" for k by (simp add: log_data_def)
  have old: "dict_get (contexts w) (Uuid n) = None \<and> log_data w (Uuid n) = []" if "n \<in> set ids" for n
  proof -
    have "mem_hist (persistence w) (Uuid n) = []" using inv that by (force simp: store_inv_def ids_def)
    with inv show ?thesis by (simp add: store_inv_def log_data_def)
  qed
  have step: "bus_step dd bus w = Some (seq_act (bus_handle dd bus c src v) (ret True) ?w)"
    by (simp add: bus_step_def assms(3))
  obtain w' where w': "bus_handle dd bus c src v ?w = (Inr (), w')" "bus_in w' = evs"
    "\<forall>i. inbox w' i = inbox w i @ delivered bus v dl i" "dict_get (contexts w') c = Some (x\<lparr>payload := v\<rparr>)"
    "\<forall>n. n \<in> set ids \<longrightarrow> dict_get (contexts w') (Uuid n) = Some (tap_child (x\<lparr>payload := v\<rparr>) n)"
    "\<forall>k. k \<noteq> c \<longrightarrow> k \<notin> Uuid ` set ids \<longrightarrow> dict_get (contexts w') k = dict_get (contexts w) k"
    "log_data w' c = log_data ?w c @ MessageSent (source_id src) d # map (\<lambda>n. ChildContextCreated (Uuid n)) ids"
    "\<forall>n. n \<in> set ids \<longrightarrow> log_data w' (Uuid n) = tap_log c (x\<lparr>payload := v\<rparr>)"
    "\<forall>k. k \<noteq> c \<longrightarrow> k \<notin> Uuid ` set ids \<longrightarrow> log_data w' k = log_data ?w k"
    using bus_handle_run [OF assms(1) inv', of c x v d bus src] assms(4-6,8)
    unfolding t_def [symmetric] ids_def dl_def by auto
  with step old show ?thesis
    by (intro exI [of _ w']) (simp add: logs seq_act_apply [of "bus_handle dd bus c src v" ?w, OF w'(1)] delivered_def)
qed

definition bus_world_init :: "'d bus_world" where
  "bus_world_init = \<lparr>persistence = mem_persistence_init, contexts = [], locks = [], uuids = 0, clock = int, ticks = 0,
                     bus_in = [], inbox = \<lambda>_. []\<rparr>"

definition demo_bus :: event_bus where
  "demo_bus = event_bus_init [(Source ''a'', mk_targets (Some (Sink ''x'')) [Sink ''y''])] [(0, [Sink ''x'']), (1, [Sink ''y''])]"

definition demo_bus_world :: "pyval bus_world" where
  "demo_bus_world = snd (create_context [] bus_world_init)\<lparr>bus_in := [SendEvent (Uuid 0) (Source ''a'') (PInt 5)]\<rparr>"

lemma demo_bus_reach: "store_reach plain_diff demo_bus_world"
proof -
  have "store_reach plain_diff (bus_world_init :: pyval bus_world)"
    by (rule store_reach.start) (simp_all add: bus_world_init_def)
  then have "store_reach plain_diff (snd (create_context [] (bus_world_init :: pyval bus_world)))"
    by (rule store_reach.create) (rule prod.collapse [symmetric])
  then show ?thesis by (rule store_reach.env) (simp_all add: demo_bus_world_def)
qed

lemma demo_bus_world_eval:
  "dict_get (contexts demo_bus_world) (Uuid 0) =
     Some \<lparr>ctx_id = Uuid 0, payload = PNone, user_data = [], parent_contexts = [], is_completed = False\<rparr>"
  "uuids demo_bus_world = 1" "inbox demo_bus_world = (\<lambda>_. [])"
  "bus_in demo_bus_world = [SendEvent (Uuid 0) (Source ''a'') (PInt 5)]"
  by (simp_all add: demo_bus_world_def bus_world_init_def demo_eval lock_contexts_def)

theorem bus_dispatches_message_witness:
  "\<exists>w'. bus_step plain_diff demo_bus demo_bus_world = Some (Inr True, w') \<and> bus_in w' = []
     \<and> inbox w' 0 = [ReceiveEvent (Uuid 0) (Sink ''x'') (PInt 5)]
     \<and> inbox w' 1 = [ReceiveEvent (Uuid 1) (Sink ''y'') (PInt 5)]
     \<and> log_data w' (Uuid 0) = log_data demo_bus_world (Uuid 0) @ [MessageSent ''a'' (PInt 5), ChildContextCreated (Uuid 1)]"
  using bus_dispatches_message [OF plain_diff_ok demo_bus_reach demo_bus_world_eval(4,1),
      of "PInt 5" demo_bus]
  by (auto simp: demo_bus_world_eval plain_diff_def demo_bus_def event_bus_init_def pipes_get_def mk_targets_def
      dict_has_def)

end
