(* ===== verification/Patterns.thy ===== *)
theory Patterns
  imports Bus
begin

text \<open>
  The actor patterns of \<open>core/runtime/actor_patterns.py\<close> and the small actors built on them
  (\<open>examples/actors/\<close>, \<open>stringify.py\<close>, \<open>uppercase_or_error.py\<close>). A pattern turns the
  actor-specific function into handlers for the actor loop. Python's \<open>None\<close> among the results is
  \<^const>\<open>PNone\<close>, so the pairs of the source are pairs of values. Texts are sequences of
  single-byte characters and change case as ASCII letters do.
\<close>

section \<open>Patterns\<close>

definition safe_invoke :: "(exn, pyval, 's) act \<Rightarrow> (exn, pyval \<times> pyval, 's) act" where
  "safe_invoke fn =
     (\<lambda>s. case fn s of
        (Inr v, s') \<Rightarrow> (Inr (v, PNone), s')
      | (Inl e, s') \<Rightarrow> (Inr (PNone, PExn (if is_nexus e then e else exn_from SafeInvokeWrappedException e)), s'))"

definition fork_handler ::
  "(context_id \<Rightarrow> pyval \<Rightarrow> (exn, pyval \<times> pyval, 's) act) \<Rightarrow> source \<Rightarrow> source \<Rightarrow> context_id \<Rightarrow> pyval \<Rightarrow>
     (exn, send_event list, 's) act" where
  "fork_handler process left right c v =
     bind_act (process c v) (\<lambda>(l, r).
       if r = PNone then
         (if l = PNone then raise framework_exn else ret [SendEvent c left l])
       else if l = PNone then ret [SendEvent c right r]
       else raise framework_exn)"

definition producer_loop :: "producer \<Rightarrow> pyval list \<Rightarrow> (exn, unit list, ('d, 'x) bus_world_scheme) act" where
  "producer_loop spec products =
     map_act (\<lambda>product. bind_act (create_context []) (\<lambda>c. put_bus (SendEvent c (prod_source spec) product))) products"

definition producer_handlers :: "producer \<Rightarrow> (sink, ('d, 'x) handler) dict" where
  "producer_handlers spec = [(prod_sink spec, \<lambda>_ _ _. ret [])]"

definition consumer_handle ::
  "sink \<Rightarrow> (context_id \<Rightarrow> pyval \<Rightarrow> (exn, unit, ('d, 'x) bus_world_scheme) act) \<Rightarrow> ('d, 'x) handler" where
  "consumer_handle spec consume c target v =
     (if target \<noteq> spec then raise framework_exn else seq_act (consume c v) (ret []))"

definition consumer_handlers ::
  "sink \<Rightarrow> (context_id \<Rightarrow> pyval \<Rightarrow> (exn, unit, ('d, 'x) bus_world_scheme) act) \<Rightarrow> (sink, ('d, 'x) handler) dict" where
  "consumer_handlers spec consume = [(spec, consumer_handle spec consume)]"

definition fork_handle ::
  "fork \<Rightarrow> (context_id \<Rightarrow> pyval \<Rightarrow> (exn, pyval \<times> pyval, ('d, 'x) bus_world_scheme) act) \<Rightarrow> ('d, 'x) handler" where
  "fork_handle spec process c target v =
     (if target \<noteq> fork_sink spec then raise framework_exn
      else fork_handler process (fork_left spec) (fork_right spec) c v)"

definition fork_handlers ::
  "fork \<Rightarrow> (context_id \<Rightarrow> pyval \<Rightarrow> (exn, pyval \<times> pyval, ('d, 'x) bus_world_scheme) act) \<Rightarrow> (sink, ('d, 'x) handler) dict" where
  "fork_handlers spec process = [(fork_sink spec, fork_handle spec process)]"

definition transform_process ::
  "(context_id \<Rightarrow> pyval \<Rightarrow> (exn, pyval, 's) act) \<Rightarrow> context_id \<Rightarrow> pyval \<Rightarrow> (exn, pyval \<times> pyval, 's) act" where
  "transform_process f c v = safe_invoke (f c v)"

definition transform_handlers ::
  "transform \<Rightarrow> (context_id \<Rightarrow> pyval \<Rightarrow> (exn, pyval, ('d, 'x) bus_world_scheme) act) \<Rightarrow> (sink, ('d, 'x) handler) dict" where
  "transform_handlers spec f = fork_handlers spec (transform_process f)"

definition double_transform_handle ::
  "transform \<Rightarrow> (context_id \<Rightarrow> pyval \<Rightarrow> (exn, pyval, ('d, 'x) bus_world_scheme) act) \<Rightarrow> ('d, 'x) handler" where
  "double_transform_handle spec f c target v =
     (if target \<noteq> fork_sink spec then raise framework_exn
      else fork_handler (\<lambda>c v. safe_invoke (f c v)) (tr_ok spec) (tr_error spec) c v)"

definition double_transform_handlers ::
  "double_transform \<Rightarrow> (context_id \<Rightarrow> pyval \<Rightarrow> (exn, pyval, ('d, 'x) bus_world_scheme) act) \<Rightarrow>
     (context_id \<Rightarrow> pyval \<Rightarrow> (exn, pyval, ('d, 'x) bus_world_scheme) act) \<Rightarrow> (sink, ('d, 'x) handler) dict" where
  "double_transform_handlers spec f_in f_out =
     dict_set (fork_sink (dt_output spec)) (double_transform_handle (dt_output spec) f_out)
       [(fork_sink (dt_input spec), double_transform_handle (dt_input spec) f_in)]"

section \<open>Small actors\<close>

definition upper_char :: "char \<Rightarrow> char" where
  "upper_char ch = (let n = (of_char ch :: nat) in if 97 \<le> n \<and> n \<le> 122 then char_of (n - 32) else ch)"

definition lower_char :: "char \<Rightarrow> char" where
  "lower_char ch = (let n = (of_char ch :: nat) in if 65 \<le> n \<and> n \<le> 90 then char_of (n + 32) else ch)"

definition str_upper :: "pyval \<Rightarrow> exn + pyval" where
  "str_upper v = (case v of PStr t \<Rightarrow> Inr (PStr (map upper_char t)) | _ \<Rightarrow> Inl attribute_error)"

definition str_lower :: "pyval \<Rightarrow> exn + pyval" where
  "str_lower v = (case v of PStr t \<Rightarrow> Inr (PStr (map lower_char t)) | _ \<Rightarrow> Inl attribute_error)"

definition py_len :: "pyval \<Rightarrow> exn + nat" where
  "py_len v = (case v of PStr t \<Rightarrow> Inr (length t) | PTuple xs \<Rightarrow> Inr (length xs) | PDict d \<Rightarrow> Inr (length d)
     | _ \<Rightarrow> Inl (exn_of (OtherException ''TypeError'')))"

definition case_modifier_handlers :: "double_transform \<Rightarrow> (sink, ('d, 'x) handler) dict" where
  "case_modifier_handlers spec =
     double_transform_handlers spec (\<lambda>_ v. lift_act (str_lower v)) (\<lambda>_ v. lift_act (str_upper v))"

definition uppercase_input_lowercase_output_handlers :: "double_transform \<Rightarrow> (sink, ('d, 'x) handler) dict" where
  "uppercase_input_lowercase_output_handlers spec =
     double_transform_handlers spec (\<lambda>_ v. lift_act (str_upper v)) (\<lambda>_ v. lift_act (str_lower v))"

definition uppercase_if_even :: "pyval \<Rightarrow> exn + pyval \<times> pyval" where
  "uppercase_if_even v =
     (case py_len v of
        Inl e \<Rightarrow> Inl e
      | Inr n \<Rightarrow>
          if n mod 2 = 0 then (case str_upper v of Inl e \<Rightarrow> Inl e | Inr u \<Rightarrow> Inr (u, PNone))
          else Inr (PNone, v))"

definition uppercase_if_even_handlers :: "fork \<Rightarrow> (sink, ('d, 'x) handler) dict" where
  "uppercase_if_even_handlers spec = fork_handlers spec (\<lambda>_ v. lift_act (uppercase_if_even v))"

definition uppercase_or_error :: "pyval \<Rightarrow> exn + pyval" where
  "uppercase_or_error v =
     (case py_len v of
        Inl e \<Rightarrow> Inl e
      | Inr n \<Rightarrow> if n mod 2 = 0 then Inl (exn_of EvenSucks) else str_upper v)"

definition uppercase_or_error_handlers :: "transform \<Rightarrow> (sink, ('d, 'x) handler) dict" where
  "uppercase_or_error_handlers spec = transform_handlers spec (\<lambda>_ v. lift_act (uppercase_or_error v))"

definition stringify_handlers :: "(pyval \<Rightarrow> string) \<Rightarrow> transform \<Rightarrow> (sink, ('d, 'x) handler) dict" where
  "stringify_handlers to_str spec = transform_handlers spec (\<lambda>_ v. ret (PStr (to_str v)))"

text \<open>The printing consumer: a world with the lines printed so far.\<close>

record 'd printing_world = "'d bus_world" +
  printed :: "string list"

definition string_printer_consume ::
  "(pyval \<Rightarrow> string) \<Rightarrow> context_id \<Rightarrow> pyval \<Rightarrow> (exn, unit, ('d, 'x) printing_world_scheme) act" where
  "string_printer_consume to_str c v = modify_act (\<lambda>w. w\<lparr>printed := printed w @ [to_str v]\<rparr>)"

definition string_printer_handlers ::
  "(pyval \<Rightarrow> string) \<Rightarrow> sink \<Rightarrow> (sink, context_id \<Rightarrow> sink \<Rightarrow> pyval \<Rightarrow> (exn, send_event list, ('d, 'x) printing_world_scheme) act) dict" where
  "string_printer_handlers to_str spec = consumer_handlers spec (string_printer_consume to_str)"

section \<open>Linear handlers\<close>

text \<open>A handler is linear when it leaves the queues to the actor loop, never returns a uuid to the
  pool, and emits at most one message, in the context it was called for.\<close>

definition well_behaved :: "(exn, 'a, ('d, 'x) bus_world_scheme) act \<Rightarrow> bool" where
  "well_behaved m \<longleftrightarrow>
     (\<forall>w r w'. m w = (r, w') \<longrightarrow> bus_in w' = bus_in w \<and> inbox w' = inbox w \<and> uuids w \<le> uuids w')"

definition linear_handler :: "('d, 'x) handler \<Rightarrow> bool" where
  "linear_handler h \<longleftrightarrow>
     (\<forall>c s v. well_behaved (h c s v) \<and>
        (\<forall>w evs w'. h c s v w = (Inr evs, w') \<longrightarrow> evs = [] \<or> (\<exists>src p. evs = [SendEvent c src p])))"

lemma well_behaved_bind: "well_behaved m \<Longrightarrow> (\<And>x. well_behaved (f x)) \<Longrightarrow> well_behaved (bind_act m f)"
  unfolding well_behaved_def bind_act_def by (fastforce split: prod.splits sum.splits intro: order_trans)

lemma well_behaved_pure [simp]: "well_behaved (ret x)" "well_behaved (raise e)" "well_behaved (lift_act r)"
  by (simp_all add: well_behaved_def act_defs)

lemma well_behaved_safe_invoke: "well_behaved m \<Longrightarrow> well_behaved (safe_invoke m)"
  by (auto simp: well_behaved_def safe_invoke_def split: prod.splits sum.splits)

lemma fork_handler_linear:
  assumes "well_behaved (process c v)"
  shows "well_behaved (fork_handler process l r c v)"
    and "fork_handler process l r c v w = (Inr evs, w') \<Longrightarrow> \<exists>src p. evs = [SendEvent c src p]"
  using assms unfolding fork_handler_def
  by (auto intro!: well_behaved_bind simp: bind_act_Inr split: if_splits prod.splits)

lemma guarded_fork_linear:
  assumes "\<And>c v. well_behaved (process c v)"
  shows "linear_handler (\<lambda>c target v. if target \<noteq> k then raise framework_exn else fork_handler process l r c v)"
proof -
  note f = fork_handler_linear [OF assms]
  have "well_behaved (if s \<noteq> k then raise framework_exn else fork_handler process l r c v)" for c s v
    by (simp add: f(1))
  moreover have "evs = [] \<or> (\<exists>src p. evs = [SendEvent c src p])"
    if "(if s \<noteq> k then raise framework_exn else fork_handler process l r c v) w = (Inr evs, w')" for c s v w evs w'
    using that f(2) by (cases "s = k") auto
  ultimately show ?thesis unfolding linear_handler_def by blast
qed

lemma fork_handle_linear: "(\<And>c v. well_behaved (process c v)) \<Longrightarrow> linear_handler (fork_handle spec process)"
  unfolding fork_handle_def by (rule guarded_fork_linear)

lemma double_transform_handle_linear:
  "(\<And>c v. well_behaved (f c v)) \<Longrightarrow> linear_handler (double_transform_handle spec f)"
  unfolding double_transform_handle_def by (intro guarded_fork_linear well_behaved_safe_invoke)

lemma consumer_handle_linear: "(\<And>c v. well_behaved (consume c v)) \<Longrightarrow> linear_handler (consumer_handle spec consume)"
  unfolding linear_handler_def consumer_handle_def seq_act_def
  by (auto intro!: well_behaved_bind simp: bind_act_Inr split: if_splits)

definition linear_actor :: "(sink, ('d, 'x) handler) dict \<Rightarrow> bool" where
  "linear_actor hs \<longleftrightarrow> (\<forall>s h. dict_get hs s = Some h \<longrightarrow> linear_handler h)"

text \<open>What a linear actor does with one message: no exception leaves the turn, and the queues are as they were.\<close>

lemma run_handler_frame:
  assumes lin: "linear_actor hs" and h: "run_handler hs c s v w = (r1, w1)"
  shows "bus_in w1 = bus_in w \<and> inbox w1 = inbox w \<and> uuids w \<le> uuids w1
    \<and> (\<exists>out. r1 = Inr out \<and> (out = [] \<or> (\<exists>src p. out = [SendEvent c src p])))"
proof (cases "dict_get hs s")
  case None
  with h show ?thesis by (auto simp: run_handler_def)
next
  case (Some f)
  then have f: "linear_handler f" using lin by (auto simp: linear_actor_def)
  obtain r2 w2 where fr: "f c s v w = (r2, w2)" by fastforce
  with f have g: "bus_in w2 = bus_in w \<and> inbox w2 = inbox w \<and> uuids w \<le> uuids w2"
    "\<And>out. r2 = Inr out \<Longrightarrow> out = [] \<or> (\<exists>src p. out = [SendEvent c src p])"
    unfolding linear_handler_def well_behaved_def by blast+
  show ?thesis
    using h fr g Some
    by (cases r2) (auto simp: run_handler_def try_act_def with_context_def lock_context_def act_defs split: if_splits)
qed

lemma linear_transform: "(\<And>c v. well_behaved (f c v)) \<Longrightarrow> linear_actor (transform_handlers spec f)"
  by (auto simp: linear_actor_def transform_handlers_def fork_handlers_def transform_process_def
      split: if_splits intro!: fork_handle_linear well_behaved_safe_invoke)

lemma linear_fork: "(\<And>c v. well_behaved (p c v)) \<Longrightarrow> linear_actor (fork_handlers spec p)"
  by (auto simp: linear_actor_def fork_handlers_def split: if_splits intro!: fork_handle_linear)

lemma linear_double_transform:
  "(\<And>c v. well_behaved (f c v)) \<Longrightarrow> (\<And>c v. well_behaved (g c v)) \<Longrightarrow>
     linear_actor (double_transform_handlers spec f g)"
  by (auto simp: linear_actor_def double_transform_handlers_def split: if_splits
      intro!: double_transform_handle_linear)

lemma linear_examples:
  "linear_actor (case_modifier_handlers d)" "linear_actor (uppercase_input_lowercase_output_handlers d)"
  "linear_actor (uppercase_if_even_handlers f)" "linear_actor (uppercase_or_error_handlers f)"
  "linear_actor (stringify_handlers to_str f)"
  by (simp_all add: case_modifier_handlers_def uppercase_input_lowercase_output_handlers_def
      uppercase_if_even_handlers_def uppercase_or_error_handlers_def stringify_handlers_def
      linear_transform linear_fork linear_double_transform)

text \<open>A printing consumer is linear as well: it prints the payload and answers with no message.\<close>

lemma string_printer_prints:
  "linear_actor (string_printer_handlers to_str spec)"
  "consumer_handle spec (string_printer_consume to_str) c spec v w = (Inr [], w\<lparr>printed := printed w @ [to_str v]\<rparr>)"
proof -
  have "well_behaved (string_printer_consume to_str c v)" for c v
    by (auto simp: well_behaved_def string_printer_consume_def modify_act_def)
  then show "linear_actor (string_printer_handlers to_str spec)"
    by (auto simp: linear_actor_def string_printer_handlers_def consumer_handlers_def split: if_splits intro!: consumer_handle_linear)
  show "consumer_handle spec (string_printer_consume to_str) c spec v w = (Inr [], w\<lparr>printed := printed w @ [to_str v]\<rparr>)"
    by (simp add: consumer_handle_def string_printer_consume_def seq_act_def bind_act_def modify_act_def)
qed

section \<open>Properties\<close>

lemma put_all_run: "put_all evs w = (Inr (), w\<lparr>bus_in := bus_in w @ evs\<rparr>)"
  by (induction evs arbitrary: w) (simp_all add: put_bus_def modify_act_def seq_act_def bind_act_def)

text \<open>A transform actor answers one message with exactly one message in the same context: the
  result at \<open>ok\<close>, or the exception at \<open>error\<close>, wrapped in \<open>SafeInvokeWrappedException\<close> when it is
  not a \<open>NexusException\<close>. The exception is a transform that returns \<open>None\<close>: the handler raises,
  the actor loop swallows it, and nothing is sent to either source.\<close>

theorem transform_actor_answers_once:
  assumes "inbox w i = ReceiveEvent c (fork_sink spec) v # evs"
    and "c \<in> set (locks w)" and "dict_has (contexts w) c"
  defines "w1 \<equiv> w\<lparr>inbox := (inbox w)(i := evs)\<rparr>"
  shows "actor_step (transform_handlers spec f) on_stop i w =
      Some (Inr True,
        case f c v w1 of
          (Inr u, w2) \<Rightarrow> w2\<lparr>bus_in := bus_in w2 @ (if u = PNone then [] else [SendEvent c (tr_ok spec) u])\<rparr>
        | (Inl e, w2) \<Rightarrow> w2\<lparr>bus_in := bus_in w2 @ [SendEvent c (tr_error spec)
            (PExn (if is_nexus e then e else exn_from SafeInvokeWrappedException e))]\<rparr>)"
proof -
  have body: "run_handler (transform_handlers spec f) c (fork_sink spec) v w1 =
      try_act (fork_handler (transform_process f) (tr_ok spec) (tr_error spec) c v) (\<lambda>_. ret []) w1"
    using assms(2,3)
    by (simp add: run_handler_def transform_handlers_def fork_handlers_def fork_handle_def with_context_def
        lock_context_def act_defs w1_def)
  show ?thesis
  proof (cases "f c v w1")
    case (Pair r w2)
    then show ?thesis
      using assms(1) body
      by (cases r) (simp_all add: actor_step_def w1_def [symmetric] bind_act_def seq_act_def put_all_run
          try_act_def fork_handler_def transform_process_def safe_invoke_def)
  qed
qed

theorem transform_actor_answers_once_witness:
  "actor_step (uppercase_or_error_handlers (mk_fork ''u'')) (\<lambda>w. w) 0
     (demo_bus_world\<lparr>inbox := \<lambda>_. [ReceiveEvent (Uuid 0) (Sink ''u-sink'') (PStr ''ab'')]\<rparr>) =
   Some (Inr True, demo_bus_world\<lparr>inbox := (\<lambda>_. [ReceiveEvent (Uuid 0) (Sink ''u-sink'') (PStr ''ab'')])(0 := []),
     bus_in := bus_in demo_bus_world @ [SendEvent (Uuid 0) (Source ''u-right-source'') (PExn (exn_of EvenSucks))]\<rparr>)"
proof -
  let ?w = "demo_bus_world\<lparr>inbox := \<lambda>_. [ReceiveEvent (Uuid 0) (Sink ''u-sink'') (PStr ''ab'')]\<rparr>"
  have "inbox ?w 0 = ReceiveEvent (Uuid 0) (fork_sink (mk_fork ''u'')) (PStr ''ab'') # []"
    by (simp add: mk_fork_def)
  moreover have "Uuid 0 \<in> set (locks ?w)"
    by (simp add: demo_bus_world_def bus_world_init_def demo_eval lock_contexts_def)
  moreover have "dict_has (contexts ?w) (Uuid 0)" by (simp add: dict_has_def demo_bus_world_eval)
  moreover have "uppercase_or_error (PStr ''ab'') = Inl (exn_of EvenSucks)" "is_nexus (exn_of EvenSucks)"
    by (simp_all add: uppercase_or_error_def py_len_def is_nexus_def is_nexus_class_def)
  ultimately show ?thesis
    using transform_actor_answers_once [of ?w 0 "Uuid 0" "mk_fork ''u''" "PStr ''ab''" "[]"
        "\<lambda>_ v. lift_act (uppercase_or_error v)" "\<lambda>w. w"]
    by (simp add: uppercase_or_error_handlers_def lift_act_def) (simp add: mk_fork_def)
qed

text \<open>The contexts a producer opens.\<close>

lemma producer_step_run:
  fixes w :: "('d, 'x) bus_world_scheme"
  assumes "store_inv dd w"
  shows "\<exists>w'. bind_act (create_context []) (\<lambda>c. put_bus (SendEvent c s p)) w = (Inr (), w') \<and> store_inv dd w'
      \<and> bus_in w' = bus_in w @ [SendEvent (Uuid (uuids w)) s p] \<and> uuids w' = Suc (uuids w)
      \<and> contexts w' = dict_set (Uuid (uuids w)) (blank_context (Uuid (uuids w))) (contexts w)"
proof -
  from create_context_run [OF assms, of "[]"] obtain w1 where
    w1: "create_context [] w = (Inr (Uuid (uuids w)), w1)" "store_inv dd w1" "uuids w1 = Suc (uuids w)"
    "contexts w1 = dict_set (Uuid (uuids w)) (blank_context (Uuid (uuids w))) (contexts w)"
    by (auto simp: snapshots_of_def initial_data_def blank_context_def)
  have "bus_in w1 = bus_in w" using keeps_queues [OF keeps_create_context w1(1)] by simp
  with w1 show ?thesis
    by (simp add: bind_act_def put_bus_def modify_act_def) (simp add: store_inv_def)
qed

text \<open>A producer opens one new, empty context per product, in which nothing was ever logged, and
  sends the products in their order, each in its own context.\<close>

theorem producer_opens_fresh_contexts:
  fixes w :: "('d, 'x) bus_world_scheme" and ps :: "pyval list"
  assumes "deepdiff_ok dd" and "store_reach dd w"
  defines "ids \<equiv> map Uuid [uuids w..<uuids w + length ps]"
  shows "\<exists>us w'. producer_loop spec ps w = (Inr us, w')
      \<and> bus_in w' = bus_in w @ map2 (\<lambda>c p. SendEvent c (prod_source spec) p) ids ps
      \<and> (\<forall>c \<in> set ids. mem_hist (persistence w) c = [] \<and> dict_get (contexts w') c = Some (blank_context c))
      \<and> (\<forall>c. c \<notin> set ids \<longrightarrow> dict_get (contexts w') c = dict_get (contexts w) c)"
proof -
  have run: "\<exists>us w'. producer_loop spec ps w = (Inr us, w')
      \<and> bus_in w' = bus_in w @ map2 (\<lambda>c p. SendEvent c (prod_source spec) p) (map Uuid [uuids w..<uuids w + length ps]) ps
      \<and> (\<forall>c. dict_get (contexts w') c =
            (if c \<in> Uuid ` {uuids w..<uuids w + length ps} then Some (blank_context c) else dict_get (contexts w) c))"
    if "store_inv dd w" for w :: "('d, 'x) bus_world_scheme"
    using that
  proof (induction ps arbitrary: w)
    case Nil
    then show ?case by (simp add: producer_loop_def)
  next
    case (Cons p ps)
    from producer_step_run [OF Cons.prems, of "prod_source spec" p] obtain w1 where
      w1: "bind_act (create_context []) (\<lambda>c. put_bus (SendEvent c (prod_source spec) p)) w = (Inr (), w1)"
      "store_inv dd w1" "bus_in w1 = bus_in w @ [SendEvent (Uuid (uuids w)) (prod_source spec) p]"
      "uuids w1 = Suc (uuids w)"
      "contexts w1 = dict_set (Uuid (uuids w)) (blank_context (Uuid (uuids w))) (contexts w)" by blast
    from Cons.IH [OF w1(2)] obtain us w' where
      w': "producer_loop spec ps w1 = (Inr us, w')"
      "bus_in w' = bus_in w1 @ map2 (\<lambda>c p. SendEvent c (prod_source spec) p) (map Uuid [uuids w1..<uuids w1 + length ps]) ps"
      "\<forall>c. dict_get (contexts w') c =
            (if c \<in> Uuid ` {uuids w1..<uuids w1 + length ps} then Some (blank_context c) else dict_get (contexts w1) c)"
      by blast
    have "producer_loop spec (p # ps) w = (Inr (() # us), w')"
      using w1(1) w'(1) by (simp add: producer_loop_def bind_act_apply)
    moreover have "[uuids w..<uuids w + length (p # ps)] = uuids w # [uuids w1..<uuids w1 + length ps]"
      by (simp add: w1(4) upt_conv_Cons del: upt_Suc)
    ultimately show ?case
      using w'(2,3) w1(3-5) by (intro exI [of _ "() # us"] exI [of _ w']) (auto simp del: upt_Suc)
  qed
  note inv = store_reach_inv [OF assms(2,1)]
  have "mem_hist (persistence w) c = []" if "c \<in> set ids" for c
    using inv that by (force simp: store_inv_def ids_def)
  with run [OF inv] show ?thesis by (auto simp: ids_def)
qed

theorem producer_opens_fresh_contexts_witness:
  "\<exists>us w'. producer_loop (mk_producer ''p'') [PInt 1, PInt 2] demo_bus_world = (Inr us, w')
     \<and> bus_in w' = [SendEvent (Uuid 0) (Source ''a'') (PInt 5), SendEvent (Uuid 1) (Source ''p'') (PInt 1),
                    SendEvent (Uuid 2) (Source ''p'') (PInt 2)]"
  using producer_opens_fresh_contexts [OF plain_diff_ok demo_bus_reach, of "mk_producer ''p''" "[PInt 1, PInt 2]"]
  by (auto simp: demo_bus_world_eval mk_producer_def upt_rec)

end
