(* ===== verification/Chain.thy ===== *)
theory Chain
  imports Values
begin

text \<open>
  Epoch arithmetic: \<open>Epoch\<close> of \<open>utils/types.py\<close> and \<open>get_epoch_containing_block\<close> of
  \<open>utils/chain.py\<close>. Block numbers are Python's unbounded integers. The closed form
  \<open>epoch_start\<close> carries the theorems: the epochs of a subnet tile the block line.
\<close>

definition epoch_contains :: "epoch \<Rightarrow> int \<Rightarrow> bool" where
  "epoch_contains e b \<longleftrightarrow> first_block e \<le> b \<and> b \<le> last_block e"

definition epoch_previous :: "epoch \<Rightarrow> exn + epoch" where
  "epoch_previous e =
     (let epoch_span = last_block e - first_block e + 1
      in if epoch_span \<le> 0 then Inl value_error
         else
           let previous_first_block = first_block e - epoch_span;
               previous_last_block = last_block e - epoch_span
           in if previous_first_block < 0 \<or> previous_last_block < 0 then Inl value_error
              else Inr \<lparr>first_block = previous_first_block, last_block = previous_last_block\<rparr>)"

definition DEFAULT_TEMPO :: int where
  "DEFAULT_TEMPO = 360"

definition get_epoch_containing_block :: "int \<Rightarrow> int \<Rightarrow> int \<Rightarrow> exn + epoch" where
  "get_epoch_containing_block block netuid tempo =
     (if tempo \<le> 0 then Inl value_error
      else
        let interval = tempo + 1;
            next_epoch = block + tempo - (block + netuid + 1) mod interval;
            (prev_epoch, next_epoch) =
              (if next_epoch = block then (next_epoch, next_epoch + interval)
               else (next_epoch - interval, next_epoch))
        in Inr \<lparr>first_block = prev_epoch, last_block = next_epoch - 1\<rparr>)"

section \<open>Closed form\<close>

definition epoch_start :: "int \<Rightarrow> int \<Rightarrow> int \<Rightarrow> int" where
  "epoch_start block netuid tempo = block - (block + netuid + 2) mod (tempo + 1)"

lemma mod_succ_int:
  fixes x m :: int
  assumes "0 < m"
  shows "(x + 1) mod m = (if x mod m = m - 1 then 0 else x mod m + 1)"
proof -
  have "(x + 1) mod m = (x mod m + 1) mod m" by (simp add: mod_add_left_eq)
  moreover have "0 \<le> x mod m" "x mod m < m" using assms by simp_all
  ultimately show ?thesis by auto
qed

lemma get_epoch_closed_form:
  assumes "0 < tempo"
  shows "get_epoch_containing_block block netuid tempo =
           Inr \<lparr>first_block = epoch_start block netuid tempo,
                last_block = epoch_start block netuid tempo + tempo\<rparr>"
proof -
  have "(block + netuid + 1 + 1) mod (tempo + 1) =
          (if (block + netuid + 1) mod (tempo + 1) = tempo then 0
           else (block + netuid + 1) mod (tempo + 1) + 1)"
    using mod_succ_int [of "tempo + 1" "block + netuid + 1"] assms by simp
  then show ?thesis
    using assms
    by (auto simp: get_epoch_containing_block_def epoch_start_def Let_def ac_simps)
qed

lemma get_epoch_total:
  "0 < tempo \<Longrightarrow> \<exists>e. get_epoch_containing_block block netuid tempo = Inr e"
  by (simp add: get_epoch_closed_form)

lemma epoch_start_bounds:
  assumes "0 < tempo"
  shows "epoch_start block netuid tempo \<le> block" "block \<le> epoch_start block netuid tempo + tempo"
proof -
  have "0 \<le> (block + netuid + 2) mod (tempo + 1)" "(block + netuid + 2) mod (tempo + 1) < tempo + 1"
    using assms by (intro pos_mod_sign pos_mod_bound; simp)+
  then show "epoch_start block netuid tempo \<le> block" "block \<le> epoch_start block netuid tempo + tempo"
    by (simp_all add: epoch_start_def)
qed

lemma epoch_start_aligned: "(epoch_start block netuid tempo + netuid + 2) mod (tempo + 1) = 0"
  by (simp add: epoch_start_def mod_diff_right_eq mod_diff_left_eq [symmetric] algebra_simps
      minus_mod_eq_mult_div [symmetric])

lemma epoch_start_shift:
  assumes "0 < tempo" "0 \<le> k" "k \<le> tempo" "(a + netuid + 2) mod (tempo + 1) = 0"
  shows "epoch_start (a + k) netuid tempo = a"
proof -
  have "(a + k + netuid + 2) mod (tempo + 1) = ((a + netuid + 2) mod (tempo + 1) + k) mod (tempo + 1)"
    using mod_add_left_eq [of "a + netuid + 2" "tempo + 1" k] by (simp add: algebra_simps)
  also have "\<dots> = k" using assms by simp
  finally show ?thesis by (simp add: epoch_start_def)
qed

lemma epoch_start_inside:
  assumes "0 < tempo" "epoch_start b netuid tempo \<le> b'" "b' \<le> epoch_start b netuid tempo + tempo"
  shows "epoch_start b' netuid tempo = epoch_start b netuid tempo"
proof -
  have "epoch_start (epoch_start b netuid tempo + (b' - epoch_start b netuid tempo)) netuid tempo =
        epoch_start b netuid tempo"
    using assms by (intro epoch_start_shift epoch_start_aligned) auto
  then show ?thesis by simp
qed

lemma epoch_start_before:
  assumes "0 < tempo"
  shows "epoch_start (epoch_start b netuid tempo - 1) netuid tempo = epoch_start b netuid tempo - (tempo + 1)"
proof -
  let ?a = "epoch_start b netuid tempo - (tempo + 1)"
  have "(?a + netuid + 2) mod (tempo + 1) = (epoch_start b netuid tempo + netuid + 2) mod (tempo + 1)"
    using mod_diff_right_eq [of "epoch_start b netuid tempo + netuid + 2" "tempo + 1" "tempo + 1"]
    by (simp add: algebra_simps)
  then have "(?a + netuid + 2) mod (tempo + 1) = 0" by (simp add: epoch_start_aligned)
  then have "epoch_start (?a + tempo) netuid tempo = ?a"
    using assms by (intro epoch_start_shift) auto
  then show ?thesis by simp
qed

lemma get_epoch_inv:
  assumes "get_epoch_containing_block block netuid tempo = Inr e"
  shows "0 < tempo" "e = \<lparr>first_block = epoch_start block netuid tempo,
                           last_block = epoch_start block netuid tempo + tempo\<rparr>"
proof -
  show "0 < tempo" using assms by (auto simp: get_epoch_containing_block_def split: if_splits)
  with assms show "e = \<lparr>first_block = epoch_start block netuid tempo,
                         last_block = epoch_start block netuid tempo + tempo\<rparr>"
    by (simp add: get_epoch_closed_form)
qed

section \<open>Properties\<close>

text \<open>For a positive tempo the function returns an epoch of exactly \<open>tempo + 1\<close> blocks that
  holds the block, and the epochs tile the block line: any block inside the returned epoch gets
  the same epoch back.\<close>

theorem epochs_tile_blocks:
  assumes "0 < tempo"
  shows "\<exists>e. get_epoch_containing_block block netuid tempo = Inr e
           \<and> epoch_contains e block
           \<and> last_block e - first_block e + 1 = tempo + 1
           \<and> (\<forall>b'. epoch_contains e b' \<longleftrightarrow> get_epoch_containing_block b' netuid tempo = Inr e)"
proof -
  let ?e = "\<lparr>first_block = epoch_start block netuid tempo,
             last_block = epoch_start block netuid tempo + tempo\<rparr>"
  have "epoch_contains ?e b' \<longleftrightarrow> get_epoch_containing_block b' netuid tempo = Inr ?e" for b'
    using epoch_start_inside [OF assms, of block netuid b'] epoch_start_bounds [OF assms, of b' netuid]
    by (auto simp: epoch_contains_def get_epoch_closed_form [OF assms])
  then show ?thesis
    using assms epoch_start_bounds [OF assms, of block netuid]
    by (intro exI [of _ ?e]) (auto simp: get_epoch_closed_form epoch_contains_def)
qed

theorem epochs_tile_blocks_witness:
  "\<exists>e. get_epoch_containing_block 1000 12 360 = Inr e \<and> epoch_contains e 1000
     \<and> last_block e - first_block e + 1 = 361"
  using epochs_tile_blocks [of 360 1000 12] by auto

text \<open>\<open>Epoch.previous\<close> of the epoch of a block is the epoch of the block just before its
  first block, and it fails exactly when that epoch would start below block 0.\<close>

theorem previous_is_preceding_epoch:
  assumes "get_epoch_containing_block block netuid tempo = Inr e"
  shows "(if first_block e < tempo + 1 then epoch_previous e = Inl value_error
          else epoch_previous e = get_epoch_containing_block (first_block e - 1) netuid tempo)"
proof -
  note e = get_epoch_inv [OF assms]
  show ?thesis
    using e(1) epoch_start_before [OF e(1), of block netuid]
    by (auto simp: e(2) epoch_previous_def get_epoch_closed_form Let_def)
qed

theorem previous_is_preceding_epoch_witness:
  "epoch_previous \<lparr>first_block = 708, last_block = 1068\<rparr> = get_epoch_containing_block 707 12 360"
  using previous_is_preceding_epoch [of 1000 12 360 "\<lparr>first_block = 708, last_block = 1068\<rparr>"]
  by (simp add: get_epoch_containing_block_def)

end
