(* ===== verification/Beats.thy ===== *)
theory Beats
  imports Patterns Chain
begin

text \<open>
  The clocks of a subnet: \<open>chain_beat/block_beat.py\<close>, \<open>epoch_beat.py\<close> and \<open>set_weights_beat.py\<close>, and
  the actors they drive, \<open>weight_setter.py\<close> and \<open>metagraph_source.py\<close>. One poll of pylon, its
  weights status and its answer to \<open>put_weights\<close> are arguments. The list of polls given to a
  producer are those made before it is stopped; waiting between polls is not modelled.
\<close>

section \<open>Polling producers\<close>

text \<open>A poll returns a value, fails in a way that is retried, or raises.\<close>

datatype 'a poll = Polled 'a | PollTransient | PollRaised exn

text \<open>A generator's run: what it yields, and the exception that ends it.\<close>

fun produce :: "('l \<Rightarrow> 'p \<Rightarrow> exn + 'l \<times> 'b option) \<Rightarrow> 'l \<Rightarrow> 'p list \<Rightarrow> 'b list \<times> exn option" where
  "produce step l [] = ([], None)"
| "produce step l (p # ps) =
     (case step l p of
        Inl e \<Rightarrow> ([], Some e)
      | Inr (l', out) \<Rightarrow>
          (case produce step l' ps of (bs, e) \<Rightarrow> (case out of None \<Rightarrow> bs | Some b \<Rightarrow> b # bs, e)))"

definition block_poll :: "int \<Rightarrow> int option \<Rightarrow> block_beat poll \<Rightarrow> exn + int option \<times> block_beat option" where
  "block_poll every_nth last_emitted p =
     (case p of
        PollTransient \<Rightarrow> Inr (last_emitted, None)
      | PollRaised e \<Rightarrow> Inl e
      | Polled b \<Rightarrow>
          if Some (block_number b) = last_emitted then Inr (last_emitted, None)
          else if every_nth = 0 then Inl (exn_of (OtherException ''ZeroDivisionError''))
          else if block_number b mod every_nth = 0 then Inr (Some (block_number b), Some b)
          else Inr (last_emitted, None))"

definition block_beats :: "int \<Rightarrow> block_beat poll list \<Rightarrow> block_beat list \<times> exn option" where
  "block_beats every_nth polls = produce (block_poll every_nth) None polls"

definition epoch_poll :: "int \<Rightarrow> int \<Rightarrow> epoch option \<Rightarrow> block_beat poll \<Rightarrow> exn + epoch option \<times> epoch option" where
  "epoch_poll netuid delay_blocks last_emitted p =
     (case p of
        PollTransient \<Rightarrow> Inr (last_emitted, None)
      | PollRaised e \<Rightarrow> Inl e
      | Polled b \<Rightarrow>
          (case get_epoch_containing_block (block_number b - delay_blocks) netuid DEFAULT_TEMPO of
             Inl e \<Rightarrow> Inl e
           | Inr e \<Rightarrow> if Some e = last_emitted then Inr (last_emitted, None) else Inr (Some e, Some e)))"

definition epoch_beats :: "int \<Rightarrow> int \<Rightarrow> block_beat poll list \<Rightarrow> epoch list \<times> exn option" where
  "epoch_beats netuid delay_blocks polls = produce (epoch_poll netuid delay_blocks) None polls"

section \<open>When to set weights\<close>

record weights_beat_spec =
  wb_block_beat :: sink
  wb_source :: source
  wb_netuid :: int
  mechanism_id :: int
  epoch_start_offset :: int
  attempts_cooldown :: int
  wb_tempo :: int

definition weights_beat_init :: "string \<Rightarrow> int \<Rightarrow> int \<Rightarrow> int \<Rightarrow> int \<Rightarrow> int \<Rightarrow> exn + weights_beat_spec" where
  "weights_beat_init i netuid start_offset mechanism cooldown tempo =
     (if mechanism < 0 then Inl (exn_of ActorMisconfiguredException)
      else Inr \<lparr>wb_block_beat = Sink (i @ ''-block-beat-sink''), wb_source = Source (i @ ''-source''), wb_netuid = netuid,
                mechanism_id = mechanism, epoch_start_offset = start_offset, attempts_cooldown = cooldown, wb_tempo = tempo\<rparr>)"

definition weights_beat_sinks :: "weights_beat_spec \<Rightarrow> exn + node_sinks" where
  "weights_beat_sinks s = node_sinks_init [(''block_beat'', wb_block_beat s)] None"

definition weights_beat_sources :: "weights_beat_spec \<Rightarrow> exn + node_sources" where
  "weights_beat_sources s = node_sources_init [(''source'', wb_source s)] None"

record weights_beat_state =
  last_success_epoch :: "epoch option"
  last_beat_at_block :: "int option"

definition weights_beat_state_init :: weights_beat_state where
  "weights_beat_state_init = \<lparr>last_success_epoch = None, last_beat_at_block = None\<rparr>"

text \<open>The answer of \<open>get_weights_status\<close>: whether the weights are submitted.\<close>

definition on_block_beat ::
  "weights_beat_spec \<Rightarrow> bool poll \<Rightarrow> context_id \<Rightarrow> block_beat \<Rightarrow> (exn, send_event list, weights_beat_state) act" where
  "on_block_beat s status c b =
     bind_act (lift_act (get_epoch_containing_block (block_number b) (wb_netuid s) (wb_tempo s))) (\<lambda>e.
     bind_act (gets_act (\<lambda>st. (last_success_epoch st, last_beat_at_block st))) (\<lambda>(success, last_beat).
       if block_number b - first_block e < epoch_start_offset s then ret []
       else if success = Some e then ret []
       else if (case last_beat of None \<Rightarrow> False | Some l \<Rightarrow> block_number b - l < attempts_cooldown s) then ret []
       else
         case status of
           PollTransient \<Rightarrow> ret []
         | PollRaised x \<Rightarrow> raise x
         | Polled submitted \<Rightarrow>
             if submitted then seq_act (modify_act (\<lambda>st. st\<lparr>last_success_epoch := Some e\<rparr>)) (ret [])
             else seq_act (modify_act (\<lambda>st. st\<lparr>last_beat_at_block := Some (block_number b)\<rparr>))
                    (ret [SendEvent c (wb_source s) (PSetWeightsBeat e (block_number b))])))"

section \<open>Setting weights\<close>

text \<open>
  \<open>client\<close> is the outcome of \<open>get_client\<close>, \<open>weigh\<close> the subnet's weighing function on the bundle of an epoch,
  \<open>put\<close> the client's call; \<open>rejects\<close> tells pylon's response and configuration errors from others.
\<close>

definition weight_setter_transform ::
  "exn + unit \<Rightarrow> (epoch \<Rightarrow> exn + (string \<times> 'q) list) \<Rightarrow> ((string \<times> 'q) list \<Rightarrow> exn + unit) \<Rightarrow> (exn \<Rightarrow> bool) \<Rightarrow>
     context_id \<Rightarrow> pyval \<Rightarrow> (exn, pyval, 's) act" where
  "weight_setter_transform client weigh put rejects c v =
     seq_act (lift_act client)
       (case v of
          PSetWeightsBeat e _ \<Rightarrow>
            (case weigh e of
               Inl x \<Rightarrow> raise (exn_from WeightSettingException x)
             | Inr weights \<Rightarrow>
                 (case put weights of
                    Inr _ \<Rightarrow> ret PWeightSettingSuccess
                  | Inl x \<Rightarrow> raise (if rejects x then exn_from WeightSettingException x else x)))
        | _ \<Rightarrow> raise attribute_error)"

section \<open>Metagraph source\<close>

definition metagraph_sinks :: "transform \<Rightarrow> exn + node_sinks" where
  "metagraph_sinks t = node_sinks_init [(''trigger'', fork_sink t)] None"

definition metagraph_sources :: "transform \<Rightarrow> exn + node_sources" where
  "metagraph_sources t = node_sources_init [(''metagraph'', tr_ok t), (''error'', tr_error t)] (Some (tr_ok t))"

definition metagraph_handle :: "context_id \<Rightarrow> pyval \<Rightarrow> (exn, send_event list, 's) act" where
  "metagraph_handle c v = raise (exn_of (OtherException ''NotImplementedError''))"

section \<open>Producers that report changes\<close>

text \<open>What a run of values looks like to an observer that reports only changes from \<open>l\<close>.\<close>

definition changes :: "'a option \<Rightarrow> 'a list \<Rightarrow> 'a list" where
  "changes l xs = (case l of None \<Rightarrow> remdups_adj xs | Some x \<Rightarrow> tl (remdups_adj (x # xs)))"

lemma changes_simps [simp]:
  "changes l [] = []"
  "changes l (x # xs) = (if l = Some x then changes l xs else x # changes (Some x) xs)"
proof -
  show "changes l [] = []" by (simp add: changes_def split: option.split)
  show "changes l (x # xs) = (if l = Some x then changes l xs else x # changes (Some x) xs)"
  proof (cases l)
    case None
    then show ?thesis by (simp add: changes_def)
  next
    case (Some y)
    then show ?thesis by (simp add: changes_def)
  qed
qed

lemma produce_changes:
  assumes "\<forall>l. \<forall>p \<in> set ps. step l p = Inr (case key p of None \<Rightarrow> (l, None) | Some x \<Rightarrow> if l = Some x then (l, None) else (Some x, Some (out p)))"
    and "\<forall>p \<in> set ps. \<forall>x. key p = Some x \<longrightarrow> name (out p) = x"
  shows "map name (fst (produce step l ps)) = changes l (List.map_filter key ps)
      \<and> snd (produce step l ps) = None
      \<and> (\<forall>b \<in> set (fst (produce step l ps)). \<exists>p \<in> set ps. key p \<noteq> None \<and> b = out p)"
  using assms
proof (induction ps arbitrary: l)
  case (Cons p ps)
  let ?next = "\<lambda>l p. case key p of None \<Rightarrow> (l, None) | Some x \<Rightarrow> if l = Some x then (l, None) else (Some x, Some (out p))"
  have IH: "map name (fst (produce step l ps)) = changes l (List.map_filter key ps) \<and> snd (produce step l ps) = None
      \<and> (\<forall>b \<in> set (fst (produce step l ps)). \<exists>p \<in> set ps. key p \<noteq> None \<and> b = out p)" for l
    by (rule Cons.IH) (simp_all add: Cons.prems)
  obtain l' o' where next_state: "?next l p = (l', o')" by (rule prod.exhaust)
  have step: "step l p = Inr (l', o')" using Cons.prems(1) by (simp add: next_state)
  obtain bs e where run: "produce step l' ps = (bs, e)" by (rule prod.exhaust)
  from IH [of l'] have rest: "map name bs = changes l' (List.map_filter key ps)" "e = None"
      "\<forall>b \<in> set bs. \<exists>p \<in> set ps. key p \<noteq> None \<and> b = out p"
    by (simp_all add: run)
  show ?case
  proof (cases "key p")
    case None
    with next_state have "l' = l" "o' = None" by simp_all
    with rest run step show ?thesis by (simp add: map_filter_simps None)
  next
    case (Some x)
    have nm: "name (out p) = x" using Cons.prems(2) Some by simp
    show ?thesis
    proof (cases "l = Some x")
      case True
      with next_state Some have "l' = l" "o' = None" by simp_all
      with True rest run step show ?thesis by (simp add: map_filter_simps Some)
    next
      case False
      with next_state Some have "l' = Some x" "o' = Some (out p)" by simp_all
      with False rest run step nm show ?thesis by (simp add: map_filter_simps Some)
    qed
  qed
qed (simp add: map_filter_simps)

lemma sorted_changes_distinct: "sorted xs \<Longrightarrow> distinct (remdups_adj (xs :: int list))"
proof (induction xs rule: remdups_adj.induct)
  case (3 x y xs)
  show ?case
  proof (cases "x = y")
    case False
    with 3 have "x < z" if "z \<in> set (y # xs)" for z using that by (auto simp: order.strict_iff_order)
    then have "x \<notin> set (remdups_adj (y # xs))" unfolding remdups_adj_set by blast
    with 3 False show ?thesis by simp
  qed (use 3 in simp)
qed simp_all

section \<open>Epochs of an advancing chain\<close>

definition polled_blocks :: "block_beat poll list \<Rightarrow> int list" where
  "polled_blocks ps = List.map_filter (\<lambda>p. case p of Polled b \<Rightarrow> Some (block_number b) | _ \<Rightarrow> None) ps"

definition no_raise :: "'a poll list \<Rightarrow> bool" where
  "no_raise ps \<longleftrightarrow> (\<forall>p \<in> set ps. case p of PollRaised _ \<Rightarrow> False | _ \<Rightarrow> True)"

lemma no_raiseD: "no_raise ps \<Longrightarrow> p \<in> set ps \<Longrightarrow> p \<noteq> PollRaised e"
  by (auto simp: no_raise_def)

lemma epoch_start_mono:
  assumes "0 < tempo" "b \<le> b'"
  shows "epoch_start b netuid tempo \<le> epoch_start b' netuid tempo"
proof (rule ccontr)
  let ?s = "\<lambda>b. epoch_start b netuid tempo"
  assume less: "\<not> ?s b \<le> ?s b'"
  note bounds = epoch_start_bounds [OF assms(1), of b netuid] epoch_start_bounds [OF assms(1), of b' netuid]
  have "?s b \<le> ?s b' + tempo" using bounds assms(2) by linarith
  with less have "?s (?s b) = ?s b'" by (intro epoch_start_inside [OF assms(1)]) simp_all
  moreover have "?s (?s b) = ?s b" using assms(1) by (intro epoch_start_inside [OF assms(1)]) simp_all
  ultimately show False using less by simp
qed

definition epoch_at :: "int \<Rightarrow> int \<Rightarrow> int \<Rightarrow> epoch" where
  "epoch_at netuid tempo b = \<lparr>first_block = epoch_start b netuid tempo, last_block = epoch_start b netuid tempo + tempo\<rparr>"

lemma get_epoch_at: "0 < tempo \<Longrightarrow> get_epoch_containing_block b netuid tempo = Inr (epoch_at netuid tempo b)"
  by (simp add: get_epoch_closed_form epoch_at_def)

lemma map_filter_comp: "List.map_filter (\<lambda>p. map_option f (g p)) ps = map f (List.map_filter g ps)"
  by (induction ps) (auto simp: map_filter_simps split: option.split)

lemma map_filter_guard:
  "List.map_filter (\<lambda>p. case g p of None \<Rightarrow> None | Some x \<Rightarrow> if P x then Some x else None) ps = filter P (List.map_filter g ps)"
  by (induction ps) (auto simp: map_filter_simps split: option.split)

section \<open>Runs of the weights beat\<close>

text \<open>
  Blocks arrive one by one, each with the status pylon would answer. An exception is logged by the
  actor loop and the actor goes on with the state it left.
\<close>

type_synonym block_input = "bool poll \<times> context_id \<times> block_beat"

abbreviation input_block :: "block_input \<Rightarrow> int" where
  "input_block i \<equiv> block_number (snd (snd i))"

fun weights_beats :: "weights_beat_spec \<Rightarrow> weights_beat_state \<Rightarrow> block_input list \<Rightarrow> send_event list \<times> weights_beat_state" where
  "weights_beats s st [] = ([], st)"
| "weights_beats s st ((status, c, b) # inputs) =
     (case on_block_beat s status c b st of
        (r, st') \<Rightarrow> (case weights_beats s st' inputs of
                      (es, st'') \<Rightarrow> ((case r of Inr sent \<Rightarrow> sent | Inl _ \<Rightarrow> []) @ es, st'')))"

definition beat_of :: "send_event \<Rightarrow> (epoch \<times> int) option" where
  "beat_of ev = (case ev of SendEvent _ _ (PSetWeightsBeat e n) \<Rightarrow> Some (e, n) | _ \<Rightarrow> None)"

abbreviation beats_of :: "send_event list \<Rightarrow> (epoch \<times> int) list" where
  "beats_of es \<equiv> List.map_filter beat_of es"

lemma beat_of_beat [simp]: "beat_of (SendEvent c src (PSetWeightsBeat e n)) = Some (e, n)"
  by (simp add: beat_of_def)

text \<open>The one step, with its outcome told apart: silent, submitted, or a beat.\<close>

lemma on_block_beat_cases:
  assumes "on_block_beat s status c b st = (r, st')"
  obtains (silent) "st' = st" "case r of Inl _ \<Rightarrow> True | Inr es \<Rightarrow> es = []"
  | (submitted) e where "get_epoch_containing_block (block_number b) (wb_netuid s) (wb_tempo s) = Inr e"
      "status = Polled True" "r = Inr []" "st' = st\<lparr>last_success_epoch := Some e\<rparr>"
  | (beat) e where "get_epoch_containing_block (block_number b) (wb_netuid s) (wb_tempo s) = Inr e"
      "status = Polled False" "epoch_start_offset s \<le> block_number b - first_block e"
      "last_success_epoch st \<noteq> Some e"
      "\<forall>l. last_beat_at_block st = Some l \<longrightarrow> attempts_cooldown s \<le> block_number b - l"
      "r = Inr [SendEvent c (wb_source s) (PSetWeightsBeat e (block_number b))]"
      "st' = st\<lparr>last_beat_at_block := Some (block_number b)\<rparr>"
proof (cases "get_epoch_containing_block (block_number b) (wb_netuid s) (wb_tempo s)")
  case (Inl x)
  with assms have "r = Inl x" "st' = st" by (simp_all add: on_block_beat_def act_defs)
  then show ?thesis by (intro silent) simp_all
next
  case (Inr e)
  let ?quiet = "block_number b - first_block e < epoch_start_offset s \<or> last_success_epoch st = Some e
      \<or> (case last_beat_at_block st of None \<Rightarrow> False | Some l \<Rightarrow> block_number b - l < attempts_cooldown s)"
  note defs = on_block_beat_def act_defs Inr
  show ?thesis
  proof (cases ?quiet)
    case True
    with assms have "r = Inr []" "st' = st" by (auto simp: defs split: if_splits option.splits)
    then show ?thesis by (intro silent) simp_all
  next
    case loud: False
    show ?thesis
    proof (cases status)
      case (Polled submitted)
      show ?thesis
      proof (cases submitted)
        case True
        with loud Polled assms have "r = Inr []" "st' = st\<lparr>last_success_epoch := Some e\<rparr>"
          by (auto simp: defs split: option.splits)
        with Inr Polled True show ?thesis by (intro submitted) simp_all
      next
        case False
        with loud Polled assms have "r = Inr [SendEvent c (wb_source s) (PSetWeightsBeat e (block_number b))]"
            "st' = st\<lparr>last_beat_at_block := Some (block_number b)\<rparr>"
          by (auto simp: defs split: option.splits)
        with Inr Polled False loud show ?thesis by (intro beat) (auto split: option.splits)
      qed
    next
      case PollTransient
      with loud assms have "r = Inr []" "st' = st" by (auto simp: defs split: option.splits)
      then show ?thesis by (intro silent) simp_all
    next
      case (PollRaised x)
      with loud assms have "r = Inl x" "st' = st" by (auto simp: defs split: option.splits)
      then show ?thesis by (intro silent) simp_all
    qed
  qed
qed

text \<open>Every event of a run is a beat of a block that came in, past the offset of its epoch, for which pylon reported that the
  weights are not submitted.\<close>

lemma beats_are_due:
  "\<forall>ev \<in> set (fst (weights_beats s st inputs)). \<exists>c b e. (Polled False, c, b) \<in> set inputs
      \<and> ev = SendEvent c (wb_source s) (PSetWeightsBeat e (block_number b))
      \<and> get_epoch_containing_block (block_number b) (wb_netuid s) (wb_tempo s) = Inr e
      \<and> epoch_start_offset s \<le> block_number b - first_block e"
proof (induction inputs arbitrary: st)
  case (Cons i inputs)
  obtain status c b where i: "i = (status, c, b)" by (rule prod_cases3)
  obtain r st' where step: "on_block_beat s status c b st = (r, st')" by (rule prod.exhaust)
  obtain es st'' where rest: "weights_beats s st' inputs = (es, st'')" by (rule prod.exhaust)
  let ?ok = "\<lambda>inputs ev. \<exists>c b e. (Polled False, c, b) \<in> set inputs
      \<and> ev = SendEvent c (wb_source s) (PSetWeightsBeat e (block_number b))
      \<and> get_epoch_containing_block (block_number b) (wb_netuid s) (wb_tempo s) = Inr e
      \<and> epoch_start_offset s \<le> block_number b - first_block e"
  from Cons.IH [of st'] have later: "?ok (i # inputs) ev" if "ev \<in> set es" for ev
    using that rest by fastforce
  have now: "?ok (i # inputs) ev" if "ev \<in> set (case r of Inr sent \<Rightarrow> sent | Inl _ \<Rightarrow> [])" for ev
    using step
  proof (cases rule: on_block_beat_cases)
    case silent
    with that show ?thesis by (cases r) simp_all
  next
    case (submitted e)
    with that show ?thesis by simp
  next
    case (beat e)
    with that i show ?thesis by auto
  qed
  have "fst (weights_beats s st (i # inputs)) = (case r of Inr sent \<Rightarrow> sent | Inl _ \<Rightarrow> []) @ es"
    by (simp add: i step rest)
  with later now show ?case by (metis Un_iff set_append)
qed simp

lemma weights_beats_append:
  "weights_beats s st (xs @ ys) =
     (case weights_beats s st xs of (es, st1) \<Rightarrow> (case weights_beats s st1 ys of (fs, st2) \<Rightarrow> (es @ fs, st2)))"
  by (induction s st xs rule: weights_beats.induct) (auto split: prod.split)

lemma success_was_polled:
  assumes "weights_beats s st inputs = (es, st')" "last_success_epoch st' = Some e"
  shows "last_success_epoch st = Some e \<or> (\<exists>c b. (Polled True, c, b) \<in> set inputs
      \<and> get_epoch_containing_block (block_number b) (wb_netuid s) (wb_tempo s) = Inr e)"
  using assms
proof (induction inputs arbitrary: st es)
  case (Cons i inputs)
  obtain status c b where i: "i = (status, c, b)" by (rule prod_cases3)
  obtain r st1 where step: "on_block_beat s status c b st = (r, st1)" by (rule prod.exhaust)
  obtain es1 where rest: "weights_beats s st1 inputs = (es1, st')"
    using Cons.prems(1) by (auto simp: i step split: prod.splits)
  note IH = Cons.IH [OF rest Cons.prems(2)]
  have "last_success_epoch st1 = last_success_epoch st
      \<or> status = Polled True \<and> (\<exists>e'. last_success_epoch st1 = Some e' \<and> get_epoch_containing_block (block_number b) (wb_netuid s) (wb_tempo s) = Inr e')"
    using step by (cases rule: on_block_beat_cases) simp_all
  with IH show ?case unfolding i by (metis list.set_intros option.inject)
qed simp

definition spaced :: "int \<Rightarrow> int option \<Rightarrow> (epoch \<times> int) list \<Rightarrow> bool" where
  "spaced gap l bs \<longleftrightarrow> (\<forall>n. l = Some n \<longrightarrow> (case bs of [] \<Rightarrow> True | (_, m) # _ \<Rightarrow> gap \<le> m - n))
      \<and> successively (\<lambda>(_, n) (_, m). gap \<le> m - n) bs"

lemma spaced_Cons: "spaced gap l ((e, n) # bs) \<longleftrightarrow> (\<forall>k. l = Some k \<longrightarrow> gap \<le> n - k) \<and> spaced gap (Some n) bs"
  by (cases bs) (auto simp: spaced_def)

lemma beats_are_spaced:
  "spaced (attempts_cooldown s) (last_beat_at_block st) (beats_of (fst (weights_beats s st inputs)))"
proof (induction inputs arbitrary: st)
  case (Cons i inputs)
  obtain status c b where i: "i = (status, c, b)" by (rule prod_cases3)
  obtain r st' where step: "on_block_beat s status c b st = (r, st')" by (rule prod.exhaust)
  obtain es st'' where rest: "weights_beats s st' inputs = (es, st'')" by (rule prod.exhaust)
  have IH: "spaced (attempts_cooldown s) (last_beat_at_block st') (beats_of es)" using Cons [of st'] by (simp add: rest)
  have run: "fst (weights_beats s st (i # inputs)) = (case r of Inr sent \<Rightarrow> sent | Inl _ \<Rightarrow> []) @ es"
    by (simp add: i step rest)
  from step show ?case
  proof (cases rule: on_block_beat_cases)
    case silent
    with IH show ?thesis unfolding run by (cases r) simp_all
  next
    case (submitted e)
    with IH show ?thesis unfolding run by simp
  next
    case (beat e)
    with IH have "spaced (attempts_cooldown s) (last_beat_at_block st) ((e, block_number b) # beats_of es)"
      by (simp add: spaced_Cons)
    with beat show ?thesis unfolding run by simp
  qed
qed (simp add: spaced_def map_filter_simps)

text \<open>Once an epoch is known to be submitted, later blocks never beat for it again.\<close>

lemma submitted_epoch_is_silent:
  assumes "0 < wb_tempo s" "last_success_epoch st = Some (epoch_at (wb_netuid s) (wb_tempo s) n)"
    and "sorted (n0 # map input_block inputs)" "epoch_start n (wb_netuid s) (wb_tempo s) \<le> epoch_start n0 (wb_netuid s) (wb_tempo s)"
    and "e = epoch_at (wb_netuid s) (wb_tempo s) m" "epoch_start m (wb_netuid s) (wb_tempo s) \<le> epoch_start n (wb_netuid s) (wb_tempo s)"
  shows "e \<notin> fst ` set (beats_of (fst (weights_beats s st inputs)))"
  using assms
proof (induction inputs arbitrary: st n n0)
  case (Cons i inputs)
  obtain status c b where i: "i = (status, c, b)" by (rule prod_cases3)
  obtain r st' where step: "on_block_beat s status c b st = (r, st')" by (rule prod.exhaust)
  obtain es st'' where rest: "weights_beats s st' inputs = (es, st'')" by (rule prod.exhaust)
  let ?start = "\<lambda>k. epoch_start k (wb_netuid s) (wb_tempo s)"
  have up: "?start n \<le> ?start (block_number b)"
    using Cons.prems epoch_start_mono [of "wb_tempo s" n0 "block_number b" "wb_netuid s"] by (simp add: i)
  have sorted: "sorted (block_number b # map input_block inputs)" using Cons.prems(3) by (simp add: i)
  have still: "e \<notin> fst ` set (beats_of es)" if "last_success_epoch st' = last_success_epoch st"
    using Cons.IH [of st' n "block_number b"] Cons.prems(1,2,5,6) that sorted up by (simp add: rest)
  have run: "fst (weights_beats s st (i # inputs)) = (case r of Inr sent \<Rightarrow> sent | Inl _ \<Rightarrow> []) @ es"
    by (simp add: i step rest)
  from step show ?case
  proof (cases rule: on_block_beat_cases)
    case silent
    with still show ?thesis unfolding run by (cases r) simp_all
  next
    case (submitted e')
    have e': "e' = epoch_at (wb_netuid s) (wb_tempo s) (block_number b)"
      using submitted(1) get_epoch_at [OF Cons.prems(1)] by simp
    have "e \<notin> fst ` set (beats_of (fst (weights_beats s st' inputs)))"
    proof (rule Cons.IH [OF Cons.prems(1) _ sorted order.refl Cons.prems(5)])
      show "last_success_epoch st' = Some (epoch_at (wb_netuid s) (wb_tempo s) (block_number b))" by (simp add: submitted e')
      show "?start m \<le> ?start (block_number b)" using Cons.prems(6) up by linarith
    qed
    with submitted rest show ?thesis unfolding run by simp
  next
    case (beat e')
    have e': "e' = epoch_at (wb_netuid s) (wb_tempo s) (block_number b)"
      using beat(1) get_epoch_at [OF Cons.prems(1)] by simp
    have "e \<noteq> e'"
    proof
      assume same: "e = e'"
      then have "?start m = ?start (block_number b)" by (simp add: e' Cons.prems(5) epoch_at_def)
      with Cons.prems(6) up have "?start n = ?start (block_number b)" by linarith
      then have "last_success_epoch st = Some e'" by (simp add: Cons.prems(2) e' epoch_at_def)
      with beat show False by simp
    qed
    with beat still show ?thesis unfolding run by simp
  qed
qed (simp add: map_filter_simps)

text \<open>The block of the last beat.\<close>

lemma last_beat_sent:
  "weights_beats s st inputs = (es, st') \<Longrightarrow>
     last_beat_at_block st' = (if beats_of es = [] then last_beat_at_block st else Some (snd (last (beats_of es))))"
proof (induction inputs arbitrary: st es)
  case (Cons i inputs)
  obtain status c b where i: "i = (status, c, b)" by (rule prod_cases3)
  obtain r st1 where step: "on_block_beat s status c b st = (r, st1)" by (rule prod.exhaust)
  obtain es1 where rest: "weights_beats s st1 inputs = (es1, st')" "es = (case r of Inr sent \<Rightarrow> sent | Inl _ \<Rightarrow> []) @ es1"
    using Cons.prems(1) by (auto simp: i step split: prod.splits)
  note IH = Cons.IH [OF rest(1)]
  from step show ?case by (cases rule: on_block_beat_cases) (cases r; simp add: IH rest(2))+
qed (simp add: map_filter_simps)

text \<open>A block asks pylon when it is past the offset and every beat before it is a cooldown ago.\<close>

definition beat_is_due :: "weights_beat_spec \<Rightarrow> send_event list \<Rightarrow> epoch \<Rightarrow> int \<Rightarrow> bool" where
  "beat_is_due s sent e n \<longleftrightarrow> epoch_start_offset s \<le> n - first_block e \<and> (\<forall>(e', m) \<in> set (beats_of sent). attempts_cooldown s \<le> n - m)"

lemma due_block_asks:
  assumes "weights_beats s weights_beat_state_init before = (sent, st)" and "beat_is_due s sent e (block_number b)"
    and "get_epoch_containing_block (block_number b) (wb_netuid s) (wb_tempo s) = Inr e" and "last_success_epoch st \<noteq> Some e"
  shows "on_block_beat s (Polled submitted) c b st =
    (if submitted then (Inr [], st\<lparr>last_success_epoch := Some e\<rparr>)
     else (Inr [SendEvent c (wb_source s) (PSetWeightsBeat e (block_number b))], st\<lparr>last_beat_at_block := Some (block_number b)\<rparr>))"
proof -
  have "attempts_cooldown s \<le> block_number b - m" if "last_beat_at_block st = Some m" for m
  proof -
    from that last_beat_sent [OF assms(1)] have "beats_of sent \<noteq> []" "m = snd (last (beats_of sent))"
      by (auto simp: weights_beat_state_init_def split: if_splits)
    with assms(2) last_in_set show ?thesis by (force simp: beat_is_due_def)
  qed
  with assms(2-4) show ?thesis by (auto simp: on_block_beat_def act_defs beat_is_due_def split: option.splits)
qed

section \<open>A run with a cooldown of four blocks\<close>

definition weights_spec_demo :: "int \<Rightarrow> weights_beat_spec" where
  "weights_spec_demo cooldown = \<lparr>wb_block_beat = Sink ''w-block-beat-sink'', wb_source = Source ''w-source'', wb_netuid = 12,
     mechanism_id = 0, epoch_start_offset = 300, attempts_cooldown = cooldown, wb_tempo = 360\<rparr>"

definition weights_input_demo :: "bool poll \<Rightarrow> int \<Rightarrow> block_input" where
  "weights_input_demo status n = (status, Uuid 0, \<lparr>block_number = n, block_timestamp = 0, block_hash = []\<rparr>)"

definition weights_beat_demo :: "int \<Rightarrow> int \<Rightarrow> send_event" where
  "weights_beat_demo first n = SendEvent (Uuid 0) (Source ''w-source'') (PSetWeightsBeat \<lparr>first_block = first, last_block = first + 360\<rparr> n)"

section \<open>Properties\<close>

text \<open>The block clock beats on exactly the changes among the polled block numbers divisible by
  \<open>every_nth\<close>: every beat is a polled block, a block polled repeatedly beats once, and no divisible
  block the chain moved to is left out; failed polls have no effect.\<close>

theorem block_beats_are_changes:
  assumes "every_nth \<noteq> 0" and "no_raise polls"
  shows "\<exists>beats. block_beats every_nth polls = (beats, None)
      \<and> map block_number beats = remdups_adj (filter (\<lambda>n. n mod every_nth = 0) (polled_blocks polls))
      \<and> (\<forall>b \<in> set beats. Polled b \<in> set polls)"
proof -
  let ?num = "\<lambda>p. case p of Polled b \<Rightarrow> Some (block_number b) | _ \<Rightarrow> None"
  let ?key = "\<lambda>p. case ?num p of None \<Rightarrow> None | Some x \<Rightarrow> if x mod every_nth = 0 then Some x else None"
  let ?out = "\<lambda>p. case p of Polled b \<Rightarrow> b | _ \<Rightarrow> undefined"
  have step: "block_poll every_nth l p =
      Inr (case ?key p of None \<Rightarrow> (l, None) | Some x \<Rightarrow> if l = Some x then (l, None) else (Some x, Some (?out p)))"
    if "p \<in> set polls" for l p
    using no_raiseD [OF assms(2) that] assms(1) by (cases p) (auto simp: block_poll_def)
  have named: "block_number (?out p) = x" if "?key p = Some x" for p x
    using that by (cases p) (auto split: if_splits)
  have all_steps: "\<forall>l. \<forall>p \<in> set polls. block_poll every_nth l p =
      Inr (case ?key p of None \<Rightarrow> (l, None) | Some x \<Rightarrow> if l = Some x then (l, None) else (Some x, Some (?out p)))"
    by (intro allI ballI step)
  have all_names: "\<forall>p \<in> set polls. \<forall>x. ?key p = Some x \<longrightarrow> block_number (?out p) = x" by (intro allI ballI impI named)
  note run = produce_changes [where name = block_number and l = None, OF all_steps all_names]
  obtain beats e where beats: "produce (block_poll every_nth) None polls = (beats, e)" by (rule prod.exhaust)
  have "Polled b \<in> set polls" if "b \<in> set beats" for b
  proof -
    have "b \<in> set (fst (produce (block_poll every_nth) None polls))" using that beats by simp
    from run [THEN conjunct2, THEN conjunct2, rule_format, OF this]
    obtain p where p: "p \<in> set polls" "?key p \<noteq> None" "b = ?out p" by (elim bexE conjE)
    from p(2) have "p = Polled (?out p)" by (cases p) simp_all
    with p show ?thesis by simp
  qed
  moreover have "map block_number beats = remdups_adj (filter (\<lambda>n. n mod every_nth = 0) (polled_blocks polls))"
    using run [THEN conjunct1] beats by (simp add: changes_def polled_blocks_def map_filter_guard)
  moreover have "block_beats every_nth polls = (beats, None)"
    using run [THEN conjunct2, THEN conjunct1] beats by (simp add: block_beats_def)
  ultimately show ?thesis by blast
qed

theorem block_beats_are_changes_witness:
  "\<exists>beats. block_beats 2 [Polled \<lparr>block_number = 4, block_timestamp = 0, block_hash = ''a''\<rparr>, PollTransient,
        Polled \<lparr>block_number = 4, block_timestamp = 0, block_hash = ''a''\<rparr>,
        Polled \<lparr>block_number = 5, block_timestamp = 12, block_hash = ''b''\<rparr>,
        Polled \<lparr>block_number = 6, block_timestamp = 24, block_hash = ''c''\<rparr>] = (beats, None)
      \<and> map block_number beats = [4, 6]"
  using block_beats_are_changes [of 2 "[Polled \<lparr>block_number = 4, block_timestamp = 0, block_hash = ''a''\<rparr>, PollTransient,
        Polled \<lparr>block_number = 4, block_timestamp = 0, block_hash = ''a''\<rparr>,
        Polled \<lparr>block_number = 5, block_timestamp = 12, block_hash = ''b''\<rparr>,
        Polled \<lparr>block_number = 6, block_timestamp = 24, block_hash = ''c''\<rparr>]"]
  by (auto simp: no_raise_def polled_blocks_def map_filter_simps)

text \<open>C37: while the chain advances, the epoch clock beats once for every epoch the delayed block number
  reaches, in order, and every epoch it names holds a block that was polled.\<close>

theorem epoch_beats_once_per_epoch:
  assumes "no_raise polls" and "sorted (polled_blocks polls)"
  shows "\<exists>beats. epoch_beats netuid delay polls = (beats, None)
      \<and> sorted (map first_block beats) \<and> distinct beats
      \<and> set beats = {e. \<exists>n \<in> set (polled_blocks polls). get_epoch_containing_block (n - delay) netuid DEFAULT_TEMPO = Inr e}"
proof -
  let ?at = "\<lambda>n. epoch_at netuid DEFAULT_TEMPO (n - delay)"
  let ?num = "\<lambda>p. case p of Polled b \<Rightarrow> Some (block_number b) | _ \<Rightarrow> None"
  let ?key = "\<lambda>p. map_option ?at (?num p)"
  let ?out = "\<lambda>p. ?at (the (?num p))"
  have tempo: "0 < DEFAULT_TEMPO" by (simp add: DEFAULT_TEMPO_def)
  have step: "epoch_poll netuid delay l p =
      Inr (case ?key p of None \<Rightarrow> (l, None) | Some x \<Rightarrow> if l = Some x then (l, None) else (Some x, Some (?out p)))"
    if "p \<in> set polls" for l p
    using no_raiseD [OF assms(1) that] by (cases p) (auto simp: epoch_poll_def get_epoch_at [OF tempo])
  have named: "?out p = x" if "?key p = Some x" for p x using that by (cases p) auto
  have all_steps: "\<forall>l. \<forall>p \<in> set polls. epoch_poll netuid delay l p =
      Inr (case ?key p of None \<Rightarrow> (l, None) | Some x \<Rightarrow> if l = Some x then (l, None) else (Some x, Some (?out p)))"
    by (intro allI ballI step)
  have all_names: "\<forall>p \<in> set polls. \<forall>x. ?key p = Some x \<longrightarrow> ?out p = x" by (intro allI ballI impI named)
  note run = produce_changes [where name = "\<lambda>e. e" and l = None, OF all_steps all_names]
  let ?es = "map ?at (polled_blocks polls)"
  have eq: "epoch_beats netuid delay polls = (remdups_adj ?es, None)"
    using run by (simp add: epoch_beats_def changes_def polled_blocks_def map_filter_comp prod_eq_iff)
  let ?starts = "map (\<lambda>n. epoch_start (n - delay) netuid DEFAULT_TEMPO) (polled_blocks polls)"
  have at: "?es = map (\<lambda>s. \<lparr>first_block = s, last_block = s + DEFAULT_TEMPO\<rparr>) ?starts" by (simp add: epoch_at_def)
  have sorted: "sorted ?starts"
    using assms(2) by (auto simp: sorted_map intro!: epoch_start_mono [OF tempo] elim!: sorted_wrt_mono_rel [rotated])
  have adj: "remdups_adj ?es = map (\<lambda>s. \<lparr>first_block = s, last_block = s + DEFAULT_TEMPO\<rparr>) (remdups_adj ?starts)"
    unfolding at by (rule remdups_adj_map_injective) (simp add: inj_on_def)
  have "distinct (remdups_adj ?es)"
    unfolding adj using sorted_changes_distinct [OF sorted] by (simp add: distinct_map inj_on_def)
  moreover have "sorted (map first_block (remdups_adj ?es))"
    unfolding adj using sorted by (simp add: comp_def sorted_remdups_adj)
  moreover have "set (remdups_adj ?es) = {e. \<exists>n \<in> set (polled_blocks polls).
      get_epoch_containing_block (n - delay) netuid DEFAULT_TEMPO = Inr e}"
    by (auto simp: get_epoch_at [OF tempo])
  ultimately show ?thesis using eq by blast
qed

theorem epoch_beats_once_per_epoch_witness:
  "\<exists>beats. epoch_beats 12 0 [Polled \<lparr>block_number = 700, block_timestamp = 0, block_hash = ''a''\<rparr>,
        Polled \<lparr>block_number = 707, block_timestamp = 12, block_hash = ''b''\<rparr>,
        Polled \<lparr>block_number = 708, block_timestamp = 24, block_hash = ''c''\<rparr>] = (beats, None)
      \<and> distinct beats \<and> set beats = {\<lparr>first_block = 347, last_block = 707\<rparr>, \<lparr>first_block = 708, last_block = 1068\<rparr>}"
  using epoch_beats_once_per_epoch [of "[Polled \<lparr>block_number = 700, block_timestamp = 0, block_hash = ''a''\<rparr>,
        Polled \<lparr>block_number = 707, block_timestamp = 12, block_hash = ''b''\<rparr>,
        Polled \<lparr>block_number = 708, block_timestamp = 24, block_hash = ''c''\<rparr>]" 12 0]
  by (auto simp: no_raise_def polled_blocks_def map_filter_simps get_epoch_containing_block_def DEFAULT_TEMPO_def)

text \<open>C12: on an advancing chain the weights beat fires only at a block past the offset of its epoch for which pylon
  reports that the weights are not submitted, and never twice within the cooldown. A block that is past the
  offset and past the cooldown of every earlier beat settles its epoch when pylon reports the weights
  submitted: no later block beats for that epoch. When pylon reports them not submitted, and has not reported
  them submitted at an earlier block of the epoch, the block beats.\<close>

theorem weights_beats_are_spaced:
  assumes "sorted (map input_block (before @ (status, c, b) # after))"
    and "get_epoch_containing_block (block_number b) (wb_netuid s) (wb_tempo s) = Inr e"
    and "weights_beats s weights_beat_state_init before = (sent, st)" and "weights_beats s st ((status, c, b) # after) = (sent', st')"
  shows "(\<forall>ev \<in> set (sent @ sent'). \<exists>c' b' e'. (Polled False, c', b') \<in> set (before @ (status, c, b) # after)
             \<and> ev = SendEvent c' (wb_source s) (PSetWeightsBeat e' (block_number b'))
             \<and> get_epoch_containing_block (block_number b') (wb_netuid s) (wb_tempo s) = Inr e'
             \<and> epoch_start_offset s \<le> block_number b' - first_block e')
         \<and> successively (\<lambda>(_, n) (_, m). attempts_cooldown s \<le> m - n) (beats_of (sent @ sent'))
         \<and> (status = Polled True \<and> beat_is_due s sent e (block_number b) \<longrightarrow> e \<notin> fst ` set (beats_of sent'))
         \<and> (status = Polled False \<and> beat_is_due s sent e (block_number b)
             \<and> \<not> (\<exists>c' b'. (Polled True, c', b') \<in> set before \<and> get_epoch_containing_block (block_number b') (wb_netuid s) (wb_tempo s) = Inr e)
             \<longrightarrow> (\<exists>later. sent' = SendEvent c (wb_source s) (PSetWeightsBeat e (block_number b)) # later))"
proof (intro conjI)
  let ?inputs = "before @ (status, c, b) # after"
  have run: "weights_beats s weights_beat_state_init ?inputs = (sent @ sent', st')"
    using weights_beats_append [of s weights_beat_state_init before] assms(3,4) by simp
  show "\<forall>ev \<in> set (sent @ sent'). \<exists>c' b' e'. (Polled False, c', b') \<in> set ?inputs
      \<and> ev = SendEvent c' (wb_source s) (PSetWeightsBeat e' (block_number b'))
      \<and> get_epoch_containing_block (block_number b') (wb_netuid s) (wb_tempo s) = Inr e'
      \<and> epoch_start_offset s \<le> block_number b' - first_block e'"
    using beats_are_due [of s weights_beat_state_init ?inputs] by (simp only: run fst_conv)
  show "successively (\<lambda>(_, n) (_, m). attempts_cooldown s \<le> m - n) (beats_of (sent @ sent'))"
    using beats_are_spaced [of s weights_beat_state_init ?inputs] by (simp only: run fst_conv spaced_def)
  note tempo = get_epoch_inv(1) [OF assms(2)]
  have e: "e = epoch_at (wb_netuid s) (wb_tempo s) (block_number b)" using assms(2) get_epoch_at [OF tempo] by simp
  have sorted: "sorted (block_number b # map input_block after)" "sorted (block_number b # map input_block ((status, c, b) # after))"
    using assms(1) by (simp_all add: sorted_append)
  have silent: "e \<notin> fst ` set (beats_of (fst (weights_beats s st1 inputs)))"
    if "last_success_epoch st1 = Some e" "sorted (block_number b # map input_block inputs)" for st1 inputs
    using that by (intro submitted_epoch_is_silent [OF tempo _ _ order.refl e order.refl]) (simp_all add: e)
  show "status = Polled True \<and> beat_is_due s sent e (block_number b) \<longrightarrow> e \<notin> fst ` set (beats_of sent')"
  proof (intro impI, elim conjE)
    assume due: "status = Polled True" "beat_is_due s sent e (block_number b)"
    show "e \<notin> fst ` set (beats_of sent')"
    proof (cases "last_success_epoch st = Some e")
      case True
      from silent [OF this sorted(2)] show ?thesis unfolding assms(4) fst_conv .
    next
      case False
      from due_block_asks [OF assms(3) due(2) assms(2) False, of True c] assms(4) due(1)
      have "sent' = fst (weights_beats s (st\<lparr>last_success_epoch := Some e\<rparr>) after)" by (auto split: prod.splits)
      moreover have "e \<notin> fst ` set (beats_of (fst (weights_beats s (st\<lparr>last_success_epoch := Some e\<rparr>) after)))"
        by (rule silent [OF _ sorted(1)]) simp
      ultimately show ?thesis by (rule ssubst)
    qed
  qed
  show "status = Polled False \<and> beat_is_due s sent e (block_number b)
      \<and> \<not> (\<exists>c' b'. (Polled True, c', b') \<in> set before \<and> get_epoch_containing_block (block_number b') (wb_netuid s) (wb_tempo s) = Inr e)
      \<longrightarrow> (\<exists>later. sent' = SendEvent c (wb_source s) (PSetWeightsBeat e (block_number b)) # later)"
  proof (intro impI, elim conjE)
    assume due: "status = Polled False" "beat_is_due s sent e (block_number b)"
      and unreported: "\<not> (\<exists>c' b'. (Polled True, c', b') \<in> set before \<and> get_epoch_containing_block (block_number b') (wb_netuid s) (wb_tempo s) = Inr e)"
    have "last_success_epoch st \<noteq> Some e"
      using success_was_polled [OF assms(3), of e] unreported by (auto simp: weights_beat_state_init_def)
    from due_block_asks [OF assms(3) due(2) assms(2) this, of False c] assms(4) due(1)
    show "\<exists>later. sent' = SendEvent c (wb_source s) (PSetWeightsBeat e (block_number b)) # later" by (auto split: prod.splits)
  qed
qed

text \<open>A beat at block 1010, the weights submitted at 1014, silence at 1020, and a beat in the next epoch.\<close>

theorem weights_beats_are_spaced_witness:
  "\<exists>sent st sent' st'.
     weights_beats (weights_spec_demo 4) weights_beat_state_init (map (weights_input_demo (Polled False)) [1000, 1010, 1012]) = (sent, st)
     \<and> weights_beats (weights_spec_demo 4) st (weights_input_demo (Polled True) 1014 # map (weights_input_demo (Polled False)) [1020, 1370])
       = (sent', st')
     \<and> sent @ sent' = [weights_beat_demo 708 1010, weights_beat_demo 1069 1370]
     \<and> \<lparr>first_block = 708, last_block = 1068\<rparr> \<notin> fst ` set (beats_of sent')"
proof -
  let ?s = "weights_spec_demo 4" and ?e = "\<lparr>first_block = 708, last_block = 1068\<rparr>"
  let ?b = "\<lparr>block_number = 1014, block_timestamp = 0, block_hash = []\<rparr>"
  let ?before = "map (weights_input_demo (Polled False)) [1000, 1010, 1012]" and ?after = "map (weights_input_demo (Polled False)) [1020, 1370]"
  note eval = weights_input_demo_def weights_beat_demo_def weights_spec_demo_def weights_beat_state_init_def on_block_beat_def act_defs
    get_epoch_containing_block_def
  have before: "weights_beats ?s weights_beat_state_init ?before =
      ([weights_beat_demo 708 1010], \<lparr>last_success_epoch = None, last_beat_at_block = Some 1010\<rparr>)" by (simp add: eval)
  have after: "weights_beats ?s \<lparr>last_success_epoch = None, last_beat_at_block = Some 1010\<rparr> ((Polled True, Uuid 0, ?b) # ?after) =
      ([weights_beat_demo 1069 1370], \<lparr>last_success_epoch = Some ?e, last_beat_at_block = Some 1370\<rparr>)" by (simp add: eval)
  have chain: "sorted (map input_block (?before @ (Polled True, Uuid 0, ?b) # ?after))" by (simp add: weights_input_demo_def)
  have epoch: "get_epoch_containing_block (block_number ?b) (wb_netuid ?s) (wb_tempo ?s) = Inr ?e" by (simp add: eval)
  have "beat_is_due ?s [weights_beat_demo 708 1010] ?e (block_number ?b)"
    by (simp add: beat_is_due_def weights_spec_demo_def weights_beat_demo_def map_filter_simps)
  with weights_beats_are_spaced [OF chain epoch before after]
  have "?e \<notin> fst ` set (beats_of [weights_beat_demo 1069 1370])" by blast
  with before after show ?thesis
    by (intro exI conjI) (assumption, simp only: weights_input_demo_def, simp_all)
qed

end
