(* ===== verification/BusSafety.thy ===== *)
theory BusSafety
  imports Patterns
begin

text \<open>
  Safety of the bus and the actors running together. The threads of the source are one bus, the
  actors, and threads that put messages on the bus from outside: producers, timers, senders. A
  system step is one turn of one of them. Whatever the actors do, the bus never multiplies a
  message: in each context no more messages arrive than were sent, and a tap gets its copy in a
  context of its own.
\<close>

section \<open>Messages on their way\<close>

fun send_ctx :: "send_event \<Rightarrow> context_id list" where
  "send_ctx (SendEvent c s v) = [c]"
| "send_ctx StopBusEvent = []"

fun recv_ctx :: "receive_event \<Rightarrow> context_id list" where
  "recv_ctx (ReceiveEvent c s v) = [c]"
| "recv_ctx StopActorEvent = []"

definition sent_ctxs :: "send_event list \<Rightarrow> context_id list" where
  "sent_ctxs evs = concat (map send_ctx evs)"

definition inbox_ctxs :: "('d, 'x) bus_world_scheme \<Rightarrow> nat \<Rightarrow> context_id list" where
  "inbox_ctxs w i = concat (map recv_ctx (inbox w i))"

lemma sent_ctxs_simps [simp]:
  "sent_ctxs [] = []" "sent_ctxs (ev # evs) = send_ctx ev @ sent_ctxs evs"
  "sent_ctxs (evs @ evs') = sent_ctxs evs @ sent_ctxs evs'"
  by (simp_all add: sent_ctxs_def)

text \<open>The messages of a context on the bus and in the first \<open>n\<close> inboxes.\<close>

definition under_way :: "('d, 'x) bus_world_scheme \<Rightarrow> nat \<Rightarrow> context_id \<Rightarrow> nat" where
  "under_way w n c = count_list (sent_ctxs (bus_in w)) c + (\<Sum>i<n. count_list (inbox_ctxs w i) c)"

lemma under_way_cong: "bus_in w' = bus_in w \<Longrightarrow> inbox w' = inbox w \<Longrightarrow> under_way w' n c = under_way w n c"
  by (simp add: under_way_def inbox_ctxs_def)

section \<open>System steps\<close>

text \<open>A handler returns its messages to the actor loop: the queues are not its business.\<close>

definition handlers_return :: "(nat \<Rightarrow> (sink, ('d, 'x) handler) dict) \<Rightarrow> bool" where
  "handlers_return hs \<longleftrightarrow> (\<forall>i s h c k v. dict_get (hs i) s = Some h \<longrightarrow> well_behaved (h c k v))"

text \<open>The contexts drawn while \<open>w\<close> became \<open>w'\<close>, and the context at the head of an inbox.\<close>

definition drawn :: "('d, 'x) bus_world_scheme \<Rightarrow> ('d, 'x) bus_world_scheme \<Rightarrow> context_id set" where
  "drawn w w' = Uuid ` {uuids w..<uuids w'}"

text \<open>\<open>sys_run dd bus hs w sent taken tapped\<close>: a run that reaches \<open>w\<close>, in which actors and other threads
  have put the messages of the contexts \<open>sent\<close> on the bus, actors have taken those of \<open>taken\<close> out of their
  inboxes, and turns of the bus have opened the contexts \<open>tapped\<close>. \<open>outside\<close> is any move of any other
  thread: it puts any messages on the bus, and may use the context store, but only actors take messages
  out of inboxes.\<close>

inductive sys_run ::
  "'d deepdiff \<Rightarrow> event_bus \<Rightarrow> (nat \<Rightarrow> (sink, ('d, 'x) handler) dict) \<Rightarrow>
     ('d, 'x) bus_world_scheme \<Rightarrow> context_id list \<Rightarrow> context_id list \<Rightarrow> context_id set \<Rightarrow> bool" for dd bus hs where
  idle: "bus_in w = [] \<Longrightarrow> (\<And>i. inbox w i = []) \<Longrightarrow> sys_run dd bus hs w [] [] {}"
| bus_turn: "sys_run dd bus hs w sent taken tapped \<Longrightarrow> bus_step dd bus w = Some (r, w') \<Longrightarrow>
    sys_run dd bus hs w' sent taken (tapped \<union> drawn w w')"
| actor_turn: "sys_run dd bus hs w sent taken tapped \<Longrightarrow> actor_step (hs i) (\<lambda>w. w) i w = Some (r, w') \<Longrightarrow>
    bus_in w' = bus_in w @ evs \<Longrightarrow>
    sys_run dd bus hs w' (sent @ sent_ctxs evs) (taken @ recv_ctx (hd (inbox w i))) tapped"
| outside: "sys_run dd bus hs w sent taken tapped \<Longrightarrow> bus_in w' = bus_in w @ evs \<Longrightarrow> inbox w' = inbox w \<Longrightarrow>
    uuids w \<le> uuids w' \<Longrightarrow> sys_run dd bus hs w' (sent @ sent_ctxs evs) taken tapped"

section \<open>The store's operations draw uuids in order\<close>

definition same_uuids :: "(exn, 'a, ('d, 'x) world_scheme) act \<Rightarrow> bool" where
  "same_uuids m \<longleftrightarrow> (\<forall>w. uuids (snd (m w)) = uuids w)"

named_theorems uuid_frame \<comment> \<open>operations that draw no uuid\<close>

lemma same_uuids_bind [uuid_frame]: "same_uuids m \<Longrightarrow> (\<And>x. same_uuids (f x)) \<Longrightarrow> same_uuids (bind_act m f)"
  by (auto simp: same_uuids_def bind_act_def split: prod.splits sum.splits) (metis snd_conv)+

lemma same_uuids_seq [uuid_frame]: "same_uuids m \<Longrightarrow> same_uuids n \<Longrightarrow> same_uuids (seq_act m n)"
  by (simp add: seq_act_def same_uuids_bind)

lemma same_uuids_basic [uuid_frame]:
  "same_uuids (ret x)" "same_uuids (raise e)" "same_uuids (lift_act r)" "same_uuids (gets_act g)"
  "same_uuids read_now" "same_uuids (on_persistence m)" "same_uuids (register_context c)"
  "same_uuids (lock_context c)" "same_uuids (the_context c)" "same_uuids (update_context c f)"
  "same_uuids (modify_act (\<lambda>w. w\<lparr>contexts := h w\<rparr>))"
  by (auto simp: same_uuids_def act_defs read_now_def on_persistence_def register_context_def lock_context_def
      the_context_def update_context_def split: prod.splits option.splits)

lemma same_uuids_append_entry [uuid_frame]: "same_uuids (append_entry c d)"
  unfolding append_entry_def by (intro uuid_frame) (simp add: uuid_frame)

lemma same_uuids_append_message: "same_uuids (append_message dd c src v)"
  unfolding append_message_def by (intro uuid_frame)

lemma same_uuidsD: "same_uuids m \<Longrightarrow> m w = (r, w') \<Longrightarrow> uuids w' = uuids w"
  unfolding same_uuids_def by (metis snd_conv)

text \<open>The part of \<open>create_context\<close> after the persistence layer has made the child.\<close>

definition finish_child ::
  "snapshot list \<Rightarrow> pyval \<Rightarrow> (string, pyval) dict \<Rightarrow> context_id \<Rightarrow> (exn, context_id, ('d, 'x) world_scheme) act" where
  "finish_child snaps pay ud new =
     seq_act (modify_act (\<lambda>w. w\<lparr>contexts := dict_set new
        \<lparr>ctx_id = new, payload = pay, user_data = ud, parent_contexts = snaps, is_completed = False\<rparr> (contexts w)\<rparr>))
     (seq_act (register_context new)
     (seq_act (if snaps \<noteq> [] then append_entry new (ContextDataInitialized pay ud snaps) else ret ())
     (seq_act (lock_context new) (ret new))))"

lemma same_uuids_finish_child: "same_uuids (finish_child snaps pay ud new)"
  unfolding finish_child_def by (intro uuid_frame) (simp add: uuid_frame)

lemma finish_child_returns: "finish_child snaps pay ud new w = (Inr c, w') \<Longrightarrow> c = new"
  by (auto simp: finish_child_def seq_act_def bind_act_Inr)

lemma create_context_split:
  assumes "\<forall>c \<in> set ps. live w c" "set ps \<subseteq> set (locks w)"
  shows "\<exists>snaps pay ud. create_context ps w = bind_act (persist_new_context (dedup ps)) (finish_child snaps pay ud) w"
proof -
  let ?snaps = "snapshots_of w (dedup ps)"
  have "lock_contexts (dedup ps) w = (Inr (map (\<lambda>_. ()) (sort (dedup (dedup ps)))), w)"
    using assms(2) by (simp add: lock_contexts_run)
  moreover have "map_act parent_snapshot (dedup ps) w = (Inr ?snaps, w)"
    using assms(1) by (intro parent_snapshots_run) simp
  ultimately have "create_context ps w =
      bind_act (persist_new_context (dedup ps)) (finish_child ?snaps (fst (initial_data ?snaps)) (snd (initial_data ?snaps))) w"
    by (simp add: create_context_def Let_def seq_act_apply bind_act_apply case_prod_beta finish_child_def [abs_def])
  then show ?thesis by blast
qed

lemma persist_new_context_uuid:
  "persist_new_context ps w = (r, w') \<Longrightarrow> uuids w' = Suc (uuids w) \<and> (\<forall>k. r = Inr k \<longrightarrow> k = Uuid (uuids w))"
  by (auto simp: persist_new_context_def bind_act_def fresh_uuid_def read_now_def on_persistence_def
      mem_create_context_def Let_def split: prod.splits if_splits)

lemma create_context_uuid:
  assumes run: "create_context ps w = (r, w')"
  shows "uuids w \<le> uuids w' \<and> (\<forall>c. r = Inr c \<longrightarrow> c = Uuid (uuids w) \<and> uuids w' = Suc (uuids w))"
proof (cases "(\<forall>c \<in> set ps. live w c) \<and> set ps \<subseteq> set (locks w)")
  case False
  have "\<exists>e. create_context ps w = (Inl e, w)" if "\<not> set ps \<subseteq> set (locks w)"
    using that by (simp add: create_context_def Let_def lock_contexts_run seq_act_def bind_act_def)
  with False create_context_rejects [of ps w] run show ?thesis by auto
next
  case True
  then obtain snaps pay ud where
    split: "create_context ps w = bind_act (persist_new_context (dedup ps)) (finish_child snaps pay ud) w"
    using create_context_split by blast
  obtain r1 w1 where p: "persist_new_context (dedup ps) w = (r1, w1)" by fastforce
  note p1 = persist_new_context_uuid [OF p]
  show ?thesis
  proof (cases r1)
    case (Inl e)
    with split p p1 run show ?thesis by (simp add: bind_act_def)
  next
    case (Inr k)
    with split p run have f: "finish_child snaps pay ud k w1 = (r, w')" by (simp add: bind_act_def)
    from same_uuidsD [OF same_uuids_finish_child f] finish_child_returns p1 Inr f show ?thesis by auto
  qed
qed

section \<open>A turn of the bus\<close>

lemma tap_contexts_uuid:
  fixes w :: "('d, 'x) bus_world_scheme"
  shows "map_act (tap_context c) tps w = (r, w') \<Longrightarrow>
     bus_in w' = bus_in w \<and> inbox w' = inbox w \<and> uuids w \<le> uuids w' \<and>
     (\<forall>tes. r = Inr tes \<longrightarrow> map snd tes = map Uuid [uuids w..<uuids w'])"
proof (induction tps arbitrary: w r w')
  case (Cons tap tps)
  obtain r1 w1 where c: "create_context [c] w = (r1, w1)" by fastforce
  note q = keeps_queues [OF keeps_create_context c] and u = create_context_uuid [OF c]
  show ?case
  proof (cases r1)
    case (Inl e)
    with Cons.prems c q u show ?thesis by (auto simp: tap_context_def bind_act_def)
  next
    case (Inr k)
    obtain r2 w2 where m: "map_act (tap_context c) tps w1 = (r2, w2)" by fastforce
    have "tap_context c tap w = (Inr (tap, k), w1)" using c Inr by (simp add: tap_context_def bind_act_def)
    with Cons.prems m have r: "w' = w2" "r = (case r2 of Inl e \<Rightarrow> Inl e | Inr tes \<Rightarrow> Inr ((tap, k) # tes))"
      by (auto simp: bind_act_def split: sum.splits)
    from u Inr have k: "k = Uuid (uuids w)" "uuids w1 = Suc (uuids w)" by auto
    with Cons.IH [OF m] r q show ?thesis
      by (auto simp: upt_conv_Cons Suc_le_eq split: sum.splits)
  qed
qed simp

lemma pass_some:
  fixes w :: "('d, 'x) bus_world_scheme"
  shows "map_act (\<lambda>(s, k). pass_message_to_sink bus v s k) dl w = (r, w') \<Longrightarrow>
     \<exists>n. w' = w\<lparr>inbox := \<lambda>i. inbox w i @ delivered bus v (take n dl) i\<rparr>"
proof (induction dl arbitrary: w r w')
  case Nil
  then show ?case by (simp add: delivered_def)
next
  case (Cons d dl)
  obtain s k where d: "d = (s, k)" by (cases d)
  show ?case
  proof (cases "dict_get (sink_owner bus) s")
    case None
    with Cons.prems d have "w' = w" by (simp add: pass_message_to_sink_def bind_act_def)
    then show ?thesis by (intro exI [of _ 0]) (simp add: delivered_def)
  next
    case (Some i)
    let ?w = "put_inbox i (ReceiveEvent k s v) w"
    obtain r2 where "map_act (\<lambda>(s, k). pass_message_to_sink bus v s k) dl ?w = (r2, w')"
      using Cons.prems d Some
      by (auto simp: pass_message_to_sink_def modify_act_def bind_act_def split: prod.splits sum.splits)
    from Cons.IH [OF this] obtain n where
      n: "w' = ?w\<lparr>inbox := \<lambda>j. inbox ?w j @ delivered bus v (take n dl) j\<rparr>" by blast
    have "inbox ?w j @ delivered bus v (take n dl) j = inbox w j @ delivered bus v (take (Suc n) (d # dl)) j" for j
      by (simp add: put_inbox_def delivered_def d Some)
    then show ?thesis unfolding n by (intro exI [of _ "Suc n"]) (simp add: put_inbox_def)
  qed
qed

lemma inbox_ctxs_delivered:
  "concat (map recv_ctx (delivered bus v dl i)) =
     map snd (filter (\<lambda>(s, k). dict_get (sink_owner bus) s = Some i) dl)"
  by (induction dl) (auto simp: delivered_def)

text \<open>Each delivery goes to one inbox.\<close>

lemma deliveries_counted:
  fixes n :: nat
  shows "(\<Sum>i<n. count_list (map snd (filter (\<lambda>(s, k). dict_get owner s = Some i) dl)) c) \<le> count_list (map snd dl) c"
proof (induction dl)
  case (Cons d dl)
  obtain s k where d: "d = (s, k)" by (cases d)
  have one: "(\<Sum>i<n. if dict_get owner s = Some i \<and> k = c then 1 else 0) \<le> (if k = c then 1 else 0::nat)"
  proof (cases "dict_get owner s = None \<or> k \<noteq> c")
    case False
    then obtain a where "dict_get owner s = Some a" "k = c" by auto
    moreover have "(\<Sum>i<n. if a = i then 1 else 0) \<le> (1::nat)" using sum.delta' [of "{..<n}" a "\<lambda>_. 1::nat"] by simp
    ultimately show ?thesis by simp
  qed auto
  have "count_list (map snd (filter (\<lambda>(s, k). dict_get owner s = Some i) (d # dl))) c =
      (if dict_get owner s = Some i \<and> k = c then 1 else 0)
        + count_list (map snd (filter (\<lambda>(s, k). dict_get owner s = Some i) dl)) c" for i
    by (simp add: d)
  then have "(\<Sum>i<n. count_list (map snd (filter (\<lambda>(s, k). dict_get owner s = Some i) (d # dl))) c) =
      (\<Sum>i<n. if dict_get owner s = Some i \<and> k = c then 1 else 0)
        + (\<Sum>i<n. count_list (map snd (filter (\<lambda>(s, k). dict_get owner s = Some i) dl)) c)"
    by (simp only: sum.distrib)
  with one Cons.IH show ?case by (auto simp: d split: if_splits)
qed simp

lemma count_list_take: "count_list (take n xs) c \<le> count_list xs c"
proof -
  have "count_list xs c = count_list (take n xs) c + count_list (drop n xs) c"
    by (metis append_take_drop_id count_list_append)
  then show ?thesis by simp
qed

lemma count_distinct: "distinct xs \<Longrightarrow> count_list xs c = (if c \<in> set xs then 1 else 0)"
  by (induction xs) (auto simp: count_list_0_iff)

lemma downstream_counts:
  fixes w :: "('d, 'x) bus_world_scheme"
  assumes run: "pass_message_downstream bus k src v w = (r, w')"
  shows "uuids w \<le> uuids w' \<and>
    under_way w' n c \<le> under_way w n c + (if c = k then 1 else 0) + (if c \<in> drawn w w' then 1 else 0)"
proof (cases "primary (pipes_get (connections bus) src) = None \<and> taps (pipes_get (connections bus) src) = []")
  case True
  with run show ?thesis by (simp add: pass_message_downstream_def)
next
  case False
  let ?t = "pipes_get (connections bus) src"
  obtain r1 w1 where m: "map_act (tap_context k) (taps ?t) w = (r1, w1)" by fastforce
  note t = tap_contexts_uuid [OF m]
  have q: "under_way w1 n c = under_way w n c" by (rule under_way_cong) (use t in auto)
  show ?thesis
  proof (cases r1)
    case (Inl e)
    with False run m have "w' = w1" by (simp add: pass_message_downstream_def Let_def bind_act_def del: de_Morgan_conj)
    with q t show ?thesis by simp
  next
    case (Inr tes)
    let ?dl = "(case primary ?t of None \<Rightarrow> [] | Some s \<Rightarrow> [(s, k)]) @ tes"
    let ?pass = "map_act (\<lambda>(s, k). pass_message_to_sink bus v s k)"
    have prim: "seq_act (case primary ?t of None \<Rightarrow> ret () | Some s \<Rightarrow> pass_message_to_sink bus v s k) m =
        seq_act (?pass (case primary ?t of None \<Rightarrow> [] | Some s \<Rightarrow> [(s, k)])) m" for m
      by (cases "primary ?t") (simp_all add: seq_act_bind, simp add: seq_act_def)
    have "seq_act (?pass ?dl) (ret ()) w1 = (r, w')"
      using False run m Inr
      by (simp add: pass_message_downstream_def Let_def bind_act_def prim seq_map_act_append del: de_Morgan_conj)
    then obtain r2 where "?pass ?dl w1 = (r2, w')"
      by (auto simp: seq_act_def bind_act_def split: prod.splits sum.splits)
    from pass_some [OF this] obtain l where
      w': "w' = w1\<lparr>inbox := \<lambda>i. inbox w1 i @ delivered bus v (take l ?dl) i\<rparr>" by blast
    have ids: "map snd tes = map Uuid [uuids w..<uuids w1]" using t Inr by simp
    have "distinct (map Uuid [uuids w..<uuids w1])" by (simp add: distinct_map inj_on_def)
    then have tes: "count_list (map snd tes) c = (if c \<in> drawn w w1 then 1 else 0)"
      by (simp add: ids count_distinct drawn_def)
    have "under_way w' n c = under_way w1 n c
        + (\<Sum>i<n. count_list (map snd (filter (\<lambda>(s, k). dict_get (sink_owner bus) s = Some i) (take l ?dl))) c)"
      by (simp add: w' under_way_def inbox_ctxs_def inbox_ctxs_delivered count_list_append sum.distrib)
    also have "\<dots> \<le> under_way w1 n c + count_list (map snd ?dl) c"
      using deliveries_counted [where n = n and owner = "sink_owner bus" and dl = "take l ?dl" and c = c]
        count_list_take [of l "map snd ?dl" c]
      by (simp add: take_map del: map_append)
    also have "count_list (map snd ?dl) c \<le> (if c = k then 1 else 0) + (if c \<in> drawn w w1 then 1 else 0)"
      using tes by (simp add: count_list_append split: option.splits)
    finally show ?thesis using q t w' by (simp add: drawn_def)
  qed
qed

lemma stop_actors_counts:
  "bus_in (stop_actors bus w) = bus_in w \<and> uuids (stop_actors bus w) = uuids w
    \<and> (\<forall>i. inbox_ctxs (stop_actors bus w) i = inbox_ctxs w i)"
proof -
  have "bus_in (fold (\<lambda>i. put_inbox i StopActorEvent) is w) = bus_in w
      \<and> uuids (fold (\<lambda>i. put_inbox i StopActorEvent) is w) = uuids w
      \<and> (\<forall>i. inbox_ctxs (fold (\<lambda>i. put_inbox i StopActorEvent) is w) i = inbox_ctxs w i)" for "is"
    by (induction "is" arbitrary: w) (auto simp: put_inbox_def inbox_ctxs_def)
  then show ?thesis by (simp add: stop_actors_def)
qed

text \<open>A turn of the bus delivers at most the message it takes, in its context, and one message in each
  context it opens.\<close>

lemma bus_turn_counts:
  assumes step: "bus_step dd bus w = Some (r, w')"
  shows "uuids w \<le> uuids w' \<and> under_way w' n c \<le> under_way w n c + (if c \<in> drawn w w' then 1 else 0)"
proof (cases "bus_in w")
  case Nil
  with step show ?thesis by (simp add: bus_step_def)
next
  case (Cons ev evs)
  let ?w = "w\<lparr>bus_in := evs\<rparr>"
  have less: "under_way w n c = under_way ?w n c + count_list (send_ctx ev) c"
    by (simp add: under_way_def Cons inbox_ctxs_def count_list_append)
  show ?thesis
  proof (cases ev)
    case StopBusEvent
    with step Cons stop_actors_counts [of bus ?w] less show ?thesis
      by (auto simp: bus_step_def under_way_def)
  next
    case (SendEvent k src v)
    obtain r1 w1 where a: "with_context k (append_message dd k (source_id src) v) ?w = (r1, w1)" by fastforce
    have known: "keeps_rest (with_context k (append_message dd k (source_id src) v))"
      "same_uuids (with_context k (append_message dd k (source_id src) v))"
      unfolding with_context_def by (intro keeps uuid_frame; simp add: keeps_append_message same_uuids_append_message keeps uuid_frame)+
    have q: "under_way w1 n c = under_way ?w n c" and u: "uuids w1 = uuids w"
      using under_way_cong keeps_queues [OF known(1) a] same_uuidsD [OF known(2) a] by (blast, simp)
    show ?thesis
    proof (cases r1)
      case (Inl e)
      with step Cons SendEvent a have "w' = w1" by (auto simp: bus_step_def bus_handle_def seq_act_def bind_act_def)
      with q u less show ?thesis by simp
    next
      case (Inr x)
      with step Cons SendEvent a obtain r2 where "pass_message_downstream bus k src v w1 = (r2, w')"
        by (auto simp: bus_step_def bus_handle_def seq_act_def bind_act_def split: prod.splits sum.splits)
      from downstream_counts [OF this, of n c] q u less SendEvent show ?thesis
        by (auto simp: drawn_def split: if_splits)
    qed
  qed
qed

section \<open>A turn of an actor\<close>

lemma run_handler_returns:
  assumes "handlers_return hs" and h: "run_handler (hs i) c s v w = (r1, w1)"
  shows "bus_in w1 = bus_in w \<and> inbox w1 = inbox w \<and> uuids w \<le> uuids w1 \<and> (\<exists>out. r1 = Inr out)"
proof (cases "dict_get (hs i) s")
  case None
  with h show ?thesis by (auto simp: run_handler_def)
next
  case (Some f)
  obtain r2 w2 where fr: "f c s v w = (r2, w2)" by fastforce
  with Some assms(1) have "bus_in w2 = bus_in w \<and> inbox w2 = inbox w \<and> uuids w \<le> uuids w2"
    unfolding handlers_return_def well_behaved_def by blast
  with h fr Some show ?thesis
    by (cases r2) (auto simp: run_handler_def try_act_def with_context_def lock_context_def act_defs split: if_splits)
qed

text \<open>An actor takes the head of its inbox and puts what its handler returns on the bus.\<close>

lemma actor_turn_counts:
  assumes step: "actor_step (hs i) (\<lambda>w. w) i w = Some (r, w')" and hs: "handlers_return hs"
    and evs: "bus_in w' = bus_in w @ evs"
  shows "uuids w \<le> uuids w' \<and>
    under_way w' n c + (if i < n then count_list (recv_ctx (hd (inbox w i))) c else 0) = under_way w n c + count_list (sent_ctxs evs) c"
proof (cases "inbox w i")
  case Nil
  with step show ?thesis by (simp add: actor_step_def)
next
  case (Cons ev rest)
  let ?w = "w\<lparr>inbox := (inbox w)(i := rest)\<rparr>"
  have frame: "uuids w \<le> uuids w' \<and> inbox w' = inbox ?w"
  proof (cases ev)
    case StopActorEvent
    with step Cons show ?thesis by (auto simp: actor_step_def)
  next
    case (ReceiveEvent k s v)
    obtain r1 w1 where h: "run_handler (hs i) k s v ?w = (r1, w1)" by fastforce
    note f = run_handler_returns [OF hs h]
    then obtain out where out: "r1 = Inr out" by blast
    have "w' = w1\<lparr>bus_in := bus_in w1 @ out\<rparr>"
      using step Cons ReceiveEvent h out by (auto simp: actor_step_def bind_act_def seq_act_def put_all_run)
    with f show ?thesis by simp
  qed
  have "(\<Sum>j<n. count_list (inbox_ctxs w j) c) =
      (\<Sum>j<n. count_list (inbox_ctxs ?w j) c) + (\<Sum>j<n. if j = i then count_list (recv_ctx ev) c else 0)"
    unfolding sum.distrib [symmetric]
    by (intro sum.cong) (auto simp: inbox_ctxs_def Cons count_list_append)
  also have "(\<Sum>j<n. if j = i then count_list (recv_ctx ev) c else 0) = (if i < n then count_list (recv_ctx ev) c else 0)"
    by simp
  finally show ?thesis
    using frame by (simp add: under_way_def evs Cons inbox_ctxs_def count_list_append)
qed

section \<open>Properties\<close>

lemma count_new: "c \<in> tapped \<Longrightarrow> tapped \<subseteq> Uuid ` {..<uuids w} \<Longrightarrow> c \<notin> drawn w w'"
  by (auto simp: drawn_def)

lemma under_way_mono: "n \<le> m \<Longrightarrow> under_way w n c \<le> under_way w m c"
  by (auto simp: under_way_def intro!: sum_mono2)

lemma sys_run_counts:
  assumes "handlers_return hs" "sys_run dd bus hs w sent taken tapped"
  shows "tapped \<subseteq> Uuid ` {..<uuids w} \<and>
    (\<forall>n c. under_way w n c + count_list taken c \<le> count_list sent c + (if c \<in> tapped then 1 else 0))"
  using assms(2)
proof (induction rule: sys_run.induct)
  case (idle w)
  then show ?case by (simp add: under_way_def inbox_ctxs_def)
next
  case (bus_turn w sent taken tapped r w')
  note t = bus_turn_counts [OF bus_turn.hyps(2)]
  have "tapped \<union> drawn w w' \<subseteq> Uuid ` {..<uuids w'}"
    using bus_turn.IH t [of 0] by (fastforce simp: drawn_def)
  moreover have "under_way w' n c + count_list taken c \<le> count_list sent c + (if c \<in> tapped \<union> drawn w w' then 1 else 0)" for n c
  proof -
    have "under_way w' n c \<le> under_way w n c + (if c \<in> drawn w w' then 1 else 0)" using t by blast
    moreover have "under_way w n c + count_list taken c \<le> count_list sent c + (if c \<in> tapped then 1 else 0)" using bus_turn.IH by blast
    moreover have "c \<in> tapped \<Longrightarrow> c \<notin> drawn w w'" using count_new bus_turn.IH by blast
    ultimately show ?thesis by (auto split: if_splits)
  qed
  ultimately show ?case by blast
next
  case (actor_turn w sent taken tapped i r w' evs)
  note t = actor_turn_counts [OF actor_turn.hyps(2) assms(1) actor_turn.hyps(3)]
  have "tapped \<subseteq> Uuid ` {..<uuids w'}" using actor_turn.IH t [of 0] by fastforce
  moreover have "under_way w' n c + count_list (taken @ recv_ctx (hd (inbox w i))) c
      \<le> count_list (sent @ sent_ctxs evs) c + (if c \<in> tapped then 1 else 0)" for n c
  proof -
    let ?m = "max n (Suc i)"
    have "under_way w' n c \<le> under_way w' ?m c" by (simp add: under_way_mono)
    moreover have "under_way w' ?m c + count_list (recv_ctx (hd (inbox w i))) c = under_way w ?m c + count_list (sent_ctxs evs) c"
      using t [of ?m c] by (simp add: less_max_iff_disj)
    moreover have "under_way w ?m c + count_list taken c \<le> count_list sent c + (if c \<in> tapped then 1 else 0)"
      using actor_turn.IH by blast
    ultimately show ?thesis by simp
  qed
  ultimately show ?case by blast
next
  case (outside w sent taken tapped w' evs)
  have "under_way w' n c = under_way w n c + count_list (sent_ctxs evs) c" for n c
    using outside.hyps by (simp add: under_way_def inbox_ctxs_def)
  moreover have "tapped \<subseteq> Uuid ` {..<uuids w'}" using outside by fastforce
  ultimately show ?case using outside.IH by (auto simp: add.assoc)
qed

text \<open>C5: the bus never multiplies a message. However the bus, the actors and the other threads of a
  program interleave, and whatever messages the actors and threads put on the bus, in each context
  the messages under way, on the bus and in any number of inboxes, and those the actors have taken
  are together at most the messages put on the bus in it, and one more when a turn of the bus opened
  the context for a tap; such a context is none that existed before. The only condition on the actors
  is that their handlers return their messages to the actor loop and leave the queues alone.\<close>

theorem bus_never_multiplies:
  assumes "sys_run dd bus hs w sent taken tapped" and "handlers_return hs"
  shows "tapped \<subseteq> Uuid ` {..<uuids w} \<and>
    (\<forall>n c. count_list (sent_ctxs (bus_in w)) c + (\<Sum>i<n. count_list (inbox_ctxs w i) c) + count_list taken c
       \<le> count_list sent c + (if c \<in> tapped then 1 else 0))"
  using sys_run_counts [OF assms(2,1)] by (simp add: under_way_def)

text \<open>A producer thread is one of those outside, and the actors of \<open>Patterns\<close> meet the condition.\<close>

lemma producer_outside:
  assumes run: "producer_loop spec [p] w = (r, w')"
  shows "\<exists>evs. bus_in w' = bus_in w @ evs \<and> inbox w' = inbox w \<and> uuids w \<le> uuids w'"
proof -
  obtain r1 w1 where c: "create_context [] w = (r1, w1)" by fastforce
  note q = keeps_queues [OF keeps_create_context c] and u = create_context_uuid [OF c]
  from run c q u show ?thesis
    by (cases r1) (auto simp: producer_loop_def bind_act_def put_bus_def modify_act_def)
qed

lemma linear_returns: "(\<And>i. linear_actor (hs i)) \<Longrightarrow> handlers_return hs"
  by (simp add: handlers_return_def linear_actor_def linear_handler_def)

text \<open>An actor that answers each message twice, in the context it came in, as the storer of failures does.\<close>

definition twice_handlers :: "(sink, ('d, 'x) handler) dict" where
  "twice_handlers = [(Sink ''x'', \<lambda>c s v. ret [SendEvent c (Source ''l'') v, SendEvent c (Source ''r'') v])]"

theorem bus_never_multiplies_witness:
  "\<exists>w1 w2. bus_step plain_diff demo_bus demo_bus_world = Some (Inr True, w1)
     \<and> actor_step twice_handlers (\<lambda>w. w) 0 w1 = Some (Inr True, w2)
     \<and> sent_ctxs (bus_in w2) = [Uuid 0, Uuid 0] \<and> inbox_ctxs w2 1 = [Uuid 1]
     \<and> sys_run plain_diff demo_bus (\<lambda>_. twice_handlers) w2 [Uuid 0, Uuid 0, Uuid 0] [Uuid 0] {Uuid 1}
     \<and> (\<forall>n. (\<Sum>i<n. count_list (inbox_ctxs w2 i) (Uuid 0)) = 0 \<and> (\<Sum>i<n. count_list (inbox_ctxs w2 i) (Uuid 1)) \<le> 1)"
proof -
  let ?hs = "\<lambda>_::nat. twice_handlers :: (sink, (pyval, unit) handler) dict"
  have hs: "handlers_return ?hs" by (simp add: handlers_return_def twice_handlers_def)
  obtain w1 where w1: "bus_step plain_diff demo_bus demo_bus_world = Some (Inr True, w1)" "bus_in w1 = []"
    "inbox w1 0 = [ReceiveEvent (Uuid 0) (Sink ''x'') (PInt 5)]" "inbox w1 1 = [ReceiveEvent (Uuid 1) (Sink ''y'') (PInt 5)]"
    "uuids w1 = 2" "Uuid 0 \<in> set (locks w1)" "dict_has (contexts w1) (Uuid 0)"
    by (simp add: bus_step_def bus_handle_def with_context_def pass_message_downstream_def tap_context_def demo_bus_def event_bus_init_def pipes_get_def mk_targets_def
        pass_message_to_sink_def append_message_def plain_diff_def demo_eval lock_contexts_def demo_bus_world_def bus_world_init_def put_inbox_def act_defs Let_def)
  obtain w2 where w2: "actor_step twice_handlers (\<lambda>w. w) 0 w1 = Some (Inr True, w2)"
    "bus_in w2 = [SendEvent (Uuid 0) (Source ''l'') (PInt 5), SendEvent (Uuid 0) (Source ''r'') (PInt 5)]"
    "inbox w2 1 = [ReceiveEvent (Uuid 1) (Sink ''y'') (PInt 5)]"
    using w1(2-) by (simp add: actor_step_def run_handler_def twice_handlers_def with_context_def lock_context_def act_defs
        try_act_def put_all_run)
  let ?w0 = "demo_bus_world\<lparr>bus_in := []\<rparr>"
  have "sys_run plain_diff demo_bus ?hs ?w0 [] [] {}" by (rule sys_run.idle) (simp_all add: demo_bus_world_eval)
  then have "sys_run plain_diff demo_bus ?hs demo_bus_world ([] @ sent_ctxs [SendEvent (Uuid 0) (Source ''a'') (PInt 5)]) [] {}"
    by (rule sys_run.outside) (simp_all add: demo_bus_world_eval)
  from sys_run.actor_turn [OF sys_run.bus_turn [OF this w1(1)] w2(1), of "bus_in w2"] w1(2,3) w2(2)
  have run: "sys_run plain_diff demo_bus ?hs w2 [Uuid 0, Uuid 0, Uuid 0] [Uuid 0] (drawn demo_bus_world w1)" by simp
  have "drawn demo_bus_world w1 = {Uuid 1}" using w1(5) by (auto simp: drawn_def demo_bus_world_eval)
  with run have run': "sys_run plain_diff demo_bus ?hs w2 [Uuid 0, Uuid 0, Uuid 0] [Uuid 0] {Uuid 1}" by simp
  from bus_never_multiplies [OF this hs] have
    c: "count_list (sent_ctxs (bus_in w2)) c + (\<Sum>i<n. count_list (inbox_ctxs w2 i) c) + count_list [Uuid 0] c
      \<le> count_list [Uuid 0, Uuid 0, Uuid 0] c + (if c \<in> {Uuid 1} then 1 else 0)" for n c by blast
  have "(\<Sum>i<n. count_list (inbox_ctxs w2 i) (Uuid 0)) = 0 \<and> (\<Sum>i<n. count_list (inbox_ctxs w2 i) (Uuid 1)) \<le> 1" for n
    using c [where n = n and c = "Uuid 0"] c [where n = n and c = "Uuid 1"] w2(2) by simp
  with w1(1) w2 run' show ?thesis by (intro exI [of _ w1] exI [of _ w2]) (simp add: inbox_ctxs_def)
qed

lemma stop_fold:
  "fold (\<lambda>i. put_inbox i StopActorEvent) is w =
     w\<lparr>inbox := \<lambda>i. inbox w i @ replicate (length (filter (\<lambda>j. j = i) is)) StopActorEvent\<rparr>"
proof (induction "is" arbitrary: w)
  case (Cons j js)
  have e: "replicate n x @ [x] = x # replicate n x" for n and x :: receive_event by (induction n) simp_all
  show ?case by (simp add: Cons.IH) (simp add: put_inbox_def fun_eq_iff e)
qed simp

lemma owner_fold:
  "distinct ss \<Longrightarrow> set ss \<inter> set (dict_keys d) = {} \<Longrightarrow> fold (\<lambda>s. dict_set s i) ss d = d @ map (\<lambda>s. (s, i)) ss"
proof (induction ss arbitrary: d)
  case (Cons s ss)
  then have "dict_set s i d = d @ [(s, i)]" by (intro dict_set_append) (auto simp: dict_has_iff)
  with Cons show ?case by auto
qed simp

lemma owners_fold:
  "distinct (dict_keys d @ concat (map snd actors)) \<Longrightarrow>
     fold (\<lambda>(i, snks) d. fold (\<lambda>s. dict_set s i) snks d) actors d =
       d @ concat (map (\<lambda>(i, ss). map (\<lambda>s. (s, i)) ss) actors)"
proof (induction actors arbitrary: d)
  case (Cons a actors)
  obtain i ss where a: "a = (i, ss)" by (cases a)
  have "fold (\<lambda>s. dict_set s i) ss d = d @ map (\<lambda>s. (s, i)) ss"
    using Cons.prems a by (intro owner_fold) auto
  moreover have "distinct (dict_keys (d @ map (\<lambda>s. (s, i)) ss) @ concat (map snd actors))"
    using Cons.prems a by (simp add: comp_def)
  ultimately show ?case using Cons.IH [of "d @ map (\<lambda>s. (s, i)) ss"] by (simp add: a)
qed simp

text \<open>A stop request ends the bus loop and puts one stop event into the inbox of every actor for
  each sink it handles, after everything already delivered: an actor with a sink always learns of
  the stop, and an actor without one never does.\<close>

theorem stop_reaches_actors:
  assumes "bus_in w = StopBusEvent # evs" and "distinct (concat (map snd actors))" and "distinct (map fst actors)"
  shows "\<exists>w'. bus_step dd (event_bus_init p actors) w = Some (Inr False, w') \<and> bus_in w' = evs
      \<and> (\<forall>i. inbox w' i = inbox w i @
            replicate (case map_of actors i of None \<Rightarrow> 0 | Some ss \<Rightarrow> length ss) StopActorEvent)"
proof -
  have owners: "map snd (sink_owner (event_bus_init p actors)) = concat (map (\<lambda>(i, ss). map (\<lambda>_. i) ss) actors)"
    using owners_fold [of "[]" actors] assms(2)
    by (simp add: event_bus_init_def map_concat comp_def case_prod_beta) (simp add: case_prod_unfold)
  have count: "length (filter (\<lambda>j. j = i) (concat (map (\<lambda>(i, ss). map (\<lambda>_. i) ss) actors))) =
      (case map_of actors i of None \<Rightarrow> 0 | Some ss \<Rightarrow> length ss)" for i
    using assms(3)
  proof (induction actors)
    case (Cons a actors)
    obtain j ss where a: "a = (j, ss)" by (cases a)
    have "length (filter (\<lambda>j. j = i) (map (\<lambda>_. j) ss)) = (if j = i then length ss else 0)"
      by (induction ss) auto
    moreover have "j = i \<Longrightarrow> map_of actors i = None" using Cons.prems a by (auto simp: map_of_eq_None_iff)
    ultimately show ?case using Cons a by auto
  qed simp
  show ?thesis
    by (simp add: bus_step_def assms(1) stop_actors_def owners stop_fold count)
qed

theorem stop_reaches_actors_witness:
  "\<exists>w'. bus_step plain_diff (event_bus_init [] [(0, [Sink ''x'', Sink ''y'']), (1, [])])
         (bus_world_init\<lparr>bus_in := [StopBusEvent]\<rparr>) = Some (Inr False, w')
     \<and> inbox w' 0 = [StopActorEvent, StopActorEvent] \<and> inbox w' 1 = []"
  using stop_reaches_actors [of "bus_world_init\<lparr>bus_in := [StopBusEvent]\<rparr>" "[]"
      "[(0, [Sink ''x'', Sink ''y'']), (1, [])]" plain_diff "[]"]
  by (auto simp: bus_world_init_def numeral_2_eq_2)

text \<open>The exceptions that explain one another, outermost first.\<close>

definition next_cause :: "exn \<Rightarrow> exn option" where
  "next_cause e = (case exn_cause e of None \<Rightarrow> exn_context e | Some c \<Rightarrow> Some c)"

inductive cause_chain :: "exn \<Rightarrow> exn list \<Rightarrow> bool" where
  root: "next_cause e = None \<Longrightarrow> cause_chain e [e]"
| because: "next_cause e = Some c \<Longrightarrow> cause_chain c es \<Longrightarrow> cause_chain e (e # es)"

lemma exception_parts_chain:
  "cause_chain e es \<Longrightarrow> exception_parts part n (Some e) =
     map part (take n es) @ (if n < length es then [''... (cause chain truncated)''] else [])"
proof (induction arbitrary: n rule: cause_chain.induct)
  case (root e)
  then show ?case by (cases n) (auto simp: next_cause_def split: option.splits)
next
  case (because e c es)
  then show ?case by (cases n) (auto simp: next_cause_def split: option.splits)
qed

text \<open>The log text of an exception lists it and its causes, outermost first, cut after eight with
  an explicit mark exactly when more follow, so that its length does not depend on the depth of
  the chain.\<close>

theorem exception_text_is_bounded_chain:
  assumes "cause_chain e es"
  shows "exception_parts part MAX_EXCEPTION_DEPTH (Some e) =
      map part (take 8 es) @ (if 8 < length es then [''... (cause chain truncated)''] else [])
    \<and> format_exception_payload part e = join_text '' <- '' (exception_parts part MAX_EXCEPTION_DEPTH (Some e))
    \<and> length (exception_parts part MAX_EXCEPTION_DEPTH (Some e)) \<le> 9"
  using exception_parts_chain [OF assms, of part 8]
  by (auto simp: MAX_EXCEPTION_DEPTH_def format_exception_payload_def)

theorem exception_text_is_bounded_chain_witness:
  "format_exception_payload (\<lambda>e. if is_nexus e then ''Nexus'' else ''Other'')
     (exn_from SafeInvokeWrappedException key_error) = ''Nexus <- Other''"
proof -
  have "cause_chain (exn_from SafeInvokeWrappedException key_error) [exn_from SafeInvokeWrappedException key_error, key_error]"
    by (rule cause_chain.because) (auto simp: next_cause_def intro: cause_chain.root)
  from exception_text_is_bounded_chain [OF this, of "\<lambda>e. if is_nexus e then ''Nexus'' else ''Other''"]
  show ?thesis by (simp add: is_nexus_def is_nexus_class_def)
qed

end
