(* ===== verification/StoreRuns.thy ===== *)
theory StoreRuns
  imports BusSafety
begin

text \<open>
  What the store's operations do to a live context when nothing fails, with everything they leave
  alone; the actors' proofs rest on these facts.
\<close>

text \<open>The diff library never refuses a pair of values.\<close>

definition deepdiff_total :: "'d deepdiff \<Rightarrow> bool" where
  "deepdiff_total dd \<longleftrightarrow> deepdiff_ok dd \<and> (\<forall>a b. \<exists>d. dd_delta dd a b = Inr d)"

lemma plain_diff_total: "deepdiff_total plain_diff"
  using plain_diff_ok by (simp add: deepdiff_total_def plain_diff_def)

lemma deepdiff_totalD: "deepdiff_total dd \<Longrightarrow> deepdiff_ok dd"
  by (simp add: deepdiff_total_def)

lemma keeps_set_user_data: "keeps_rest (set_user_data dd c k v)"
  unfolding set_user_data_def by (intro keeps)

lemma keeps_append_user_note: "keeps_rest (append_user_note c n)"
  unfolding append_user_note_def by (intro keeps)

lemma keeps_complete: "keeps_rest (complete c)"
  unfolding complete_def by (intro keeps)

lemma same_uuids_set_user_data: "same_uuids (set_user_data dd c k v)"
  unfolding set_user_data_def by (intro uuid_frame)

lemma same_uuids_append_user_note: "same_uuids (append_user_note c n)"
  unfolding append_user_note_def by (intro uuid_frame)

lemma same_uuids_complete: "same_uuids (complete c)"
  unfolding complete_def by (intro uuid_frame)

text \<open>The frame of a logged operation on context \<open>c\<close>: the clock advances by one reading, the log of
  \<open>c\<close> by one entry.\<close>

definition logged :: "context_id \<Rightarrow> 'd entry_data \<Rightarrow> ('d, 'x) world_scheme \<Rightarrow> ('d, 'x) world_scheme \<Rightarrow> bool" where
  "logged c d w w' \<longleftrightarrow>
     mem_hist (persistence w') = (mem_hist (persistence w))(c := mem_hist (persistence w) c
        @ [next_entry c d (clock w (ticks w)) (mem_hist (persistence w) c)])
     \<and> ticks w' = Suc (ticks w) \<and> clock w' = clock w \<and> locks w' = locks w \<and> uuids w' = uuids w
     \<and> world.more w' = world.more w"

lemma set_user_data_run:
  assumes dd: "deepdiff_total dd" and inv: "store_inv dd w" and x: "dict_get (contexts w) c = Some x"
    and live: "\<not> is_completed x"
  shows "\<exists>w' d. set_user_data dd c k v w = (Inr (), w') \<and> store_inv dd w'
      \<and> contexts w' = dict_set c (x\<lparr>user_data := dict_set k v (user_data x)\<rparr>) (contexts w)
      \<and> logged c (UserDataChange k d) w w'"
proof -
  obtain d where delta: "dd_delta dd (user_data_get x k) v = Inr d" using dd by (auto simp: deepdiff_total_def)
  have ok: "deepdiff_ok dd" by (rule deepdiff_totalD [OF dd])
  with delta have app: "dd_apply dd (user_data_get x k) d = v" "dd_same dd v v" by (auto simp: deepdiff_ok_def)
  obtain p where p: "append_entry c (UserDataChange k d) w = (Inr (), w\<lparr>persistence := p, ticks := Suc (ticks w)\<rparr>)"
    "mem_hist p = (mem_hist (persistence w))(c := mem_hist (persistence w) c
        @ [next_entry c (UserDataChange k d) (clock w (ticks w)) (mem_hist (persistence w) c)])"
    using append_entry_live [OF inv inv x x live] by blast
  have "set_user_data dd c k v w = (Inr (), w\<lparr>persistence := p, ticks := Suc (ticks w),
      contexts := dict_set c (x\<lparr>user_data := dict_set k v (user_data x)\<rparr>) (contexts w)\<rparr>)"
    using x live delta app p
    by (auto simp: set_user_data_def the_context_def assert_mutable_def assert_recovery_def update_context_def act_defs)
  with set_user_data_inv [OF ok inv this] p(2) show ?thesis by (auto simp: logged_def)
qed

lemma append_user_note_run:
  assumes inv: "store_inv dd w" and x: "dict_get (contexts w) c = Some x" and live: "\<not> is_completed x"
  shows "\<exists>w'. append_user_note c n w = (Inr (), w') \<and> store_inv dd w' \<and> contexts w' = contexts w
      \<and> logged c (UserNote n) w w'"
proof -
  obtain p where p: "append_entry c (UserNote n) w = (Inr (), w\<lparr>persistence := p, ticks := Suc (ticks w)\<rparr>)"
    "mem_hist p = (mem_hist (persistence w))(c := mem_hist (persistence w) c
        @ [next_entry c (UserNote n) (clock w (ticks w)) (mem_hist (persistence w) c)])"
    using append_entry_live [OF inv inv x x live] by blast
  have "append_user_note c n w = (Inr (), w\<lparr>persistence := p, ticks := Suc (ticks w)\<rparr>)"
    using x live p by (auto simp: append_user_note_def the_context_def assert_mutable_def act_defs)
  with append_user_note_inv [OF inv this] p(2) show ?thesis by (auto simp: logged_def)
qed

lemma complete_run:
  assumes inv: "store_inv dd w" and x: "dict_get (contexts w) c = Some x" and live: "\<not> is_completed x"
  shows "\<exists>w'. complete c w = (Inr (), w') \<and> store_inv dd w'
      \<and> contexts w' = dict_set c (x\<lparr>is_completed := True\<rparr>) (contexts w) \<and> logged c ContextCompleted w w'"
proof -
  obtain p where p: "append_entry c ContextCompleted w = (Inr (), w\<lparr>persistence := p, ticks := Suc (ticks w)\<rparr>)"
    "mem_hist p = (mem_hist (persistence w))(c := mem_hist (persistence w) c
        @ [next_entry c ContextCompleted (clock w (ticks w)) (mem_hist (persistence w) c)])"
    using append_entry_live [OF inv inv x x live] by blast
  have "complete c w = (Inr (), w\<lparr>persistence := p, ticks := Suc (ticks w),
      contexts := dict_set c (x\<lparr>is_completed := True\<rparr>) (contexts w)\<rparr>)"
    using x live p
    by (auto simp: complete_def the_context_def assert_mutable_def update_context_def act_defs)
  with complete_inv [OF inv this] p(2) show ?thesis by (auto simp: logged_def)
qed

lemma copy_user_data_run: "dict_get (contexts w) c = Some x \<Longrightarrow> copy_user_data c w = (Inr (user_data x), w)"
  by (simp add: copy_user_data_def the_context_def act_defs)

lemma with_context_known:
  "c \<in> set (locks w) \<Longrightarrow> dict_has (contexts w) c \<Longrightarrow> with_context c m w = m w"
  by (simp add: with_context_def lock_context_def act_defs)

lemma with_context_unknown:
  "\<not> (c \<in> set (locks w) \<and> dict_has (contexts w) c) \<Longrightarrow> with_context c m w = (Inl (exn_of InvalidContextIdException), w)"
  by (auto simp: with_context_def lock_context_def act_defs)

end
