(* ===== verification/ResultStore.thy ===== *)
theory ResultStore
  imports StoreRuns Chain
begin

text \<open>
  \<open>core/runtime/task_result_store.py\<close>: the in-memory store of task results. The interface
  \<open>TaskResultStore\<close> is the locale \<open>result_log\<close>; it is interpreted for the successes and for the
  failures of the same store. \<open>with self.lock\<close> makes each call atomic, which is how a call is
  modelled. Result ids are drawn from the same supply of uuids as context ids.
\<close>

section \<open>State\<close>

datatype stored_result = StoredOk "pyval succ_result" | StoredFail "pyval fail_result"

record result_store =
  successful_store :: "(string, pyval succ_result list) dict"
  executor_failure_store :: "(string, pyval fail_result list) dict"
  by_id :: "(string, (nat, stored_result) dict) dict"

definition result_store_init :: result_store where
  "result_store_init = \<lparr>successful_store = [], executor_failure_store = [], by_id = []\<rparr>"

type_synonym ('a, 'd, 'x) rs_act = "(exn, 'a, result_store \<times> ('d, 'x) world_scheme) act"

section \<open>Operations\<close>

definition int_text :: "int \<Rightarrow> string" where
  "int_text n = (if n < 0 then ''-'' @ nat_text (nat (- n)) else nat_text (nat n))"

text \<open>\<open>d.get(k, default)\<close>, as the code reaches it after the guard that creates the three entries.\<close>

definition entry_or :: "'v \<Rightarrow> (string, 'v) dict \<Rightarrow> string \<Rightarrow> 'v" where
  "entry_or d m k = (case dict_get m k of None \<Rightarrow> d | Some v \<Rightarrow> v)"

definition ensure_task :: "bool \<Rightarrow> string \<Rightarrow> result_store \<Rightarrow> result_store" where
  "ensure_task missing t s =
     (if missing then \<lparr>successful_store = dict_set t [] (successful_store s),
                       executor_failure_store = dict_set t [] (executor_failure_store s),
                       by_id = dict_set t [] (by_id s)\<rparr> else s)"

definition insert_success :: "string \<Rightarrow> pyval succ_result \<Rightarrow> result_store \<Rightarrow> result_store" where
  "insert_success t r s0 =
     (let s = ensure_task (\<not> dict_has (successful_store s0) t) t s0 in
      s\<lparr>successful_store := dict_set t (entry_or [] (successful_store s) t @ [r]) (successful_store s),
        by_id := dict_set t (dict_set (succ_id r) (StoredOk r) (entry_or [] (by_id s) t)) (by_id s)\<rparr>)"

definition insert_failure :: "string \<Rightarrow> pyval fail_result \<Rightarrow> result_store \<Rightarrow> result_store" where
  "insert_failure t r s0 =
     (let s = ensure_task (\<not> dict_has (executor_failure_store s0) t) t s0 in
      s\<lparr>executor_failure_store := dict_set t (entry_or [] (executor_failure_store s) t @ [r]) (executor_failure_store s),
        by_id := dict_set t (dict_set (fail_id r) (StoredFail r) (entry_or [] (by_id s) t)) (by_id s)\<rparr>)"

definition add_successful_task_result ::
  "context_id \<Rightarrow> string \<Rightarrow> pyval timestamped \<Rightarrow> pyval \<Rightarrow> (pyval succ_result, 'd, 'x) rs_act" where
  "add_successful_task_result c t result public =
     bind_act (lift_act (as_stored_execution result)) (\<lambda>ex.
       let out = processed_out (executor_output ex); routed = processed_in (executor_output ex) in
       if (case out of PExn e \<Rightarrow> is_nexus e | _ \<Rightarrow> False) then raise framework_exn
       else if public = PNone then raise framework_exn
       else bind_act (on_snd fresh_uuid) (\<lambda>i.
         let r = SuccessfulTaskResult i (processing_started ex) (processing_finished ex) (block_at_finish ex)
                   (routed_input routed) (routed_target routed) out public in
         seq_act (modify_act (\<lambda>(s, w). (insert_success t r s, w)))
         (seq_act (on_snd (append_user_note c (''Added successful task result for '' @ t @ '' at block ''
                     @ int_text (block_number (block_at_finish ex)))))
         (ret r))))"

definition add_executor_failure ::
  "context_id \<Rightarrow> string \<Rightarrow> pyval timestamped \<Rightarrow> (pyval fail_result, 'd, 'x) rs_act" where
  "add_executor_failure c t result =
     bind_act (lift_act (as_stored_execution result)) (\<lambda>ex.
       let out = processed_out (executor_output ex); routed = processed_in (executor_output ex) in
       case out of
         PExn e \<Rightarrow>
           if \<not> is_executor_failure e then raise framework_exn
           else bind_act (on_snd fresh_uuid) (\<lambda>i.
             let r = ExecutorFailureTaskResult i (processing_started ex) (processing_finished ex) (block_at_finish ex)
                       (routed_input routed) (routed_target routed) e in
             seq_act (modify_act (\<lambda>(s, w). (insert_failure t r s, w)))
             (seq_act (on_snd (append_user_note c (''Added executor failure task result for '' @ t @ '' at block ''
                         @ int_text (block_number (block_at_finish ex)))))
             (ret r)))
       | _ \<Rightarrow> raise framework_exn)"

definition get_task_result :: "string \<Rightarrow> nat \<Rightarrow> result_store \<Rightarrow> exn + stored_result" where
  "get_task_result t i s =
     (case dict_get (by_id s) t of
        None \<Rightarrow> Inl (exn_of (TaskResultNotFoundException t i))
      | Some rs \<Rightarrow> (case dict_get rs i of None \<Rightarrow> Inl (exn_of (TaskResultNotFoundException t i)) | Some r \<Rightarrow> Inr r))"

definition get_successful_tasks_for_epoch :: "string \<Rightarrow> epoch \<Rightarrow> result_store \<Rightarrow> pyval succ_result list" where
  "get_successful_tasks_for_epoch t e s =
     (case dict_get (successful_store s) t of
        None \<Rightarrow> []
      | Some rs \<Rightarrow> sort_key (\<lambda>r. block_number (succ_block r))
                    (filter (\<lambda>r. epoch_contains e (block_number (succ_block r))) rs))"

definition get_executor_failures_for_epoch :: "string \<Rightarrow> epoch \<Rightarrow> result_store \<Rightarrow> pyval fail_result list" where
  "get_executor_failures_for_epoch t e s =
     (case dict_get (executor_failure_store s) t of
        None \<Rightarrow> []
      | Some rs \<Rightarrow> sort_key (\<lambda>r. block_number (fail_block r))
                    (filter (\<lambda>r. epoch_contains e (block_number (fail_block r))) rs))"

text \<open>\<open>collections.Counter\<close> of a sequence; a key that never occurs counts 0.\<close>

definition counter :: "string list \<Rightarrow> (string, nat) dict" where
  "counter ks = fold (\<lambda>k d. dict_set k (Suc (case dict_get d k of None \<Rightarrow> 0 | Some n \<Rightarrow> n)) d) ks []"

definition count_successful_by_hotkey_for_epoch :: "string \<Rightarrow> epoch \<Rightarrow> result_store \<Rightarrow> (string, nat) dict" where
  "count_successful_by_hotkey_for_epoch t e s =
     counter (map (\<lambda>r. hotkey (succ_target r)) (get_successful_tasks_for_epoch t e s))"

definition count_executor_failures_by_hotkey_for_epoch :: "string \<Rightarrow> epoch \<Rightarrow> result_store \<Rightarrow> (string, nat) dict" where
  "count_executor_failures_by_hotkey_for_epoch t e s =
     counter (map (\<lambda>r. hotkey (fail_target r)) (get_executor_failures_for_epoch t e s))"

section \<open>The interface\<close>

text \<open>A result log keeps, per task, the results in the order they were added; \<open>used s\<close> are the ids
  it has given out.\<close>

locale result_log =
  fixes ok :: "'s \<Rightarrow> bool"
    and used :: "'s \<Rightarrow> string \<Rightarrow> nat set"
    and history :: "'s \<Rightarrow> string \<Rightarrow> 'r list"
    and add :: "string \<Rightarrow> 'r \<Rightarrow> 's \<Rightarrow> 's"
    and query :: "string \<Rightarrow> epoch \<Rightarrow> 's \<Rightarrow> 'r list"
    and lookup :: "string \<Rightarrow> nat \<Rightarrow> 's \<Rightarrow> 'r option"
    and id_of :: "'r \<Rightarrow> nat"
    and block_of :: "'r \<Rightarrow> int"
  assumes ok_add: "ok s \<Longrightarrow> id_of r \<notin> used s t \<Longrightarrow> ok (add t r s)"
    and used_add: "ok s \<Longrightarrow> used (add t r s) = (used s)(t := insert (id_of r) (used s t))"
    and history_add: "ok s \<Longrightarrow> history (add t r s) = (history s)(t := history s t @ [r])"
    and query_history: "query t e s = sort_key block_of (filter (\<lambda>r. epoch_contains e (block_of r)) (history s t))"
    and lookup_history: "ok s \<Longrightarrow> lookup t i s = Some r \<longleftrightarrow> r \<in> set (history s t) \<and> id_of r = i"
begin

lemma lookup_added: "ok s \<Longrightarrow> id_of r \<notin> used s t \<Longrightarrow> lookup t (id_of r) (add t r s) = Some r"
  using ok_add [of s r t] by (simp add: lookup_history history_add)

lemma query_set: "set (query t e s) = {r \<in> set (history s t). epoch_contains e (block_of r)}"
  by (simp add: query_history)

lemma query_sorted: "sorted (map block_of (query t e s))"
  by (simp add: query_history)

lemma query_blocks:
  "filter (\<lambda>r. block_of r = b) (query t e s) =
     (if epoch_contains e b then filter (\<lambda>r. block_of r = b) (history s t) else [])"
  unfolding query_history sort_key_stable by (auto simp: filter_empty_conv intro!: filter_cong)

lemma query_length: "length (query t e s) = length (filter (\<lambda>r. epoch_contains e (block_of r)) (history s t))"
  by (simp add: query_history)

lemma query_add:
  "ok s \<Longrightarrow> set (query t e (add t r s)) =
     (if epoch_contains e (block_of r) then insert r (set (query t e s)) else set (query t e s))"
  by (auto simp: query_set history_add)

lemma query_add_other: "ok s \<Longrightarrow> t' \<noteq> t \<Longrightarrow> query t' e (add t r s) = query t' e s"
  by (simp add: query_history history_add)

end

section \<open>The in-memory store implements the interface\<close>

definition succ_history :: "result_store \<Rightarrow> string \<Rightarrow> pyval succ_result list" where
  "succ_history s t = entry_or [] (successful_store s) t"

definition fail_history :: "result_store \<Rightarrow> string \<Rightarrow> pyval fail_result list" where
  "fail_history s t = entry_or [] (executor_failure_store s) t"

definition used_ids :: "result_store \<Rightarrow> string \<Rightarrow> nat set" where
  "used_ids s t = {i. dict_has (entry_or [] (by_id s) t) i}"

definition lookup_success :: "string \<Rightarrow> nat \<Rightarrow> result_store \<Rightarrow> pyval succ_result option" where
  "lookup_success t i s = (case get_task_result t i s of Inr (StoredOk r) \<Rightarrow> Some r | _ \<Rightarrow> None)"

definition lookup_failure :: "string \<Rightarrow> nat \<Rightarrow> result_store \<Rightarrow> pyval fail_result option" where
  "lookup_failure t i s = (case get_task_result t i s of Inr (StoredFail r) \<Rightarrow> Some r | _ \<Rightarrow> None)"

text \<open>The three dictionaries have the same tasks, and \<open>by_id\<close> indexes exactly the results listed.\<close>

definition rs_ok :: "result_store \<Rightarrow> bool" where
  "rs_ok s \<longleftrightarrow>
     (\<forall>t. (dict_has (executor_failure_store s) t \<longleftrightarrow> dict_has (successful_store s) t)
        \<and> (dict_has (by_id s) t \<longleftrightarrow> dict_has (successful_store s) t)) \<and>
     (\<forall>t i r. dict_get (entry_or [] (by_id s) t) i = Some (StoredOk r) \<longleftrightarrow> r \<in> set (succ_history s t) \<and> succ_id r = i) \<and>
     (\<forall>t i r. dict_get (entry_or [] (by_id s) t) i = Some (StoredFail r) \<longleftrightarrow> r \<in> set (fail_history s t) \<and> fail_id r = i)"

lemma get_task_result_entry:
  "get_task_result t i s =
     (case dict_get (entry_or [] (by_id s) t) i of None \<Rightarrow> Inl (exn_of (TaskResultNotFoundException t i)) | Some r \<Rightarrow> Inr r)"
  by (simp add: get_task_result_def entry_or_def split: option.splits)

lemma entry_or_set [simp]: "entry_or d (dict_set k v m) k' = (if k' = k then v else entry_or d m k')"
  by (simp add: entry_or_def)

lemma rs_ok_get: "rs_ok s \<Longrightarrow> r \<in> set (succ_history s t) \<Longrightarrow> dict_get (entry_or [] (by_id s) t) (succ_id r) = Some (StoredOk r)"
  unfolding rs_ok_def by blast

lemma rs_ok_tasks:
  "rs_ok s \<Longrightarrow> dict_has (executor_failure_store s) t = dict_has (successful_store s) t"
  "rs_ok s \<Longrightarrow> dict_has (by_id s) t = dict_has (successful_store s) t"
  by (simp_all add: rs_ok_def)

lemma insert_success_views:
  assumes "rs_ok s"
  shows "succ_history (insert_success t r s) = (succ_history s)(t := succ_history s t @ [r])"
    and "fail_history (insert_success t r s) = fail_history s"
    and "entry_or [] (by_id (insert_success t r s)) =
           (\<lambda>t'. if t' = t then dict_set (succ_id r) (StoredOk r) (entry_or [] (by_id s) t) else entry_or [] (by_id s) t')"
    and "dict_has (successful_store (insert_success t r s)) t' \<longleftrightarrow> t' = t \<or> dict_has (successful_store s) t'"
    and "dict_has (executor_failure_store (insert_success t r s)) t' \<longleftrightarrow> t' = t \<or> dict_has (executor_failure_store s) t'"
    and "dict_has (by_id (insert_success t r s)) t' \<longleftrightarrow> t' = t \<or> dict_has (by_id s) t'"
proof -
  have none: "\<not> dict_has (successful_store s) t \<Longrightarrow>
      dict_get (successful_store s) t = None \<and> dict_get (executor_failure_store s) t = None \<and> dict_get (by_id s) t = None"
    using rs_ok_tasks [OF assms, of t] unfolding dict_has_def by blast
  have some: "dict_has (successful_store s) t \<Longrightarrow> dict_has (executor_failure_store s) t \<and> dict_has (by_id s) t"
    using assms by (simp add: rs_ok_def)
  show "succ_history (insert_success t r s) = (succ_history s)(t := succ_history s t @ [r])"
    "fail_history (insert_success t r s) = fail_history s"
    "entry_or [] (by_id (insert_success t r s)) =
           (\<lambda>t'. if t' = t then dict_set (succ_id r) (StoredOk r) (entry_or [] (by_id s) t) else entry_or [] (by_id s) t')"
    using none by (auto simp: insert_success_def ensure_task_def Let_def succ_history_def fail_history_def fun_eq_iff)
      (auto simp: entry_or_def)
  show "dict_has (successful_store (insert_success t r s)) t' \<longleftrightarrow> t' = t \<or> dict_has (successful_store s) t'"
    "dict_has (executor_failure_store (insert_success t r s)) t' \<longleftrightarrow> t' = t \<or> dict_has (executor_failure_store s) t'"
    "dict_has (by_id (insert_success t r s)) t' \<longleftrightarrow> t' = t \<or> dict_has (by_id s) t'"
    using some by (auto simp: insert_success_def ensure_task_def Let_def dict_has_def)
qed

lemma insert_failure_views:
  assumes "rs_ok s"
  shows "fail_history (insert_failure t r s) = (fail_history s)(t := fail_history s t @ [r])"
    and "succ_history (insert_failure t r s) = succ_history s"
    and "entry_or [] (by_id (insert_failure t r s)) =
           (\<lambda>t'. if t' = t then dict_set (fail_id r) (StoredFail r) (entry_or [] (by_id s) t) else entry_or [] (by_id s) t')"
    and "dict_has (successful_store (insert_failure t r s)) t' \<longleftrightarrow> t' = t \<or> dict_has (successful_store s) t'"
    and "dict_has (executor_failure_store (insert_failure t r s)) t' \<longleftrightarrow> t' = t \<or> dict_has (executor_failure_store s) t'"
    and "dict_has (by_id (insert_failure t r s)) t' \<longleftrightarrow> t' = t \<or> dict_has (by_id s) t'"
proof -
  have none: "\<not> dict_has (executor_failure_store s) t \<Longrightarrow>
      dict_get (successful_store s) t = None \<and> dict_get (executor_failure_store s) t = None \<and> dict_get (by_id s) t = None"
    using rs_ok_tasks [OF assms, of t] unfolding dict_has_def by blast
  have some: "dict_has (executor_failure_store s) t \<Longrightarrow> dict_has (successful_store s) t \<and> dict_has (by_id s) t"
    using assms by (simp add: rs_ok_def)
  show "fail_history (insert_failure t r s) = (fail_history s)(t := fail_history s t @ [r])"
    "succ_history (insert_failure t r s) = succ_history s"
    "entry_or [] (by_id (insert_failure t r s)) =
           (\<lambda>t'. if t' = t then dict_set (fail_id r) (StoredFail r) (entry_or [] (by_id s) t) else entry_or [] (by_id s) t')"
    using none by (auto simp: insert_failure_def ensure_task_def Let_def succ_history_def fail_history_def fun_eq_iff)
      (auto simp: entry_or_def)
  show "dict_has (successful_store (insert_failure t r s)) t' \<longleftrightarrow> t' = t \<or> dict_has (successful_store s) t'"
    "dict_has (executor_failure_store (insert_failure t r s)) t' \<longleftrightarrow> t' = t \<or> dict_has (executor_failure_store s) t'"
    "dict_has (by_id (insert_failure t r s)) t' \<longleftrightarrow> t' = t \<or> dict_has (by_id s) t'"
    using some by (auto simp: insert_failure_def ensure_task_def Let_def dict_has_def)
qed

lemma insert_success_ok:
  assumes ok: "rs_ok s" and fresh: "succ_id r \<notin> used_ids s t"
  shows "rs_ok (insert_success t r s)"
proof -
  note v = insert_success_views [OF ok]
  have "dict_get (entry_or [] (by_id s) t) (succ_id r) = None" using fresh by (simp add: used_ids_def dict_has_def)
  then have "r' \<notin> set (succ_history s t) \<or> succ_id r' \<noteq> succ_id r" "f \<notin> set (fail_history s t) \<or> fail_id f \<noteq> succ_id r" for r' f
    using ok unfolding rs_ok_def by (metis option.distinct(1))+
  with ok show ?thesis unfolding rs_ok_def v by auto
qed

lemma insert_failure_ok:
  assumes ok: "rs_ok s" and fresh: "fail_id r \<notin> used_ids s t"
  shows "rs_ok (insert_failure t r s)"
proof -
  note v = insert_failure_views [OF ok]
  have "dict_get (entry_or [] (by_id s) t) (fail_id r) = None" using fresh by (simp add: used_ids_def dict_has_def)
  then have "r' \<notin> set (succ_history s t) \<or> succ_id r' \<noteq> fail_id r" "f \<notin> set (fail_history s t) \<or> fail_id f \<noteq> fail_id r" for r' f
    using ok unfolding rs_ok_def by (metis option.distinct(1))+
  with ok show ?thesis unfolding rs_ok_def v by auto
qed

lemma used_after_insert:
  "rs_ok s \<Longrightarrow> used_ids (insert_success t r s) = (used_ids s)(t := insert (succ_id r) (used_ids s t))"
  "rs_ok s \<Longrightarrow> used_ids (insert_failure t f s) = (used_ids s)(t := insert (fail_id f) (used_ids s t))"
  by (auto simp: fun_eq_iff used_ids_def insert_success_views insert_failure_views dict_has_def)

lemma query_successes:
  "get_successful_tasks_for_epoch t e s =
     sort_key (\<lambda>r. block_number (succ_block r))
       (filter (\<lambda>r. epoch_contains e (block_number (succ_block r))) (succ_history s t))"
  by (simp add: get_successful_tasks_for_epoch_def succ_history_def entry_or_def split: option.splits)

lemma query_failures:
  "get_executor_failures_for_epoch t e s =
     sort_key (\<lambda>r. block_number (fail_block r))
       (filter (\<lambda>r. epoch_contains e (block_number (fail_block r))) (fail_history s t))"
  by (simp add: get_executor_failures_for_epoch_def fail_history_def entry_or_def split: option.splits)

interpretation successes: result_log rs_ok used_ids succ_history insert_success get_successful_tasks_for_epoch
  lookup_success succ_id "\<lambda>r. block_number (succ_block r)"
proof
  fix s t i r
  assume ok: "rs_ok s"
  have "lookup_success t i s = Some r \<longleftrightarrow> dict_get (entry_or [] (by_id s) t) i = Some (StoredOk r)"
    by (simp add: lookup_success_def get_task_result_entry split: option.splits stored_result.splits)
  with ok show "lookup_success t i s = Some r \<longleftrightarrow> r \<in> set (succ_history s t) \<and> succ_id r = i" by (simp add: rs_ok_def)
qed (simp_all add: insert_success_ok used_after_insert insert_success_views query_successes)

interpretation failures: result_log rs_ok used_ids fail_history insert_failure get_executor_failures_for_epoch
  lookup_failure fail_id "\<lambda>r. block_number (fail_block r)"
proof
  fix s t i r
  assume ok: "rs_ok s"
  have "lookup_failure t i s = Some r \<longleftrightarrow> dict_get (entry_or [] (by_id s) t) i = Some (StoredFail r)"
    by (simp add: lookup_failure_def get_task_result_entry split: option.splits stored_result.splits)
  with ok show "lookup_failure t i s = Some r \<longleftrightarrow> r \<in> set (fail_history s t) \<and> fail_id r = i" by (simp add: rs_ok_def)
qed (simp_all add: insert_failure_ok used_after_insert insert_failure_views query_failures)

section \<open>Reachable stores\<close>

inductive rs_reach :: "result_store \<times> ('d, 'x) world_scheme \<Rightarrow> bool" where
  empty_store: "rs_reach (result_store_init, w)"
| success: "rs_reach st \<Longrightarrow> add_successful_task_result c t result public st = (r, st') \<Longrightarrow> rs_reach st'"
| failure: "rs_reach st \<Longrightarrow> add_executor_failure c t result st = (r, st') \<Longrightarrow> rs_reach st'"
| elsewhere: "rs_reach (s, w) \<Longrightarrow> uuids w \<le> uuids w' \<Longrightarrow> rs_reach (s, w')"

definition rs_inv :: "result_store \<times> ('d, 'x) world_scheme \<Rightarrow> bool" where
  "rs_inv = (\<lambda>(s, w). rs_ok s \<and> (\<forall>t. used_ids s t \<subseteq> {..<uuids w}))"

text \<open>The shape of the two calls that add: refuse with no effect, or insert one result under a fresh
  id, whatever the note to the context's log then does.\<close>

definition is_success_for :: "pyval timestamped \<Rightarrow> pyval \<Rightarrow> pyval succ_result \<Rightarrow> bool" where
  "is_success_for result public r \<longleftrightarrow>
     (\<exists>v n out. executor_output result = PProcessed (ProcessedInput (Routed v n) out)
        \<and> \<not> (\<exists>e. out = PExn e \<and> is_nexus e) \<and> public \<noteq> PNone
        \<and> r = SuccessfulTaskResult (succ_id r) (processing_started result) (processing_finished result)
                (block_at_finish result) v n out public)"

definition is_failure_for :: "pyval timestamped \<Rightarrow> pyval fail_result \<Rightarrow> bool" where
  "is_failure_for result r \<longleftrightarrow>
     (\<exists>v n e. executor_output result = PProcessed (ProcessedInput (Routed v n) (PExn e)) \<and> is_executor_failure e
        \<and> r = ExecutorFailureTaskResult (fail_id r) (processing_started result) (processing_finished result)
                (block_at_finish result) v n e)"

lemma note_keeps_uuids: "append_user_note c n w = (r, w') \<Longrightarrow> uuids w' = uuids w"
  using same_uuidsD [OF same_uuids_append_user_note] by blast

lemma add_success_cases:
  assumes "add_successful_task_result c t result public (s, w) = (res, (s', w'))"
  shows "(\<exists>e. res = Inl e \<and> s' = s \<and> w' = w) \<or>
    (\<exists>r. is_success_for result public r \<and> succ_id r = uuids w \<and> s' = insert_success t r s \<and> uuids w' = Suc (uuids w)
       \<and> (res = Inr r \<or> (\<exists>e. res = Inl e)))"
proof (cases "executor_output result")
  case (PProcessed p)
  obtain v n out where p: "p = ProcessedInput (Routed v n) out" by (metis processed_input.exhaust routed.exhaust)
  show ?thesis
  proof (cases "(\<exists>e. out = PExn e \<and> is_nexus e) \<or> public = PNone")
    case True
    with assms PProcessed p show ?thesis
      by (auto simp: add_successful_task_result_def as_stored_execution_def act_defs Let_def split: pyval.splits if_splits)
  next
    case False
    then have nn: "\<not> (case out of PExn e \<Rightarrow> is_nexus e | _ \<Rightarrow> False)" "public \<noteq> PNone" by (auto split: pyval.splits)
    let ?r = "SuccessfulTaskResult (uuids w) (processing_started result) (processing_finished result)
                (block_at_finish result) v n out public"
    let ?note = "append_user_note c (''Added successful task result for '' @ t @ '' at block ''
                     @ int_text (block_number (block_at_finish result)))"
    obtain rn wn where nt: "?note (w\<lparr>uuids := Suc (uuids w)\<rparr>) = (rn, wn)" by fastforce
    from note_keeps_uuids [OF nt] have u: "uuids wn = Suc (uuids w)" by simp
    have "is_success_for result public ?r" using False PProcessed p by (auto simp: is_success_for_def)
    with assms PProcessed p nn nt u show ?thesis
      by (cases rn) (auto simp: add_successful_task_result_def as_stored_execution_def act_defs Let_def fresh_uuid_def)
  qed
qed (use assms in \<open>auto simp: add_successful_task_result_def as_stored_execution_def act_defs\<close>)

lemma add_failure_cases:
  assumes "add_executor_failure c t result (s, w) = (res, (s', w'))"
  shows "(\<exists>e. res = Inl e \<and> s' = s \<and> w' = w) \<or>
    (\<exists>r. is_failure_for result r \<and> fail_id r = uuids w \<and> s' = insert_failure t r s \<and> uuids w' = Suc (uuids w)
       \<and> (res = Inr r \<or> (\<exists>e. res = Inl e)))"
proof (cases "executor_output result")
  case (PProcessed p)
  obtain v n out where p: "p = ProcessedInput (Routed v n) out" by (metis processed_input.exhaust routed.exhaust)
  show ?thesis
  proof (cases "\<exists>e. out = PExn e \<and> is_executor_failure e")
    case False
    with assms PProcessed p show ?thesis
      by (auto simp: add_executor_failure_def as_stored_execution_def act_defs Let_def split: pyval.splits if_splits)
  next
    case True
    then obtain e where e: "out = PExn e" "is_executor_failure e" by blast
    let ?note = "append_user_note c (''Added executor failure task result for '' @ t @ '' at block ''
                     @ int_text (block_number (block_at_finish result)))"
    obtain rn wn where nt: "?note (w\<lparr>uuids := Suc (uuids w)\<rparr>) = (rn, wn)" by fastforce
    from note_keeps_uuids [OF nt] have u: "uuids wn = Suc (uuids w)" by simp
    have "is_failure_for result (ExecutorFailureTaskResult (uuids w) (processing_started result) (processing_finished result)
                (block_at_finish result) v n e)" using e PProcessed p by (auto simp: is_failure_for_def)
    with assms PProcessed p e nt u show ?thesis
      by (cases rn) (auto simp: add_executor_failure_def as_stored_execution_def act_defs Let_def fresh_uuid_def)
  qed
qed (use assms in \<open>auto simp: add_executor_failure_def as_stored_execution_def act_defs\<close>)

lemma rs_inv_init: "rs_inv (result_store_init, w)"
  by (simp add: rs_inv_def rs_ok_def result_store_init_def dict_has_def entry_or_def succ_history_def fail_history_def
      used_ids_def)

lemma rs_inv_success:
  assumes "rs_inv (s, w)" "add_successful_task_result c t result public (s, w) = (r, (s', w'))"
  shows "rs_inv (s', w')"
proof -
  have inv: "rs_ok s" "used_ids s u \<subseteq> {..<uuids w}" for u using assms(1) by (simp_all add: rs_inv_def)
  from add_success_cases [OF assms(2)] consider "s' = s" "w' = w"
    | k where "succ_id k = uuids w" "s' = insert_success t k s" "uuids w' = Suc (uuids w)" by blast
  then show ?thesis
  proof cases
    case 1
    with assms(1) show ?thesis by simp
  next
    case k: (2 k)
    have "succ_id k \<notin> used_ids s t" using inv(2) k(1) by auto
    from insert_success_ok [OF inv(1) this] used_after_insert(1) [OF inv(1), of t k] inv(2) k show ?thesis
      by (fastforce simp: rs_inv_def lessThan_Suc)
  qed
qed

lemma rs_inv_failure:
  assumes "rs_inv (s, w)" "add_executor_failure c t result (s, w) = (r, (s', w'))"
  shows "rs_inv (s', w')"
proof -
  have inv: "rs_ok s" "used_ids s u \<subseteq> {..<uuids w}" for u using assms(1) by (simp_all add: rs_inv_def)
  from add_failure_cases [OF assms(2)] consider "s' = s" "w' = w"
    | k where "fail_id k = uuids w" "s' = insert_failure t k s" "uuids w' = Suc (uuids w)" by blast
  then show ?thesis
  proof cases
    case 1
    with assms(1) show ?thesis by simp
  next
    case k: (2 k)
    have "fail_id k \<notin> used_ids s t" using inv(2) k(1) by auto
    from insert_failure_ok [OF inv(1) this] used_after_insert(2) [OF inv(1), of t k] inv(2) k show ?thesis
      by (fastforce simp: rs_inv_def lessThan_Suc)
  qed
qed

lemma rs_reach_inv: "rs_reach st \<Longrightarrow> rs_inv st"
proof (induction rule: rs_reach.induct)
  case (success st c t result public r st')
  then show ?case using rs_inv_success by (metis prod.collapse)
next
  case (failure st c t result r st')
  then show ?case using rs_inv_failure by (metis prod.collapse)
next
  case (elsewhere s w w')
  then show ?case by (fastforce simp: rs_inv_def)
qed (rule rs_inv_init)

lemma dict_get_counter: "dict_get (counter ks) k = (if k \<in> set ks then Some (count_list ks k) else None)"
proof -
  have "dict_get (fold (\<lambda>k d. dict_set k (Suc (case dict_get d k of None \<Rightarrow> 0 | Some n \<Rightarrow> n)) d) ks d) k =
      (if k \<in> set ks then Some (count_list ks k + (case dict_get d k of None \<Rightarrow> 0 | Some n \<Rightarrow> n)) else dict_get d k)" for d
    by (induction ks arbitrary: d) auto
  then show ?thesis by (simp add: counter_def)
qed

lemma count_list_map_filter: "count_list (map f xs) k = length (filter (\<lambda>x. f x = k) xs)"
  by (induction xs) auto

text \<open>For a live context the note succeeds, so a fit result is stored and returned.\<close>

lemma add_success_run:
  assumes inv: "store_inv dd w" and x: "dict_get (contexts w) c = Some x" "\<not> is_completed x"
    and r: "is_success_for result public r" "succ_id r = uuids w"
  shows "\<exists>w'. add_successful_task_result c t result public (s, w) = (Inr r, (insert_success t r s, w'))"
proof -
  from r(1) obtain v n out where o: "executor_output result = PProcessed (ProcessedInput (Routed v n) out)"
    "\<not> (\<exists>e. out = PExn e \<and> is_nexus e)" "public \<noteq> PNone"
    "r = SuccessfulTaskResult (succ_id r) (processing_started result) (processing_finished result)
           (block_at_finish result) v n out public"
    by (auto simp: is_success_for_def)
  then have nn: "\<not> (case out of PExn e \<Rightarrow> is_nexus e | _ \<Rightarrow> False)" by (auto split: pyval.splits)
  let ?w = "w\<lparr>uuids := Suc (uuids w)\<rparr>"
  have "store_inv dd ?w" by (rule store_inv_uuids [OF inv]) simp
  from append_user_note_run [OF this, of c x "''Added successful task result for '' @ t @ '' at block ''
                     @ int_text (block_number (block_at_finish result))"] x obtain w' where
    "append_user_note c (''Added successful task result for '' @ t @ '' at block ''
                     @ int_text (block_number (block_at_finish result))) ?w = (Inr (), w')" by auto
  with o(1-3) nn r(2) o(4) show ?thesis
    by (simp add: add_successful_task_result_def as_stored_execution_def act_defs Let_def fresh_uuid_def)
qed

lemma add_failure_run:
  assumes inv: "store_inv dd w" and x: "dict_get (contexts w) c = Some x" "\<not> is_completed x"
    and r: "is_failure_for result r" "fail_id r = uuids w"
  shows "\<exists>w'. add_executor_failure c t result (s, w) = (Inr r, (insert_failure t r s, w'))"
proof -
  from r(1) obtain v n e where o: "executor_output result = PProcessed (ProcessedInput (Routed v n) (PExn e))"
    "is_executor_failure e"
    "r = ExecutorFailureTaskResult (fail_id r) (processing_started result) (processing_finished result)
           (block_at_finish result) v n e"
    by (auto simp: is_failure_for_def)
  let ?w = "w\<lparr>uuids := Suc (uuids w)\<rparr>"
  have "store_inv dd ?w" by (rule store_inv_uuids [OF inv]) simp
  from append_user_note_run [OF this, of c x "''Added executor failure task result for '' @ t @ '' at block ''
                     @ int_text (block_number (block_at_finish result))"] x obtain w' where
    "append_user_note c (''Added executor failure task result for '' @ t @ '' at block ''
                     @ int_text (block_number (block_at_finish result))) ?w = (Inr (), w')" by auto
  with o r(2) show ?thesis
    by (simp add: add_executor_failure_def as_stored_execution_def act_defs Let_def fresh_uuid_def)
qed

section \<open>Properties\<close>

lemma demo_bus_live:
  "dict_get (contexts demo_bus_world) (Uuid 0) = Some (blank_context (Uuid 0))" "\<not> is_completed (blank_context (Uuid 0))"
  by (simp_all add: demo_bus_world_eval blank_context_def)

definition demo_success :: "nat \<Rightarrow> pyval succ_result" where
  "demo_success i = SuccessfulTaskResult i 0 1 \<lparr>block_number = 9, block_timestamp = 0, block_hash = []\<rparr>
      (PInt 1) \<lparr>hotkey = ''hk'', validator_permit = False, axon_ip = ''10.0.0.1'', axon_port = 80, axon_proto = AxonHttp\<rparr>
      (PInt 2) (PInt 3)"

definition demo_neuron :: neuron where
  "demo_neuron = \<lparr>hotkey = ''hk'', validator_permit = False, axon_ip = ''10.0.0.1'', axon_port = 80, axon_proto = AxonHttp\<rparr>"

definition demo_result_at :: "int \<Rightarrow> pyval \<Rightarrow> pyval timestamped" where
  "demo_result_at b out = Timestamped (PProcessed (ProcessedInput (Routed (PInt 1) demo_neuron) out)) 0 1
     \<lparr>block_number = b, block_timestamp = 0, block_hash = []\<rparr>"

text \<open>C24: a success that the store reports as added is found by its id and by every epoch query whose
  epoch holds its block, and by nothing else: all other ids of all tasks, the other tasks' epochs
  and all failures read as before, and the record carries exactly the execution's fields.\<close>

theorem added_success_is_found:
  assumes "rs_reach (s, w)" and "add_successful_task_result c t result public (s, w) = (Inr r, (s', w'))"
  shows "is_success_for result public r
      \<and> get_task_result t (succ_id r) s' = Inr (StoredOk r)
      \<and> get_task_result t (succ_id r) s = Inl (exn_of (TaskResultNotFoundException t (succ_id r)))
      \<and> (\<forall>u i. (u, i) \<noteq> (t, succ_id r) \<longrightarrow> get_task_result u i s' = get_task_result u i s)
      \<and> (\<forall>e. set (get_successful_tasks_for_epoch t e s') =
            set (get_successful_tasks_for_epoch t e s) \<union> (if epoch_contains e (block_number (succ_block r)) then {r} else {}))
      \<and> (\<forall>e u. u \<noteq> t \<longrightarrow> get_successful_tasks_for_epoch u e s' = get_successful_tasks_for_epoch u e s)
      \<and> (\<forall>e u. get_executor_failures_for_epoch u e s' = get_executor_failures_for_epoch u e s)"
proof -
  have ok: "rs_ok s" and sub: "used_ids s t \<subseteq> {..<uuids w}" using rs_reach_inv [OF assms(1)] by (simp_all add: rs_inv_def)
  from add_success_cases [OF assms(2)] have r: "is_success_for result public r" "succ_id r = uuids w" "s' = insert_success t r s"
    by auto
  have fresh: "succ_id r \<notin> used_ids s t" using sub r(2) by auto
  note v = insert_success_views [OF ok, of t r]
  have "get_task_result t (succ_id r) s' = Inr (StoredOk r)" "\<forall>e u. get_executor_failures_for_epoch u e s' = get_executor_failures_for_epoch u e s"
    by (simp_all add: r(3) get_task_result_entry v query_failures)
  moreover have "get_task_result t (succ_id r) s = Inl (exn_of (TaskResultNotFoundException t (succ_id r)))"
    using fresh by (simp add: get_task_result_entry used_ids_def dict_has_def)
  moreover have "get_task_result u i s' = get_task_result u i s" if "(u, i) \<noteq> (t, succ_id r)" for u i
    using that by (auto simp: r(3) get_task_result_entry v)
  moreover have "get_successful_tasks_for_epoch u e s' = get_successful_tasks_for_epoch u e s" if "u \<noteq> t" for u e
    unfolding r(3) by (rule successes.query_add_other [OF ok that])
  moreover have "set (get_successful_tasks_for_epoch t e s') = set (get_successful_tasks_for_epoch t e s) \<union>
      (if epoch_contains e (block_number (succ_block r)) then {r} else {})" for e
    unfolding r(3) successes.query_add [OF ok] by simp
  ultimately show ?thesis using r(1) by blast
qed

theorem added_success_is_found_witness:
  "\<exists>r s' w'. add_successful_task_result (Uuid 0) ''task'' (demo_result_at 9 (PInt 2)) (PInt 3) (result_store_init, demo_bus_world)
       = (Inr r, (s', w'))
     \<and> get_successful_tasks_for_epoch ''task'' \<lparr>first_block = 0, last_block = 10\<rparr> s' = [r]
     \<and> get_task_result ''task'' (succ_id r) s' = Inr (StoredOk r)"
proof -
  let ?r = "demo_success (uuids demo_bus_world)"
  have r: "is_success_for (demo_result_at 9 (PInt 2)) (PInt 3) ?r" "succ_id ?r = uuids demo_bus_world"
    by (simp_all add: is_success_for_def demo_result_at_def demo_success_def demo_neuron_def)
  obtain w' where run: "add_successful_task_result (Uuid 0) ''task'' (demo_result_at 9 (PInt 2)) (PInt 3)
      (result_store_init, demo_bus_world) = (Inr ?r, (insert_success ''task'' ?r result_store_init, w'))"
    using add_success_run [OF store_reach_inv [OF demo_bus_reach plain_diff_ok] demo_bus_live r] by blast
  have query: "get_successful_tasks_for_epoch ''task'' \<lparr>first_block = 0, last_block = 10\<rparr> (insert_success ''task'' ?r result_store_init) = [?r]"
    by (simp add: query_successes insert_success_def ensure_task_def Let_def succ_history_def result_store_init_def dict_has_def
        epoch_contains_def demo_success_def entry_or_def)
  from added_success_is_found [OF rs_reach.empty_store run]
  have found: "get_task_result ''task'' (succ_id ?r) (insert_success ''task'' ?r result_store_init) = Inr (StoredOk ?r)"
    by (elim conjE)
  show ?thesis by (intro exI conjI) (rule run query found)+
qed

text \<open>The same for an executor failure.\<close>

theorem added_failure_is_found:
  assumes "rs_reach (s, w)" and "add_executor_failure c t result (s, w) = (Inr r, (s', w'))"
  shows "is_failure_for result r
      \<and> get_task_result t (fail_id r) s' = Inr (StoredFail r)
      \<and> get_task_result t (fail_id r) s = Inl (exn_of (TaskResultNotFoundException t (fail_id r)))
      \<and> (\<forall>u i. (u, i) \<noteq> (t, fail_id r) \<longrightarrow> get_task_result u i s' = get_task_result u i s)
      \<and> (\<forall>e. set (get_executor_failures_for_epoch t e s') =
            set (get_executor_failures_for_epoch t e s) \<union> (if epoch_contains e (block_number (fail_block r)) then {r} else {}))
      \<and> (\<forall>e u. u \<noteq> t \<longrightarrow> get_executor_failures_for_epoch u e s' = get_executor_failures_for_epoch u e s)
      \<and> (\<forall>e u. get_successful_tasks_for_epoch u e s' = get_successful_tasks_for_epoch u e s)"
proof -
  have ok: "rs_ok s" and sub: "used_ids s t \<subseteq> {..<uuids w}" using rs_reach_inv [OF assms(1)] by (simp_all add: rs_inv_def)
  from add_failure_cases [OF assms(2)] have r: "is_failure_for result r" "fail_id r = uuids w" "s' = insert_failure t r s"
    by auto
  have fresh: "fail_id r \<notin> used_ids s t" using sub r(2) by auto
  note v = insert_failure_views [OF ok, of t r]
  have "get_task_result t (fail_id r) s' = Inr (StoredFail r)" "\<forall>e u. get_successful_tasks_for_epoch u e s' = get_successful_tasks_for_epoch u e s"
    by (simp_all add: r(3) get_task_result_entry v query_successes)
  moreover have "get_task_result t (fail_id r) s = Inl (exn_of (TaskResultNotFoundException t (fail_id r)))"
    using fresh by (simp add: get_task_result_entry used_ids_def dict_has_def)
  moreover have "get_task_result u i s' = get_task_result u i s" if "(u, i) \<noteq> (t, fail_id r)" for u i
    using that by (auto simp: r(3) get_task_result_entry v)
  moreover have "get_executor_failures_for_epoch u e s' = get_executor_failures_for_epoch u e s" if "u \<noteq> t" for u e
    unfolding r(3) by (rule failures.query_add_other [OF ok that])
  moreover have "set (get_executor_failures_for_epoch t e s') = set (get_executor_failures_for_epoch t e s) \<union>
      (if epoch_contains e (block_number (fail_block r)) then {r} else {})" for e
    unfolding r(3) failures.query_add [OF ok] by simp
  ultimately show ?thesis using r(1) by blast
qed

theorem added_failure_is_found_witness:
  "\<exists>r s' w'. add_executor_failure (Uuid 0) ''task'' (demo_result_at 9 (PExn (executor_failure key_error)))
       (result_store_init, demo_bus_world) = (Inr r, (s', w'))
     \<and> get_task_result ''task'' (fail_id r) s' = Inr (StoredFail r)"
proof -
  let ?r = "ExecutorFailureTaskResult (uuids demo_bus_world) 0 1 \<lparr>block_number = 9, block_timestamp = 0, block_hash = []\<rparr>
      (PInt 1) demo_neuron (executor_failure key_error)"
  have r: "is_failure_for (demo_result_at 9 (PExn (executor_failure key_error))) ?r" "fail_id ?r = uuids demo_bus_world"
    by (simp_all add: is_failure_for_def demo_result_at_def)
  obtain w' where run: "add_executor_failure (Uuid 0) ''task'' (demo_result_at 9 (PExn (executor_failure key_error)))
      (result_store_init, demo_bus_world) = (Inr ?r, (insert_failure ''task'' ?r result_store_init, w'))"
    using add_failure_run [OF store_reach_inv [OF demo_bus_reach plain_diff_ok] demo_bus_live r] by blast
  from added_failure_is_found [OF rs_reach.empty_store run]
  have found: "get_task_result ''task'' (fail_id ?r) (insert_failure ''task'' ?r result_store_init) = Inr (StoredFail ?r)"
    by (elim conjE)
  show ?thesis by (intro exI conjI) (rule run found)+
qed

text \<open>In every reachable store an epoch query lists results in the order of their blocks, all of
  them from the epoch, each one found under its own id, and \<open>count_successful_by_hotkey_for_epoch\<close>
  gives for every hotkey the number of them routed to it.\<close>

theorem epoch_queries_are_consistent:
  assumes "rs_reach (s, w)"
  defines "q \<equiv> \<lambda>t e. get_successful_tasks_for_epoch t e s"
  shows "sorted (map (\<lambda>r. block_number (succ_block r)) (q t e))
      \<and> (\<forall>r \<in> set (q t e). epoch_contains e (block_number (succ_block r))
            \<and> get_task_result t (succ_id r) s = Inr (StoredOk r))
      \<and> (\<forall>h. case dict_get (count_successful_by_hotkey_for_epoch t e s) h of
               None \<Rightarrow> h \<notin> (\<lambda>r. hotkey (succ_target r)) ` set (q t e)
             | Some n \<Rightarrow> n = length (filter (\<lambda>r. hotkey (succ_target r) = h) (q t e)))"
proof -
  have ok: "rs_ok s" using rs_reach_inv [OF assms(1)] by (simp add: rs_inv_def)
  have "get_task_result t (succ_id r) s = Inr (StoredOk r)" if "r \<in> set (succ_history s t)" for r
    using rs_ok_get [OF ok that] by (simp add: get_task_result_entry)
  moreover have "count_list (map (\<lambda>r. hotkey (succ_target r)) (q t e)) h = length (filter (\<lambda>r. hotkey (succ_target r) = h) (q t e))" for h
    by (rule count_list_map_filter)
  ultimately show ?thesis
    using successes.query_sorted [of t e s] successes.query_set [of t e s]
    by (auto simp: q_def count_successful_by_hotkey_for_epoch_def dict_get_counter)
qed

theorem epoch_queries_are_consistent_witness:
  "\<exists>s w. rs_reach (s, w :: pyval bus_world) \<and> sorted (map (\<lambda>r. block_number (succ_block r))
     (get_successful_tasks_for_epoch ''task'' \<lparr>first_block = 0, last_block = 10\<rparr> s)) \<and> s \<noteq> result_store_init"
proof -
  let ?r = "demo_success (uuids demo_bus_world)"
  have r: "is_success_for (demo_result_at 9 (PInt 2)) (PInt 3) ?r" "succ_id ?r = uuids demo_bus_world"
    by (simp_all add: is_success_for_def demo_result_at_def demo_success_def demo_neuron_def)
  obtain w' where run: "add_successful_task_result (Uuid 0) ''task'' (demo_result_at 9 (PInt 2)) (PInt 3)
      (result_store_init, demo_bus_world) = (Inr ?r, (insert_success ''task'' ?r result_store_init, w'))"
    using add_success_run [OF store_reach_inv [OF demo_bus_reach plain_diff_ok] demo_bus_live r] by blast
  have reach: "rs_reach (insert_success ''task'' ?r result_store_init, w')"
    by (rule rs_reach.success [OF rs_reach.empty_store run])
  have "insert_success ''task'' ?r result_store_init \<noteq> result_store_init"
    by (simp add: insert_success_def ensure_task_def result_store_init_def dict_has_def Let_def)
  with epoch_queries_are_consistent [OF reach, of "''task''" "\<lparr>first_block = 0, last_block = 10\<rparr>"] reach show ?thesis by blast
qed

text \<open>What must not be stored is refused without any effect: an execution that is not a
  \<open>ProcessedInput\<close>, a success whose output is a \<open>NexusException\<close> or that has no public output, and a
  failure whose output is not an \<open>ExecutorFailureException\<close>.\<close>

theorem unfit_results_are_refused:
  "((\<exists>r. is_success_for result public r)
      \<or> (\<exists>e. add_successful_task_result c t result public (s, w) = (Inl e, (s, w))))
   \<and> ((\<exists>r. is_failure_for result r) \<or> (\<exists>e. add_executor_failure c t result (s, w) = (Inl e, (s, w))))"
  using add_success_cases [of c t result public s w] add_failure_cases [of c t result s w]
  by (metis prod.collapse)

text \<open>A result handed in for a completed context is refused by the context's log only after it has
  been stored: the call raises \<open>ContextCompletedException\<close>, and the result is in the store.\<close>

theorem refused_note_keeps_result:
  fixes w :: "('d, 'x) world_scheme"
  assumes "is_success_for result public r" and "succ_id r = uuids w"
    and "dict_get (contexts w) c = Some x" and "is_completed x"
  shows "add_successful_task_result c t result public (s, w) =
      (Inl (exn_of ContextCompletedException), (insert_success t r s, w\<lparr>uuids := Suc (uuids w)\<rparr>))"
proof -
  from assms(1) obtain v n out where o: "executor_output result = PProcessed (ProcessedInput (Routed v n) out)"
    "\<not> (\<exists>e. out = PExn e \<and> is_nexus e)" "public \<noteq> PNone"
    "r = SuccessfulTaskResult (succ_id r) (processing_started result) (processing_finished result)
           (block_at_finish result) v n out public"
    by (auto simp: is_success_for_def)
  then have "\<not> (case out of PExn e \<Rightarrow> is_nexus e | _ \<Rightarrow> False)" by (auto split: pyval.splits)
  with o assms(2-4) show ?thesis
    by (simp add: add_successful_task_result_def as_stored_execution_def act_defs Let_def fresh_uuid_def append_user_note_def
        the_context_def assert_mutable_def)
qed

theorem refused_note_keeps_result_witness:
  "\<exists>s' w'. add_successful_task_result (Uuid 0) ''task'' (demo_result_at 9 (PInt 2)) (PInt 3) (result_store_init, demo_world)
       = (Inl (exn_of ContextCompletedException), (s', w')) \<and> succ_history s' ''task'' \<noteq> []"
proof -
  let ?r = "SuccessfulTaskResult (uuids demo_world) 0 1 \<lparr>block_number = 9, block_timestamp = 0, block_hash = []\<rparr>
      (PInt 1) demo_neuron (PInt 2) (PInt 3)"
  have "is_success_for (demo_result_at 9 (PInt 2)) (PInt 3) ?r" by (simp add: is_success_for_def demo_result_at_def)
  moreover obtain x where "dict_get (contexts demo_world) (Uuid 0) = Some x" "is_completed x" using demo_contexts(4) by auto
  ultimately show ?thesis
    using refused_note_keeps_result [of "demo_result_at 9 (PInt 2)" "PInt 3" ?r demo_world "Uuid 0" x "''task''" result_store_init]
    by (simp add: insert_success_def Let_def succ_history_def)
qed

end
