(* ===== verification/Communicator.thy ===== *)
theory Communicator
  imports Patterns ResultStore
begin

text \<open>
  The executor communicators that share \<open>base_communicator.py\<close>: the saved input of a context, the
  events that carry a result or a failure, the helpers of \<open>common.py\<close>, and the two communicators
  that run in the process, \<open>embedded_executor_communicator.py\<close> and
  \<open>openrouter_inference_communicator.py\<close>. The executor function and the OpenRouter client are arguments.
\<close>

section \<open>The base of every communicator\<close>

record communicator =
  comm_id :: string
  comm_transform :: transform

definition mk_communicator :: "string \<Rightarrow> communicator" where
  "mk_communicator i = \<lparr>comm_id = i, comm_transform = mk_fork i\<rparr>"

definition comm_sinks :: "communicator \<Rightarrow> exn + node_sinks" where
  "comm_sinks s = node_sinks_init [(''input'', fork_sink (comm_transform s))] None"

definition comm_sources :: "communicator \<Rightarrow> exn + node_sources" where
  "comm_sources s =
     node_sources_init [(''processed'', tr_ok (comm_transform s)), (''error'', tr_error (comm_transform s))]
       (Some (tr_ok (comm_transform s)))"

definition input_user_data_key :: "communicator \<Rightarrow> string" where
  "input_user_data_key s = comm_id s @ ''-saved-input''"

definition store_input_in_context ::
  "'d deepdiff \<Rightarrow> communicator \<Rightarrow> context_id \<Rightarrow> pyval \<Rightarrow> (exn, unit, ('d, 'x) world_scheme) act" where
  "store_input_in_context dd s c v = set_user_data dd c (input_user_data_key s) v"

definition is_routed :: "pyval \<Rightarrow> bool" where
  "is_routed v = (case v of PRouted _ \<Rightarrow> True | _ \<Rightarrow> False)"

definition load_input_from_context ::
  "communicator \<Rightarrow> context_id \<Rightarrow> (exn, pyval routed, ('d, 'x) world_scheme) act" where
  "load_input_from_context s c =
     bind_act (get_user_data c (input_user_data_key s) is_routed) (\<lambda>v.
       case v of PRouted r \<Rightarrow> ret r | _ \<Rightarrow> raise corruption_exn)"

definition processed_event ::
  "communicator \<Rightarrow> context_id \<Rightarrow> pyval \<Rightarrow> (exn, send_event, ('d, 'x) world_scheme) act" where
  "processed_event s c v =
     bind_act (load_input_from_context s c) (\<lambda>r.
       ret (SendEvent c (tr_ok (comm_transform s)) (PProcessed (ProcessedInput r v))))"

definition executor_error_event ::
  "communicator \<Rightarrow> context_id \<Rightarrow> exn \<Rightarrow> (exn, send_event, ('d, 'x) world_scheme) act" where
  "executor_error_event s c e =
     bind_act (load_input_from_context s c) (\<lambda>r.
       ret (SendEvent c (tr_ok (comm_transform s)) (PProcessed (ProcessedInput r (PExn (executor_failure e))))))"

definition internal_error_event :: "communicator \<Rightarrow> context_id \<Rightarrow> exn \<Rightarrow> send_event" where
  "internal_error_event s c e = SendEvent c (tr_error (comm_transform s)) (PExn e)"

definition comm_handle_input ::
  "'d deepdiff \<Rightarrow> communicator \<Rightarrow> (context_id \<Rightarrow> pyval \<Rightarrow> (exn, send_event list, ('d, 'x) world_scheme) act) \<Rightarrow>
     context_id \<Rightarrow> pyval \<Rightarrow> (exn, send_event list, ('d, 'x) world_scheme) act" where
  "comm_handle_input dd s handle_input c v =
     seq_act (store_input_in_context dd s c v) (handle_input c v)"

definition emit_processed :: "communicator \<Rightarrow> context_id \<Rightarrow> pyval \<Rightarrow> (exn, unit, ('d, 'x) bus_world_scheme) act" where
  "emit_processed s c v = bind_act (processed_event s c v) put_bus"

definition emit_executor_error :: "communicator \<Rightarrow> context_id \<Rightarrow> exn \<Rightarrow> (exn, unit, ('d, 'x) bus_world_scheme) act" where
  "emit_executor_error s c e = bind_act (executor_error_event s c e) put_bus"

definition emit_internal_error :: "communicator \<Rightarrow> context_id \<Rightarrow> exn \<Rightarrow> (exn, unit, ('d, 'x) bus_world_scheme) act" where
  "emit_internal_error s c e = put_bus (internal_error_event s c e)"

section \<open>Helpers of the HTTP communicators\<close>

text \<open>The characters \<open>str.strip\<close> removes, among the characters of a HOL string.\<close>

definition is_space :: "char \<Rightarrow> bool" where
  "is_space ch \<longleftrightarrow> of_char ch \<in> ({9, 10, 11, 12, 13, 28, 29, 30, 31, 32, 133, 160} :: nat set)"

definition strip :: "string \<Rightarrow> string" where
  "strip t = rev (dropWhile is_space (rev (dropWhile is_space t)))"

definition normalize_http_path :: "string \<Rightarrow> exn + string" where
  "normalize_http_path path =
     (let normalized = strip path in
      if normalized = [] then Inl (exn_of ActorMisconfiguredException)
      else Inr (if hd normalized = CHR ''/'' then normalized else ''/'' @ normalized))"

definition format_host_for_url :: "string \<Rightarrow> exn + string" where
  "format_host_for_url host =
     (let stripped = strip host in
      if stripped = [] then Inl (exn_of ActorMisconfiguredException)
      else if CHR '':'' \<in> set stripped \<and> \<not> (hd stripped = CHR ''['' \<and> last stripped = CHR '']'')
      then Inr (''['' @ stripped @ '']'')
      else Inr stripped)"

text \<open>A \<open>timedelta\<close> is a number of microseconds.\<close>

definition validate_positive_timeout :: "int \<Rightarrow> exn + unit" where
  "validate_positive_timeout timeout = (if timeout \<le> 0 then Inl (exn_of ActorMisconfiguredException) else Inr ())"

section \<open>Communicators that run in the process\<close>

definition routed_payload :: "pyval \<Rightarrow> exn + pyval" where
  "routed_payload v = (case v of PRouted r \<Rightarrow> Inr (routed_input r) | _ \<Rightarrow> Inl attribute_error)"

definition embedded_handle_input ::
  "(pyval \<Rightarrow> exn + pyval) \<Rightarrow> communicator \<Rightarrow> context_id \<Rightarrow> pyval \<Rightarrow> (exn, send_event list, ('d, 'x) world_scheme) act" where
  "embedded_handle_input executor_func s c v =
     try_act
       (bind_act (lift_act (routed_payload v)) (\<lambda>x.
        bind_act (lift_act (executor_func x)) (\<lambda>out.
        bind_act (processed_event s c out) (\<lambda>ev. ret [ev]))))
       (\<lambda>exc. bind_act (executor_error_event s c (exn_with_cause EmbeddedExecutorFailureException exc)) (\<lambda>ev. ret [ev]))"

text \<open>\<open>client\<close> is the outcome of \<open>get_client\<close>, \<open>query\<close> the client's structured query.\<close>

definition openrouter_handle_input ::
  "exn + unit \<Rightarrow> (pyval \<Rightarrow> exn + pyval) \<Rightarrow> communicator \<Rightarrow> context_id \<Rightarrow> pyval \<Rightarrow>
     (exn, send_event list, ('d, 'x) world_scheme) act" where
  "openrouter_handle_input client query s c v =
     (case client of
        Inl e \<Rightarrow> if is_nexus e then ret [internal_error_event s c e] else raise e
      | Inr _ \<Rightarrow>
          try_act
            (bind_act (lift_act (routed_payload v)) (\<lambda>x.
             bind_act (lift_act (query x)) (\<lambda>out.
             bind_act (processed_event s c out) (\<lambda>ev. ret [ev]))))
            (\<lambda>exc. bind_act (executor_error_event s c
                      (if is_nexus exc then exc else exn_with_cause OpenRouterInferenceExecutorFailure exc)) (\<lambda>ev. ret [ev])))"

section \<open>The saved input\<close>

definition saved_input :: "communicator \<Rightarrow> ('d, 'x) world_scheme \<Rightarrow> context_id \<Rightarrow> pyval routed \<Rightarrow> bool" where
  "saved_input s w c r \<longleftrightarrow>
     c \<in> set (locks w) \<and> (\<exists>x. dict_get (contexts w) c = Some x \<and> dict_get (user_data x) (input_user_data_key s) = Some (PRouted r))"

lemma load_saved: "saved_input s w c r \<Longrightarrow> load_input_from_context s c w = (Inr r, w)"
  by (auto simp: saved_input_def load_input_from_context_def get_user_data_def bind_act_def with_context_known dict_has_def
      copy_user_data_run is_routed_def)

lemma processed_event_saved:
  "saved_input s w c r \<Longrightarrow>
     processed_event s c v w = (Inr (SendEvent c (tr_ok (comm_transform s)) (PProcessed (ProcessedInput r v))), w)"
  by (simp add: processed_event_def bind_act_def load_saved)

lemma executor_error_event_saved:
  "saved_input s w c r \<Longrightarrow> executor_error_event s c e w =
     (Inr (SendEvent c (tr_ok (comm_transform s)) (PProcessed (ProcessedInput r (PExn (executor_failure e))))), w)"
  by (simp add: executor_error_event_def bind_act_def load_saved)

lemma store_input_run:
  assumes "deepdiff_total dd" "store_inv dd w" "dict_get (contexts w) c = Some x" "\<not> is_completed x"
  shows "\<exists>w'. store_input_in_context dd s c v w = (Inr (), w') \<and> store_inv dd w' \<and> locks w' = locks w
      \<and> contexts w' = dict_set c (x\<lparr>user_data := dict_set (input_user_data_key s) v (user_data x)\<rparr>) (contexts w)
      \<and> uuids w' = uuids w \<and> clock w' = clock w \<and> world.more w' = world.more w"
  using set_user_data_run [OF assms, of "input_user_data_key s" v] unfolding store_input_in_context_def logged_def by blast

lemma store_input_saves:
  assumes "deepdiff_total dd" "store_inv dd w" "dict_get (contexts w) c = Some x" "\<not> is_completed x"
  shows "\<exists>w'. store_input_in_context dd s c (PRouted r) w = (Inr (), w') \<and> store_inv dd w' \<and> saved_input s w' c r"
proof -
  from store_input_run [OF assms] obtain w' where w': "store_input_in_context dd s c (PRouted r) w = (Inr (), w')" "store_inv dd w'"
    "contexts w' = dict_set c (x\<lparr>user_data := dict_set (input_user_data_key s) (PRouted r) (user_data x)\<rparr>) (contexts w)" by metis
  from w'(2) have "c \<in> set (locks w')" by (simp add: store_invD(2) w'(3) dict_has_def)
  with w' show ?thesis by (auto simp: saved_input_def)
qed

section \<open>Properties\<close>

text \<open>For a live context, an in-process communicator answers every routed input with exactly one
  message at \<open>processed\<close> that carries the input together with the executor's output, or with its
  exception wrapped in an \<open>ExecutorFailureException\<close>; it never raises.\<close>

theorem embedded_executor_answers:
  fixes w :: "('d, 'x) world_scheme"
  assumes "deepdiff_total dd" and "store_reach dd w" and "dict_get (contexts w) c = Some x" and "\<not> is_completed x"
  shows "\<exists>w'. comm_handle_input dd s (embedded_handle_input f s) c (PRouted r) w =
      (Inr [SendEvent c (tr_ok (comm_transform s)) (PProcessed (ProcessedInput r
         (case f (routed_input r) of
            Inr out \<Rightarrow> out
          | Inl e \<Rightarrow> PExn (executor_failure (exn_with_cause EmbeddedExecutorFailureException e)))))], w')
      \<and> saved_input s w' c r"
proof -
  from store_input_saves [OF assms(1) store_reach_inv [OF assms(2) deepdiff_totalD [OF assms(1)]] assms(3,4)] obtain w' where
    w': "store_input_in_context dd s c (PRouted r) w = (Inr (), w')" "saved_input s w' c r" by blast
  then show ?thesis
    by (intro exI [of _ w'])
      (simp add: comm_handle_input_def seq_act_def bind_act_def embedded_handle_input_def try_act_def lift_act_def
        routed_payload_def processed_event_saved executor_error_event_saved split: sum.split)
qed

theorem embedded_executor_answers_witness:
  "\<exists>w'. comm_handle_input plain_diff (mk_communicator ''e'') (embedded_handle_input (\<lambda>_. Inl key_error) (mk_communicator ''e'')) (Uuid 0)
       (PRouted (Routed (PInt 1) demo_neuron)) demo_bus_world =
     (Inr [SendEvent (Uuid 0) (Source ''e-left-source'') (PProcessed (ProcessedInput (Routed (PInt 1) demo_neuron)
        (PExn (executor_failure (exn_with_cause EmbeddedExecutorFailureException key_error)))))], w')"
  using embedded_executor_answers [OF plain_diff_total demo_bus_reach demo_bus_world_eval(1), of "mk_communicator ''e''" "\<lambda>_. Inl key_error"
      "Routed (PInt 1) demo_neuron"]
  by (simp add: mk_communicator_def) (auto simp: mk_fork_def)

end
