(* ===== verification/Rest.thy ===== *)
theory Rest
  imports Communicator StoreRuns
begin

text \<open>
  The REST entry point: the node and actor of \<open>rest_entry_point.py\<close> and the response store, error
  bodies and request handling of \<open>rest_entry_point_runtime.py\<close>. A future is named by its position
  in the list of all futures ever made. Reading a body, its validation and the JSON form of a
  result are third-party and enter as arguments, and so do the type name and text of an exception.
\<close>

section \<open>Bodies\<close>

datatype json =
    JNull | JBool bool | JInt int | JFloat int int \<comment> \<open>mantissa and binary exponent\<close>
  | JStr string | JList "json list" | JDict "(string \<times> json) list"

datatype http_response = PendingHttpResponse (status_code: int) (response_body: json)

record exn_texts =
  type_name :: "exn \<Rightarrow> string"
  exn_str :: "exn \<Rightarrow> string"

definition exception_message :: "exn_texts \<Rightarrow> exn \<Rightarrow> string" where
  "exception_message t e = (let message = strip (exn_str t e) in if message \<noteq> [] then message else type_name t e)"

definition build_error_body :: "string \<Rightarrow> string \<Rightarrow> (string \<times> string) list \<Rightarrow> json" where
  "build_error_body error_type message causes =
     JDict [(''error'', JDict [(''type'', JStr error_type), (''message'', JStr message),
        (''causes'', JList (map (\<lambda>(ty, msg). JDict [(''type'', JStr ty), (''message'', JStr msg)]) causes))])]"

text \<open>The loop over the causes, \<open>depth\<close> steps before the limit.\<close>

fun error_causes :: "exn_texts \<Rightarrow> nat \<Rightarrow> nat \<Rightarrow> exn option \<Rightarrow> (string \<times> string) list" where
  "error_causes t max_depth depth None = []"
| "error_causes t max_depth 0 (Some e) =
     [(''TruncatedExceptionChain'', ''Cause chain exceeded max depth='' @ nat_text max_depth @ ''.'')]"
| "error_causes t max_depth (Suc depth) (Some e) =
     (type_name t e, exception_message t e)
       # error_causes t max_depth depth (case exn_cause e of None \<Rightarrow> exn_context e | Some c \<Rightarrow> Some c)"

definition exception_to_error_body :: "exn_texts \<Rightarrow> nat \<Rightarrow> exn \<Rightarrow> json" where
  "exception_to_error_body t max_depth e =
     build_error_body (type_name t e) (exception_message t e)
       (error_causes t max_depth max_depth (case exn_cause e of None \<Rightarrow> exn_context e | Some c \<Rightarrow> Some c))"

definition REST_MAX_EXCEPTION_DEPTH :: nat where "REST_MAX_EXCEPTION_DEPTH = 8"

section \<open>Pending responses\<close>

datatype future = FPending | FResult http_response | FCancelled

record 'd rest_world = "'d bus_world" +
  futures :: "future list"
  futures_by_ctx :: "(context_id, nat) dict"
  rest_up :: bool

abbreviation invalid_state_error :: exn where "invalid_state_error \<equiv> exn_of (OtherException ''InvalidStateError'')"

definition future_done :: "nat \<Rightarrow> ('d, 'x) rest_world_scheme \<Rightarrow> bool" where
  "future_done i w \<longleftrightarrow> futures w ! i \<noteq> FPending"

definition future_set_result :: "nat \<Rightarrow> http_response \<Rightarrow> (exn, unit, ('d, 'x) rest_world_scheme) act" where
  "future_set_result i r w =
     (if future_done i w then (Inl invalid_state_error, w)
      else (Inr (), w\<lparr>futures := (futures w)[i := FResult r]\<rparr>))"

definition future_cancel :: "nat \<Rightarrow> (exn, unit, ('d, 'x) rest_world_scheme) act" where
  "future_cancel i w =
     (Inr (), if future_done i w then w else w\<lparr>futures := (futures w)[i := FCancelled]\<rparr>)"

definition futures_create :: "context_id \<Rightarrow> (exn, nat, ('d, 'x) rest_world_scheme) act" where
  "futures_create c w =
     (if dict_has (futures_by_ctx w) c then (Inl framework_exn, w)
      else (Inr (length (futures w)),
            w\<lparr>futures := futures w @ [FPending], futures_by_ctx := dict_set c (length (futures w)) (futures_by_ctx w)\<rparr>))"

definition futures_pop :: "context_id \<Rightarrow> (exn, nat option, ('d, 'x) rest_world_scheme) act" where
  "futures_pop c w = (Inr (dict_get (futures_by_ctx w) c), w\<lparr>futures_by_ctx := dict_del c (futures_by_ctx w)\<rparr>)"

definition futures_resolve :: "context_id \<Rightarrow> http_response \<Rightarrow> (exn, bool, ('d, 'x) rest_world_scheme) act" where
  "futures_resolve c r =
     bind_act (futures_pop c) (\<lambda>f.
       case f of
         None \<Rightarrow> ret False
       | Some i \<Rightarrow>
           bind_act (gets_act (future_done i)) (\<lambda>fin.
             if fin then ret False else seq_act (future_set_result i r) (ret True)))"

definition futures_cancel_all :: "(exn, unit, ('d, 'x) rest_world_scheme) act" where
  "futures_cancel_all =
     bind_act (gets_act (\<lambda>w. map snd (futures_by_ctx w))) (\<lambda>ids.
     seq_act (modify_act (\<lambda>w. w\<lparr>futures_by_ctx := []\<rparr>))
     (seq_act (map_act future_cancel ids) (ret ())))"

section \<open>Requests\<close>

text \<open>\<open>int(text)\<close> for a decimal text: blanks around, a sign, digits with single underscores between
  them, at most 4300 digits.\<close>

definition digit_value :: "char \<Rightarrow> nat option" where
  "digit_value ch = (let n = of_char ch in if 48 \<le> n \<and> n \<le> (57 :: nat) then Some (n - 48) else None)"

fun py_digits :: "bool \<Rightarrow> nat \<Rightarrow> string \<Rightarrow> nat option" where
  "py_digits after_digit acc [] = (if after_digit then Some acc else None)"
| "py_digits after_digit acc (ch # cs) =
     (case digit_value ch of
        Some d \<Rightarrow> py_digits True (10 * acc + d) cs
      | None \<Rightarrow> if ch = CHR ''_'' \<and> after_digit then py_digits False acc cs else None)"

definition py_int :: "string \<Rightarrow> int option" where
  "py_int t =
     (let s = strip t;
          number = (\<lambda>ds. if 4300 < length (filter (\<lambda>ch. digit_value ch \<noteq> None) ds) then None else py_digits False 0 ds)
      in case s of
           [] \<Rightarrow> None
         | ch # ds \<Rightarrow>
             if ch = CHR ''-'' then map_option (\<lambda>n. - int n) (number ds)
             else if ch = CHR ''+'' then map_option int (number ds)
             else map_option int (number s))"

record rest_request =
  rq_path :: string
  rq_method :: string
  rq_content_length :: "string option"
  rq_body :: "exn + string"

record rest_entry_point =
  rest_id :: string
  rest_bind_ip :: string
  rest_path :: string
  rest_port :: int
  rest_source :: source
  rest_sink :: sink

definition rest_entry_point_init :: "string \<Rightarrow> string \<Rightarrow> string \<Rightarrow> int \<Rightarrow> exn + rest_entry_point" where
  "rest_entry_point_init i bind_ip path port =
     (case normalize_http_path path of
        Inl e \<Rightarrow> Inl e
      | Inr p \<Rightarrow> Inr \<lparr>rest_id = i, rest_bind_ip = bind_ip, rest_path = p, rest_port = port,
                      rest_source = Source (i @ ''-source''), rest_sink = Sink (i @ ''-sink'')\<rparr>)"

definition rest_sinks :: "rest_entry_point \<Rightarrow> exn + node_sinks" where
  "rest_sinks s = node_sinks_init [(''miner-responses'', rest_sink s)] None"

definition rest_sources :: "rest_entry_point \<Rightarrow> exn + node_sources" where
  "rest_sources s = node_sources_init [(''user-requests'', rest_source s)] None"

text \<open>A request is answered at once, or waits for the future of its context.\<close>

datatype rest_outcome = Answered int json | Waiting context_id nat

text \<open>\<open>_dispatch_post_request\<close> up to its wait; \<open>accepted\<close> is the outcome of handing the event to the bus.\<close>

definition dispatch_post_request ::
  "(string \<Rightarrow> pyval validated) \<Rightarrow> exn + unit \<Rightarrow> rest_entry_point \<Rightarrow> rest_request \<Rightarrow>
     (exn, rest_outcome, ('d, 'x) rest_world_scheme) act" where
  "dispatch_post_request validate accepted s rq =
     (case rq_content_length rq of
        None \<Rightarrow> ret (Answered 411 (build_error_body ''LengthRequired'' ''Content-Length header is required.'' []))
      | Some header \<Rightarrow>
          (case py_int header of
             None \<Rightarrow> ret (Answered 400 (build_error_body ''InvalidContentLength'' ''Content-Length must be an integer.'' []))
           | Some content_length \<Rightarrow>
               (case rq_body rq of
                  Inl _ \<Rightarrow> ret (Answered 400 (build_error_body ''InvalidRequestBody'' ''Failed reading request body.'' []))
                | Inr body \<Rightarrow>
                    if content_length \<noteq> int (length body)
                    then ret (Answered 400 (build_error_body ''InvalidContentLength''
                           ''Content-Length does not match request body size.'' []))
                    else
                      (case validate body of
                         NotValid msg \<Rightarrow>
                           ret (Answered 400 (build_error_body ''ValidationError'' (''Invalid request body: '' @ msg) []))
                       | Broken _ \<Rightarrow>
                           ret (Answered 400 (build_error_body ''InvalidRequestBody'' ''Request body is not valid JSON.'' []))
                       | Valid model \<Rightarrow>
                           bind_act (create_context []) (\<lambda>c.
                           bind_act (futures_create c) (\<lambda>i.
                           seq_act
                             (try_act (seq_act (lift_act accepted) (put_bus (SendEvent c (rest_source s) model)))
                                (\<lambda>e. seq_act (futures_pop c) (raise e)))
                             (ret (Waiting c i))))))))"

definition dispatch_request ::
  "(string \<Rightarrow> pyval validated) \<Rightarrow> exn + unit \<Rightarrow> rest_entry_point \<Rightarrow> rest_request \<Rightarrow>
     (exn, rest_outcome, ('d, 'x) rest_world_scheme) act" where
  "dispatch_request validate accepted s rq =
     (if rq_path rq \<noteq> rest_path s then ret (Answered 404 (build_error_body ''NotFound'' ''Route not found.'' []))
      else if rq_method rq \<noteq> ''POST''
      then ret (Answered 405 (build_error_body ''MethodNotAllowed'' ''Only POST is supported.'' []))
      else dispatch_post_request validate accepted s rq)"

definition handle_request ::
  "exn_texts \<Rightarrow> (string \<Rightarrow> pyval validated) \<Rightarrow> exn + unit \<Rightarrow> rest_entry_point \<Rightarrow> rest_request \<Rightarrow>
     (exn, rest_outcome, ('d, 'x) rest_world_scheme) act" where
  "handle_request t validate accepted s rq =
     try_act (dispatch_request validate accepted s rq)
       (\<lambda>e. ret (Answered 500 (exception_to_error_body t REST_MAX_EXCEPTION_DEPTH e)))"

text \<open>
  The end of the wait. The future has a result, or it was cancelled by \<open>cancel_all\<close>; or the timeout or
  the cancellation of the request strikes, which first cancels the future. Then the handler
  drops its entry and answers 504 or 503.
\<close>

definition gateway_timeout :: "int \<times> json" where
  "gateway_timeout = (504, build_error_body ''GatewayTimeout'' ''Timed out waiting for task output.'' [])"

definition service_unavailable :: "int \<times> json" where
  "service_unavailable = (503, build_error_body ''ServiceUnavailable'' ''Service is shutting down.'' [])"

definition abandon_request :: "context_id \<Rightarrow> int \<times> json \<Rightarrow> (exn, int \<times> json, ('d, 'x) rest_world_scheme) act" where
  "abandon_request c answer =
     bind_act (futures_pop c) (\<lambda>f. seq_act (case f of None \<Rightarrow> ret () | Some i \<Rightarrow> future_cancel i) (ret answer))"

section \<open>The actor\<close>

definition build_http_response :: "exn_texts \<Rightarrow> (pyval \<Rightarrow> exn + json) \<Rightarrow> pyval \<Rightarrow> http_response" where
  "build_http_response t jsonable v =
     (case v of
        PExn e \<Rightarrow> PendingHttpResponse 500 (exception_to_error_body t REST_MAX_EXCEPTION_DEPTH e)
      | _ \<Rightarrow>
          (case jsonable v of
             Inr j \<Rightarrow> PendingHttpResponse 200 j
           | Inl e \<Rightarrow> PendingHttpResponse 500 (build_error_body ''ResponseSerializationError''
               ''Failed to serialize response payload to JSON.'' [(type_name t e, exception_message t e)])))"

definition handle_response ::
  "exn_texts \<Rightarrow> (pyval \<Rightarrow> exn + json) \<Rightarrow> context_id \<Rightarrow> pyval \<Rightarrow> (exn, send_event list, ('d, 'x) rest_world_scheme) act" where
  "handle_response t jsonable c v = seq_act (futures_resolve c (build_http_response t jsonable v)) (ret [])"

definition rest_on_start :: "exn + unit \<Rightarrow> (exn, unit, ('d, 'x) rest_world_scheme) act" where
  "rest_on_start started =
     bind_act (gets_act rest_up) (\<lambda>up.
       if up then raise runtime_error
       else seq_act (lift_act started) (modify_act (\<lambda>w. w\<lparr>rest_up := True\<rparr>)))"

definition rest_on_stop :: "(exn, unit, ('d, 'x) rest_world_scheme) act" where
  "rest_on_stop = seq_act futures_cancel_all (modify_act (\<lambda>w. w\<lparr>rest_up := False\<rparr>))"

end
