(* ===== verification/RestSafety.thy ===== *)
theory RestSafety
  imports Rest
begin

text \<open>
  What the REST entry point promises: the size of an error body, which requests it lets in, and that
  every request is answered once and only with what was sent back in its own context, under every
  interleaving of requests, responses, timeouts and the stop.
\<close>

section \<open>Error bodies\<close>

lemma next_cause_smaller: "next_cause e = Some c \<Longrightarrow> size c < size e"
  by (cases e) (auto simp: next_cause_def split: option.splits)

lemma cause_chain_exists: "\<exists>es. cause_chain e es"
proof (induction e rule: measure_induct_rule [where f = size])
  case (less e)
  show ?case
  proof (cases "next_cause e")
    case (Some c)
    with less [OF next_cause_smaller] obtain es where "cause_chain c es" by blast
    with Some show ?thesis by (blast intro: cause_chain.because)
  qed (blast intro: cause_chain.root)
qed

definition cause_entry :: "exn_texts \<Rightarrow> exn \<Rightarrow> string \<times> string" where
  "cause_entry t e = (type_name t e, exception_message t e)"

lemma error_causes_chain:
  "cause_chain e es \<Longrightarrow> error_causes t m n (Some e) = map (cause_entry t) (take n es)
     @ (if n < length es then [(''TruncatedExceptionChain'', ''Cause chain exceeded max depth='' @ nat_text m @ ''.'')] else [])"
proof (induction arbitrary: n rule: cause_chain.induct)
  case (root e)
  then show ?case by (cases n) (auto simp: next_cause_def cause_entry_def split: option.splits)
next
  case (because e c es)
  then show ?case by (cases n) (auto simp: next_cause_def cause_entry_def split: option.splits)
qed

section \<open>What a request does to the world\<close>

lemma keeps_rest_fields:
  assumes "keeps_rest m" "m w = (r, w')"
  shows "futures w' = futures (w :: ('d, 'x) rest_world_scheme)" "futures_by_ctx w' = futures_by_ctx w"
    "rest_up w' = rest_up w" "rest_world.more w' = rest_world.more w"
proof -
  from assms have "world.more w' = world.more w" unfolding keeps_rest_def by (metis snd_conv)
  then show "futures w' = futures w" "futures_by_ctx w' = futures_by_ctx w" "rest_up w' = rest_up w"
    "rest_world.more w' = rest_world.more w" by (cases w; cases w'; simp)+
qed

text \<open>The requests that pass the checks, and the model their body holds.\<close>

definition admissible :: "(string \<Rightarrow> pyval validated) \<Rightarrow> rest_entry_point \<Rightarrow> rest_request \<Rightarrow> pyval \<Rightarrow> bool" where
  "admissible validate s rq model \<longleftrightarrow> rq_path rq = rest_path s \<and> rq_method rq = ''POST''
     \<and> (\<exists>header body. rq_content_length rq = Some header \<and> rq_body rq = Inr body
          \<and> py_int header = Some (int (length body)) \<and> validate body = Valid model)"

definition admit_request ::
  "exn + unit \<Rightarrow> rest_entry_point \<Rightarrow> pyval \<Rightarrow> (exn, rest_outcome, ('d, 'x) rest_world_scheme) act" where
  "admit_request accepted s model =
     bind_act (create_context []) (\<lambda>c.
     bind_act (futures_create c) (\<lambda>i.
     seq_act
       (try_act (seq_act (lift_act accepted) (put_bus (SendEvent c (rest_source s) model)))
          (\<lambda>e. seq_act (futures_pop c) (raise e)))
       (ret (Waiting c i))))"

lemma dispatch_request_screens:
  "(\<exists>model. admissible validate s rq model \<and> dispatch_request validate accepted s rq = admit_request accepted s model)
   \<or> ((\<nexists>model. admissible validate s rq model)
      \<and> (\<exists>code body. dispatch_request validate accepted s rq = ret (Answered code body) \<and> code \<in> {400, 404, 405, 411}))"
proof (cases "rq_path rq = rest_path s \<and> rq_method rq = ''POST''")
  case False
  then show ?thesis by (auto simp: dispatch_request_def admissible_def)
next
  case post: True
  show ?thesis
  proof (cases "rq_content_length rq")
    case None
    with post show ?thesis by (auto simp: dispatch_request_def dispatch_post_request_def admissible_def)
  next
    case (Some header)
    show ?thesis
    proof (cases "py_int header")
      case None
      with post Some show ?thesis by (auto simp: dispatch_request_def dispatch_post_request_def admissible_def)
    next
      case len: (Some n)
      with post Some show ?thesis
        by (cases "rq_body rq") (auto simp: dispatch_request_def dispatch_post_request_def admissible_def
            admit_request_def split: validated.splits)
    qed
  qed
qed

lemma admit_request_run:
  fixes w :: "('d, 'x) rest_world_scheme"
  assumes dd: "deepdiff_ok dd" and reach: "store_reach dd w"
    and known: "\<forall>c. dict_has (futures_by_ctx w) c \<longrightarrow> c \<in> Uuid ` {..<uuids w}"
  defines "c \<equiv> Uuid (uuids w)"
  shows "\<exists>w'. admit_request accepted s model w =
         (case accepted of Inr _ \<Rightarrow> Inr (Waiting c (length (futures w))) | Inl e \<Rightarrow> Inl e, w')
      \<and> store_reach dd w' \<and> uuids w' = Suc (uuids w) \<and> contexts w' = dict_set c (blank_context c) (contexts w)
      \<and> futures w' = futures w @ [FPending] \<and> rest_world.more w' = rest_world.more w
      \<and> bus_in w' = bus_in w @ (case accepted of Inr _ \<Rightarrow> [SendEvent c (rest_source s) model] | Inl _ \<Rightarrow> [])
      \<and> (\<forall>c'. dict_get (futures_by_ctx w') c' =
            (if accepted = Inr () \<and> c' = c then Some (length (futures w)) else dict_get (futures_by_ctx w) c'))"
proof -
  have inv: "store_inv dd w" by (rule store_reach_inv [OF reach dd])
  from create_context_run [OF inv, of "[]"] obtain w1 where
    w1: "create_context [] w = (Inr c, w1)" "uuids w1 = Suc (uuids w)" "contexts w1 = dict_set c (blank_context c) (contexts w)"
    by (auto simp: snapshots_of_def initial_data_def blank_context_def c_def)
  have r1: "store_reach dd w1" by (rule store_reach.create [OF reach w1(1)])
  note q = keeps_queues [OF keeps_create_context w1(1)] and f = keeps_rest_fields [OF keeps_create_context w1(1)]
  have new: "\<not> dict_has (futures_by_ctx w1) c" using known by (auto simp: f(2) c_def)
  then have fresh: "dict_get (futures_by_ctx w1) c = None" by (simp add: dict_has_def)
  let ?w2 = "w1\<lparr>futures := futures w @ [FPending], futures_by_ctx := dict_set c (length (futures w)) (futures_by_ctx w)\<rparr>"
  have w2: "futures_create c w1 = (Inr (length (futures w)), ?w2)" using new by (simp add: futures_create_def f)
  show ?thesis
  proof (cases accepted)
    case (Inl e)
    let ?w' = "?w2\<lparr>futures_by_ctx := dict_del c (futures_by_ctx ?w2)\<rparr>"
    have run: "admit_request accepted s model w = (Inl e, ?w')"
      by (simp add: admit_request_def bind_act_apply [of "create_context []" w, OF w1(1)]
          bind_act_apply [of "futures_create c" w1, OF w2] Inl)
        (simp add: act_defs futures_pop_def)
    have reach': "store_reach dd ?w'" by (rule store_reach.env [OF r1]) simp_all
    show ?thesis
      by (rule exI [of _ ?w'], use run reach' in \<open>simp add: Inl w1(2,3) f q fresh [unfolded f(2)]\<close>)
  next
    case (Inr u)
    let ?w' = "?w2\<lparr>bus_in := bus_in w @ [SendEvent c (rest_source s) model]\<rparr>"
    have run: "admit_request accepted s model w = (Inr (Waiting c (length (futures w))), ?w')"
      by (simp add: admit_request_def bind_act_apply [of "create_context []" w, OF w1(1)]
          bind_act_apply [of "futures_create c" w1, OF w2] Inr)
        (simp add: act_defs put_bus_def q)
    have reach': "store_reach dd ?w'" by (rule store_reach.env [OF r1]) simp_all
    show ?thesis
      by (rule exI [of _ ?w'], use run reach' in \<open>simp add: Inr w1(2,3) f q\<close>)
  qed
qed

lemma handle_request_cases:
  fixes w :: "('d, 'x) rest_world_scheme"
  assumes dd: "deepdiff_ok dd" and reach: "store_reach dd w"
    and known: "\<forall>c. dict_has (futures_by_ctx w) c \<longrightarrow> c \<in> Uuid ` {..<uuids w}"
    and run: "handle_request t validate accepted s rq w = (r, w')"
  obtains
    (refused) code body where "r = Inr (Answered code body)" "code \<in> {400, 404, 405, 411}" "w' = w"
      "\<nexists>model. admissible validate s rq model"
  | (failed) e model where "accepted = Inl e" "admissible validate s rq model"
      "r = Inr (Answered 500 (exception_to_error_body t REST_MAX_EXCEPTION_DEPTH e))"
      "store_reach dd w'" "uuids w' = Suc (uuids w)" "futures w' = futures w @ [FPending]"
      "rest_world.more w' = rest_world.more w" "\<forall>c. dict_get (futures_by_ctx w') c = dict_get (futures_by_ctx w) c"
  | (entered) model where "accepted = Inr ()" "admissible validate s rq model"
      "r = Inr (Waiting (Uuid (uuids w)) (length (futures w)))"
      "store_reach dd w'" "uuids w' = Suc (uuids w)" "futures w' = futures w @ [FPending]"
      "rest_world.more w' = rest_world.more w"
      "\<forall>c. dict_get (futures_by_ctx w') c = (if c = Uuid (uuids w) then Some (length (futures w)) else dict_get (futures_by_ctx w) c)"
      "contexts w' = dict_set (Uuid (uuids w)) (blank_context (Uuid (uuids w))) (contexts w)"
      "bus_in w' = bus_in w @ [SendEvent (Uuid (uuids w)) (rest_source s) model]"
  using dispatch_request_screens [of validate s rq accepted]
proof (elim disjE)
  assume "(\<nexists>model. admissible validate s rq model)
    \<and> (\<exists>code body. (dispatch_request validate accepted s rq :: (exn, rest_outcome, ('d, 'x) rest_world_scheme) act)
          = ret (Answered code body) \<and> code \<in> {400, 404, 405, 411})"
  then obtain code body where no: "\<nexists>model. admissible validate s rq model"
    and code: "(dispatch_request validate accepted s rq :: (exn, rest_outcome, ('d, 'x) rest_world_scheme) act)
          = ret (Answered code body)" "code \<in> {400, 404, 405, 411}" by (elim conjE exE)
  have "r = Inr (Answered code body)" "w' = w" using run by (simp_all add: handle_request_def code(1) try_act_def)
  with no code(2) show thesis by (intro refused)
next
  assume "\<exists>model. admissible validate s rq model
      \<and> (dispatch_request validate accepted s rq :: (exn, rest_outcome, ('d, 'x) rest_world_scheme) act)
          = admit_request accepted s model"
  then obtain model where ok: "admissible validate s rq model"
    and d: "(dispatch_request validate accepted s rq :: (exn, rest_outcome, ('d, 'x) rest_world_scheme) act)
          = admit_request accepted s model" by (elim conjE exE)
  from admit_request_run [OF dd reach known, of accepted s model] obtain w1 where
    w1: "admit_request accepted s model w =
         (case accepted of Inr _ \<Rightarrow> Inr (Waiting (Uuid (uuids w)) (length (futures w))) | Inl e \<Rightarrow> Inl e, w1)"
    and frame: "store_reach dd w1" "uuids w1 = Suc (uuids w)"
      "contexts w1 = dict_set (Uuid (uuids w)) (blank_context (Uuid (uuids w))) (contexts w)"
      "futures w1 = futures w @ [FPending]" "rest_world.more w1 = rest_world.more w"
      "bus_in w1 = bus_in w @ (case accepted of Inr _ \<Rightarrow> [SendEvent (Uuid (uuids w)) (rest_source s) model] | Inl _ \<Rightarrow> [])"
      "\<forall>c'. dict_get (futures_by_ctx w1) c' =
            (if accepted = Inr () \<and> c' = Uuid (uuids w) then Some (length (futures w)) else dict_get (futures_by_ctx w) c')"
    by (elim exE conjE)
  show thesis
  proof (cases accepted)
    case (Inl e)
    have "r = Inr (Answered 500 (exception_to_error_body t REST_MAX_EXCEPTION_DEPTH e))" "w' = w1"
      using run w1 unfolding handle_request_def try_act_def d by (simp_all add: Inl)
    with Inl ok frame show thesis by (intro failed) simp_all
  next
    case (Inr u)
    have "r = Inr (Waiting (Uuid (uuids w)) (length (futures w)))" "w' = w1"
      using run w1 unfolding handle_request_def try_act_def d by (simp_all add: Inr)
    with Inr ok frame show thesis by (intro entered) simp_all
  qed
qed

section \<open>Interleavings\<close>

text \<open>
  The handler of a request waits, or has left the wait with an answer. \<open>resolve\<close> holds its lock only
  for the pop, so the actor that delivers a response is seen between the pop, the test of \<open>done()\<close>
  and \<open>set_result\<close>. \<open>answers\<close> and \<open>handed\<close> record what clients got and what the actor was given.
\<close>

datatype rest_phase = Awaiting | Leaving "int \<times> json"

datatype resolve_phase = NoResponse | Taken nat http_response | Checked nat http_response

record 'd rest_sys = "'d rest_world" +
  open_requests :: "(context_id, nat \<times> rest_phase) dict"
  answers :: "(context_id \<times> (int \<times> json)) list"
  handed :: "(context_id \<times> pyval) list"
  resolving :: resolve_phase

inductive rest_reach ::
  "'d deepdiff \<Rightarrow> exn_texts \<Rightarrow> (string \<Rightarrow> pyval validated) \<Rightarrow> (pyval \<Rightarrow> exn + json) \<Rightarrow> rest_entry_point \<Rightarrow> 'd rest_sys \<Rightarrow> bool"
  for dd t validate jsonable s where
  start: "store_reach dd w \<Longrightarrow> futures w = [] \<Longrightarrow> futures_by_ctx w = [] \<Longrightarrow> open_requests w = [] \<Longrightarrow>
     answers w = [] \<Longrightarrow> handed w = [] \<Longrightarrow> resolving w = NoResponse \<Longrightarrow> rest_reach dd t validate jsonable s w"
| elsewhere: "rest_reach dd t validate jsonable s w \<Longrightarrow> store_reach dd w' \<Longrightarrow> uuids w \<le> uuids w' \<Longrightarrow>
     futures w' = futures w \<Longrightarrow> futures_by_ctx w' = futures_by_ctx w \<Longrightarrow> rest_world.more w' = rest_world.more w \<Longrightarrow>
     rest_reach dd t validate jsonable s w'"
| refuse: "rest_reach dd t validate jsonable s w \<Longrightarrow>
     handle_request t validate accepted s rq w = (Inr (Answered code body), w') \<Longrightarrow> rest_reach dd t validate jsonable s w'"
| accept: "rest_reach dd t validate jsonable s w \<Longrightarrow>
     handle_request t validate accepted s rq w = (Inr (Waiting c i), w') \<Longrightarrow>
     rest_reach dd t validate jsonable s (w'\<lparr>open_requests := dict_set c (i, Awaiting) (open_requests w')\<rparr>)"
| take: "rest_reach dd t validate jsonable s w \<Longrightarrow> resolving w = NoResponse \<Longrightarrow> dict_has (contexts w) c \<Longrightarrow>
     futures_pop c w = (Inr f, w') \<Longrightarrow>
     rest_reach dd t validate jsonable s (w'\<lparr>handed := handed w' @ [(c, v)],
       resolving := (case f of None \<Rightarrow> NoResponse | Some i \<Rightarrow> Taken i (build_http_response t jsonable v))\<rparr>)"
| check: "rest_reach dd t validate jsonable s w \<Longrightarrow> resolving w = Taken i r \<Longrightarrow>
     rest_reach dd t validate jsonable s (w\<lparr>resolving := (if future_done i w then NoResponse else Checked i r)\<rparr>)"
| deliver: "rest_reach dd t validate jsonable s w \<Longrightarrow> resolving w = Checked i r \<Longrightarrow>
     future_set_result i r w = (res, w') \<Longrightarrow> rest_reach dd t validate jsonable s (w'\<lparr>resolving := NoResponse\<rparr>)"
| answer: "rest_reach dd t validate jsonable s w \<Longrightarrow> dict_get (open_requests w) c = Some (i, Awaiting) \<Longrightarrow>
     futures w ! i = FResult r \<Longrightarrow>
     rest_reach dd t validate jsonable s (w\<lparr>open_requests := dict_del c (open_requests w),
       answers := answers w @ [(c, status_code r, response_body r)]\<rparr>)"
| cancelled: "rest_reach dd t validate jsonable s w \<Longrightarrow> dict_get (open_requests w) c = Some (i, Awaiting) \<Longrightarrow>
     futures w ! i = FCancelled \<Longrightarrow>
     rest_reach dd t validate jsonable s
       (w\<lparr>open_requests := dict_set c (i, Leaving service_unavailable) (open_requests w)\<rparr>)"
| interrupt: "rest_reach dd t validate jsonable s w \<Longrightarrow> dict_get (open_requests w) c = Some (i, Awaiting) \<Longrightarrow>
     a \<in> {gateway_timeout, service_unavailable} \<Longrightarrow> future_cancel i w = (res, w') \<Longrightarrow>
     rest_reach dd t validate jsonable s (w'\<lparr>open_requests := dict_set c (i, Leaving a) (open_requests w')\<rparr>)"
| leave: "rest_reach dd t validate jsonable s w \<Longrightarrow> dict_get (open_requests w) c = Some (i, Leaving a) \<Longrightarrow>
     abandon_request c a w = (Inr a', w') \<Longrightarrow>
     rest_reach dd t validate jsonable s (w'\<lparr>open_requests := dict_del c (open_requests w'), answers := answers w' @ [(c, a')]\<rparr>)"
| stop: "rest_reach dd t validate jsonable s w \<Longrightarrow> futures_cancel_all w = (res, w') \<Longrightarrow> rest_reach dd t validate jsonable s w'"

section \<open>The invariant\<close>

definition ids_ok :: "'d rest_sys \<Rightarrow> bool" where
  "ids_ok w \<longleftrightarrow> (\<forall>c. dict_has (open_requests w) c \<or> c \<in> fst ` set (answers w) \<or> dict_has (handed w) c \<longrightarrow> c \<in> Uuid ` {..<uuids w})
     \<and> distinct (map fst (answers w)) \<and> (\<forall>c \<in> fst ` set (answers w). dict_get (open_requests w) c = None)"

definition entries_ok :: "'d rest_sys \<Rightarrow> bool" where
  "entries_ok w \<longleftrightarrow> (\<forall>c i. dict_get (futures_by_ctx w) c = Some i \<longrightarrow>
     (\<exists>p. dict_get (open_requests w) c = Some (i, p)) \<and> dict_get (handed w) c = None)"

definition open_ok :: "'d rest_sys \<Rightarrow> bool" where
  "open_ok w \<longleftrightarrow> (\<forall>c i p. dict_get (open_requests w) c = Some (i, p) \<longrightarrow> i < length (futures w)
       \<and> (\<forall>a. p = Leaving a \<longrightarrow> a \<in> {gateway_timeout, service_unavailable})
       \<and> (\<forall>c' p'. dict_get (open_requests w) c' = Some (i, p') \<longrightarrow> c = c'))"

definition carries :: "'d rest_sys \<Rightarrow> nat \<Rightarrow> http_response \<Rightarrow> bool" where
  "carries w i r \<longleftrightarrow> resolving w = Taken i r \<or> resolving w = Checked i r"

definition results_ok :: "exn_texts \<Rightarrow> (pyval \<Rightarrow> exn + json) \<Rightarrow> 'd rest_sys \<Rightarrow> bool" where
  "results_ok t jsonable w \<longleftrightarrow> (\<forall>i r. carries w i r \<longrightarrow> i < length (futures w))
     \<and> (\<forall>c i p r. dict_get (open_requests w) c = Some (i, p) \<longrightarrow> futures w ! i = FResult r \<or> carries w i r \<longrightarrow>
          (\<exists>v. dict_get (handed w) c = Some v \<and> r = build_http_response t jsonable v))"

definition answers_ok :: "exn_texts \<Rightarrow> (pyval \<Rightarrow> exn + json) \<Rightarrow> 'd rest_sys \<Rightarrow> bool" where
  "answers_ok t jsonable w \<longleftrightarrow> (\<forall>(c, a) \<in> set (answers w). a \<in> {gateway_timeout, service_unavailable}
     \<or> (\<exists>v. dict_get (handed w) c = Some v
          \<and> a = (status_code (build_http_response t jsonable v), response_body (build_http_response t jsonable v))))"

definition rest_ok :: "'d deepdiff \<Rightarrow> exn_texts \<Rightarrow> (pyval \<Rightarrow> exn + json) \<Rightarrow> 'd rest_sys \<Rightarrow> bool" where
  "rest_ok dd t jsonable w \<longleftrightarrow>
     store_reach dd w \<and> ids_ok w \<and> entries_ok w \<and> open_ok w \<and> results_ok t jsonable w \<and> answers_ok t jsonable w"

lemma entries_okD:
  "entries_ok w \<Longrightarrow> dict_get (futures_by_ctx w) c = Some i \<Longrightarrow>
     (\<exists>p. dict_get (open_requests w) c = Some (i, p)) \<and> dict_get (handed w) c = None"
  by (simp add: entries_ok_def)

lemma open_okD:
  assumes "open_ok w" "dict_get (open_requests w) c = Some (i, p)"
  shows "i < length (futures w)" "p = Leaving a \<Longrightarrow> a \<in> {gateway_timeout, service_unavailable}"
    "dict_get (open_requests w) c' = Some (i, p') \<Longrightarrow> c = c'"
  using assms(1) [unfolded open_ok_def, rule_format, OF assms(2)] by blast+

lemma open_okI:
  assumes "\<And>c i p. dict_get (open_requests w) c = Some (i, p) \<Longrightarrow> i < length (futures w)"
    and "\<And>c i a. dict_get (open_requests w) c = Some (i, Leaving a) \<Longrightarrow> a \<in> {gateway_timeout, service_unavailable}"
    and "\<And>c i p c' p'. dict_get (open_requests w) c = Some (i, p) \<Longrightarrow> dict_get (open_requests w) c' = Some (i, p') \<Longrightarrow> c = c'"
  shows "open_ok w"
  unfolding open_ok_def using assms by (intro allI impI conjI) simp_all

lemma results_okD:
  assumes "results_ok t jsonable w"
  shows "carries w i r \<Longrightarrow> i < length (futures w)"
    "dict_get (open_requests w) c = Some (i, p) \<Longrightarrow> futures w ! i = FResult r \<or> carries w i r \<Longrightarrow>
       \<exists>v. dict_get (handed w) c = Some v \<and> r = build_http_response t jsonable v"
  using assms unfolding results_ok_def by blast+

lemma results_okI:
  assumes "\<And>i r. carries w i r \<Longrightarrow> i < length (futures w)"
    and "\<And>c i p r. dict_get (open_requests w) c = Some (i, p) \<Longrightarrow> futures w ! i = FResult r \<or> carries w i r \<Longrightarrow>
       \<exists>v. dict_get (handed w) c = Some v \<and> r = build_http_response t jsonable v"
  shows "results_ok t jsonable w"
  unfolding results_ok_def using assms by (intro allI impI conjI) simp_all

lemma rest_ok_known:
  assumes "rest_ok dd t jsonable w" "dict_has (futures_by_ctx w) c"
  shows "c \<in> Uuid ` {..<uuids w}"
proof -
  have e: "entries_ok w" and i: "ids_ok w" using assms(1) by (simp_all add: rest_ok_def)
  from assms(2) obtain j where "dict_get (futures_by_ctx w) c = Some j" by (auto simp: dict_has_def)
  with e obtain p where "dict_get (open_requests w) c = Some (j, p)" unfolding entries_ok_def by blast
  then have "dict_has (open_requests w) c" by (simp add: dict_has_def)
  with i show ?thesis unfolding ids_ok_def by blast
qed

text \<open>Steps that move the rest of the system, drop entries of the store or cancel futures.\<close>

lemma rest_ok_frame:
  assumes ok: "rest_ok dd t jsonable w" and "store_reach dd w'" "uuids w \<le> uuids w'"
    and grow: "length (futures w) \<le> length (futures w')"
    and res: "\<And>j r. j < length (futures w) \<Longrightarrow> futures w' ! j = FResult r \<Longrightarrow> futures w ! j = FResult r"
    and more: "rest_world.more w' = rest_world.more w"
    and drop: "\<forall>c i. dict_get (futures_by_ctx w') c = Some i \<longrightarrow> dict_get (futures_by_ctx w) c = Some i"
  shows "rest_ok dd t jsonable w'"
proof -
  have same: "open_requests w' = open_requests w" "answers w' = answers w" "handed w' = handed w" "resolving w' = resolving w"
    using more by (cases w; cases w'; simp)+
  have parts: "ids_ok w" "entries_ok w" "open_ok w" "results_ok t jsonable w" "answers_ok t jsonable w"
    using ok by (simp_all add: rest_ok_def)
  have "ids_ok w'" using parts(1) assms(3) unfolding ids_ok_def same by (meson image_mono lessThan_subset_iff subsetD)
  moreover have "entries_ok w'" using parts(2) drop unfolding entries_ok_def same by blast
  moreover have "open_ok w'"
    unfolding open_ok_def same
  proof (intro allI impI)
    fix c i p assume "dict_get (open_requests w) c = Some (i, p)"
    from parts(3) [unfolded open_ok_def, rule_format, OF this] grow
    show "i < length (futures w') \<and> (\<forall>a. p = Leaving a \<longrightarrow> a \<in> {gateway_timeout, service_unavailable})
        \<and> (\<forall>c' p'. dict_get (open_requests w) c' = Some (i, p') \<longrightarrow> c = c')" by simp
  qed
  moreover have "results_ok t jsonable w'"
  proof -
    have "i < length (futures w)" if "dict_get (open_requests w) c = Some (i, p)" for c i p
      using parts(3) that unfolding open_ok_def by blast
    with parts(4) grow res show ?thesis unfolding results_ok_def carries_def same by (meson order_less_le_trans)
  qed
  moreover have "answers_ok t jsonable w'" using parts(5) by (simp add: answers_ok_def same)
  ultimately show ?thesis using assms(2) by (simp add: rest_ok_def)
qed

lemma rest_ok_enter:
  assumes ok: "rest_ok dd t jsonable w" and "store_reach dd w'" "uuids w' = Suc (uuids w)"
    and futs: "futures w' = futures w @ [FPending]" and more: "rest_world.more w' = rest_world.more w"
    and new: "\<forall>c. dict_get (futures_by_ctx w') c =
        (if c = Uuid (uuids w) then Some (length (futures w)) else dict_get (futures_by_ctx w) c)"
  shows "rest_ok dd t jsonable
      (w'\<lparr>open_requests := dict_set (Uuid (uuids w)) (length (futures w), Awaiting) (open_requests w')\<rparr>)" (is "rest_ok _ _ _ ?v")
proof -
  let ?c = "Uuid (uuids w)" and ?i = "length (futures w)"
  have same: "open_requests w' = open_requests w" "answers w' = answers w" "handed w' = handed w" "resolving w' = resolving w"
    using more by (cases w; cases w'; simp)+
  have parts: "ids_ok w" "entries_ok w" "open_ok w" "results_ok t jsonable w" "answers_ok t jsonable w"
    using ok by (simp_all add: rest_ok_def)
  have "?c \<notin> Uuid ` {..<uuids w}" by auto
  with parts(1) have fresh: "\<not> dict_has (open_requests w) ?c" "?c \<notin> fst ` set (answers w)" "\<not> dict_has (handed w) ?c"
    unfolding ids_ok_def by blast+
  then have none: "dict_get (open_requests w) ?c = None" "dict_get (handed w) ?c = None"
    by (simp_all only: dict_has_def not_not)
  have lt: "i < ?i" if "dict_get (open_requests w) c = Some (i, p)" for c i p
    using parts(3) that unfolding open_ok_def by blast
  have opens: "dict_get (open_requests ?v) c = (if c = ?c then Some (?i, Awaiting) else dict_get (open_requests w) c)" for c
    by (simp add: same)
  have "store_reach dd ?v" by (rule store_reach.env [OF assms(2)]) simp_all
  moreover have "ids_ok ?v"
  proof -
    have has: "dict_has (open_requests ?v) c \<longleftrightarrow> c = ?c \<or> dict_has (open_requests w) c" for c by (simp add: dict_has_def same)
    have "{..<uuids ?v} = insert (uuids w) {..<uuids w}" by (simp add: assms(3) lessThan_Suc)
    moreover have "\<forall>c \<in> fst ` set (answers w). dict_get (open_requests ?v) c = None"
      using parts(1) fresh(2) unfolding ids_ok_def opens by auto
    ultimately show ?thesis using parts(1) unfolding ids_ok_def has by (simp add: same)
  qed
  moreover have "entries_ok ?v" using parts(2) none unfolding entries_ok_def opens by (auto simp: new same)
  moreover have "open_ok ?v"
  proof -
    have "dict_get (open_requests w) c \<noteq> Some (?i, p)" for c p using lt by blast
    with parts(3) lt show ?thesis unfolding open_ok_def opens by (auto simp: futs less_Suc_eq split: if_splits)
  qed
  moreover have "results_ok t jsonable ?v"
  proof -
    have "(futures w @ [FPending]) ! i = futures w ! i" if "dict_get (open_requests w) c = Some (i, p)" for c i p
      using lt [OF that] by (simp add: nth_append)
    moreover have "\<not> carries w ?i r" for r using parts(4) unfolding results_ok_def by blast
    ultimately show ?thesis
      using parts(4) unfolding results_ok_def opens by (auto simp: futs same carries_def less_Suc_eq split: if_splits)
  qed
  moreover have "answers_ok t jsonable ?v" using parts(5) by (simp add: answers_ok_def same)
  ultimately show ?thesis by (simp add: rest_ok_def)
qed

lemma dict_get_append: "dict_get (xs @ [(c, v)]) c' = (case dict_get xs c' of None \<Rightarrow> if c' = c then Some v else None | Some u \<Rightarrow> Some u)"
  by (induction xs) auto

lemma known_context_id: "store_inv dd w \<Longrightarrow> dict_has (contexts w) c \<Longrightarrow> c \<in> Uuid ` {..<uuids w}"
proof -
  assume inv: "store_inv dd w" and "dict_has (contexts w) c"
  then obtain x where "dict_get (contexts w) c = Some x" by (auto simp: dict_has_def)
  from store_inv_known(1) [OF inv this] inv show "c \<in> Uuid ` {..<uuids w}" unfolding store_inv_def by blast
qed

lemma rest_ok_take:
  assumes dd: "deepdiff_ok dd" and ok: "rest_ok dd t jsonable w" and idle: "resolving w = NoResponse"
    and known: "dict_has (contexts w) c" and pop: "futures_pop c w = (Inr f, w')"
  shows "rest_ok dd t jsonable (w'\<lparr>handed := handed w' @ [(c, v)],
       resolving := (case f of None \<Rightarrow> NoResponse | Some i \<Rightarrow> Taken i (build_http_response t jsonable v))\<rparr>)" (is "rest_ok _ _ _ ?v")
proof -
  have parts: "store_reach dd w" "ids_ok w" "entries_ok w" "open_ok w" "results_ok t jsonable w" "answers_ok t jsonable w"
    using ok by (simp_all add: rest_ok_def)
  have w': "w' = w\<lparr>futures_by_ctx := dict_del c (futures_by_ctx w)\<rparr>" "f = dict_get (futures_by_ctx w) c"
    using pop by (simp_all add: futures_pop_def)
  have c: "c \<in> Uuid ` {..<uuids w}" by (rule known_context_id [OF store_reach_inv [OF parts(1) dd] known])
  have same: "open_requests ?v = open_requests w" "answers ?v = answers w" "futures ?v = futures w" "uuids ?v = uuids w"
    by (simp_all add: w'(1))
  have handed: "dict_get (handed ?v) c' = (case dict_get (handed w) c' of None \<Rightarrow> if c' = c then Some v else None | Some u \<Rightarrow> Some u)" for c'
  proof -
    have "handed ?v = handed w @ [(c, v)]" by (simp add: w'(1))
    then show ?thesis by (simp only: dict_get_append)
  qed
  have kept: "dict_get (handed ?v) c' = Some u" if "dict_get (handed w) c' = Some u" for c' u using that unfolding handed by simp
  have "store_reach dd ?v" by (rule store_reach.env [OF parts(1)]) (simp_all add: w'(1))
  moreover have "ids_ok ?v"
  proof -
    have "dict_has (handed ?v) c' \<longleftrightarrow> dict_has (handed w) c' \<or> c' = c" for c'
      unfolding dict_has_def handed by (simp split: option.split)
    note has = this
    have "c' \<in> Uuid ` {..<uuids w}"
      if "dict_has (open_requests w) c' \<or> c' \<in> fst ` set (answers w) \<or> dict_has (handed w) c' \<or> c' = c" for c'
    proof (cases "c' = c")
      case False
      with that have "dict_has (open_requests w) c' \<or> c' \<in> fst ` set (answers w) \<or> dict_has (handed w) c'" by simp
      with parts(2) show ?thesis unfolding ids_ok_def by blast
    qed (use c in simp)
    with parts(2) show ?thesis unfolding ids_ok_def same has by simp
  qed
  moreover have "entries_ok ?v"
  proof -
    have "(\<exists>p. dict_get (open_requests w) c' = Some (i, p)) \<and> dict_get (handed ?v) c' = None"
      if "dict_get (dict_del c (futures_by_ctx w)) c' = Some i" for c' i
    proof -
      have "c' \<noteq> c" "dict_get (futures_by_ctx w) c' = Some i" using that by (simp_all split: if_splits)
      with parts(3) [unfolded entries_ok_def, rule_format, of c' i] show ?thesis unfolding handed by simp
    qed
    then show ?thesis unfolding entries_ok_def same by (simp add: w'(1))
  qed
  moreover have "open_ok ?v" using parts(4) unfolding open_ok_def same .
  moreover have "results_ok t jsonable ?v"
  proof -
    have carry: "dict_get (futures_by_ctx w) c = Some i \<and> r = build_http_response t jsonable v" if "carries ?v i r" for i r
      using that w'(2) by (auto simp: carries_def split: option.splits)
    have free: "\<not> carries w i r" for i r by (simp add: carries_def idle)
    have mine: "\<exists>p. dict_get (open_requests w) c = Some (i, p)" "dict_get (handed w) c = None" if car: "carries ?v i r" for i r
      using entries_okD [OF parts(3) carry [OF car, THEN conjunct1]] by blast+
    show ?thesis
    proof (rule results_okI, unfold same)
      show "i < length (futures w)" if "carries ?v i r" for i r using mine(1) [OF that] open_okD(1) [OF parts(4)] by blast
      show "\<exists>u. dict_get (handed ?v) c' = Some u \<and> r = build_http_response t jsonable u"
        if op: "dict_get (open_requests w) c' = Some (i, p)" and "futures w ! i = FResult r \<or> carries ?v i r" for c' i p r
        using that(2)
      proof
        assume "futures w ! i = FResult r"
        with results_okD(2) [OF parts(5) op] obtain u where "dict_get (handed w) c' = Some u" "r = build_http_response t jsonable u"
          by blast
        with kept [of c' u] show ?thesis by (intro exI [of _ u] conjI)
      next
        assume car: "carries ?v i r"
        from mine(1) [OF car] open_okD(3) [OF parts(4) op] have "c' = c" by blast
        with carry [OF car] mine(2) [OF car] show ?thesis unfolding handed by simp
      qed
    qed
  qed
  moreover have "answers_ok t jsonable ?v" using parts(6) kept unfolding answers_ok_def same by blast
  ultimately show ?thesis by (simp add: rest_ok_def)
qed

lemma rest_ok_resolving:
  assumes ok: "rest_ok dd t jsonable w" and less: "\<And>i r. carries (w\<lparr>resolving := q\<rparr>) i r \<Longrightarrow> carries w i r"
  shows "rest_ok dd t jsonable (w\<lparr>resolving := q\<rparr>)"
proof -
  have reach: "store_reach dd w" using ok by (simp add: rest_ok_def)
  have "store_reach dd (w\<lparr>resolving := q\<rparr>)" by (rule store_reach.env [OF reach]) simp_all
  moreover have "results_ok t jsonable (w\<lparr>resolving := q\<rparr>)"
  proof -
    have r: "results_ok t jsonable w" using ok by (simp add: rest_ok_def)
    show ?thesis
    proof (rule results_okI)
      fix i r assume "carries (w\<lparr>resolving := q\<rparr>) i r"
      from results_okD(1) [OF r less [OF this]] show "i < length (futures (w\<lparr>resolving := q\<rparr>))" by simp
    next
      fix c i p r
      assume op: "dict_get (open_requests (w\<lparr>resolving := q\<rparr>)) c = Some (i, p)"
        and "futures (w\<lparr>resolving := q\<rparr>) ! i = FResult r \<or> carries (w\<lparr>resolving := q\<rparr>) i r"
      then have "futures w ! i = FResult r \<or> carries w i r" using less by auto
      with results_okD(2) [OF r, of c i p r] op
      show "\<exists>v. dict_get (handed (w\<lparr>resolving := q\<rparr>)) c = Some v \<and> r = build_http_response t jsonable v" by simp
    qed
  qed
  ultimately show ?thesis using ok
    by (simp add: rest_ok_def ids_ok_def entries_ok_def open_ok_def answers_ok_def)
qed

text \<open>Delivery: the future that carries the response gets it, or the actor gets an exception.\<close>

lemma rest_ok_deliver:
  assumes ok: "rest_ok dd t jsonable w" and car: "resolving w = Checked i r" and run: "future_set_result i r w = (res, w')"
  shows "rest_ok dd t jsonable (w'\<lparr>resolving := NoResponse\<rparr>)"
proof (cases "future_done i w")
  case True
  with run have "w' = w" by (simp add: future_set_result_def)
  with rest_ok_resolving [OF ok, of NoResponse] show ?thesis by (simp add: carries_def)
next
  case False
  let ?v = "w\<lparr>futures := (futures w)[i := FResult r]\<rparr>"
  have w': "w' = ?v" using run False by (simp add: future_set_result_def)
  have parts: "store_reach dd w" "ids_ok w" "entries_ok w" "open_ok w" "results_ok t jsonable w" "answers_ok t jsonable w"
    using ok by (simp_all add: rest_ok_def)
  have "store_reach dd ?v" by (rule store_reach.env [OF parts(1)]) simp_all
  moreover have "results_ok t jsonable ?v"
  proof -
    have same: "carries ?v j q \<longleftrightarrow> carries w j q" for j q by (simp add: carries_def)
    have here: "carries w i r" by (simp add: carries_def car)
    have lt: "j < length (futures w)" if "dict_get (open_requests w) c = Some (j, p)" for c j p
      using parts(4) that unfolding open_ok_def by blast
    have "\<exists>u. dict_get (handed w) c = Some u \<and> q = build_http_response t jsonable u"
      if op: "dict_get (open_requests w) c = Some (j, p)" and "(futures w)[i := FResult r] ! j = FResult q \<or> carries w j q" for c j p q
    proof -
      have "futures w ! j = FResult q \<or> carries w j q"
        using that(2) lt [OF op] here by (cases "j = i") auto
      with parts(5) op show ?thesis unfolding results_ok_def by blast
    qed
    with parts(5) show ?thesis unfolding results_ok_def same by simp
  qed
  ultimately have "rest_ok dd t jsonable ?v" using parts
    by (simp add: rest_ok_def ids_ok_def entries_ok_def open_ok_def answers_ok_def)
  then show ?thesis unfolding w' by (rule rest_ok_resolving) (simp add: carries_def)
qed

text \<open>A handler leaves its wait, or answers.\<close>

lemma rest_ok_phase:
  assumes ok: "rest_ok dd t jsonable w" and op: "dict_get (open_requests w) c = Some (i, p)"
    and a: "a \<in> {gateway_timeout, service_unavailable}"
  shows "rest_ok dd t jsonable (w\<lparr>open_requests := dict_set c (i, Leaving a) (open_requests w)\<rparr>)" (is "rest_ok _ _ _ ?v")
proof -
  have parts: "store_reach dd w" "ids_ok w" "entries_ok w" "open_ok w" "results_ok t jsonable w" "answers_ok t jsonable w"
    using ok by (simp_all add: rest_ok_def)
  have opens: "dict_get (open_requests ?v) c' = (if c' = c then Some (i, Leaving a) else dict_get (open_requests w) c')" for c' by simp
  have has: "dict_has (open_requests ?v) c' \<longleftrightarrow> dict_has (open_requests w) c'" for c' using op by (simp add: dict_has_def)
  have none: "dict_get (open_requests ?v) c' = None \<longleftrightarrow> dict_get (open_requests w) c' = None" for c' using op by simp
  have some: "(\<exists>p'. dict_get (open_requests ?v) c' = Some (j, p')) \<longleftrightarrow> (\<exists>p'. dict_get (open_requests w) c' = Some (j, p'))" for c' j
    using op by auto
  have "store_reach dd ?v" by (rule store_reach.env [OF parts(1)]) simp_all
  moreover have "ids_ok ?v" using parts(2) unfolding ids_ok_def has none by simp
  moreover have "entries_ok ?v" using parts(3) unfolding entries_ok_def some by simp
  moreover have "open_ok ?v"
  proof -
    have o: "j < length (futures w)" "\<forall>b. q = Leaving b \<longrightarrow> b \<in> {gateway_timeout, service_unavailable}"
      "\<And>c2 p2. dict_get (open_requests w) c2 = Some (j, p2) \<Longrightarrow> c1 = c2"
      if "dict_get (open_requests w) c1 = Some (j, q)" for c1 j q
      using parts(4) that unfolding open_ok_def by blast+
    show ?thesis unfolding open_ok_def
    proof (intro allI impI conjI)
      fix c1 j q assume c1: "dict_get (open_requests ?v) c1 = Some (j, q)"
      then obtain q' where q': "dict_get (open_requests w) c1 = Some (j, q')" using op by (auto split: if_splits)
      show "j < length (futures ?v)" using o(1) [OF q'] by simp
      show "b \<in> {gateway_timeout, service_unavailable}" if "q = Leaving b" for b
      proof (cases "c1 = c")
        case True
        with c1 that have "b = a" by simp
        with a show ?thesis by simp
      next
        case False
        with c1 that have "dict_get (open_requests w) c1 = Some (j, Leaving b)" by simp
        from o(2) [OF this] show ?thesis by blast
      qed
      show "c1 = c2" if "dict_get (open_requests ?v) c2 = Some (j, p2)" for c2 p2
      proof -
        from that obtain q2 where "dict_get (open_requests w) c2 = Some (j, q2)" using op by (auto split: if_splits)
        with o(3) [OF q'] show ?thesis .
      qed
    qed
  qed
  moreover have "results_ok t jsonable ?v"
  proof -
    have same: "carries ?v j q \<longleftrightarrow> carries w j q" for j q by (simp add: carries_def)
    show ?thesis
    proof (rule results_okI, unfold same)
      show "j < length (futures ?v)" if "carries w j q" for j q using results_okD(1) [OF parts(5) that] by simp
      fix c' j p' q
      assume "dict_get (open_requests ?v) c' = Some (j, p')" and q: "futures ?v ! j = FResult q \<or> carries w j q"
      with some obtain p2 where "dict_get (open_requests w) c' = Some (j, p2)" by blast
      from results_okD(2) [OF parts(5) this, of q] q
      show "\<exists>v. dict_get (handed ?v) c' = Some v \<and> q = build_http_response t jsonable v" by simp
    qed
  qed
  moreover have "answers_ok t jsonable ?v" using parts(6) by (simp add: answers_ok_def)
  ultimately show ?thesis by (simp add: rest_ok_def)
qed

lemma rest_ok_answer:
  assumes ok: "rest_ok dd t jsonable w" and op: "dict_get (open_requests w) c = Some (i, p)"
    and gone: "dict_get (futures_by_ctx w) c = None"
    and a: "a \<in> {gateway_timeout, service_unavailable}
      \<or> (\<exists>v. dict_get (handed w) c = Some v
           \<and> a = (status_code (build_http_response t jsonable v), response_body (build_http_response t jsonable v)))"
  shows "rest_ok dd t jsonable (w\<lparr>open_requests := dict_del c (open_requests w), answers := answers w @ [(c, a)]\<rparr>)"
    (is "rest_ok _ _ _ ?v")
proof -
  have parts: "store_reach dd w" "ids_ok w" "entries_ok w" "open_ok w" "results_ok t jsonable w" "answers_ok t jsonable w"
    using ok by (simp_all add: rest_ok_def)
  have was: "dict_get (open_requests w) c' = Some (j, q)" "c' \<noteq> c" if "dict_get (open_requests ?v) c' = Some (j, q)" for c' j q
    using that by (auto split: if_splits)
  have new: "c \<notin> fst ` set (answers w)" using parts(2) op unfolding ids_ok_def by (metis option.distinct(1))
  have "store_reach dd ?v" by (rule store_reach.env [OF parts(1)]) simp_all
  moreover have "ids_ok ?v"
  proof -
    have known: "c \<in> Uuid ` {..<uuids w}" using parts(2) op unfolding ids_ok_def dict_has_def by (metis option.distinct(1))
    have has: "dict_has (open_requests ?v) c' \<Longrightarrow> dict_has (open_requests w) c'" for c' by (simp add: dict_has_def split: if_splits)
    have "distinct (map fst (answers ?v))" using parts(2) new by (simp add: ids_ok_def)
    moreover have "\<forall>c' \<in> fst ` set (answers ?v). dict_get (open_requests ?v) c' = None"
      using parts(2) by (auto simp: ids_ok_def)
    moreover have "c' \<in> Uuid ` {..<uuids w}"
      if "dict_has (open_requests ?v) c' \<or> c' \<in> fst ` set (answers ?v) \<or> dict_has (handed ?v) c'" for c'
    proof (cases "c' = c")
      case False
      with that have "dict_has (open_requests w) c' \<or> c' \<in> fst ` set (answers w) \<or> dict_has (handed w) c'"
        using has by auto
      with parts(2) show ?thesis unfolding ids_ok_def by blast
    qed (use known in simp)
    ultimately show ?thesis unfolding ids_ok_def by simp
  qed
  moreover have "entries_ok ?v"
  proof -
    have "(\<exists>q. dict_get (open_requests ?v) c' = Some (j, q)) \<and> dict_get (handed w) c' = None"
      if e: "dict_get (futures_by_ctx w) c' = Some j" for c' j
    proof -
      have "c' \<noteq> c" using e gone by auto
      with parts(3) [unfolded entries_ok_def, rule_format, OF e] show ?thesis by simp
    qed
    then show ?thesis unfolding entries_ok_def by simp
  qed
  moreover have "open_ok ?v"
  proof (rule open_okI)
    fix c1 j q assume "dict_get (open_requests ?v) c1 = Some (j, q)"
    note w1 = was(1) [OF this]
    show "j < length (futures ?v)" using open_okD(1) [OF parts(4) w1] by simp
    show "c1 = c2" if "dict_get (open_requests ?v) c2 = Some (j, q2)" for c2 q2
      by (rule open_okD(3) [OF parts(4) w1 was(1) [OF that]])
  next
    fix c1 j b assume "dict_get (open_requests ?v) c1 = Some (j, Leaving b)"
    from open_okD(2) [OF parts(4) was(1) [OF this] refl] show "b \<in> {gateway_timeout, service_unavailable}" .
  qed
  moreover have "results_ok t jsonable ?v"
  proof -
    have same: "carries ?v j q \<longleftrightarrow> carries w j q" for j q by (simp add: carries_def)
    show ?thesis
    proof (rule results_okI, unfold same)
      show "j < length (futures ?v)" if "carries w j q" for j q using results_okD(1) [OF parts(5) that] by simp
      fix c1 j q r
      assume "dict_get (open_requests ?v) c1 = Some (j, q)" and r: "futures ?v ! j = FResult r \<or> carries w j r"
      from results_okD(2) [OF parts(5) was(1) [OF this(1)], of r] r
      show "\<exists>v. dict_get (handed ?v) c1 = Some v \<and> r = build_http_response t jsonable v" by simp
    qed
  qed
  moreover have "answers_ok t jsonable ?v"
  proof -
    have eq: "set (answers ?v) = insert (c, a) (set (answers w))" "handed ?v = handed w" by simp_all
    from parts(6) a show ?thesis unfolding answers_ok_def eq by blast
  qed
  ultimately show ?thesis by (simp add: rest_ok_def)
qed

text \<open>Cancelling a list of futures.\<close>

definition cancel_list :: "nat list \<Rightarrow> ('d, 'x) rest_world_scheme \<Rightarrow> ('d, 'x) rest_world_scheme" where
  "cancel_list is w = fold (\<lambda>i w. if future_done i w then w else w\<lparr>futures := (futures w)[i := FCancelled]\<rparr>) is w"

lemma cancel_list_simps [simp]:
  "cancel_list [] w = w"
  "cancel_list (i # is) w = cancel_list is (if future_done i w then w else w\<lparr>futures := (futures w)[i := FCancelled]\<rparr>)"
  by (simp_all add: cancel_list_def)

lemma cancel_list_run: "\<exists>us. map_act future_cancel is w = (Inr us, cancel_list is w)"
proof (induction "is" arbitrary: w)
  case (Cons i "is")
  let ?w = "if future_done i w then w else w\<lparr>futures := (futures w)[i := FCancelled]\<rparr>"
  from Cons.IH [of ?w] obtain us where "map_act future_cancel is ?w = (Inr us, cancel_list is ?w)" by blast
  then have rest: "map_act future_cancel is ?w = (Inr us, cancel_list (i # is) w)" by (simp only: cancel_list_simps)
  have "future_cancel i w = (Inr (), ?w)" by (simp add: future_cancel_def)
  with rest have "map_act future_cancel (i # is) w = (Inr (() # us), cancel_list (i # is) w)"
    by (simp only: map_act.simps bind_act_def prod.case sum.case ret_apply)
  then show ?case by blast
qed simp

lemma cancel_list_frame:
  "length (futures (cancel_list is w)) = length (futures w)" "rest_world.more (cancel_list is w) = rest_world.more w"
  "futures_by_ctx (cancel_list is w) = futures_by_ctx w" "persistence (cancel_list is w) = persistence w"
  "contexts (cancel_list is w) = contexts w" "locks (cancel_list is w) = locks w" "uuids (cancel_list is w) = uuids w"
  by (induction "is" arbitrary: w) simp_all

lemma cancel_list_results:
  "futures (cancel_list is w) ! j = FResult r \<Longrightarrow> j < length (futures w) \<Longrightarrow> futures w ! j = FResult r"
proof (induction "is" arbitrary: w)
  case (Cons i "is")
  let ?w = "if future_done i w then w else w\<lparr>futures := (futures w)[i := FCancelled]\<rparr>"
  have "futures ?w ! j = FResult r" using Cons.IH [of ?w] Cons.prems by simp
  then show ?case using Cons.prems(2) by (cases "j = i") (auto split: if_splits)
qed simp

lemma rest_ok_cancelled_futures:
  assumes ok: "rest_ok dd t jsonable w"
    and drop: "\<And>c i. dict_get d c = Some i \<Longrightarrow> dict_get (futures_by_ctx w) c = Some i"
  shows "rest_ok dd t jsonable (cancel_list is (w\<lparr>futures_by_ctx := d\<rparr>))"
proof (rule rest_ok_frame [OF ok])
  have "store_reach dd w" using ok by (simp add: rest_ok_def)
  then show "store_reach dd (cancel_list is (w\<lparr>futures_by_ctx := d\<rparr>))"
    by (rule store_reach.env) (simp_all add: cancel_list_frame)
  show "futures w ! j = FResult r"
    if "j < length (futures w)" "futures (cancel_list is (w\<lparr>futures_by_ctx := d\<rparr>)) ! j = FResult r" for j r
    using cancel_list_results [OF that(2)] that(1) by simp
qed (use drop in \<open>simp_all add: cancel_list_frame\<close>)

section \<open>Every reachable state\<close>

lemma rest_reach_ok:
  assumes "rest_reach dd t validate jsonable s w" and dd: "deepdiff_ok dd"
  shows "rest_ok dd t jsonable w"
  using assms(1)
proof (induction rule: rest_reach.induct)
  case (start w)
  then show ?case by (simp add: rest_ok_def ids_ok_def entries_ok_def open_ok_def results_ok_def carries_def answers_ok_def dict_has_def)
next
  case (elsewhere w w')
  show ?case by (rule rest_ok_frame [OF elsewhere.IH elsewhere(2,3)]) (simp_all add: elsewhere)
next
  case (refuse w accepted rq code body w')
  have reach: "store_reach dd w" using refuse.IH by (simp add: rest_ok_def)
  have known: "\<forall>c. dict_has (futures_by_ctx w) c \<longrightarrow> c \<in> Uuid ` {..<uuids w}" using rest_ok_known [OF refuse.IH] by blast
  show ?case
  proof (rule handle_request_cases [OF dd reach known refuse.hyps(2)], goal_cases)
    case 1
    with refuse.IH show ?case by simp
  next
    case (2 e model)
    show ?case by (rule rest_ok_frame [OF refuse.IH 2(4)]) (simp_all add: 2 nth_append)
  next
    case (3 model)
    then show ?case by simp
  qed
next
  case (accept w accepted rq c i w')
  have reach: "store_reach dd w" using accept.IH by (simp add: rest_ok_def)
  have known: "\<forall>c. dict_has (futures_by_ctx w) c \<longrightarrow> c \<in> Uuid ` {..<uuids w}" using rest_ok_known [OF accept.IH] by blast
  show ?case
  proof (rule handle_request_cases [OF dd reach known accept.hyps(2)], goal_cases)
    case (3 model)
    then have "c = Uuid (uuids w)" "i = length (futures w)" by simp_all
    with rest_ok_enter [OF accept.IH 3(4,5,6,7,8)] show ?case by simp
  qed simp_all
next
  case (take w c f w' v)
  show ?case by (rule rest_ok_take [OF dd take.IH take.hyps(2-4)])
next
  case (check w i r)
  show ?case by (rule rest_ok_resolving [OF check.IH]) (use check.hyps in \<open>auto simp: carries_def split: if_splits\<close>)
next
  case (deliver w i r res w')
  show ?case by (rule rest_ok_deliver [OF deliver.IH deliver.hyps(2,3)])
next
  case (answer w c i r)
  have parts: "entries_ok w" "results_ok t jsonable w" using answer.IH by (simp_all add: rest_ok_def)
  from results_okD(2) [OF parts(2) answer.hyps(2)] answer.hyps(3)
  obtain v where v: "dict_get (handed w) c = Some v" "r = build_http_response t jsonable v" by blast
  have "dict_get (futures_by_ctx w) c = None"
  proof (cases "dict_get (futures_by_ctx w) c")
    case (Some j)
    from entries_okD [OF parts(1) this] v(1) show ?thesis by simp
  qed
  then show ?case by (rule rest_ok_answer [OF answer.IH answer.hyps(2)]) (use v in simp)
next
  case (cancelled w c i)
  show ?case by (rule rest_ok_phase [OF cancelled.IH cancelled.hyps(2)]) simp
next
  case (interrupt w c i a res w')
  have w': "w' = (if future_done i w then w else w\<lparr>futures := (futures w)[i := FCancelled]\<rparr>)"
    using interrupt.hyps(4) by (simp add: future_cancel_def)
  have "rest_ok dd t jsonable w'"
    using rest_ok_cancelled_futures [OF interrupt.IH, of "futures_by_ctx w" "[i]"] by (simp add: w' future_done_def)
  moreover have "dict_get (open_requests w') c = Some (i, Awaiting)" using interrupt.hyps(2) by (simp add: w')
  ultimately show ?case using interrupt.hyps(3) by (rule rest_ok_phase)
next
  case (leave w c i a a' w')
  have a: "a \<in> {gateway_timeout, service_unavailable}"
    using open_okD(2) [OF _ leave.hyps(2) refl] leave.IH by (simp add: rest_ok_def)
  let ?d = "dict_del c (futures_by_ctx w)"
  have w': "a' = a" "w' = cancel_list (case dict_get (futures_by_ctx w) c of None \<Rightarrow> [] | Some j \<Rightarrow> [j]) (w\<lparr>futures_by_ctx := ?d\<rparr>)"
    using leave.hyps(3)
    by (auto simp: abandon_request_def futures_pop_def act_defs future_cancel_def future_done_def cancel_list_def split: option.splits if_splits)
  have ok: "rest_ok dd t jsonable w'"
    unfolding w'(2) by (rule rest_ok_cancelled_futures [OF leave.IH]) (simp_all split: if_splits)
  have same: "open_requests w' = open_requests w" "futures_by_ctx w' = ?d" by (simp_all add: w' split: option.split)
  show ?case by (rule rest_ok_answer [OF ok]) (use leave.hyps(2) a w'(1) same in simp_all)
next
  case (stop w res w')
  have "w' = cancel_list (map snd (futures_by_ctx w)) (w\<lparr>futures_by_ctx := []\<rparr>)"
    using stop.hyps(2) cancel_list_run [of "map snd (futures_by_ctx w)" "w\<lparr>futures_by_ctx := []\<rparr>"]
    by (auto simp: futures_cancel_all_def act_defs)
  moreover have "rest_ok dd t jsonable (cancel_list (map snd (futures_by_ctx w)) (w\<lparr>futures_by_ctx := []\<rparr>))"
    by (rule rest_ok_cancelled_futures [OF stop.IH]) simp
  ultimately show ?case by simp
qed

section \<open>A prompt response, and one that races with the timeout\<close>

lemma entered_request:
  assumes dd: "deepdiff_ok dd" and reach: "rest_reach dd t validate jsonable s w"
    and run: "handle_request t validate (Inr ()) s rq w = (Inr (Waiting c i), w')"
  defines "w1 \<equiv> w'\<lparr>open_requests := dict_set c (i, Awaiting) (open_requests w')\<rparr>"
  shows "rest_reach dd t validate jsonable s w1" "dict_get (futures_by_ctx w1) c = Some i" "futures w1 ! i = FPending"
    "i < length (futures w1)" "dict_has (contexts w1) c" "resolving w1 = resolving w"
    "dict_get (open_requests w1) c = Some (i, Awaiting)" "dict_get (handed w1) c = None"
proof -
  have ok: "rest_ok dd t jsonable w" by (rule rest_reach_ok [OF reach dd])
  then have st: "store_reach dd w" by (simp add: rest_ok_def)
  have known: "\<forall>c. dict_has (futures_by_ctx w) c \<longrightarrow> c \<in> Uuid ` {..<uuids w}" using rest_ok_known [OF ok] by blast
  have "c = Uuid (uuids w) \<and> i = length (futures w) \<and> futures w' = futures w @ [FPending]
      \<and> rest_world.more w' = rest_world.more w \<and> dict_get (futures_by_ctx w') c = Some i \<and> dict_has (contexts w') c"
    by (rule handle_request_cases [OF dd st known run]) (simp_all add: dict_has_def)
  then have f: "futures w' = futures w @ [FPending]" "i = length (futures w)" "rest_world.more w' = rest_world.more w"
    "dict_get (futures_by_ctx w') c = Some i" "dict_has (contexts w') c" by blast+
  have same: "resolving w' = resolving w" using f(3) by (cases w; cases w'; simp)
  show r: "rest_reach dd t validate jsonable s w1" unfolding w1_def by (rule rest_reach.accept [OF reach run])
  show e: "dict_get (futures_by_ctx w1) c = Some i" by (simp add: w1_def f)
  show "futures w1 ! i = FPending" "i < length (futures w1)" "dict_has (contexts w1) c" "resolving w1 = resolving w"
    "dict_get (open_requests w1) c = Some (i, Awaiting)" by (simp_all add: w1_def f same)
  show "dict_get (handed w1) c = None" using entries_okD [OF _ e] rest_reach_ok [OF r dd] by (simp add: rest_ok_def)
qed

text \<open>When the actor delivers before anything else happens, the client gets the response.\<close>

lemma prompt_response:
  assumes dd: "deepdiff_ok dd" and reach: "rest_reach dd t validate jsonable s w" and idle: "resolving w = NoResponse"
    and run: "handle_request t validate (Inr ()) s rq w = (Inr (Waiting c i), w')"
  shows "\<exists>w2. rest_reach dd t validate jsonable s w2
      \<and> (c, status_code (build_http_response t jsonable v), response_body (build_http_response t jsonable v)) \<in> set (answers w2)"
proof -
  let ?r = "build_http_response t jsonable v"
  let ?w1 = "w'\<lparr>open_requests := dict_set c (i, Awaiting) (open_requests w')\<rparr>"
  note in1 = entered_request [OF dd reach run]
  let ?p = "?w1\<lparr>futures_by_ctx := dict_del c (futures_by_ctx ?w1)\<rparr>"
  have pop: "futures_pop c ?w1 = (Inr (Some i), ?p)" using in1(2) by (simp add: futures_pop_def)
  let ?w2 = "?p\<lparr>handed := handed ?p @ [(c, v)], resolving := Taken i ?r\<rparr>"
  have r2: "rest_reach dd t validate jsonable s ?w2"
    using rest_reach.take [OF in1(1) _ in1(5) pop, of v] in1(6) idle by simp
  let ?w3 = "?w2\<lparr>resolving := Checked i ?r\<rparr>"
  have r3: "rest_reach dd t validate jsonable s ?w3"
    using rest_reach.check [OF r2, of i ?r] in1(3) by (simp add: future_done_def)
  let ?w4 = "?w3\<lparr>futures := (futures ?w3)[i := FResult ?r], resolving := NoResponse\<rparr>"
  have r4: "rest_reach dd t validate jsonable s ?w4"
    using rest_reach.deliver [OF r3, of i ?r "Inr ()" "?w3\<lparr>futures := (futures ?w3)[i := FResult ?r]\<rparr>"] in1(3)
    by (simp add: future_set_result_def future_done_def)
  let ?w5 = "?w4\<lparr>open_requests := dict_del c (open_requests ?w4), answers := answers ?w4 @ [(c, status_code ?r, response_body ?r)]\<rparr>"
  have "rest_reach dd t validate jsonable s ?w5"
    using in1(4) by (intro rest_reach.answer [OF r4, of c i ?r]) simp_all
  then show ?thesis by (intro exI [of _ ?w5]) simp
qed

text \<open>
  \<open>resolve\<close> tests \<open>done()\<close> and sets the result in two steps outside its lock: a timeout between them
  cancels the future, and the handler of the response raises.
\<close>

theorem resolve_races_with_timeout:
  assumes dd: "deepdiff_ok dd" and reach: "rest_reach dd t validate jsonable s w" and idle: "resolving w = NoResponse"
    and run: "handle_request t validate (Inr ()) s rq w = (Inr (Waiting c i), w')"
  shows "\<exists>w2 r. rest_reach dd t validate jsonable s w2 \<and> resolving w2 = Checked i r
      \<and> future_set_result i r w2 = (Inl invalid_state_error, w2)"
proof -
  let ?r = "build_http_response t jsonable PNone"
  let ?w1 = "w'\<lparr>open_requests := dict_set c (i, Awaiting) (open_requests w')\<rparr>"
  note in1 = entered_request [OF dd reach run]
  let ?p = "?w1\<lparr>futures_by_ctx := dict_del c (futures_by_ctx ?w1)\<rparr>"
  have pop: "futures_pop c ?w1 = (Inr (Some i), ?p)" using in1(2) by (simp add: futures_pop_def)
  let ?w2 = "?p\<lparr>handed := handed ?p @ [(c, PNone)], resolving := Taken i ?r\<rparr>"
  have r2: "rest_reach dd t validate jsonable s ?w2"
    using rest_reach.take [OF in1(1) _ in1(5) pop, of PNone] in1(6) idle by simp
  let ?w3 = "?w2\<lparr>resolving := Checked i ?r\<rparr>"
  have r3: "rest_reach dd t validate jsonable s ?w3"
    using rest_reach.check [OF r2, of i ?r] in1(3) by (simp add: future_done_def)
  let ?c = "?w3\<lparr>futures := (futures ?w3)[i := FCancelled]\<rparr>"
  let ?w4 = "?c\<lparr>open_requests := dict_set c (i, Leaving gateway_timeout) (open_requests ?c)\<rparr>"
  have "rest_reach dd t validate jsonable s ?w4"
    using in1(3) by (intro rest_reach.interrupt [OF r3, of c i _ "Inr ()"]) (simp_all add: future_cancel_def future_done_def)
  then show ?thesis
    using in1(4) by (intro exI [of _ ?w4] exI [of _ ?r] conjI) (simp_all add: future_set_result_def future_done_def)
qed

section \<open>A concrete entry point, for the witnesses\<close>

definition demo_texts :: exn_texts where
  "demo_texts = \<lparr>type_name = (\<lambda>e. if is_nexus e then ''NexusException'' else ''Exception''), exn_str = exn_msg\<rparr>"

definition demo_entry_point :: rest_entry_point where
  "demo_entry_point = \<lparr>rest_id = ''api'', rest_bind_ip = ''0.0.0.0'', rest_path = ''/run'', rest_port = 8000,
     rest_source = Source ''api-source'', rest_sink = Sink ''api-sink''\<rparr>"

definition demo_rest_request :: "string \<Rightarrow> rest_request" where
  "demo_rest_request header = \<lparr>rq_path = ''/run'', rq_method = ''POST'', rq_content_length = Some header, rq_body = Inr ''hi''\<rparr>"

abbreviation demo_validate :: "string \<Rightarrow> pyval validated" where
  "demo_validate \<equiv> \<lambda>body. Valid (PStr body)"

abbreviation demo_jsonable :: "pyval \<Rightarrow> exn + json" where
  "demo_jsonable \<equiv> \<lambda>v. case v of PStr t \<Rightarrow> Inr (JStr t) | _ \<Rightarrow> Inl value_error"

definition rest_sys_init :: "'d rest_sys" where
  "rest_sys_init = \<lparr>persistence = mem_persistence_init, contexts = [], locks = [], uuids = 0, clock = int, ticks = 0,
     bus_in = [], inbox = \<lambda>_. [], futures = [], futures_by_ctx = [], rest_up = True,
     open_requests = [], answers = [], handed = [], resolving = NoResponse\<rparr>"

lemma demo_rest_start:
  "rest_reach plain_diff demo_texts demo_validate demo_jsonable demo_entry_point (rest_sys_init :: pyval rest_sys)"
  "store_reach plain_diff (rest_sys_init :: pyval rest_sys)"
  by (rule rest_reach.start; (rule store_reach.start)?; simp add: rest_sys_init_def)
    (rule store_reach.start; simp add: rest_sys_init_def)

lemma demo_content_length: "py_int '' +2'' = Some 2"
  by (simp add: py_int_def strip_def is_space_def digit_value_def Let_def)

lemma demo_admissible: "admissible demo_validate demo_entry_point (demo_rest_request '' +2'') (PStr ''hi'')"
  by (simp add: admissible_def demo_entry_point_def demo_rest_request_def demo_content_length)

lemma demo_entered:
  "\<exists>c i w'. handle_request demo_texts demo_validate (Inr ()) demo_entry_point (demo_rest_request '' +2'')
     (rest_sys_init :: pyval rest_sys) = (Inr (Waiting c i), w')"
proof -
  obtain r w' where run: "handle_request demo_texts demo_validate (Inr ()) demo_entry_point (demo_rest_request '' +2'')
     (rest_sys_init :: pyval rest_sys) = (r, w')" by (rule prod.exhaust)
  have "\<exists>c i. r = Inr (Waiting c i)"
    by (rule handle_request_cases [OF plain_diff_ok demo_rest_start(2) _ run])
      (use demo_admissible in \<open>auto simp: rest_sys_init_def dict_has_def\<close>)
  with run show ?thesis by blast
qed

section \<open>Properties\<close>

text \<open>C40: the JSON body of an error lists the exception and the causes behind it, outermost first, as many as
  the limit allows, and one more entry says when the chain was cut: at most nine entries for a chain of
  any length.\<close>

theorem error_body_is_bounded:
  "\<exists>es. cause_chain e es \<and>
     (let entries = map (cause_entry t) (take REST_MAX_EXCEPTION_DEPTH (tl es))
            @ (if REST_MAX_EXCEPTION_DEPTH < length (tl es)
               then [(''TruncatedExceptionChain'', ''Cause chain exceeded max depth=8.'')] else [])
      in exception_to_error_body t REST_MAX_EXCEPTION_DEPTH e = build_error_body (type_name t e) (exception_message t e) entries
         \<and> length entries \<le> 9)"
proof -
  from cause_chain_exists obtain es where es: "cause_chain e es" by blast
  have "error_causes t 8 8 (next_cause e) = map (cause_entry t) (take 8 (tl es))
      @ (if 8 < length (tl es) then [(''TruncatedExceptionChain'', ''Cause chain exceeded max depth=8.'')] else [])"
    using es
  proof cases
    case root
    then show ?thesis by simp
  next
    case (because c es')
    with error_causes_chain [of c es' t 8 8] show ?thesis by (simp add: nat_text.simps)
  qed
  with es show ?thesis
    by (intro exI [of _ es]) (simp add: exception_to_error_body_def REST_MAX_EXCEPTION_DEPTH_def next_cause_def Let_def)
qed

text \<open>C34: the entry point lets in exactly the requests for its path that are POST, carry a correct Content-Length and
  a valid body; such a request opens one fresh context, sends its model there once and waits on a
  new future. Every other request is answered with a 4xx status at once and changes nothing.\<close>

theorem rest_admits_valid_requests:
  assumes "deepdiff_ok dd" and "rest_reach dd t validate jsonable s w"
    and "handle_request t validate (Inr ()) s rq w = (r, w')"
  shows "(\<exists>model. admissible validate s rq model
            \<and> r = Inr (Waiting (Uuid (uuids w)) (length (futures w)))
            \<and> bus_in w' = bus_in w @ [SendEvent (Uuid (uuids w)) (rest_source s) model]
            \<and> contexts w' = dict_set (Uuid (uuids w)) (blank_context (Uuid (uuids w))) (contexts w)
            \<and> mem_hist (persistence w) (Uuid (uuids w)) = []
            \<and> futures w' = futures w @ [FPending]
            \<and> dict_get (futures_by_ctx w') (Uuid (uuids w)) = Some (length (futures w)))
       \<or> ((\<nexists>model. admissible validate s rq model) \<and> w' = w
            \<and> (\<exists>code body. r = Inr (Answered code body) \<and> code \<in> {400, 404, 405, 411}))"
proof -
  have ok: "rest_ok dd t jsonable w" by (rule rest_reach_ok [OF assms(2,1)])
  then have st: "store_reach dd w" by (simp add: rest_ok_def)
  have known: "\<forall>c. dict_has (futures_by_ctx w) c \<longrightarrow> c \<in> Uuid ` {..<uuids w}" using rest_ok_known [OF ok] by blast
  have "mem_hist (persistence w) (Uuid (uuids w)) = []"
    using store_reach_inv [OF st assms(1)] by (auto simp: store_inv_def)
  note hist = this
  show ?thesis
  proof (rule handle_request_cases [OF assms(1) st known assms(3)], goal_cases)
    case (1 code body)
    then show ?case by (intro disjI2 conjI exI [of _ code] exI [of _ body])
  next
    case (2 e model)
    then show ?case by simp
  next
    case (3 model)
    then show ?case using hist by (intro disjI1 exI [of _ model]) simp
  qed
qed

theorem rest_admits_valid_requests_witness:
  "\<exists>(w' :: pyval rest_sys) model. admissible demo_validate demo_entry_point (demo_rest_request '' +2'') model
     \<and> bus_in w' = [SendEvent (Uuid 0) (Source ''api-source'') model]"
proof -
  obtain r w' where run: "handle_request demo_texts demo_validate (Inr ()) demo_entry_point (demo_rest_request '' +2'')
     (rest_sys_init :: pyval rest_sys) = (r, w')" by (rule prod.exhaust)
  from rest_admits_valid_requests [OF plain_diff_ok demo_rest_start(1) run] demo_admissible
  have "\<exists>model. admissible demo_validate demo_entry_point (demo_rest_request '' +2'') model
      \<and> bus_in w' = bus_in (rest_sys_init :: pyval rest_sys) @
          [SendEvent (Uuid (uuids (rest_sys_init :: pyval rest_sys))) (rest_source demo_entry_point) model]" by blast
  then show ?thesis by (simp add: rest_sys_init_def demo_entry_point_def) blast
qed

text \<open>C3: under every interleaving of requests, responses, timeouts and the stop, an HTTP request is answered at
  most once, nothing of it stays in the store, and the answer is 504, 503, or the first result the pipeline
  sent back in the request's own context: no client sees another's response.\<close>

theorem every_http_request_gets_its_answer:
  assumes "deepdiff_ok dd" and "rest_reach dd t validate jsonable s w"
  shows "distinct (map fst (answers w))
      \<and> (\<forall>(c, a) \<in> set (answers w).
           dict_get (open_requests w) c = None \<and> dict_get (futures_by_ctx w) c = None
           \<and> (a \<in> {gateway_timeout, service_unavailable}
              \<or> (\<exists>v. dict_get (handed w) c = Some v
                   \<and> a = (status_code (build_http_response t jsonable v), response_body (build_http_response t jsonable v)))))"
proof -
  have ok: "rest_ok dd t jsonable w" by (rule rest_reach_ok [OF assms(2,1)])
  have "ids_ok w" using ok by (simp only: rest_ok_def)
  then have all: "\<forall>c \<in> fst ` set (answers w). dict_get (open_requests w) c = None"
    unfolding ids_ok_def by (elim conjE)
  have free: "dict_get (open_requests w) c = None" if "c \<in> fst ` set (answers w)" for c by (rule bspec [OF all that])
  have gone: "dict_get (futures_by_ctx w) c = None" if "c \<in> fst ` set (answers w)" for c
  proof (cases "dict_get (futures_by_ctx w) c")
    case (Some i)
    with entries_okD [of w c i] ok free [OF that] show ?thesis by (simp add: rest_ok_def)
  qed
  have "distinct (map fst (answers w))" using ok by (simp add: rest_ok_def ids_ok_def)
  moreover have "dict_get (open_requests w) c = None \<and> dict_get (futures_by_ctx w) c = None
      \<and> (a \<in> {gateway_timeout, service_unavailable} \<or> (\<exists>v. dict_get (handed w) c = Some v
           \<and> a = (status_code (build_http_response t jsonable v), response_body (build_http_response t jsonable v))))"
    if "(c, a) \<in> set (answers w)" for c a
  proof -
    have mem: "c \<in> fst ` set (answers w)" using that by force
    have "answers_ok t jsonable w" using ok by (simp add: rest_ok_def)
    from bspec [OF this [unfolded answers_ok_def] that, unfolded prod.case] free [OF mem] gone [OF mem]
    show ?thesis by (intro conjI)
  qed
  then have "\<forall>(c, a) \<in> set (answers w).
      dict_get (open_requests w) c = None \<and> dict_get (futures_by_ctx w) c = None
      \<and> (a \<in> {gateway_timeout, service_unavailable} \<or> (\<exists>v. dict_get (handed w) c = Some v
           \<and> a = (status_code (build_http_response t jsonable v), response_body (build_http_response t jsonable v))))"
    by (intro ballI) (simp only: split_paired_all prod.case)
  ultimately show ?thesis by (rule conjI)
qed

theorem every_http_request_gets_its_answer_witness:
  "\<exists>(w :: pyval rest_sys) c. (c, 200, JStr ''ok'') \<in> set (answers w) \<and> distinct (map fst (answers w))
     \<and> dict_get (open_requests w) c = None \<and> dict_get (futures_by_ctx w) c = None"
proof -
  from demo_entered obtain c i w' where run: "handle_request demo_texts demo_validate (Inr ()) demo_entry_point
     (demo_rest_request '' +2'') (rest_sys_init :: pyval rest_sys) = (Inr (Waiting c i), w')" by blast
  have idle: "resolving (rest_sys_init :: pyval rest_sys) = NoResponse" by (simp add: rest_sys_init_def)
  from prompt_response [OF plain_diff_ok demo_rest_start(1) idle run, of "PStr ''ok''"] obtain w2 where
    w2: "rest_reach plain_diff demo_texts demo_validate demo_jsonable demo_entry_point w2"
    "(c, 200, JStr ''ok'') \<in> set (answers w2)" by (auto simp: build_http_response_def)
  from every_http_request_gets_its_answer [OF plain_diff_ok w2(1)] w2(2) show ?thesis by blast
qed

end
