(* ===== verification/ActorLife.thy ===== *)
theory ActorLife
  imports BusSafety
begin

text \<open>
  The thread of an actor from its start to its end, \<open>Actor._loop\<close> of \<open>core/runtime/actor.py\<close>: the start hook, turn after turn,
  and the stop. A turn is \<open>actor_step\<close>; what other threads do between the turns is left to \<open>BusSafety\<close>.
\<close>

datatype actor_end = ActorIdle | ActorBusy | ActorStopped | ActorDied exn

text \<open>At most \<open>n\<close> turns of the loop: it blocks on an empty inbox.\<close>

fun actor_turns ::
  "(sink, ('d, 'x) handler) dict \<Rightarrow> (('d, 'x) bus_world_scheme \<Rightarrow> ('d, 'x) bus_world_scheme) \<Rightarrow> nat \<Rightarrow> nat \<Rightarrow>
     ('d, 'x) bus_world_scheme \<Rightarrow> actor_end \<times> ('d, 'x) bus_world_scheme" where
  "actor_turns hs on_stop i 0 w = (ActorBusy, w)"
| "actor_turns hs on_stop i (Suc n) w =
     (case actor_step hs on_stop i w of
        None \<Rightarrow> (ActorIdle, w)
      | Some (Inl e, w') \<Rightarrow> (ActorDied e, w')
      | Some (Inr False, w') \<Rightarrow> (ActorStopped, w')
      | Some (Inr True, w') \<Rightarrow> actor_turns hs on_stop i n w')"

text \<open>The start hook runs outside any handler of exceptions.\<close>

definition actor_loop ::
  "(sink, ('d, 'x) handler) dict \<Rightarrow> (exn, unit, ('d, 'x) bus_world_scheme) act \<Rightarrow>
     (('d, 'x) bus_world_scheme \<Rightarrow> ('d, 'x) bus_world_scheme) \<Rightarrow> nat \<Rightarrow> nat \<Rightarrow>
     ('d, 'x) bus_world_scheme \<Rightarrow> actor_end \<times> ('d, 'x) bus_world_scheme" where
  "actor_loop hs on_start on_stop i n w =
     (case on_start w of (Inl e, w') \<Rightarrow> (ActorDied e, w') | (Inr _, w') \<Rightarrow> actor_turns hs on_stop i n w')"

text \<open>An actor whose start hook raises handles nothing: whatever is in its inbox stays there.\<close>

lemma failed_start_handles_nothing:
  assumes "on_start w = (Inl e, w')"
  shows "actor_loop hs on_start on_stop i n w = (ActorDied e, w')"
  using assms by (simp add: actor_loop_def)

definition received :: "context_id \<times> sink \<times> pyval \<Rightarrow> receive_event" where
  "received m = (case m of (c, s, v) \<Rightarrow> ReceiveEvent c s v)"

text \<open>The messages in the inbox before a stop event are all handled, in order, and answered in their own contexts; no exception
  of a handler ends the thread.\<close>

lemma actor_handles_before_stop:
  assumes lin: "linear_actor hs" and "inbox w i = map received ms @ StopActorEvent # rest"
  shows "\<exists>w1 outs. actor_turns hs on_stop i (Suc (length ms)) w = (ActorStopped, on_stop w1)
    \<and> inbox w1 = (inbox w)(i := rest) \<and> bus_in w1 = bus_in w @ concat outs
    \<and> list_all2 (\<lambda>m out. out = [] \<or> (\<exists>src p. out = [SendEvent (fst m) src p])) ms outs"
  using assms(2)
proof (induction ms arbitrary: w)
  case Nil
  then have "actor_turns hs on_stop i (Suc (length [])) w = (ActorStopped, on_stop (w\<lparr>inbox := (inbox w)(i := rest)\<rparr>))"
    by (simp add: actor_step_def)
  then show ?case by (intro exI [of _ "w\<lparr>inbox := (inbox w)(i := rest)\<rparr>"] exI [of _ "[]"]) simp
next
  case (Cons m ms)
  obtain c s v where m: "m = (c, s, v)" by (cases m)
  let ?evs = "map received ms @ StopActorEvent # rest"
  let ?w = "w\<lparr>inbox := (inbox w)(i := ?evs)\<rparr>"
  obtain r1 w1 where h: "run_handler hs c s v ?w = (r1, w1)" by fastforce
  from run_handler_frame [OF lin h] obtain out where out: "r1 = Inr out" "out = [] \<or> (\<exists>src p. out = [SendEvent c src p])"
    and frame: "bus_in w1 = bus_in w" "inbox w1 = (inbox w)(i := ?evs)" by auto
  let ?w2 = "w1\<lparr>bus_in := bus_in w1 @ out\<rparr>"
  have "inbox w i = ReceiveEvent c s v # ?evs" using Cons.prems by (simp add: received_def m)
  then have step: "actor_step hs on_stop i w = Some (Inr True, ?w2)"
    by (simp add: actor_step_def h out bind_act_def seq_act_def put_all_run)
  have "inbox ?w2 i = ?evs" by (simp add: frame)
  from Cons.IH [OF this] obtain w3 outs where
    "actor_turns hs on_stop i (Suc (length ms)) ?w2 = (ActorStopped, on_stop w3)" "inbox w3 = (inbox ?w2)(i := rest)"
    "bus_in w3 = bus_in ?w2 @ concat outs"
    "list_all2 (\<lambda>m out. out = [] \<or> (\<exists>src p. out = [SendEvent (fst m) src p])) ms outs" by blast
  then show ?case using step out(2) frame
    by (intro exI [of _ w3] exI [of _ "out # outs"]) (simp add: m del: actor_turns.simps, simp)
qed

end
