(* ===== verification/Flow.thy ===== *)
theory Flow
  imports Nodes
begin

text \<open>
  \<open>Flow\<close> of \<open>core/dsl/flow.py\<close> and \<open>Piping\<close> of \<open>core/dsl/piping.py\<close>: the graph builder of the
  DSL. A flow is mutated in place by \<open>then\<close>, so \<open>flow_then\<close> is a state-passing function that
  returns the flow on both branches: a \<open>then\<close> that raises half way leaves what it had connected.
  A target flow is read at the time of the call. Taps given as an iterable are a list; the order
  of a list stands for the unspecified iteration order of the \<open>frozenset\<close> built from it.
\<close>

section \<open>Connectables and flows\<close>

record node =
  node_id :: string
  node_sinks_table :: node_sinks
  node_sources_table :: node_sources

datatype connectable = CNode node | CSink sink | CSource source

record flow =
  entry_sinks :: node_sinks
  exit_sources :: node_sources
  flow_pipes :: pipes
  flow_nodes :: "node set"
  flow_sinks :: "sink set"
  flow_sources :: "source set"

datatype flow_target = TConn connectable | TFlow flow

text \<open>What can stand at a named route: an explicit \<open>Targets\<close>, a plain target, another iterable, or
  any other object.\<close>

datatype route = RTargets "flow_target targets" | RPlain flow_target | RIterable | ROther

definition node_of :: "connectable \<Rightarrow> exn + node" where
  "node_of c =
     (case c of
        CNode n \<Rightarrow> Inr n
      | CSink s \<Rightarrow>
          (case (sink_node_sinks s, sink_node_sources s) of
             (Inr snks, Inr srcs) \<Rightarrow> Inr \<lparr>node_id = sink_id s, node_sinks_table = snks, node_sources_table = srcs\<rparr>
           | (Inl e, _) \<Rightarrow> Inl e
           | (_, Inl e) \<Rightarrow> Inl e)
      | CSource s \<Rightarrow>
          (case (source_node_sinks s, source_node_sources s) of
             (Inr snks, Inr srcs) \<Rightarrow> Inr \<lparr>node_id = source_id s, node_sinks_table = snks, node_sources_table = srcs\<rparr>
           | (Inl e, _) \<Rightarrow> Inl e
           | (_, Inl e) \<Rightarrow> Inl e))"

definition flow_from_connectable :: "connectable \<Rightarrow> exn + flow" where
  "flow_from_connectable c =
     (case node_of c of
        Inl e \<Rightarrow> Inl e
      | Inr n \<Rightarrow>
          Inr \<lparr>entry_sinks = node_sinks_table n, exit_sources = node_sources_table n, flow_pipes = [],
               flow_nodes = {n}, flow_sinks = set (map snd (sinks_of (node_sinks_table n))),
               flow_sources = set (map snd (sources_of (node_sources_table n)))\<rparr>)"

definition as_flow :: "flow_target \<Rightarrow> exn + flow" where
  "as_flow t = (case t of TFlow f \<Rightarrow> Inr f | TConn c \<Rightarrow> flow_from_connectable c)"

definition flow_default_sink :: "flow \<Rightarrow> exn + sink" where
  "flow_default_sink f =
     (case default_sink (entry_sinks f) of
        None \<Rightarrow> Inl (exn_of FlowMisconfiguredException) | Some s \<Rightarrow> Inr s)"

definition as_route_targets :: "route \<Rightarrow> exn + flow_target targets" where
  "as_route_targets r =
     (case r of
        RTargets t \<Rightarrow> Inr t
      | RPlain t \<Rightarrow> Inr (mk_targets (Some t) [])
      | RIterable \<Rightarrow> Inl (exn_of FlowMisconfiguredException)
      | ROther \<Rightarrow> Inl (exn_of FlowMisconfiguredException))"

section \<open>Connecting\<close>

definition on_pipes :: "(exn, unit, pipes) act \<Rightarrow> (exn, unit, flow) act" where
  "on_pipes m f = (case m (flow_pipes f) of (r, p) \<Rightarrow> (r, f\<lparr>flow_pipes := p\<rparr>))"

definition flow_connect :: "source \<Rightarrow> sink option \<Rightarrow> sink list \<Rightarrow> (exn, unit, flow) act" where
  "flow_connect src prim tps =
     seq_act (on_pipes (pipes_connect src prim tps))
       (modify_act (\<lambda>f. f\<lparr>flow_sources := insert src (flow_sources f),
                          flow_sinks := flow_sinks f \<union> set_option prim \<union> set tps\<rparr>))"

definition flow_absorb :: "flow \<Rightarrow> (exn, unit, flow) act" where
  "flow_absorb t =
     seq_act (on_pipes (pipes_merge (flow_pipes t)))
       (modify_act (\<lambda>f. f\<lparr>flow_nodes := flow_nodes f \<union> flow_nodes t, flow_sinks := flow_sinks f \<union> flow_sinks t,
                          flow_sources := flow_sources f \<union> flow_sources t\<rparr>))"

definition opt_res :: "('a \<Rightarrow> 'e + 'b) \<Rightarrow> 'a option \<Rightarrow> 'e + 'b option" where
  "opt_res f xo =
     (case xo of None \<Rightarrow> Inr None | Some x \<Rightarrow> (case f x of Inl e \<Rightarrow> Inl e | Inr y \<Rightarrow> Inr (Some y)))"

fun map_res :: "('a \<Rightarrow> 'e + 'b) \<Rightarrow> 'a list \<Rightarrow> 'e + 'b list" where
  "map_res f [] = Inr []"
| "map_res f (x # xs) =
     (case f x of Inl e \<Rightarrow> Inl e
      | Inr y \<Rightarrow> (case map_res f xs of Inl e \<Rightarrow> Inl e | Inr ys \<Rightarrow> Inr (y # ys)))"

definition no_sources :: node_sources where
  "no_sources = \<lparr>sources_of = [], default_source = None\<rparr>"

definition flow_connect_targets :: "source \<Rightarrow> flow_target targets \<Rightarrow> (exn, node_sources, flow) act" where
  "flow_connect_targets src t =
     bind_act (lift_act (opt_res as_flow (primary t))) (\<lambda>pf.
     bind_act (lift_act (map_res as_flow (taps t))) (\<lambda>tfs.
     bind_act (lift_act (opt_res flow_default_sink pf)) (\<lambda>ps.
     bind_act (lift_act (map_res flow_default_sink tfs)) (\<lambda>tss.
     seq_act (flow_connect src ps (dedup tss))
     (seq_act (map_act flow_absorb (case pf of None \<Rightarrow> [] | Some f \<Rightarrow> [f]))
     (seq_act (map_act flow_absorb tfs)
     (ret (case pf of None \<Rightarrow> no_sources | Some f \<Rightarrow> exit_sources f))))))))"

text \<open>One named route: the name is looked up in the exits the flow had when \<open>then\<close> was called.\<close>

definition flow_route :: "string \<times> route \<Rightarrow> (exn, node_sources, flow) act" where
  "flow_route = (\<lambda>(nm, r).
     bind_act (gets_act (\<lambda>f. dict_get (sources_of (exit_sources f)) nm)) (\<lambda>src.
       case src of
         None \<Rightarrow> raise (exn_of FlowMisconfiguredException)
       | Some s \<Rightarrow> bind_act (lift_act (as_route_targets r)) (\<lambda>t. flow_connect_targets s t)))"

definition flow_then ::
  "flow_target list \<Rightarrow> flow_target list \<Rightarrow> (string, route) dict \<Rightarrow> (exn, unit, flow) act" where
  "flow_then positional tps routes =
     (if length positional > 1 then raise (exn_of FlowMisconfiguredException)
      else
        let default_targets = mk_targets (case positional of [] \<Rightarrow> None | t # _ \<Rightarrow> Some t) tps in
        if routes \<noteq> [] \<and> (primary default_targets \<noteq> None \<or> taps default_targets \<noteq> [])
        then raise (exn_of FlowMisconfiguredException)
        else if routes \<noteq> []
        then seq_act (map_act flow_route routes) (modify_act (\<lambda>f. f\<lparr>exit_sources := no_sources\<rparr>))
        else if primary default_targets = None \<and> taps default_targets = []
        then raise (exn_of FlowMisconfiguredException)
        else bind_act (gets_act (\<lambda>f. default_source (exit_sources f))) (\<lambda>src.
               case src of
                 None \<Rightarrow> raise (exn_of FlowMisconfiguredException)
               | Some s \<Rightarrow> bind_act (flow_connect_targets s default_targets)
                             (\<lambda>exits. modify_act (\<lambda>f. f\<lparr>exit_sources := exits\<rparr>))))"

section \<open>Piping\<close>

record piping =
  all_pipes :: pipes
  all_sources :: "source set"
  all_sinks :: "sink set"

definition piping_init :: piping where
  "piping_init = \<lparr>all_pipes = [], all_sources = {}, all_sinks = {}\<rparr>"

definition add_flow :: "flow \<Rightarrow> (exn, unit, piping) act" where
  "add_flow f pp =
     (case pipes_merge (flow_pipes f) (all_pipes pp) of
        (Inl e, p) \<Rightarrow> (Inl e, pp\<lparr>all_pipes := p\<rparr>)
      | (Inr _, p) \<Rightarrow> (Inr (), \<lparr>all_pipes = p, all_sources = all_sources pp \<union> flow_sources f,
                              all_sinks = all_sinks pp \<union> flow_sinks f\<rparr>))"

section \<open>A graph as the list of its declarations\<close>

definition decls_of :: "pipes \<Rightarrow> decl list" where
  "decls_of p = map (\<lambda>(s, t). (s, primary t, taps t)) p"

lemma pipes_merge_connects: "pipes_merge q = connect_all (decls_of q)"
  by (induction q) (auto simp: decls_of_def)

lemma declared_decls_of:
  assumes "distinct (dict_keys p)"
  shows "declared_primaries (decls_of p) s = set_option (primary (pipes_get p s))"
    and "declared_taps (decls_of p) s = set (taps (pipes_get p s))"
proof -
  have mem: "(s, q, ts) \<in> set (decls_of p) \<longleftrightarrow> (\<exists>t. dict_get p s = Some t \<and> q = primary t \<and> ts = taps t)" for q ts
    using assms by (force simp: decls_of_def map_of_eq_Some_iff)
  have none: "declared_primaries (decls_of p) s = {} \<and> declared_taps (decls_of p) s = {}" if "dict_get p s = None"
    using mem that by (simp add: declared_primaries_def declared_taps_def)
  have some: "declared_primaries (decls_of p) s = set_option (primary t) \<and> declared_taps (decls_of p) s = set (taps t)"
    if "dict_get p s = Some t" for t
  proof
    show "declared_primaries (decls_of p) s = set_option (primary t)"
      unfolding declared_primaries_def mem using that by (cases "primary t") auto
    show "declared_taps (decls_of p) s = set (taps t)"
      unfolding declared_taps_def mem using that by auto
  qed
  show "declared_primaries (decls_of p) s = set_option (primary (pipes_get p s))"
    and "declared_taps (decls_of p) s = set (taps (pipes_get p s))"
    using none some by (auto simp: pipes_get_def split: option.splits)
qed

lemma represents_decls_of: "pipes_ok p \<Longrightarrow> represents p (decls_of p)"
  by (simp add: represents_def declared_decls_of pipes_ok_def)

lemma consistent_decls_of:
  assumes "pipes_ok p"
  shows "consistent (decls_of p)"
proof -
  have d: "distinct (dict_keys p)" and t: "\<And>s t. dict_get p s = Some t \<Longrightarrow> targets_ok t"
    using assms by (auto simp: pipes_ok_def)
  have "q \<noteq> None \<or> ts \<noteq> []" if "(s, q, ts) \<in> set (decls_of p)" for s q ts
    using that t [of s] d by (auto simp: decls_of_def targets_ok_def)
  moreover have "set_option (primary (pipes_get p s)) \<inter> set (taps (pipes_get p s)) = {}" for s
  proof (cases "dict_get p s")
    case (Some x)
    with t [OF Some] show ?thesis by (cases "primary x") (auto simp: pipes_get_def targets_ok_def)
  qed (simp add: pipes_get_def mk_targets_def)
  ultimately show ?thesis
    unfolding consistent_def declared_decls_of [OF d] by auto
qed

lemma represents_cong:
  assumes "set ds = set ds'"
  shows "represents p ds = represents p ds'"
  by (simp add: represents_def declared_cong [OF assms])

lemma merge_represents:
  assumes "represents p ds" "pipes_ok p" "consistent ds"
  shows "if consistent (ds @ decls_of q)
         then \<exists>p'. pipes_merge q p = (Inr (), p') \<and> represents p' (ds @ decls_of q) \<and> pipes_ok p'
         else \<exists>e p'. pipes_merge q p = (Inl e, p')"
  unfolding pipes_merge_connects by (rule connect_all_represents [OF assms])

section \<open>Absorbing and connecting flows\<close>

abbreviation flow_decls :: "flow \<Rightarrow> decl list" where
  "flow_decls f \<equiv> decls_of (flow_pipes f)"

lemma absorb_represents:
  assumes "represents (flow_pipes f) ds" "pipes_ok (flow_pipes f)" "consistent ds"
  shows "if consistent (ds @ concat (map flow_decls ts))
         then \<exists>u f'. map_act flow_absorb ts f = (Inr u, f')
            \<and> represents (flow_pipes f') (ds @ concat (map flow_decls ts)) \<and> pipes_ok (flow_pipes f')
            \<and> flow_nodes f' = flow_nodes f \<union> (\<Union>t \<in> set ts. flow_nodes t)
            \<and> flow_sinks f' = flow_sinks f \<union> (\<Union>t \<in> set ts. flow_sinks t)
            \<and> flow_sources f' = flow_sources f \<union> (\<Union>t \<in> set ts. flow_sources t)
            \<and> exit_sources f' = exit_sources f \<and> entry_sinks f' = entry_sinks f
         else \<exists>e f'. map_act flow_absorb ts f = (Inl e, f')"
  using assms
proof (induction ts arbitrary: f ds)
  case (Cons t ts)
  note m = merge_represents [OF Cons.prems, of "flow_pipes t"]
  show ?case
  proof (cases "consistent (ds @ flow_decls t)")
    case True
    with m obtain p' where p': "pipes_merge (flow_pipes t) (flow_pipes f) = (Inr (), p')"
      "represents p' (ds @ flow_decls t)" "pipes_ok p'" by auto
    let ?f = "f\<lparr>flow_pipes := p', flow_nodes := flow_nodes f \<union> flow_nodes t,
                flow_sinks := flow_sinks f \<union> flow_sinks t, flow_sources := flow_sources f \<union> flow_sources t\<rparr>"
    have run: "flow_absorb t f = (Inr (), ?f)"
      using p'(1) by (simp add: flow_absorb_def on_pipes_def act_defs)
    have "represents (flow_pipes ?f) (ds @ flow_decls t)" "pipes_ok (flow_pipes ?f)"
      using p' by simp_all
    note IH = Cons.IH [OF this True]
    show ?thesis
    proof (cases "consistent (ds @ concat (map flow_decls (t # ts)))")
      case True
      with IH obtain u f' where "map_act flow_absorb ts ?f = (Inr u, f')"
        "represents (flow_pipes f') (ds @ concat (map flow_decls (t # ts)))" "pipes_ok (flow_pipes f')"
        "flow_nodes f' = flow_nodes ?f \<union> (\<Union>t \<in> set ts. flow_nodes t)"
        "flow_sinks f' = flow_sinks ?f \<union> (\<Union>t \<in> set ts. flow_sinks t)"
        "flow_sources f' = flow_sources ?f \<union> (\<Union>t \<in> set ts. flow_sources t)"
        "exit_sources f' = exit_sources f" "entry_sinks f' = entry_sinks f" by auto
      with True show ?thesis
        by (simp add: bind_act_apply [of "flow_absorb t" f, OF run] bind_act_apply [of _ _ u f'] Un_assoc)
    next
      case False
      with IH obtain e f' where "map_act flow_absorb ts ?f = (Inl e, f')" by auto
      with False show ?thesis
        by (simp add: bind_act_apply [of "flow_absorb t" f, OF run] bind_act_apply_raise [of _ _ e f'])
    qed
  next
    case False
    with m obtain e p' where "pipes_merge (flow_pipes t) (flow_pipes f) = (Inl e, p')" by auto
    moreover from False have "\<not> consistent (ds @ concat (map flow_decls (t # ts)))"
      using consistent_mono [of "ds @ concat (map flow_decls (t # ts))" "ds @ flow_decls t"] by auto
    ultimately show ?thesis by (simp add: flow_absorb_def on_pipes_def act_defs)
  qed
qed simp

lemma flow_connect_represents:
  assumes "represents (flow_pipes f) ds" "pipes_ok (flow_pipes f)" "consistent ds"
  shows "if consistent (ds @ [(s, q, ts)])
         then \<exists>p'. flow_connect s q ts f = (Inr (), f\<lparr>flow_pipes := p', flow_sources := insert s (flow_sources f),
                        flow_sinks := flow_sinks f \<union> set_option q \<union> set ts\<rparr>)
                  \<and> represents p' (ds @ [(s, q, ts)]) \<and> pipes_ok p'
         else \<exists>e. flow_connect s q ts f = (Inl e, f)"
proof -
  have "pipes_ok p'" if "pipes_connect s q ts (flow_pipes f) = (Inr (), p')" for p'
    using that assms(2) by (rule pipes_connect_ok_inv)
  with connect_represents [OF assms, of s q ts] show ?thesis
    by (cases "consistent (ds @ [(s, q, ts)])") (auto simp: flow_connect_def on_pipes_def act_defs)
qed

lemma map_res_as_flow [simp]: "map_res as_flow (map TFlow ts) = Inr ts"
  by (induction ts) (simp_all add: as_flow_def)

lemma map_res_default_sink:
  "map (\<lambda>t. default_sink (entry_sinks t)) ts = map Some ss \<Longrightarrow> map_res flow_default_sink ts = Inr ss"
  by (induction ts arbitrary: ss) (auto simp: flow_default_sink_def Cons_eq_map_conv)

lemma connect_targets_represents:
  fixes s :: source
  assumes f: "represents (flow_pipes f) ds" "pipes_ok (flow_pipes f)" "consistent ds"
    and snk: "opt_res flow_default_sink po = Inr so" "map (\<lambda>t. default_sink (entry_sinks t)) ts = map Some ss"
  defines "tfs \<equiv> (case po of None \<Rightarrow> [] | Some p \<Rightarrow> [p]) @ ts"
  defines "ds' \<equiv> ds @ (s, so, dedup ss) # concat (map flow_decls tfs)"
  shows "if consistent ds'
         then \<exists>f'. flow_connect_targets s \<lparr>primary = map_option TFlow po, taps = map TFlow ts\<rparr> f =
                (Inr (case po of None \<Rightarrow> no_sources | Some p \<Rightarrow> exit_sources p), f')
            \<and> represents (flow_pipes f') ds' \<and> pipes_ok (flow_pipes f')
            \<and> flow_nodes f' = flow_nodes f \<union> (\<Union>t \<in> set tfs. flow_nodes t)
            \<and> flow_sinks f' = flow_sinks f \<union> set_option so \<union> set ss \<union> (\<Union>t \<in> set tfs. flow_sinks t)
            \<and> flow_sources f' = insert s (flow_sources f) \<union> (\<Union>t \<in> set tfs. flow_sources t)
         else \<exists>e f'. flow_connect_targets s \<lparr>primary = map_option TFlow po, taps = map TFlow ts\<rparr> f = (Inl e, f')"
proof -
  have "opt_res as_flow (map_option TFlow po) = Inr po"
    by (cases po) (simp_all add: opt_res_def as_flow_def)
  then have run: "flow_connect_targets s \<lparr>primary = map_option TFlow po, taps = map TFlow ts\<rparr> f =
      seq_act (flow_connect s so (dedup ss))
        (seq_act (map_act flow_absorb (case po of None \<Rightarrow> [] | Some p \<Rightarrow> [p]))
        (seq_act (map_act flow_absorb ts) (ret (case po of None \<Rightarrow> no_sources | Some p \<Rightarrow> exit_sources p)))) f"
    using snk(1) map_res_default_sink [OF snk(2)]
    by (simp add: flow_connect_targets_def lift_act_def bind_act_def)
  note c = flow_connect_represents [OF f, of s so "dedup ss"]
  show ?thesis
  proof (cases "consistent (ds @ [(s, so, dedup ss)])")
    case True
    with c obtain p' where p': "flow_connect s so (dedup ss) f =
        (Inr (), f\<lparr>flow_pipes := p', flow_sources := insert s (flow_sources f),
                   flow_sinks := flow_sinks f \<union> set_option so \<union> set ss\<rparr>)"
        (is "_ = (_, ?f)") "represents p' (ds @ [(s, so, dedup ss)])" "pipes_ok p'" by auto
    have "represents (flow_pipes ?f) (ds @ [(s, so, dedup ss)])" "pipes_ok (flow_pipes ?f)" using p' by simp_all
    from absorb_represents [OF this True, of tfs] show ?thesis
      unfolding run seq_act_apply [of "flow_connect s so (dedup ss)" f, OF p'(1)] seq_map_act_append [symmetric] tfs_def [symmetric]
      by (auto simp: ds'_def seq_act_def bind_act_def)
  next
    case False
    with c obtain e where "flow_connect s so (dedup ss) f = (Inl e, f)" by auto
    moreover from False have "\<not> consistent ds'"
      using consistent_mono [of ds' "ds @ [(s, so, dedup ss)]"] by (auto simp: ds'_def)
    ultimately show ?thesis unfolding run by (simp add: seq_act_def bind_act_def)
  qed
qed

section \<open>Every endpoint is recorded\<close>

definition pipe_sinks :: "pipes \<Rightarrow> sink set" where
  "pipe_sinks p = (\<Union>t \<in> snd ` set p. set_option (primary t) \<union> set (taps t))"

lemma set_dict_set: "set (dict_set k v d) \<subseteq> insert (k, v) (set d)"
  by (induction d) auto

lemma pipe_sinks_get: "dict_get p s = Some t \<Longrightarrow> set_option (primary t) \<union> set (taps t) \<subseteq> pipe_sinks p"
  unfolding pipe_sinks_def by (force dest: map_of_SomeD)

lemma pipes_connect_endpoints:
  assumes "pipes_connect s q ts p = (r, p')"
  shows "set (dict_keys p') \<subseteq> insert s (set (dict_keys p)) \<and> pipe_sinks p' \<subseteq> pipe_sinks p \<union> set_option q \<union> set ts"
proof (cases r)
  case (Inl e)
  then have "p' = p"
    using assms by (auto simp: pipes_connect_def Let_def split: if_splits sum.splits)
  then show ?thesis by auto
next
  case (Inr u)
  let ?t0 = "mk_targets q ts"
  from assms Inr obtain t where t: "p' = dict_set s t p" and
    src: "(case dict_get p s of None \<Rightarrow> Inr ?t0 | Some old \<Rightarrow> merge_targets s old ?t0) = Inr t"
    by (auto simp: pipes_connect_def Let_def split: if_splits sum.splits)
  have sub: "set_option (primary t) \<union> set (taps t) \<subseteq> pipe_sinks p \<union> set_option q \<union> set ts"
  proof (cases "dict_get p s")
    case None
    with src have "t = ?t0" by simp
    then show ?thesis by auto
  next
    case (Some old)
    with src have "t = mk_targets (if primary old \<noteq> None then primary old else q) (taps old @ taps ?t0)"
      by (auto simp: merge_targets_def split: if_splits)
    with pipe_sinks_get [OF Some] show ?thesis by (auto split: if_splits)
  qed
  have "pipe_sinks p' \<subseteq> (set_option (primary t) \<union> set (taps t)) \<union> pipe_sinks p"
  proof -
    have "snd ` set (dict_set s t p) \<subseteq> insert t (snd ` set p)"
      using image_mono [OF set_dict_set [of s t p], of snd] by simp
    then have "pipe_sinks p' \<subseteq> (\<Union>u \<in> insert t (snd ` set p). set_option (primary u) \<union> set (taps u))"
      unfolding t pipe_sinks_def by (rule UN_mono) simp
    then show ?thesis by (simp add: pipe_sinks_def)
  qed
  with sub have "pipe_sinks p' \<subseteq> pipe_sinks p \<union> set_option q \<union> set ts" by blast
  moreover have "set (dict_keys p') \<subseteq> insert s (set (dict_keys p))" unfolding t dict_keys_set by auto
  ultimately show ?thesis by blast
qed

lemma pipes_merge_endpoints:
  "pipes_merge q p = (r, p') \<Longrightarrow>
     set (dict_keys p') \<subseteq> set (dict_keys p) \<union> set (dict_keys q) \<and> pipe_sinks p' \<subseteq> pipe_sinks p \<union> pipe_sinks q"
proof (induction q arbitrary: p r p' rule: pipes_merge.induct)
  case (2 s t q)
  obtain r1 p1 where c: "pipes_connect s (primary t) (taps t) p = (r1, p1)" by fastforce
  note e = pipes_connect_endpoints [OF c]
  have q: "pipe_sinks ((s, t) # q) = set_option (primary t) \<union> set (taps t) \<union> pipe_sinks q"
    by (simp add: pipe_sinks_def)
  show ?case
  proof (cases r1)
    case (Inl x)
    with 2 c have "p' = p1" by (simp add: seq_act_def bind_act_def)
    with e q show ?thesis by auto
  next
    case (Inr u)
    with 2(2) c have "pipes_merge q p1 = (r, p')" by (simp add: seq_act_def bind_act_def)
    from 2(1) [OF this] have ih: "set (dict_keys p') \<subseteq> set (dict_keys p1) \<union> set (dict_keys q)"
      "pipe_sinks p' \<subseteq> pipe_sinks p1 \<union> pipe_sinks q" by blast+
    have "set (dict_keys ((s, t) # q)) = insert s (set (dict_keys q))" by simp
    with ih e q show ?thesis by blast
  qed
qed simp

definition flow_ok :: "flow \<Rightarrow> bool" where
  "flow_ok f \<longleftrightarrow> pipes_ok (flow_pipes f)
     \<and> set (dict_keys (flow_pipes f)) \<subseteq> flow_sources f \<and> pipe_sinks (flow_pipes f) \<subseteq> flow_sinks f
     \<and> set (map snd (sources_of (exit_sources f))) \<subseteq> flow_sources f
     \<and> set_option (default_source (exit_sources f)) \<subseteq> flow_sources f
     \<and> set_option (default_sink (entry_sinks f)) \<subseteq> flow_sinks f"

lemma flow_ok_connect:
  assumes "flow_connect s q ts f = (Inr u, f')" "flow_ok f"
  shows "flow_ok f' \<and> exit_sources f' = exit_sources f \<and> entry_sinks f' = entry_sinks f \<and> s \<in> flow_sources f'
       \<and> flow_sources f \<subseteq> flow_sources f' \<and> flow_sinks f \<subseteq> flow_sinks f'"
proof -
  obtain p' where p': "pipes_connect s q ts (flow_pipes f) = (Inr (), p')"
    and f': "f' = f\<lparr>flow_pipes := p', flow_sources := insert s (flow_sources f),
                   flow_sinks := flow_sinks f \<union> set_option q \<union> set ts\<rparr>"
    using assms(1)
    by (auto simp: flow_connect_def on_pipes_def act_defs split: prod.splits sum.splits)
  from pipes_connect_endpoints [OF p'] pipes_connect_ok_inv [OF p'] assms(2) show ?thesis
    unfolding f' flow_ok_def by auto
qed

lemma flow_ok_absorb:
  assumes "flow_absorb t f = (Inr u, f')" "flow_ok f" "flow_ok t"
  shows "flow_ok f' \<and> exit_sources f' = exit_sources f \<and> entry_sinks f' = entry_sinks f
       \<and> flow_sources f \<union> flow_sources t \<subseteq> flow_sources f'"
proof -
  obtain p' where p': "pipes_merge (flow_pipes t) (flow_pipes f) = (Inr (), p')"
    and f': "f' = f\<lparr>flow_pipes := p', flow_nodes := flow_nodes f \<union> flow_nodes t,
                flow_sinks := flow_sinks f \<union> flow_sinks t, flow_sources := flow_sources f \<union> flow_sources t\<rparr>"
    using assms(1)
    by (auto simp: flow_absorb_def on_pipes_def act_defs split: prod.splits sum.splits)
  from assms(2,3) have "pipes_ok p'" "set (dict_keys p') \<subseteq> flow_sources f \<union> flow_sources t"
    "pipe_sinks p' \<subseteq> flow_sinks f \<union> flow_sinks t"
    using pipes_merge_endpoints [OF p'] pipes_merge_ok_inv [OF p'] unfolding flow_ok_def by blast+
  with assms(2) show ?thesis unfolding f' flow_ok_def by (simp add: le_supI1)
qed

lemma flow_ok_absorb_all:
  "map_act flow_absorb ts f = (Inr us, f') \<Longrightarrow> flow_ok f \<Longrightarrow> \<forall>t \<in> set ts. flow_ok t \<Longrightarrow>
     flow_ok f' \<and> exit_sources f' = exit_sources f \<and> entry_sinks f' = entry_sinks f
       \<and> flow_sources f \<union> (\<Union>t \<in> set ts. flow_sources t) \<subseteq> flow_sources f'"
proof (induction ts arbitrary: f us)
  case (Cons t ts)
  from Cons.prems(1) obtain u f1 vs where "flow_absorb t f = (Inr u, f1)" "map_act flow_absorb ts f1 = (Inr vs, f')"
    by (auto simp: bind_act_Inr)
  with flow_ok_absorb [of t f u f1] Cons.IH [of f1 vs] Cons.prems(2,3) show ?case by auto
qed simp

lemma map_res_Inr: "map_res f xs = Inr ys \<Longrightarrow> list_all2 (\<lambda>x y. f x = Inr y) xs ys"
  by (induction xs arbitrary: ys) (auto split: sum.splits)

definition target_ok :: "flow_target \<Rightarrow> bool" where
  "target_ok t \<longleftrightarrow> (\<forall>g. as_flow t = Inr g \<longrightarrow> flow_ok g)"

lemma flow_ok_connect_targets:
  assumes run: "flow_connect_targets s t f = (Inr ex, f')" and ok: "flow_ok f"
    and ts: "\<forall>x \<in> set_option (primary t) \<union> set (taps t). target_ok x"
  shows "flow_ok f' \<and> exit_sources f' = exit_sources f \<and> flow_ok (f'\<lparr>exit_sources := ex\<rparr>)"
proof -
  from run obtain pf tfs ps tss f1 f2 us vs where
    pf: "opt_res as_flow (primary t) = Inr pf" and tfs: "map_res as_flow (taps t) = Inr tfs"
    and f1: "flow_connect s ps (dedup tss) f = (Inr (), f1)"
    and f2: "map_act flow_absorb (case pf of None \<Rightarrow> [] | Some g \<Rightarrow> [g]) f1 = (Inr us, f2)"
    and f': "map_act flow_absorb tfs f2 = (Inr vs, f')"
    and ex: "ex = (case pf of None \<Rightarrow> no_sources | Some g \<Rightarrow> exit_sources g)"
    by (auto simp: flow_connect_targets_def bind_act_Inr seq_act_def lift_act_def)
  have pok: "\<forall>g \<in> set (case pf of None \<Rightarrow> [] | Some g \<Rightarrow> [g]). flow_ok g"
    using pf ts by (auto simp: opt_res_def target_ok_def split: option.splits sum.splits)
  have tok: "\<forall>g \<in> set tfs. flow_ok g"
  proof
    fix g
    assume "g \<in> set tfs"
    then obtain i where "i < length tfs" "g = tfs ! i" by (auto simp: in_set_conv_nth)
    with map_res_Inr [OF tfs] have "taps t ! i \<in> set (taps t)" "as_flow (taps t ! i) = Inr g"
      by (auto simp: list_all2_conv_all_nth)
    with ts show "flow_ok g" by (auto simp: target_ok_def)
  qed
  note s1 = flow_ok_connect [OF f1 ok]
  note s2 = flow_ok_absorb_all [OF f2 conjunct1 [OF s1] pok]
  note s3 = flow_ok_absorb_all [OF f' conjunct1 [OF s2] tok]
  have exits: "set (map snd (sources_of ex)) \<subseteq> flow_sources f' \<and> set_option (default_source ex) \<subseteq> flow_sources f'"
  proof (cases pf)
    case None
    then show ?thesis by (simp add: ex no_sources_def)
  next
    case (Some g)
    with pok have "set (map snd (sources_of ex)) \<subseteq> flow_sources g" "set_option (default_source ex) \<subseteq> flow_sources g"
      by (auto simp: ex flow_ok_def)
    moreover have "flow_sources g \<subseteq> flow_sources f2" "flow_sources f2 \<subseteq> flow_sources f'"
      using s2 s3 Some by simp_all
    ultimately show ?thesis by auto
  qed
  have f'_ok: "flow_ok f'" "exit_sources f' = exit_sources f" using s1 s2 s3 by simp_all
  moreover from f'_ok(1) exits have "flow_ok (f'\<lparr>exit_sources := ex\<rparr>)" by (simp add: flow_ok_def)
  ultimately show ?thesis by blast
qed

lemma flow_ok_routes:
  "map_act flow_route rs f = (Inr us, f') \<Longrightarrow> flow_ok f \<Longrightarrow>
     \<forall>(nm, r) \<in> set rs. \<forall>t. as_route_targets r = Inr t \<longrightarrow> (\<forall>x \<in> set_option (primary t) \<union> set (taps t). target_ok x) \<Longrightarrow>
     flow_ok f'"
proof (induction rs arbitrary: f us)
  case (Cons r rs)
  obtain nm ro where r: "r = (nm, ro)" by (cases r)
  from Cons.prems(1) obtain e f1 vs where "flow_route r f = (Inr e, f1)" "map_act flow_route rs f1 = (Inr vs, f')"
    by (auto simp: bind_act_Inr)
  moreover from this(1) obtain s t where "as_route_targets ro = Inr t" "flow_connect_targets s t f = (Inr e, f1)"
    by (auto simp: flow_route_def r bind_act_Inr gets_act_def lift_act_def split: option.splits)
  ultimately show ?case
    using flow_ok_connect_targets [of s t f e f1] Cons.IH [of f1 vs] Cons.prems(2,3) r by auto
qed simp

section \<open>Properties\<close>

fun add_flows :: "flow list \<Rightarrow> (exn, unit, piping) act" where
  "add_flows [] = ret ()"
| "add_flows (f # fs) = seq_act (add_flow f) (add_flows fs)"

lemma add_flows_represents:
  assumes "represents (all_pipes pp) ds" "pipes_ok (all_pipes pp)" "consistent ds"
  shows "if consistent (ds @ concat (map flow_decls fs))
         then \<exists>pp'. add_flows fs pp = (Inr (), pp') \<and> represents (all_pipes pp') (ds @ concat (map flow_decls fs))
            \<and> all_sources pp' = all_sources pp \<union> (\<Union>f \<in> set fs. flow_sources f)
            \<and> all_sinks pp' = all_sinks pp \<union> (\<Union>f \<in> set fs. flow_sinks f)
         else \<exists>e pp'. add_flows fs pp = (Inl e, pp')"
  using assms
proof (induction fs arbitrary: pp ds)
  case (Cons f fs)
  note m = merge_represents [OF Cons.prems, of "flow_pipes f"]
  show ?case
  proof (cases "consistent (ds @ flow_decls f)")
    case True
    with m obtain p' where p': "pipes_merge (flow_pipes f) (all_pipes pp) = (Inr (), p')"
      "represents p' (ds @ flow_decls f)" "pipes_ok p'" by auto
    let ?pp = "\<lparr>all_pipes = p', all_sources = all_sources pp \<union> flow_sources f, all_sinks = all_sinks pp \<union> flow_sinks f\<rparr>"
    have run: "add_flow f pp = (Inr (), ?pp)" using p'(1) by (simp add: add_flow_def)
    have "represents (all_pipes ?pp) (ds @ flow_decls f)" "pipes_ok (all_pipes ?pp)" using p' by simp_all
    from Cons.IH [OF this True] show ?thesis
      by (cases "consistent (ds @ concat (map flow_decls (f # fs)))")
        (auto simp: seq_act_apply [of "add_flow f" pp, OF run] Un_assoc)
  next
    case False
    with m obtain e p' where "pipes_merge (flow_pipes f) (all_pipes pp) = (Inl e, p')" by auto
    moreover from False have "\<not> consistent (ds @ concat (map flow_decls (f # fs)))"
      using consistent_mono [of "ds @ concat (map flow_decls (f # fs))" "ds @ flow_decls f"] by auto
    ultimately show ?thesis by (simp add: add_flow_def seq_act_def bind_act_def)
  qed
qed simp

text \<open>C10: \<open>then(primary, taps=[...])\<close> on the default exit succeeds exactly when the declarations of
  the flow, the new connection and the declarations of all targets are consistent together; the
  flow then holds the graph they declare, the nodes of all targets, and continues at the exits of
  the primary, or at none when there are only taps.\<close>

theorem then_builds_declared_graph:
  assumes "pipes_ok (flow_pipes f)" and "default_source (exit_sources f) = Some src"
    and "distinct ts" and "po \<noteq> None \<or> ts \<noteq> []"
    and "\<forall>t \<in> set_option po \<union> set ts. default_sink (entry_sinks t) = Some (entry t)"
  defines "tfs \<equiv> (case po of None \<Rightarrow> [] | Some p \<Rightarrow> [p]) @ ts"
  defines "ds \<equiv> flow_decls f @ (src, map_option entry po, dedup (map entry ts)) # concat (map flow_decls tfs)"
  defines "res \<equiv> flow_then (case po of None \<Rightarrow> [] | Some p \<Rightarrow> [TFlow p]) (map TFlow ts) [] f"
  shows "if consistent ds
         then \<exists>f'. res = (Inr (), f') \<and> represents (flow_pipes f') ds
            \<and> flow_nodes f' = flow_nodes f \<union> (\<Union>t \<in> set tfs. flow_nodes t)
            \<and> exit_sources f' = (case po of None \<Rightarrow> no_sources | Some p \<Rightarrow> exit_sources p)
         else \<exists>e f'. res = (Inl e, f')"
proof -
  have sinks: "opt_res flow_default_sink po = Inr (map_option entry po)"
    "map (\<lambda>t. default_sink (entry_sinks t)) ts = map Some (map entry ts)"
    using assms(5) by (auto simp: opt_res_def flow_default_sink_def split: option.splits)
  note c = connect_targets_represents [OF represents_decls_of assms(1) consistent_decls_of sinks,
      OF assms(1,1), of src]
  have "distinct (map TFlow ts)" using assms(3) by (simp add: distinct_map inj_on_def)
  then have "mk_targets (case (case po of None \<Rightarrow> [] | Some p \<Rightarrow> [TFlow p]) of [] \<Rightarrow> None | t # _ \<Rightarrow> Some t) (map TFlow ts)
      = \<lparr>primary = map_option TFlow po, taps = map TFlow ts\<rparr>"
    by (cases po) (simp_all add: mk_targets_def dedup_distinct)
  moreover have "\<not> length (case po of None \<Rightarrow> [] | Some p \<Rightarrow> [TFlow p]) > 1" by (cases po) simp_all
  ultimately have res: "res = bind_act (flow_connect_targets src \<lparr>primary = map_option TFlow po, taps = map TFlow ts\<rparr>)
      (\<lambda>exits. modify_act (\<lambda>f. f\<lparr>exit_sources := exits\<rparr>)) f"
    using assms(2,4) by (auto simp: res_def flow_then_def gets_act_def bind_act_def Let_def)
  show ?thesis
  proof (cases "consistent ds")
    case True
    with c show ?thesis by (auto simp: res ds_def tfs_def bind_act_apply modify_act_def)
  next
    case False
    with c show ?thesis by (auto simp: res ds_def tfs_def bind_act_apply_raise)
  qed
qed

definition demo_flow :: "string \<Rightarrow> flow" where
  "demo_flow i = (case flow_from_connectable (CNode \<lparr>node_id = i,
        node_sinks_table = \<lparr>sinks_of = [(''sink'', Sink (i @ ''-sink''))], default_sink = Some (Sink (i @ ''-sink''))\<rparr>,
        node_sources_table = \<lparr>sources_of = [(''source'', Source i)], default_source = Some (Source i)\<rparr>\<rparr>) of Inr f \<Rightarrow> f)"

lemma demo_flow_eval:
  "flow_pipes (demo_flow i) = []" "default_source (exit_sources (demo_flow i)) = Some (Source i)"
  "default_sink (entry_sinks (demo_flow i)) = Some (Sink (i @ ''-sink''))" "flow_ok (demo_flow i)"
  by (simp_all add: demo_flow_def flow_from_connectable_def node_of_def flow_ok_def pipe_sinks_def)

theorem then_builds_declared_graph_witness:
  "\<exists>f'. flow_then [TFlow (demo_flow ''b'')] [TFlow (demo_flow ''c'')] [] (demo_flow ''a'') = (Inr (), f')
     \<and> represents (flow_pipes f') [(Source ''a'', Some (Sink ''b-sink''), [Sink ''c-sink''])]"
proof -
  have "consistent [(Source ''a'', Some (Sink ''b-sink''), [Sink ''c-sink''])]"
    by (auto simp: consistent_def declared_primaries_def declared_taps_def)
  with then_builds_declared_graph [of "demo_flow ''a''" "Source ''a''" "[demo_flow ''c'']" "Some (demo_flow ''b'')"
      "\<lambda>t. the (default_sink (entry_sinks t))"]
  show ?thesis by (simp add: demo_flow_eval decls_of_def) blast
qed

text \<open>A successful \<open>then\<close>, with a positional target, taps or named routes, keeps the flow well
  formed when the targets are: the roles stay disjoint, and every source, primary and tap of the
  graph and every open exit is among the recorded endpoints.\<close>

theorem then_keeps_flow_well_formed:
  assumes "flow_then positional tps routes f = (Inr (), f')" and "flow_ok f"
    and "\<forall>t \<in> set positional \<union> set tps. target_ok t"
    and "\<forall>(nm, r) \<in> set routes. \<forall>t. as_route_targets r = Inr t \<longrightarrow>
           (\<forall>x \<in> set_option (primary t) \<union> set (taps t). target_ok x)"
  shows "flow_ok f'"
proof (cases "routes = []")
  case False
  with assms(1) obtain us f1 where "map_act flow_route routes f = (Inr us, f1)" "f' = f1\<lparr>exit_sources := no_sources\<rparr>"
    by (auto simp: flow_then_def Let_def seq_act_def bind_act_Inr modify_act_def split: if_splits)
  with flow_ok_routes [of routes f us f1] assms(2,4) show ?thesis by (simp add: flow_ok_def no_sources_def)
next
  case True
  let ?t = "mk_targets (case positional of [] \<Rightarrow> None | t # _ \<Rightarrow> Some t) tps"
  from True assms(1) obtain s ex f1 where "flow_connect_targets s ?t f = (Inr ex, f1)" "f' = f1\<lparr>exit_sources := ex\<rparr>"
    by (auto simp: flow_then_def Let_def bind_act_Inr gets_act_def modify_act_def split: if_splits option.splits)
  with flow_ok_connect_targets [of s ?t f ex f1] assms(2,3) show ?thesis
    by (auto split: list.splits)
qed

theorem then_keeps_flow_well_formed_witness:
  "flow_ok (snd (flow_then [TFlow (demo_flow ''b'')] [] [] (demo_flow ''a'')))"
proof -
  have run: "fst (flow_then [TFlow (demo_flow ''b'')] [] [] (demo_flow ''a'')) = Inr ()"
    by (simp add: flow_then_def flow_connect_targets_def opt_res_def as_flow_def flow_default_sink_def
        flow_connect_def on_pipes_def flow_absorb_def demo_flow_eval pipes_connect_def validate_roles_def
        mk_targets_def Let_def act_defs)
  then have "flow_then [TFlow (demo_flow ''b'')] [] [] (demo_flow ''a'') =
      (Inr (), snd (flow_then [TFlow (demo_flow ''b'')] [] [] (demo_flow ''a'')))" by (metis prod.collapse)
  from then_keeps_flow_well_formed [OF this] show ?thesis
    by (simp add: demo_flow_eval target_ok_def as_flow_def)
qed

text \<open>\<open>then\<close> rejects, and leaves the flow as it was, a second positional target, targets given
  both by position and by route, no target at all, a route whose name is not an exit, and a route
  whose value is neither a target nor a \<open>Targets\<close>.\<close>

theorem then_rejects_bad_shapes:
  "flow_then (a # b # xs) tps routes f = (Inl (exn_of FlowMisconfiguredException), f)
   \<and> flow_then [a] tps (r # rs) f = (Inl (exn_of FlowMisconfiguredException), f)
   \<and> flow_then [] (t # tps) (r # rs) f = (Inl (exn_of FlowMisconfiguredException), f)
   \<and> flow_then [] [] [] f = (Inl (exn_of FlowMisconfiguredException), f)
   \<and> flow_then [] [] ((nm, ro) # rs) (f\<lparr>exit_sources := no_sources\<rparr>) =
       (Inl (exn_of FlowMisconfiguredException), f\<lparr>exit_sources := no_sources\<rparr>)
   \<and> flow_then [] [] ((nm, RIterable) # rs) f = (Inl (exn_of FlowMisconfiguredException), f)
   \<and> flow_then [] [] ((nm, ROther) # rs) f = (Inl (exn_of FlowMisconfiguredException), f)"
  by (simp add: flow_then_def flow_route_def as_route_targets_def Let_def act_defs no_sources_def
      mk_targets_def split: option.splits)

text \<open>Adding flows to a \<open>Piping\<close> in any order succeeds exactly when the connections they
  declare are consistent together, and the piping then holds exactly these connections and the
  endpoints of all the flows.\<close>

theorem piping_order_independent:
  assumes "set gs = set fs"
  defines "ds \<equiv> concat (map flow_decls fs)"
  shows "if consistent ds
         then \<exists>pp pp'. add_flows fs piping_init = (Inr (), pp) \<and> add_flows gs piping_init = (Inr (), pp')
            \<and> represents (all_pipes pp) ds \<and> represents (all_pipes pp') ds
            \<and> all_sources pp = (\<Union>f \<in> set fs. flow_sources f) \<and> all_sources pp' = all_sources pp
            \<and> all_sinks pp = (\<Union>f \<in> set fs. flow_sinks f) \<and> all_sinks pp' = all_sinks pp
         else (\<exists>e pp. add_flows fs piping_init = (Inl e, pp)) \<and> (\<exists>e pp. add_flows gs piping_init = (Inl e, pp))"
proof -
  have eq: "set (concat (map flow_decls gs)) = set ds" using assms(1) by (simp add: ds_def)
  have nil: "consistent []" by (simp add: consistent_def declared_primaries_def)
  have run: "if consistent (concat (map flow_decls hs))
      then \<exists>pp. add_flows hs piping_init = (Inr (), pp) \<and> represents (all_pipes pp) (concat (map flow_decls hs))
         \<and> all_sources pp = (\<Union>f \<in> set hs. flow_sources f) \<and> all_sinks pp = (\<Union>f \<in> set hs. flow_sinks f)
      else \<exists>e pp. add_flows hs piping_init = (Inl e, pp)" for hs
    using add_flows_represents [of piping_init "[]" hs] represents_Nil nil
    by (cases "consistent (concat (map flow_decls hs))") (auto simp: piping_init_def)
  from run [of fs] run [of gs] show ?thesis
    unfolding consistent_cong [OF eq] represents_cong [OF eq] ds_def [symmetric] assms(1)
    by (cases "consistent ds") auto
qed

theorem piping_order_independent_witness:
  "\<exists>pp. add_flows [demo_flow ''a'', demo_flow ''b''] piping_init = (Inr (), pp)
      \<and> all_sinks pp = {Sink ''a-sink'', Sink ''b-sink''}"
proof -
  have "consistent []" by (simp add: consistent_def declared_primaries_def)
  moreover have "flow_sinks (demo_flow i) = {Sink (i @ ''-sink'')}" for i
    by (simp add: demo_flow_def flow_from_connectable_def node_of_def)
  ultimately show ?thesis
    using piping_order_independent [of "[demo_flow ''b'', demo_flow ''a'']" "[demo_flow ''a'', demo_flow ''b'']"]
    by (auto simp: demo_flow_eval decls_of_def insert_commute)
qed

end
