(* ===== verification/ResultActors.thy ===== *)
theory ResultActors
  imports ResultStore
begin

text \<open>
  The actors between an executor's answer and the stored result: \<open>mux.py\<close>,
  \<open>task_result_preparer.py\<close>, \<open>task_result_storer.py\<close>, \<open>task_result_dispatcher.py\<close>,
  \<open>task_result_sampler.py\<close> and \<open>task_input_output_creator.py\<close>. The preparer is a slot of one
  pending result per context; \<open>slot_step\<close> is that contract, and the handlers refine it.
\<close>

section \<open>Mux\<close>

record mux2 =
  mux_left :: sink
  mux_right :: sink
  mux_out :: source

definition mk_mux2 :: "string \<Rightarrow> mux2" where
  "mk_mux2 i = \<lparr>mux_left = Sink (i @ ''-left''), mux_right = Sink (i @ ''-right''), mux_out = Source (i @ ''-out'')\<rparr>"

definition mux2_sinks :: "mux2 \<Rightarrow> exn + node_sinks" where
  "mux2_sinks s = node_sinks_init [(''left'', mux_left s), (''right'', mux_right s)] None"

definition mux2_sources :: "mux2 \<Rightarrow> exn + node_sources" where
  "mux2_sources s = node_sources_init [(''out'', mux_out s)] None"

definition mux2_forward :: "mux2 \<Rightarrow> context_id \<Rightarrow> pyval \<Rightarrow> send_event list" where
  "mux2_forward s c v = [SendEvent c (mux_out s) v]"

definition mux2_handlers :: "mux2 \<Rightarrow> (sink, ('d, 'x) handler) dict" where
  "mux2_handlers s =
     dict_set (mux_right s) (\<lambda>c _ v. ret (mux2_forward s c v)) [(mux_left s, \<lambda>c _ v. ret (mux2_forward s c v))]"

section \<open>Preparer\<close>

record preparer =
  prep_id :: string
  prep_timestamped_result :: sink
  prep_converted_public_output :: sink
  prep_conversion_failed :: sink
  prep_executor_output_for_conversion :: source
  prep_success :: source
  prep_failure :: source
  prep_error :: source

definition mk_preparer :: "string \<Rightarrow> preparer" where
  "mk_preparer i = \<lparr>prep_id = i,
     prep_timestamped_result = Sink (i @ ''-timestamped-result''),
     prep_converted_public_output = Sink (i @ ''-converted-public-output''),
     prep_conversion_failed = Sink (i @ ''-conversion-failed''),
     prep_executor_output_for_conversion = Source (i @ ''-executor-output-for-conversion''),
     prep_success = Source (i @ ''-prepared-successful-task-result''),
     prep_failure = Source (i @ ''-prepared-executor-failure''),
     prep_error = Source (i @ ''-error'')\<rparr>"

definition preparer_sinks :: "preparer \<Rightarrow> exn + node_sinks" where
  "preparer_sinks s = node_sinks_init [(''timestamped-result'', prep_timestamped_result s),
     (''converted-public-output'', prep_converted_public_output s), (''conversion-failed'', prep_conversion_failed s)] None"

definition preparer_sources :: "preparer \<Rightarrow> exn + node_sources" where
  "preparer_sources s = node_sources_init [(''executor-output-for-conversion'', prep_executor_output_for_conversion s),
     (''prepared-successful-task-result'', prep_success s), (''prepared-executor-failure'', prep_failure s),
     (''error'', prep_error s)] None"

definition pending_key :: "preparer \<Rightarrow> string" where
  "pending_key s = prep_id s @ ''-pending-successful-result''"

text \<open>The two \<open>isinstance\<close> tests on an output.\<close>

definition is_failure_value :: "pyval \<Rightarrow> bool" where
  "is_failure_value v = (case v of PExn e \<Rightarrow> is_executor_failure e | _ \<Rightarrow> False)"

definition is_nexus_value :: "pyval \<Rightarrow> bool" where
  "is_nexus_value v = (case v of PExn e \<Rightarrow> is_nexus e | _ \<Rightarrow> False)"

definition prep_handle_timestamped_result ::
  "'d deepdiff \<Rightarrow> preparer \<Rightarrow> context_id \<Rightarrow> pyval timestamped \<Rightarrow> (exn, send_event list, ('d, 'x) world_scheme) act" where
  "prep_handle_timestamped_result dd s c t =
     bind_act (lift_act (as_stored_execution t)) (\<lambda>ex.
       let out = processed_out (executor_output ex) in
       if is_failure_value out then ret [SendEvent c (prep_failure s) (PFailToPersist t)]
       else if is_nexus_value out then ret [SendEvent c (prep_error s) (PExn framework_exn)]
       else
         bind_act (copy_user_data c) (\<lambda>ud.
           if (case dict_get ud (pending_key s) of None \<Rightarrow> False | Some v \<Rightarrow> v \<noteq> PNone)
           then ret [SendEvent c (prep_error s) (PExn framework_exn)]
           else seq_act (set_user_data dd c (pending_key s) (PTimestamped t))
                  (ret [SendEvent c (prep_executor_output_for_conversion s) out])))"

definition prep_handle_converted_public_output ::
  "'d deepdiff \<Rightarrow> preparer \<Rightarrow> context_id \<Rightarrow> pyval \<Rightarrow> (exn, send_event list, ('d, 'x) world_scheme) act" where
  "prep_handle_converted_public_output dd s c v =
     bind_act (copy_user_data c) (\<lambda>ud.
       case dict_get ud (pending_key s) of
         None \<Rightarrow> ret [SendEvent c (prep_error s) (PExn framework_exn)]
       | Some (PTimestamped t) \<Rightarrow>
           seq_act (set_user_data dd c (pending_key s) PNone)
             (ret [SendEvent c (prep_success s) (PSuccToPersist t v)])
       | Some _ \<Rightarrow> ret [SendEvent c (prep_error s) (PExn framework_exn)])"

definition prep_handle_conversion_failed ::
  "'d deepdiff \<Rightarrow> preparer \<Rightarrow> context_id \<Rightarrow> pyval \<Rightarrow> (exn, send_event list, ('d, 'x) world_scheme) act" where
  "prep_handle_conversion_failed dd s c v =
     bind_act (copy_user_data c) (\<lambda>ud.
     seq_act (if dict_has ud (pending_key s) then set_user_data dd c (pending_key s) PNone else ret ())
       (ret [SendEvent c (prep_error s) v]))"

section \<open>Storers\<close>

definition success_storer_transform ::
  "string \<Rightarrow> context_id \<Rightarrow> pyval \<Rightarrow> (exn, pyval, result_store \<times> ('d, 'x) world_scheme) act" where
  "success_storer_transform t c v =
     (case v of
        PSuccToPersist result public \<Rightarrow> bind_act (add_successful_task_result c t result public) (\<lambda>r. ret (PSucc r))
      | _ \<Rightarrow> raise attribute_error)"

definition success_storer_handle ::
  "transform \<Rightarrow> string \<Rightarrow> context_id \<Rightarrow> pyval \<Rightarrow> (exn, send_event list, result_store \<times> ('d, 'x) world_scheme) act" where
  "success_storer_handle spec t c v =
     fork_handler (\<lambda>c v. safe_invoke (success_storer_transform t c v)) (tr_ok spec) (tr_error spec) c v"

definition failure_storer_transform ::
  "string \<Rightarrow> context_id \<Rightarrow> pyval \<Rightarrow> (exn, pyval, result_store \<times> ('d, 'x) world_scheme) act" where
  "failure_storer_transform t c v =
     (case v of
        PFailToPersist result \<Rightarrow> bind_act (add_executor_failure c t result) (\<lambda>r. ret (PFail r))
      | _ \<Rightarrow> raise attribute_error)"

definition failure_storer_handle ::
  "transform \<Rightarrow> string \<Rightarrow> context_id \<Rightarrow> sink \<Rightarrow> pyval \<Rightarrow> (exn, send_event list, result_store \<times> ('d, 'x) world_scheme) act" where
  "failure_storer_handle spec t c target v =
     (if target \<noteq> fork_sink spec then raise framework_exn
      else
        bind_act (safe_invoke (failure_storer_transform t c v)) (\<lambda>(stored, err).
          if err \<noteq> PNone then ret [SendEvent c (tr_error spec) err]
          else
            case stored of
              PFail r \<Rightarrow>
                ret [SendEvent c (tr_ok spec) stored,
                     SendEvent c (tr_error spec)
                       (PExn (exn_with_cause RetryTaskAfterExecutorFailureException (fail_exn r)))]
            | _ \<Rightarrow> raise framework_exn))"

definition storer_sinks :: "transform \<Rightarrow> exn + node_sinks" where
  "storer_sinks spec = node_sinks_init [(''result-input'', fork_sink spec)] None"

definition success_storer_sources :: "transform \<Rightarrow> exn + node_sources" where
  "success_storer_sources spec =
     node_sources_init [(''successful_task_result'', tr_ok spec), (''error'', tr_error spec)] (Some (tr_ok spec))"

definition failure_storer_sources :: "transform \<Rightarrow> exn + node_sources" where
  "failure_storer_sources spec =
     node_sources_init [(''executor_failure'', tr_ok spec), (''error'', tr_error spec)] (Some (tr_ok spec))"

section \<open>Dispatcher\<close>

record dispatcher =
  disp_success_input :: sink
  disp_failure_input :: sink
  disp_success :: source
  disp_failure :: source
  disp_executor_output :: source

definition mk_dispatcher :: "string \<Rightarrow> dispatcher" where
  "mk_dispatcher i = \<lparr>
     disp_success_input = Sink (i @ ''-successful-task-result-input''),
     disp_failure_input = Sink (i @ ''-executor-failure-input''),
     disp_success = Source (i @ ''-successful-task-result''),
     disp_failure = Source (i @ ''-executor-failure''),
     disp_executor_output = Source (i @ ''-executor-output'')\<rparr>"

definition dispatcher_sinks :: "dispatcher \<Rightarrow> exn + node_sinks" where
  "dispatcher_sinks s = node_sinks_init [(''successful-task-result-input'', disp_success_input s),
     (''executor-failure-input'', disp_failure_input s)] None"

definition dispatcher_sources :: "dispatcher \<Rightarrow> exn + node_sources" where
  "dispatcher_sources s = node_sources_init [(''successful-task-result'', disp_success s),
     (''executor-failure'', disp_failure s), (''executor-output'', disp_executor_output s)] None"

definition disp_handle_success ::
  "dispatcher \<Rightarrow> context_id \<Rightarrow> pyval \<Rightarrow> (exn, send_event list, ('d, 'x) world_scheme) act" where
  "disp_handle_success s c v =
     bind_act (create_context [c]) (\<lambda>child.
       case v of
         PSucc r \<Rightarrow> ret [SendEvent child (disp_success s) v, SendEvent c (disp_executor_output s) (succ_public r)]
       | _ \<Rightarrow> raise attribute_error)"

definition disp_handle_failure ::
  "dispatcher \<Rightarrow> context_id \<Rightarrow> pyval \<Rightarrow> (exn, send_event list, ('d, 'x) world_scheme) act" where
  "disp_handle_failure s c v =
     bind_act (create_context [c]) (\<lambda>child. ret [SendEvent child (disp_failure s) v])"

section \<open>Sampler and payloads for validation\<close>

definition sampler_sinks :: "transform \<Rightarrow> exn + node_sinks" where
  "sampler_sinks spec = node_sinks_init [(''task-results'', fork_sink spec)] None"

definition sampler_sources :: "transform \<Rightarrow> exn + node_sources" where
  "sampler_sources spec = node_sources_init [(''sampled-batch'', tr_ok spec), (''error'', tr_error spec)] (Some (tr_ok spec))"

definition every_sampler_handlers :: "transform \<Rightarrow> (sink, ('d, 'x) handler) dict" where
  "every_sampler_handlers spec = transform_handlers spec (\<lambda>_ v. ret (PTuple [v]))"

record task_input_output =
  tio_id :: nat
  tio_input :: pyval
  tio_output :: pyval
  tio_public :: pyval

text \<open>The loop over the batch: a member that is not a stored success has not the attributes read.\<close>

fun task_input_outputs :: "pyval list \<Rightarrow> exn + task_input_output list" where
  "task_input_outputs [] = Inr []"
| "task_input_outputs (PSucc r # vs) =
     (case task_input_outputs vs of
        Inl e \<Rightarrow> Inl e
      | Inr xs \<Rightarrow> Inr (\<lparr>tio_id = succ_id r, tio_input = succ_payload r, tio_output = succ_output r, tio_public = succ_public r\<rparr> # xs))"
| "task_input_outputs (_ # vs) = Inl attribute_error"

definition task_input_output_transform :: "pyval \<Rightarrow> exn + task_input_output list" where
  "task_input_output_transform v =
     (case v of PTuple vs \<Rightarrow> task_input_outputs vs | _ \<Rightarrow> Inl (exn_of (OtherException ''TypeError'')))"

section \<open>The slot of the preparer\<close>

datatype slot_event =
    SlotResult "pyval timestamped" pyval \<comment> \<open>a result and its output\<close>
  | SlotConverted pyval
  | SlotFailed pyval

text \<open>The contract: one answer per message; a success is held until its conversion answers.\<close>

fun slot_step :: "preparer \<Rightarrow> slot_event \<Rightarrow> pyval timestamped option \<Rightarrow> (source \<times> pyval) \<times> pyval timestamped option" where
  "slot_step s (SlotResult t out) pending =
     (if is_failure_value out then ((prep_failure s, PFailToPersist t), pending)
      else if is_nexus_value out then ((prep_error s, PExn framework_exn), pending)
      else if pending \<noteq> None then ((prep_error s, PExn framework_exn), pending)
      else ((prep_executor_output_for_conversion s, out), Some t))"
| "slot_step s (SlotConverted v) None = ((prep_error s, PExn framework_exn), None)"
| "slot_step s (SlotConverted v) (Some t) = ((prep_success s, PSuccToPersist t v), None)"
| "slot_step s (SlotFailed v) pending = ((prep_error s, v), None)"

fun prep_handle :: "'d deepdiff \<Rightarrow> preparer \<Rightarrow> context_id \<Rightarrow> slot_event \<Rightarrow> (exn, send_event list, ('d, 'x) world_scheme) act" where
  "prep_handle dd s c (SlotResult t out) = prep_handle_timestamped_result dd s c t"
| "prep_handle dd s c (SlotConverted v) = prep_handle_converted_public_output dd s c v"
| "prep_handle dd s c (SlotFailed v) = prep_handle_conversion_failed dd s c v"

definition event_ok :: "slot_event \<Rightarrow> bool" where
  "event_ok ev = (case ev of SlotResult t out \<Rightarrow> (\<exists>i. executor_output t = PProcessed (ProcessedInput i out)) | _ \<Rightarrow> True)"

text \<open>The context holds the slot: nothing, \<open>None\<close> or a pending result under the actor's key.\<close>

definition holds_slot :: "preparer \<Rightarrow> context_id \<Rightarrow> ('d, 'x) world_scheme \<Rightarrow> pyval timestamped option \<Rightarrow> bool" where
  "holds_slot s c w pending \<longleftrightarrow>
     (\<exists>x. dict_get (contexts w) c = Some x \<and> \<not> is_completed x \<and>
        (case pending of
           None \<Rightarrow> dict_get (user_data x) (pending_key s) \<in> {None, Some PNone}
         | Some t \<Rightarrow> dict_get (user_data x) (pending_key s) = Some (PTimestamped t)))"

lemma slot_write:
  assumes "deepdiff_total dd" "store_inv dd w" "dict_get (contexts w) c = Some x" "\<not> is_completed x"
    and "case pending of None \<Rightarrow> v = PNone | Some t \<Rightarrow> v = PTimestamped t"
  shows "\<exists>w'. set_user_data dd c (pending_key s) v w = (Inr (), w') \<and> store_inv dd w' \<and> holds_slot s c w' pending"
proof -
  obtain w' where "set_user_data dd c (pending_key s) v w = (Inr (), w')" "store_inv dd w'"
    "contexts w' = dict_set c (x\<lparr>user_data := dict_set (pending_key s) v (user_data x)\<rparr>) (contexts w)"
    using set_user_data_run [OF assms(1-4), of "pending_key s" v] by blast
  with assms(4,5) show ?thesis by (auto simp: holds_slot_def split: option.splits)
qed

lemma prep_result_refines:
  assumes "deepdiff_total dd" "store_inv dd w" "holds_slot s c w pending"
    and "executor_output t = PProcessed (ProcessedInput i out)"
  shows "\<exists>w' src v pending'. slot_step s (SlotResult t out) pending = ((src, v), pending')
      \<and> prep_handle_timestamped_result dd s c t w = (Inr [SendEvent c src v], w') \<and> store_inv dd w' \<and> holds_slot s c w' pending'"
proof -
  from assms(3) obtain x where x: "dict_get (contexts w) c = Some x" "\<not> is_completed x"
    "case pending of None \<Rightarrow> dict_get (user_data x) (pending_key s) \<in> {None, Some PNone}
       | Some t \<Rightarrow> dict_get (user_data x) (pending_key s) = Some (PTimestamped t)" by (auto simp: holds_slot_def)
  have stored: "as_stored_execution t = Inr (Timestamped (ProcessedInput i out) (processing_started t)
      (processing_finished t) (block_at_finish t))"
    by (simp add: as_stored_execution_def assms(4))
  have full: "(case dict_get (user_data x) (pending_key s) of None \<Rightarrow> False | Some v \<Rightarrow> v \<noteq> PNone) \<longleftrightarrow> pending \<noteq> None"
    using x(3) by (auto split: option.splits)
  have run: "prep_handle_timestamped_result dd s c t w =
      (if is_failure_value out then (Inr [SendEvent c (prep_failure s) (PFailToPersist t)], w)
       else if is_nexus_value out \<or> pending \<noteq> None then (Inr [SendEvent c (prep_error s) (PExn framework_exn)], w)
       else seq_act (set_user_data dd c (pending_key s) (PTimestamped t))
              (ret [SendEvent c (prep_executor_output_for_conversion s) out]) w)"
    by (simp add: prep_handle_timestamped_result_def bind_act_def lift_act_def stored Let_def copy_user_data_run [OF x(1)] full)
  consider "is_failure_value out \<or> is_nexus_value out \<or> pending \<noteq> None"
    | "\<not> is_failure_value out" "\<not> is_nexus_value out" "pending = None" by blast
  then show ?thesis
  proof cases
    case 2
    from slot_write [OF assms(1,2) x(1,2), where pending = "Some t" and v = "PTimestamped t" and s = s] obtain w' where
      "set_user_data dd c (pending_key s) (PTimestamped t) w = (Inr (), w')" "store_inv dd w'" "holds_slot s c w' (Some t)" by auto
    with 2 show ?thesis by (simp add: run seq_act_def bind_act_def)
  qed (use assms(2,3) in \<open>auto simp: run\<close>)
qed

lemma prep_refines:
  assumes "deepdiff_total dd" "store_inv dd w" "holds_slot s c w pending" "event_ok ev"
  shows "\<exists>w' src v pending'. slot_step s ev pending = ((src, v), pending')
      \<and> prep_handle dd s c ev w = (Inr [SendEvent c src v], w') \<and> store_inv dd w' \<and> holds_slot s c w' pending'"
proof (cases ev)
  case (SlotResult t out)
  with assms(4) obtain i where "executor_output t = PProcessed (ProcessedInput i out)" by (auto simp: event_ok_def)
  from prep_result_refines [OF assms(1-3) this] show ?thesis unfolding SlotResult prep_handle.simps .
next
  case (SlotConverted v)
  from assms(3) obtain x where x: "dict_get (contexts w) c = Some x" "\<not> is_completed x"
    "case pending of None \<Rightarrow> dict_get (user_data x) (pending_key s) \<in> {None, Some PNone}
       | Some t \<Rightarrow> dict_get (user_data x) (pending_key s) = Some (PTimestamped t)" by (auto simp: holds_slot_def)
  note run = prep_handle_converted_public_output_def bind_act_def copy_user_data_run [OF x(1)]
  show ?thesis
  proof (cases pending)
    case None
    with x(3) assms(2,3) SlotConverted show ?thesis by (auto simp: run)
  next
    case (Some t)
    from slot_write [OF assms(1,2) x(1,2), where pending = None and v = PNone and s = s] obtain w' where
      "set_user_data dd c (pending_key s) PNone w = (Inr (), w')" "store_inv dd w'" "holds_slot s c w' None" by auto
    with Some x(3) SlotConverted show ?thesis by (simp add: run seq_act_def)
  qed
next
  case (SlotFailed v)
  from assms(3) obtain x where x: "dict_get (contexts w) c = Some x" "\<not> is_completed x"
    "case pending of None \<Rightarrow> dict_get (user_data x) (pending_key s) \<in> {None, Some PNone}
       | Some t \<Rightarrow> dict_get (user_data x) (pending_key s) = Some (PTimestamped t)" by (auto simp: holds_slot_def)
  note run = prep_handle_conversion_failed_def bind_act_def copy_user_data_run [OF x(1)]
  show ?thesis
  proof (cases "dict_has (user_data x) (pending_key s)")
    case True
    from slot_write [OF assms(1,2) x(1,2), where pending = None and v = PNone and s = s] obtain w' where
      "set_user_data dd c (pending_key s) PNone w = (Inr (), w')" "store_inv dd w'" "holds_slot s c w' None" by auto
    with True SlotFailed show ?thesis by (simp add: run seq_act_def)
  next
    case False
    with x have "pending = None" "holds_slot s c w None" by (auto simp: dict_has_def holds_slot_def split: option.splits)
    with False SlotFailed assms(2) show ?thesis by (simp add: run seq_act_def)
  qed
qed

section \<open>Sequences of messages to the preparer\<close>

fun slot_run :: "preparer \<Rightarrow> slot_event list \<Rightarrow> pyval timestamped option \<Rightarrow> (source \<times> pyval) list \<times> pyval timestamped option" where
  "slot_run s [] pending = ([], pending)"
| "slot_run s (ev # evs) pending =
     (case slot_step s ev pending of (answer, p) \<Rightarrow> (case slot_run s evs p of (answers, q) \<Rightarrow> (answer # answers, q)))"

fun prep_run :: "'d deepdiff \<Rightarrow> preparer \<Rightarrow> context_id \<Rightarrow> slot_event list \<Rightarrow> (exn, send_event list, ('d, 'x) world_scheme) act" where
  "prep_run dd s c [] = ret []"
| "prep_run dd s c (ev # evs) = bind_act (prep_handle dd s c ev) (\<lambda>a. bind_act (prep_run dd s c evs) (\<lambda>b. ret (a @ b)))"

lemma prep_run_refines:
  assumes "deepdiff_total dd" "store_inv dd w" "holds_slot s c w pending" "\<forall>ev \<in> set evs. event_ok ev"
  shows "\<exists>w'. prep_run dd s c evs w = (Inr (map (\<lambda>(src, v). SendEvent c src v) (fst (slot_run s evs pending))), w')
      \<and> store_inv dd w' \<and> holds_slot s c w' (snd (slot_run s evs pending))"
  using assms(2-4)
proof (induction evs arbitrary: w pending)
  case (Cons ev evs)
  from prep_refines [OF assms(1) Cons.prems(1,2), of ev] Cons.prems(3) obtain w1 src v p where
    w1: "slot_step s ev pending = ((src, v), p)" "prep_handle dd s c ev w = (Inr [SendEvent c src v], w1)"
    "store_inv dd w1" "holds_slot s c w1 p" by auto
  from Cons.IH [OF w1(3,4)] Cons.prems(3) w1(1,2) show ?case
    by (auto simp: bind_act_def split: prod.splits)
qed simp

section \<open>Properties\<close>

text \<open>C15: whatever sequence of results, conversions and conversion failures arrives in a live context,
  the preparer answers exactly as the one-place slot does: one message per message; a success waits
  for its conversion and is emitted once, with the first conversion answered after it; a second
  success before that, or a conversion without a success, is an error; failures pass through.\<close>

theorem preparer_refines_slot:
  fixes w :: "('d, 'x) world_scheme"
  assumes "deepdiff_total dd" and "store_reach dd w" and "holds_slot s c w pending" and "\<forall>ev \<in> set evs. event_ok ev"
  shows "\<exists>w'. prep_run dd s c evs w = (Inr (map (\<lambda>(src, v). SendEvent c src v) (fst (slot_run s evs pending))), w')
      \<and> holds_slot s c w' (snd (slot_run s evs pending))"
  using prep_run_refines [OF assms(1) store_reach_inv [OF assms(2) deepdiff_totalD [OF assms(1)]] assms(3,4)] by blast

theorem preparer_refines_slot_witness:
  "\<exists>w'. prep_run plain_diff (mk_preparer ''p'') (Uuid 0)
       [SlotResult (demo_result_at 9 (PInt 2)) (PInt 2), SlotConverted (PInt 3), SlotConverted (PInt 4)] demo_bus_world =
     (Inr [SendEvent (Uuid 0) (Source ''p-executor-output-for-conversion'') (PInt 2),
           SendEvent (Uuid 0) (Source ''p-prepared-successful-task-result'') (PSuccToPersist (demo_result_at 9 (PInt 2)) (PInt 3)),
           SendEvent (Uuid 0) (Source ''p-error'') (PExn framework_exn)], w')"
proof -
  let ?evs = "[SlotResult (demo_result_at 9 (PInt 2)) (PInt 2), SlotConverted (PInt 3), SlotConverted (PInt 4)]"
  have slot: "holds_slot (mk_preparer ''p'') (Uuid 0) demo_bus_world None"
    using demo_bus_live by (auto simp: holds_slot_def blank_context_def)
  have ok: "\<forall>ev \<in> set ?evs. event_ok ev" by (simp add: event_ok_def demo_result_at_def)
  have run: "fst (slot_run (mk_preparer ''p'') ?evs None) =
      [(Source ''p-executor-output-for-conversion'', PInt 2),
       (Source ''p-prepared-successful-task-result'', PSuccToPersist (demo_result_at 9 (PInt 2)) (PInt 3)),
       (Source ''p-error'', PExn framework_exn)]"
    by (simp add: mk_preparer_def is_failure_value_def is_nexus_value_def)
  from preparer_refines_slot [OF plain_diff_total demo_bus_reach slot ok] obtain w' where
    "prep_run plain_diff (mk_preparer ''p'') (Uuid 0) ?evs demo_bus_world =
       (Inr (map (\<lambda>(src, v). SendEvent (Uuid 0) src v) (fst (slot_run (mk_preparer ''p'') ?evs None))), w')" by blast
  then show ?thesis unfolding run by auto
qed

text \<open>In a live context, the failure storer either stores one executor failure and emits the stored
  record followed by the retry signal whose cause is that failure, or stores nothing and emits one
  error; it never raises.\<close>

theorem failure_storer_stores_then_retries:
  fixes w :: "('d, 'x) world_scheme"
  assumes "deepdiff_ok dd" and "store_reach dd w" and "dict_get (contexts w) c = Some x" and "\<not> is_completed x"
  shows "(\<exists>r w'. is_failure_for result r \<and> failure_storer_handle spec t c (fork_sink spec) (PFailToPersist result) (s, w) =
             (Inr [SendEvent c (tr_ok spec) (PFail r),
                   SendEvent c (tr_error spec) (PExn (exn_with_cause RetryTaskAfterExecutorFailureException (fail_exn r)))],
              (insert_failure t r s, w')))
      \<or> (\<exists>e. (\<forall>r. \<not> is_failure_for result r) \<and> failure_storer_handle spec t c (fork_sink spec) (PFailToPersist result) (s, w) =
             (Inr [SendEvent c (tr_error spec) (PExn e)], (s, w)))"
proof (cases "\<exists>r. is_failure_for result r")
  case True
  then obtain r0 where "is_failure_for result r0" by blast
  then obtain v n e where "executor_output result = PProcessed (ProcessedInput (Routed v n) (PExn e))" "is_executor_failure e"
    by (auto simp: is_failure_for_def)
  then obtain r where r: "is_failure_for result r" "fail_id r = uuids w"
    using that [of "ExecutorFailureTaskResult (uuids w) (processing_started result) (processing_finished result)
      (block_at_finish result) v n e"] by (simp add: is_failure_for_def)
  from add_failure_run [OF store_reach_inv [OF assms(2,1)] assms(3,4) r] obtain w' where
    "add_executor_failure c t result (s, w) = (Inr r, (insert_failure t r s, w'))" by blast
  with r(1) show ?thesis
    by (auto simp: failure_storer_handle_def failure_storer_transform_def safe_invoke_def bind_act_def)
next
  case False
  with add_failure_cases [of c t result s w] obtain e where "add_executor_failure c t result (s, w) = (Inl e, (s, w))"
    by (metis prod.collapse)
  with False show ?thesis
    by (auto simp: failure_storer_handle_def failure_storer_transform_def safe_invoke_def bind_act_def)
qed

theorem failure_storer_stores_then_retries_witness:
  "\<exists>r st. failure_storer_handle (mk_fork ''f'') ''task'' (Uuid 0) (Sink ''f-sink'')
       (PFailToPersist (demo_result_at 9 (PExn (executor_failure key_error)))) (result_store_init, demo_bus_world) =
     (Inr [SendEvent (Uuid 0) (Source ''f-left-source'') (PFail r),
           SendEvent (Uuid 0) (Source ''f-right-source'')
             (PExn (exn_with_cause RetryTaskAfterExecutorFailureException (fail_exn r)))], st)"
proof -
  let ?t = "demo_result_at 9 (PExn (executor_failure key_error))"
  have "is_failure_for ?t (ExecutorFailureTaskResult 0 0 1 (block_at_finish ?t) (PInt 1) demo_neuron (executor_failure key_error))"
    by (simp add: is_failure_for_def demo_result_at_def)
  with failure_storer_stores_then_retries [OF plain_diff_ok demo_bus_reach demo_bus_live, of ?t "mk_fork ''f''" "''task''" result_store_init]
  show ?thesis by (auto simp: mk_fork_def)
qed

text \<open>For a success stored in a live context, the dispatcher opens one child context that inherits
  the parent's data, sends the whole result to the child, and the public output to the parent; a
  failure goes to such a child only, so the caller sees no output.\<close>

theorem dispatcher_isolates_results:
  fixes w :: "('d, 'x) world_scheme"
  assumes "deepdiff_ok dd" and "store_reach dd w" and "dict_get (contexts w) c = Some x" and "\<not> is_completed x"
  shows "\<exists>child w'. child \<noteq> c \<and> dict_get (contexts w) child = None
      \<and> disp_handle_success s c (PSucc r) w =
          (Inr [SendEvent child (disp_success s) (PSucc r), SendEvent c (disp_executor_output s) (succ_public r)], w')
      \<and> disp_handle_failure s c (PFail f) w = (Inr [SendEvent child (disp_failure s) (PFail f)], w')
      \<and> (\<exists>y. dict_get (contexts w') child = Some y \<and> user_data y = user_data x \<and> payload y = payload x
            \<and> map snap_ctx (parent_contexts y) = [c])"
proof -
  note inv = store_reach_inv [OF assms(2,1)]
  have live: "\<forall>p \<in> set [c]. live w p" using assms(3,4) by (simp add: live_def)
  have id: "ctx_id x = c" by (rule store_inv_known(3) [OF inv assms(3)])
  have "dict_get (contexts w) (Uuid (uuids w)) = None"
    using fresh_uuid_unknown [OF inv] inv by (simp add: store_inv_def)
  moreover from this assms(3) have "Uuid (uuids w) \<noteq> c" by auto
  moreover from create_context_run [OF inv live] obtain w' where
    "create_context [c] w = (Inr (Uuid (uuids w)), w')"
    "contexts w' = dict_set (Uuid (uuids w)) \<lparr>ctx_id = Uuid (uuids w),
       payload = payload x, user_data = user_data x, parent_contexts = [snapshot_of x], is_completed = False\<rparr> (contexts w)"
    using assms(3) by (auto simp: snapshots_of_def initial_data_def snapshot_of_def)
  ultimately show ?thesis using id
    by (intro exI [of _ "Uuid (uuids w)"] exI [of _ w'])
      (simp add: disp_handle_success_def disp_handle_failure_def bind_act_def snapshot_of_def)
qed

theorem dispatcher_isolates_results_witness:
  "\<exists>child w'. child \<noteq> Uuid 0 \<and> disp_handle_success (mk_dispatcher ''d'') (Uuid 0) (PSucc (demo_success 7)) demo_bus_world =
     (Inr [SendEvent child (Source ''d-successful-task-result'') (PSucc (demo_success 7)),
           SendEvent (Uuid 0) (Source ''d-executor-output'') (PInt 3)], w')"
proof -
  have "disp_success (mk_dispatcher ''d'') = Source ''d-successful-task-result''"
    "disp_executor_output (mk_dispatcher ''d'') = Source ''d-executor-output''" "succ_public (demo_success 7) = PInt 3"
    by (simp_all add: mk_dispatcher_def demo_success_def)
  with dispatcher_isolates_results [OF plain_diff_ok demo_bus_reach demo_bus_live, of "mk_dispatcher ''d''" "demo_success 7"]
  show ?thesis by metis
qed

end
