(* ===== verification/Timestamper.thy ===== *)
theory Timestamper
  imports StoreRuns "HOL-Library.Sublist"
begin

text \<open>
  \<open>TimestamperActor\<close> of \<open>actors/timestamper.py\<close>: outputs wait in a queue until a block beat is
  known. An instant is a number of microseconds. The actor's own state is a record beside the
  world; a handler returns the events it emits.
\<close>

section \<open>State\<close>

record timestamper_spec =
  ts_input :: sink
  ts_executor_output :: sink
  ts_block_beat :: sink
  ts_forwarded_input :: source
  ts_timestamped_output :: source
  ts_key :: string

definition mk_timestamper :: "string \<Rightarrow> timestamper_spec" where
  "mk_timestamper i = \<lparr>
     ts_input = Sink (i @ ''-input-sink''), ts_executor_output = Sink (i @ ''-executor-output-sink''),
     ts_block_beat = Sink (i @ ''-block-beat-sink''), ts_forwarded_input = Source (i @ ''-input-source''),
     ts_timestamped_output = Source (i @ ''-output-source''), ts_key = i @ ''-processing-started-at-utc''\<rparr>"

definition timestamper_sinks :: "timestamper_spec \<Rightarrow> exn + node_sinks" where
  "timestamper_sinks s =
     node_sinks_init [(''input'', ts_input s), (''output'', ts_executor_output s), (''block_beat'', ts_block_beat s)] None"

definition timestamper_sources :: "timestamper_spec \<Rightarrow> exn + node_sources" where
  "timestamper_sources s =
     node_sources_init [(''forwarded_input'', ts_forwarded_input s), (''timestamped_output'', ts_timestamped_output s)] None"

record timestamper =
  latest_block_beat :: "block_beat option"
  queued_outputs :: "(context_id \<times> pyval) list"
  warning_logged_head :: "(context_id \<times> int) option"

definition timestamper_init :: timestamper where
  "timestamper_init = \<lparr>latest_block_beat = None, queued_outputs = [], warning_logged_head = None\<rparr>"

definition QUEUE_AGE_WARNING_THRESHOLD :: int where "QUEUE_AGE_WARNING_THRESHOLD = 60 * 1000000"
definition QUEUE_AGE_ERROR_THRESHOLD :: int where "QUEUE_AGE_ERROR_THRESHOLD = 5 * 60 * 1000000"

type_synonym ('a, 'd, 'x) ts_act = "(exn, 'a, timestamper \<times> ('d, 'x) world_scheme) act"

section \<open>Operations\<close>

definition started_at :: "string \<Rightarrow> context_id \<Rightarrow> (exn, int, ('d, 'x) world_scheme) act" where
  "started_at key c =
     with_context c (bind_act (copy_user_data c) (\<lambda>ud.
       case dict_get ud key of
         Some (PDatetime t aware) \<Rightarrow> if aware then ret t else raise corruption_exn
       | _ \<Rightarrow> raise corruption_exn))"

definition timestamp_output :: "string \<Rightarrow> context_id \<Rightarrow> pyval \<Rightarrow> (pyval timestamped, 'd, 'x) ts_act" where
  "timestamp_output key c v =
     bind_act (on_snd (started_at key c)) (\<lambda>st.
     bind_act (gets_act (\<lambda>(ts, w). latest_block_beat ts)) (\<lambda>beat.
       case beat of
         None \<Rightarrow> raise corruption_exn
       | Some b \<Rightarrow> bind_act (on_snd read_now) (\<lambda>now. ret (Timestamped v st now b))))"

text \<open>The loop of \<open>_drop_entries_older_than_error_threshold\<close>: the retained entries and the number dropped.\<close>

fun split_stale ::
  "string \<Rightarrow> int \<Rightarrow> (context_id \<times> pyval) list \<Rightarrow> (exn, (context_id \<times> pyval) list \<times> nat, ('d, 'x) world_scheme) act" where
  "split_stale key now [] = ret ([], 0)"
| "split_stale key now (q # qs) =
     bind_act (started_at key (fst q)) (\<lambda>st.
     bind_act (split_stale key now qs) (\<lambda>(kept, n).
       ret (if now - st > QUEUE_AGE_ERROR_THRESHOLD then (kept, Suc n) else (q # kept, n))))"

definition drop_entries_older_than_error_threshold :: "string \<Rightarrow> int \<Rightarrow> (nat, 'd, 'x) ts_act" where
  "drop_entries_older_than_error_threshold key now =
     bind_act (gets_act (\<lambda>(ts, w). queued_outputs ts)) (\<lambda>qs.
     bind_act (on_snd (split_stale key now qs)) (\<lambda>(kept, n).
     seq_act (modify_act (\<lambda>(ts, w). (ts\<lparr>queued_outputs := kept\<rparr>, w))) (ret n)))"

definition set_warned :: "(context_id \<times> int) option \<Rightarrow> (unit, 'd, 'x) ts_act" where
  "set_warned h = modify_act (\<lambda>(ts, w). (ts\<lparr>warning_logged_head := h\<rparr>, w))"

definition log_if_first_queued_output_too_old :: "string \<Rightarrow> (unit, 'd, 'x) ts_act" where
  "log_if_first_queued_output_too_old key =
     bind_act (gets_act fst) (\<lambda>ts.
       case queued_outputs ts of
         [] \<Rightarrow> set_warned None
       | (hc, _) # _ \<Rightarrow>
           bind_act (on_snd (started_at key hc)) (\<lambda>st.
           bind_act (on_snd read_now) (\<lambda>now.
             let age = now - st in
             if age > QUEUE_AGE_ERROR_THRESHOLD
             then seq_act (drop_entries_older_than_error_threshold key now) (set_warned None)
             else if age > QUEUE_AGE_WARNING_THRESHOLD \<and> warning_logged_head ts \<noteq> Some (hc, st)
             then set_warned (Some (hc, st))
             else ret ())))"

definition ts_handle_input ::
  "'d deepdiff \<Rightarrow> timestamper_spec \<Rightarrow> context_id \<Rightarrow> pyval \<Rightarrow> (send_event list, 'd, 'x) ts_act" where
  "ts_handle_input dd spec c v =
     bind_act (on_snd read_now) (\<lambda>now.
     seq_act (on_snd (set_user_data dd c (ts_key spec) (PDatetime now True)))
       (ret [SendEvent c (ts_forwarded_input spec) v]))"

definition ts_handle_output :: "timestamper_spec \<Rightarrow> context_id \<Rightarrow> pyval \<Rightarrow> (send_event list, 'd, 'x) ts_act" where
  "ts_handle_output spec c v =
     bind_act (gets_act (\<lambda>(ts, w). latest_block_beat ts)) (\<lambda>beat.
       case beat of
         None \<Rightarrow>
           seq_act (modify_act (\<lambda>(ts, w). (ts\<lparr>queued_outputs := queued_outputs ts @ [(c, v)]\<rparr>, w)))
           (seq_act (log_if_first_queued_output_too_old (ts_key spec)) (ret []))
       | Some _ \<Rightarrow>
           bind_act (timestamp_output (ts_key spec) c v) (\<lambda>t.
             ret [SendEvent c (ts_timestamped_output spec) (PTimestamped t)]))"

definition ts_flush_one :: "timestamper_spec \<Rightarrow> context_id \<times> pyval \<Rightarrow> (send_event, 'd, 'x) ts_act" where
  "ts_flush_one spec = (\<lambda>(c, v).
     bind_act (on_snd (with_context c (ret ()))) (\<lambda>_.
     bind_act (timestamp_output (ts_key spec) c v) (\<lambda>t.
       ret (SendEvent c (ts_timestamped_output spec) (PTimestamped t)))))"

definition ts_handle_block_beat :: "timestamper_spec \<Rightarrow> block_beat \<Rightarrow> (send_event list, 'd, 'x) ts_act" where
  "ts_handle_block_beat spec b =
     seq_act (modify_act (\<lambda>(ts, w). (ts\<lparr>latest_block_beat := Some b\<rparr>, w)))
     (bind_act (gets_act (\<lambda>(ts, w). queued_outputs ts)) (\<lambda>qs.
       if qs = [] then seq_act (set_warned None) (ret [])
       else
         bind_act (map_act (ts_flush_one spec) qs) (\<lambda>evs.
         seq_act (modify_act (\<lambda>(ts, w). (ts\<lparr>queued_outputs := [], warning_logged_head := None\<rparr>, w)))
         (ret evs))))"

section \<open>Start times\<close>

text \<open>The start time the actor will find for a context, when it will find one.\<close>

definition start_of :: "string \<Rightarrow> ('d, 'x) world_scheme \<Rightarrow> context_id \<Rightarrow> int option" where
  "start_of key w c =
     (if c \<in> set (locks w) then
        (case dict_get (contexts w) c of
           None \<Rightarrow> None
         | Some x \<Rightarrow> (case dict_get (user_data x) key of Some (PDatetime t True) \<Rightarrow> Some t | _ \<Rightarrow> None))
      else None)"

lemma started_at_some: "start_of key w c = Some t \<Longrightarrow> started_at key c w = (Inr t, w)"
  by (auto simp: start_of_def started_at_def with_context_def lock_context_def copy_user_data_def the_context_def
      act_defs dict_has_def split: if_splits option.splits pyval.splits bool.splits)

lemma started_at_none: "start_of key w c = None \<Longrightarrow> \<exists>e. started_at key c w = (Inl e, w)"
  by (auto simp: start_of_def started_at_def with_context_def lock_context_def copy_user_data_def the_context_def
      act_defs dict_has_def split: if_splits option.splits pyval.splits bool.splits)

lemma start_of_ticks [simp]: "start_of key (w\<lparr>ticks := n\<rparr>) c = start_of key w c"
  by (simp add: start_of_def)

lemma split_stale_run:
  "\<forall>q \<in> set qs. start_of key w (fst q) \<noteq> None \<Longrightarrow>
     split_stale key now qs w =
       (Inr (filter (\<lambda>q. now - the (start_of key w (fst q)) \<le> QUEUE_AGE_ERROR_THRESHOLD) qs,
             length (filter (\<lambda>q. now - the (start_of key w (fst q)) > QUEUE_AGE_ERROR_THRESHOLD) qs)), w)"
  by (induction qs) (auto simp: bind_act_def started_at_some)

text \<open>The result of stamping an output at clock reading number \<open>n\<close>.\<close>

definition stamped :: "timestamper_spec \<Rightarrow> ('d, 'x) world_scheme \<Rightarrow> block_beat \<Rightarrow> context_id \<times> pyval \<Rightarrow> nat \<Rightarrow> send_event" where
  "stamped spec w b q n =
     SendEvent (fst q) (ts_timestamped_output spec)
       (PTimestamped (Timestamped (snd q) (the (start_of (ts_key spec) w (fst q))) (clock w n) b))"

lemma timestamp_output_run:
  "start_of key w c = Some t \<Longrightarrow> latest_block_beat ts = Some b \<Longrightarrow>
     timestamp_output key c v (ts, w) = (Inr (Timestamped v t (clock w (ticks w)) b), (ts, w\<lparr>ticks := Suc (ticks w)\<rparr>))"
  by (simp add: timestamp_output_def act_defs started_at_some read_now_def)

lemma flush_one_run:
  assumes "start_of (ts_key spec) w (fst q) \<noteq> None" "latest_block_beat ts = Some b"
  shows "ts_flush_one spec q (ts, w) = (Inr (stamped spec w b q (ticks w)), (ts, w\<lparr>ticks := Suc (ticks w)\<rparr>))"
proof -
  from assms obtain t where t: "start_of (ts_key spec) w (fst q) = Some t" by blast
  then have "with_context (fst q) (ret ()) w = (Inr (), w)"
    by (auto simp: start_of_def with_context_def lock_context_def act_defs dict_has_def split: if_splits option.splits)
  then show ?thesis
    by (simp add: ts_flush_one_def case_prod_beta on_snd_def bind_act_def timestamp_output_run [OF t assms(2)] stamped_def t)
qed

lemma stamped_ticks [simp]: "stamped spec (w\<lparr>ticks := m\<rparr>) b q n = stamped spec w b q n"
  by (simp add: stamped_def)

lemma flush_run:
  "\<forall>q \<in> set qs. start_of (ts_key spec) w (fst q) \<noteq> None \<Longrightarrow> latest_block_beat ts = Some b \<Longrightarrow>
     map_act (ts_flush_one spec) qs (ts, w) =
       (Inr (map2 (stamped spec w b) qs [ticks w..<ticks w + length qs]), (ts, w\<lparr>ticks := ticks w + length qs\<rparr>))"
proof (induction qs arbitrary: w)
  case (Cons q qs)
  have "[ticks w..<ticks w + length (q # qs)] = ticks w # [Suc (ticks w)..<Suc (ticks w) + length qs]"
    by (simp add: upt_conv_Cons del: upt_Suc)
  with Cons.IH [of "w\<lparr>ticks := Suc (ticks w)\<rparr>"] Cons.prems flush_one_run [of spec w q ts b] show ?case
    by (simp add: bind_act_def stamped_ticks [abs_def] del: upt_Suc)
qed simp

lemma flush_fails:
  "q \<in> set qs \<Longrightarrow> start_of (ts_key spec) w (fst q) = None \<Longrightarrow> latest_block_beat ts = Some b \<Longrightarrow>
     \<exists>e n. map_act (ts_flush_one spec) qs (ts, w) = (Inl e, (ts, w\<lparr>ticks := n\<rparr>))"
proof (induction qs arbitrary: w)
  case (Cons p qs)
  show ?case
  proof (cases "start_of (ts_key spec) w (fst p)")
    case None
    then obtain e where e: "started_at (ts_key spec) (fst p) w = (Inl e, w)" using started_at_none by blast
    have "\<exists>e. ts_flush_one spec p (ts, w) = (Inl e, (ts, w))"
      using e by (auto simp: ts_flush_one_def case_prod_beta on_snd_def bind_act_def with_context_def lock_context_def
          act_defs timestamp_output_def)
    then obtain e' where "ts_flush_one spec p (ts, w) = (Inl e', (ts, w))" by blast
    then show ?thesis by (intro exI [of _ e'] exI [of _ "ticks w"]) (simp add: bind_act_def)
  next
    case (Some t)
    with Cons.prems have "q \<in> set qs" by auto
    with Cons.IH [of "w\<lparr>ticks := Suc (ticks w)\<rparr>"] Cons.prems obtain e n where
      "map_act (ts_flush_one spec) qs (ts, w\<lparr>ticks := Suc (ticks w)\<rparr>) = (Inl e, (ts, w\<lparr>ticks := Suc (ticks w)\<rparr>\<lparr>ticks := n\<rparr>))"
      by auto
    then show ?thesis
      using flush_one_run [of spec w p ts b] Some Cons.prems(3)
      by (intro exI [of _ e] exI [of _ n]) (simp add: bind_act_def)
  qed
qed simp

section \<open>A run of the actor\<close>

datatype ts_event = TsOutput context_id pyval | TsBeat block_beat

text \<open>One turn of the actor loop: a raise is swallowed and nothing is emitted.\<close>

fun ts_turn :: "timestamper_spec \<Rightarrow> ts_event \<Rightarrow> (send_event list, 'd, 'x) ts_act" where
  "ts_turn spec (TsOutput c v) = try_act (ts_handle_output spec c v) (\<lambda>_. ret [])"
| "ts_turn spec (TsBeat b) = try_act (ts_handle_block_beat spec b) (\<lambda>_. ret [])"

fun ts_run :: "timestamper_spec \<Rightarrow> ts_event list \<Rightarrow> (send_event list, 'd, 'x) ts_act" where
  "ts_run spec [] = ret []"
| "ts_run spec (e # es) = bind_act (ts_turn spec e) (\<lambda>out. bind_act (ts_run spec es) (\<lambda>outs. ret (out @ outs)))"

fun output_of :: "ts_event \<Rightarrow> (context_id \<times> pyval) list" where
  "output_of (TsOutput c v) = [(c, v)]"
| "output_of (TsBeat b) = []"

fun stamped_output :: "send_event \<Rightarrow> (context_id \<times> pyval) list" where
  "stamped_output (SendEvent c s (PTimestamped t)) = [(c, executor_output t)]"
| "stamped_output _ = []"

abbreviation outputs :: "ts_event list \<Rightarrow> (context_id \<times> pyval) list" where
  "outputs es \<equiv> concat (map output_of es)"

abbreviation stamped_outputs :: "send_event list \<Rightarrow> (context_id \<times> pyval) list" where
  "stamped_outputs evs \<equiv> concat (map stamped_output evs)"

lemma stamped_outputs_stamped:
  "length qs = length ns \<Longrightarrow> stamped_outputs (map2 (stamped spec w b) qs ns) = qs"
  by (induction qs ns rule: list_induct2) (simp_all add: stamped_def)

text \<open>Which outputs wait while no beat has been seen: with every output that arrives, the ones older than the threshold are
  dropped if the first one is. Each arrival reads the clock once, so the \<open>j\<close>-th sees its reading number \<open>j\<close>.\<close>

definition too_old :: "timestamper_spec \<Rightarrow> ('d, 'x) world_scheme \<Rightarrow> int \<Rightarrow> context_id \<times> pyval \<Rightarrow> bool" where
  "too_old spec w now q \<longleftrightarrow> now - the (start_of (ts_key spec) w (fst q)) > QUEUE_AGE_ERROR_THRESHOLD"

definition retained :: "(context_id \<times> pyval \<Rightarrow> bool) \<Rightarrow> (context_id \<times> pyval) list \<Rightarrow> (context_id \<times> pyval) list" where
  "retained old qs = (if qs \<noteq> [] \<and> old (hd qs) then filter (\<lambda>q. \<not> old q) qs else qs)"

fun waiting_after :: "(nat \<Rightarrow> context_id \<times> pyval \<Rightarrow> bool) \<Rightarrow> (context_id \<times> pyval) list \<Rightarrow> (context_id \<times> pyval) list \<Rightarrow> (context_id \<times> pyval) list" where
  "waiting_after old qs [] = qs"
| "waiting_after old qs (q # arrivals) = waiting_after (\<lambda>j. old (Suc j)) (retained (old 0) (qs @ [q])) arrivals"

lemma retained_subseq: "subseq (retained old qs) qs"
  by (simp add: retained_def subseq_filter_left)

lemma retained_subset: "set (retained old qs) \<subseteq> set qs"
  by (auto simp: retained_def)

lemma waiting_after_subseq: "subseq (waiting_after old qs arrivals) (qs @ arrivals)"
proof (induction arrivals arbitrary: old qs)
  case (Cons q arrivals)
  have "subseq (waiting_after (\<lambda>j. old (Suc j)) (retained (old 0) (qs @ [q])) arrivals) (retained (old 0) (qs @ [q]) @ arrivals)"
    by (rule Cons.IH)
  moreover have "subseq (retained (old 0) (qs @ [q]) @ arrivals) ((qs @ [q]) @ arrivals)"
    by (rule list_emb_append_mono [OF retained_subseq subseq_order.order_refl])
  ultimately show ?case by (simp only: waiting_after.simps append_assoc append_Cons append_Nil)
qed simp

lemma waiting_after_all:
  "\<forall>j < length arrivals. \<not> old j (hd (qs @ arrivals)) \<Longrightarrow> waiting_after old qs arrivals = qs @ arrivals"
proof (induction arrivals arbitrary: old qs)
  case (Cons q arrivals)
  have "retained (old 0) (qs @ [q]) = qs @ [q]" using Cons.prems by (auto simp: retained_def hd_append)
  moreover have "waiting_after (\<lambda>j. old (Suc j)) (qs @ [q]) arrivals = (qs @ [q]) @ arrivals"
    by (rule Cons.IH) (use Cons.prems in \<open>auto simp: hd_append\<close>)
  ultimately show ?case by simp
qed simp

lemma waiting_after_dropped:
  "q \<in> set (qs @ arrivals) \<Longrightarrow> q \<notin> set (waiting_after old qs arrivals) \<Longrightarrow> \<exists>j < length arrivals. old j q"
proof (induction arrivals arbitrary: old qs)
  case (Cons p arrivals)
  show ?case
  proof (cases "q \<in> set (retained (old 0) (qs @ [p]) @ arrivals)")
    case True
    from Cons.IH [OF this, of "\<lambda>j. old (Suc j)"] Cons.prems(2) show ?thesis by auto
  next
    case False
    with Cons.prems(1) have "old 0 q" by (auto simp: retained_def split: if_splits)
    then show ?thesis by auto
  qed
qed simp

text \<open>One turn, while no beat has been seen and afterwards.\<close>

lemma retain_run:
  assumes "\<forall>q \<in> set (queued_outputs ts). start_of (ts_key spec) w (fst q) \<noteq> None" and "queued_outputs ts \<noteq> []"
  shows "\<exists>h. log_if_first_queued_output_too_old (ts_key spec) (ts, w) =
    (Inr (), (ts\<lparr>queued_outputs := retained (too_old spec w (clock w (ticks w))) (queued_outputs ts), warning_logged_head := h\<rparr>,
              w\<lparr>ticks := Suc (ticks w)\<rparr>))"
proof -
  let ?w = "w\<lparr>ticks := Suc (ticks w)\<rparr>" and ?now = "clock w (ticks w)"
  obtain q qs where q: "queued_outputs ts = q # qs" using assms(2) by (cases "queued_outputs ts") auto
  with assms(1) obtain t where t: "start_of (ts_key spec) w (fst q) = Some t" by auto
  have split: "split_stale (ts_key spec) ?now (queued_outputs ts) ?w =
      (Inr (filter (\<lambda>q. \<not> too_old spec w ?now q) (queued_outputs ts), length (filter (too_old spec w ?now) (queued_outputs ts))), ?w)"
    using split_stale_run [of "queued_outputs ts" "ts_key spec" ?w ?now] assms(1) by (simp add: too_old_def [abs_def] not_less)
  let ?warn = "QUEUE_AGE_WARNING_THRESHOLD < ?now - t \<and> warning_logged_head ts \<noteq> Some (fst q, t)"
  show ?thesis
  proof (cases "too_old spec w ?now q")
    case True
    then have "QUEUE_AGE_ERROR_THRESHOLD < ?now - t" by (simp add: too_old_def t)
    then show ?thesis using True split q t
      by (intro exI [of _ None])
        (simp add: log_if_first_queued_output_too_old_def drop_entries_older_than_error_threshold_def set_warned_def
          act_defs started_at_some read_now_def Let_def case_prod_beta retained_def)
  next
    case False
    then have "\<not> QUEUE_AGE_ERROR_THRESHOLD < ?now - t" by (simp add: too_old_def t)
    then show ?thesis using False q t
      by (intro exI [of _ "if ?warn then Some (fst q, t) else warning_logged_head ts"])
        (simp add: log_if_first_queued_output_too_old_def set_warned_def act_defs started_at_some read_now_def Let_def
          case_prod_beta retained_def)
  qed
qed

lemma output_waits:
  assumes "latest_block_beat ts = None" and "\<forall>q \<in> set (queued_outputs ts @ [(c, v)]). start_of (ts_key spec) w (fst q) \<noteq> None"
  shows "\<exists>ts'. ts_turn spec (TsOutput c v) (ts, w) = (Inr [], (ts', w\<lparr>ticks := Suc (ticks w)\<rparr>)) \<and> latest_block_beat ts' = None
      \<and> queued_outputs ts' = retained (too_old spec w (clock w (ticks w))) (queued_outputs ts @ [(c, v)])"
proof -
  let ?ts = "ts\<lparr>queued_outputs := queued_outputs ts @ [(c, v)]\<rparr>"
  from retain_run [of ?ts spec w] assms(2) obtain h where
    "log_if_first_queued_output_too_old (ts_key spec) (?ts, w) =
      (Inr (), (?ts\<lparr>queued_outputs := retained (too_old spec w (clock w (ticks w))) (queued_outputs ?ts), warning_logged_head := h\<rparr>,
                w\<lparr>ticks := Suc (ticks w)\<rparr>))" by auto
  with assms(1) show ?thesis by (auto simp: ts_handle_output_def act_defs)
qed

lemma output_passes:
  assumes "latest_block_beat ts = Some b" and "start_of (ts_key spec) w c \<noteq> None"
  shows "ts_turn spec (TsOutput c v) (ts, w) = (Inr [stamped spec w b (c, v) (ticks w)], (ts, w\<lparr>ticks := Suc (ticks w)\<rparr>))"
proof -
  from assms(2) obtain t where t: "start_of (ts_key spec) w c = Some t" by blast
  with assms(1) timestamp_output_run [OF t assms(1), of v] show ?thesis
    by (simp add: ts_handle_output_def try_act_def bind_act_def gets_act_def stamped_def)
qed

lemma beat_flushes:
  assumes "\<forall>q \<in> set (queued_outputs ts). start_of (ts_key spec) w (fst q) \<noteq> None"
  shows "\<exists>evs ts' n. ts_turn spec (TsBeat b) (ts, w) = (Inr evs, (ts', w\<lparr>ticks := n\<rparr>)) \<and> stamped_outputs evs = queued_outputs ts
      \<and> queued_outputs ts' = [] \<and> latest_block_beat ts' = Some b"
proof (cases "queued_outputs ts = []")
  case True
  then show ?thesis
    by (intro exI [of _ "[]"] exI [of _ "ts\<lparr>latest_block_beat := Some b, warning_logged_head := None\<rparr>"] exI [of _ "ticks w"])
      (simp add: ts_handle_block_beat_def set_warned_def act_defs)
next
  case False
  let ?ts = "ts\<lparr>latest_block_beat := Some b\<rparr>" and ?ns = "[ticks w..<ticks w + length (queued_outputs ts)]"
  have flush: "map_act (ts_flush_one spec) (queued_outputs ts) (?ts, w) =
      (Inr (map2 (stamped spec w b) (queued_outputs ts) ?ns), (?ts, w\<lparr>ticks := ticks w + length (queued_outputs ts)\<rparr>))"
    by (rule flush_run [OF assms]) simp
  with False show ?thesis
    by (intro exI [of _ "map2 (stamped spec w b) (queued_outputs ts) ?ns"]
        exI [of _ "?ts\<lparr>queued_outputs := [], warning_logged_head := None\<rparr>"] exI [of _ "ticks w + length (queued_outputs ts)"])
      (simp add: ts_handle_block_beat_def act_defs stamped_outputs_stamped del: map_map)
qed

lemma run_after_beat:
  "latest_block_beat ts = Some b \<Longrightarrow> queued_outputs ts = [] \<Longrightarrow> \<forall>q \<in> set (outputs es). start_of (ts_key spec) w (fst q) \<noteq> None \<Longrightarrow>
     \<exists>evs ts' w'. ts_run spec es (ts, w) = (Inr evs, (ts', w')) \<and> stamped_outputs evs = outputs es \<and> queued_outputs ts' = []"
proof (induction es arbitrary: ts w b)
  case (Cons e es)
  show ?case
  proof (cases e)
    case (TsOutput c v)
    let ?w = "w\<lparr>ticks := Suc (ticks w)\<rparr>"
    have "ts_turn spec e (ts, w) = (Inr [stamped spec w b (c, v) (ticks w)], (ts, ?w))"
      using output_passes [OF Cons.prems(1), of spec w c v] Cons.prems(3) TsOutput by simp
    moreover from Cons.IH [OF Cons.prems(1,2), of ?w] Cons.prems(3) obtain evs ts' w' where
      "ts_run spec es (ts, ?w) = (Inr evs, (ts', w'))" "stamped_outputs evs = outputs es" "queued_outputs ts' = []" by auto
    ultimately show ?thesis by (simp add: bind_act_def TsOutput stamped_def)
  next
    case (TsBeat b')
    from beat_flushes [of ts spec w b'] Cons.prems(2) obtain evs1 ts1 n where
      one: "ts_turn spec e (ts, w) = (Inr evs1, (ts1, w\<lparr>ticks := n\<rparr>))" "stamped_outputs evs1 = []" "queued_outputs ts1 = []"
      "latest_block_beat ts1 = Some b'" by (auto simp: TsBeat)
    from Cons.IH [OF one(4,3), of "w\<lparr>ticks := n\<rparr>"] Cons.prems(3) obtain evs ts' w' where
      "ts_run spec es (ts1, w\<lparr>ticks := n\<rparr>) = (Inr evs, (ts', w'))" "stamped_outputs evs = outputs es" "queued_outputs ts' = []" by auto
    with one show ?thesis by (simp add: bind_act_def TsBeat)
  qed
qed simp

definition is_output :: "ts_event \<Rightarrow> bool" where
  "is_output e \<longleftrightarrow> (\<exists>c v. e = TsOutput c v)"

lemma is_output_simps [simp]: "is_output (TsOutput c v)" "\<not> is_output (TsBeat b)"
  by (simp_all add: is_output_def)

lemma run_from_start:
  "latest_block_beat ts = None \<Longrightarrow> \<forall>q \<in> set (queued_outputs ts @ outputs es). start_of (ts_key spec) w (fst q) \<noteq> None \<Longrightarrow>
     \<exists>evs ts' w'. ts_run spec es (ts, w) = (Inr evs, (ts', w'))
      \<and> stamped_outputs evs @ queued_outputs ts' =
          waiting_after (\<lambda>j. too_old spec w (clock w (ticks w + j))) (queued_outputs ts) (outputs (takeWhile is_output es))
          @ outputs (dropWhile is_output es)
      \<and> ((\<exists>b. TsBeat b \<in> set es) \<longrightarrow> queued_outputs ts' = [])"
proof (induction es arbitrary: ts w)
  case (Cons e es)
  show ?case
  proof (cases e)
    case (TsOutput c v)
    let ?w = "w\<lparr>ticks := Suc (ticks w)\<rparr>"
    from output_waits [OF Cons.prems(1), of c v spec w] Cons.prems(2) TsOutput obtain ts1 where
      one: "ts_turn spec e (ts, w) = (Inr [], (ts1, ?w))" "latest_block_beat ts1 = None"
      "queued_outputs ts1 = retained (too_old spec w (clock w (ticks w))) (queued_outputs ts @ [(c, v)])" by auto
    have old: "too_old spec ?w = too_old spec w" by (simp add: too_old_def fun_eq_iff)
    have "\<forall>q \<in> set (queued_outputs ts1 @ outputs es). start_of (ts_key spec) ?w (fst q) \<noteq> None"
    proof
      fix q assume "q \<in> set (queued_outputs ts1 @ outputs es)"
      then have "q \<in> set (queued_outputs ts @ outputs (e # es))"
        using retained_subset [of "too_old spec w (clock w (ticks w))" "queued_outputs ts @ [(c, v)]"]
        unfolding one(3) TsOutput by auto
      with Cons.prems(2) show "start_of (ts_key spec) ?w (fst q) \<noteq> None" by simp
    qed
    from Cons.IH [OF one(2) this] obtain evs ts' w' where
      "ts_run spec es (ts1, ?w) = (Inr evs, (ts', w'))"
      "stamped_outputs evs @ queued_outputs ts' =
          waiting_after (\<lambda>j. too_old spec w (clock w (ticks w + Suc j))) (queued_outputs ts1) (outputs (takeWhile is_output es))
          @ outputs (dropWhile is_output es)"
      "(\<exists>b. TsBeat b \<in> set es) \<longrightarrow> queued_outputs ts' = []" by (auto simp: old)
    with one show ?thesis by (simp add: bind_act_def TsOutput)
  next
    case (TsBeat b)
    from beat_flushes [of ts spec w b] Cons.prems(2) obtain evs1 ts1 n where
      one: "ts_turn spec e (ts, w) = (Inr evs1, (ts1, w\<lparr>ticks := n\<rparr>))" "stamped_outputs evs1 = queued_outputs ts"
      "queued_outputs ts1 = []" "latest_block_beat ts1 = Some b" by (auto simp: TsBeat)
    from run_after_beat [OF one(4,3), of es spec "w\<lparr>ticks := n\<rparr>"] Cons.prems(2) obtain evs ts' w' where
      "ts_run spec es (ts1, w\<lparr>ticks := n\<rparr>) = (Inr evs, (ts', w'))" "stamped_outputs evs = outputs es" "queued_outputs ts' = []"
      by (auto simp: TsBeat)
    with one show ?thesis by (simp add: bind_act_def TsBeat)
  qed
qed simp

section \<open>Properties\<close>

definition demo_beat :: block_beat where
  "demo_beat = \<lparr>block_number = 7, block_timestamp = 84, block_hash = ''0x7''\<rparr>"

definition demo_ts_world :: "pyval world" where
  "demo_ts_world = (world_init (\<lambda>n. 10 + int n))\<lparr>
     contexts := map (\<lambda>n. (Uuid n, \<lparr>ctx_id = Uuid n, payload = PNone,
        user_data = (if n < 2 then [(ts_key (mk_timestamper ''t''), PDatetime (int n) True)] else []),
        parent_contexts = [], is_completed = False\<rparr>)) [0, 1, 2],
     locks := [Uuid 0, Uuid 1, Uuid 2]\<rparr>"

lemma demo_ts_start:
  "start_of (ts_key (mk_timestamper ''t'')) demo_ts_world (Uuid n) = (if n = 0 then Some 0 else if n = 1 then Some 1 else None)"
  "clock demo_ts_world n = 10 + int n" "ticks demo_ts_world = 0"
  by (auto simp: demo_ts_world_def start_of_def world_init_def)

text \<open>When a block beat arrives and every waiting output has a start time, the actor emits each
  waiting output exactly once, in the order of arrival, in its own context, stamped with its own
  start time, a fresh reading of the clock and this beat; the queue is empty afterwards.\<close>

theorem beat_flushes_queue_in_order:
  assumes "\<forall>q \<in> set (queued_outputs ts). start_of (ts_key spec) w (fst q) \<noteq> None"
  shows "\<exists>ts'. ts_handle_block_beat spec b (ts, w) =
      (Inr (map (\<lambda>i. let (c, v) = queued_outputs ts ! i in
                 SendEvent c (ts_timestamped_output spec)
                   (PTimestamped (Timestamped v (the (start_of (ts_key spec) w c)) (clock w (ticks w + i)) b)))
               [0..<length (queued_outputs ts)]),
       (ts', w\<lparr>ticks := ticks w + length (queued_outputs ts)\<rparr>))
    \<and> queued_outputs ts' = [] \<and> latest_block_beat ts' = Some b \<and> warning_logged_head ts' = None"
proof (cases "queued_outputs ts = []")
  case True
  then show ?thesis by (simp add: ts_handle_block_beat_def set_warned_def act_defs)
next
  case False
  let ?ts = "ts\<lparr>latest_block_beat := Some b\<rparr>"
  have "map_act (ts_flush_one spec) (queued_outputs ts) (?ts, w) =
      (Inr (map2 (stamped spec w b) (queued_outputs ts) [ticks w..<ticks w + length (queued_outputs ts)]),
       (?ts, w\<lparr>ticks := ticks w + length (queued_outputs ts)\<rparr>))"
    by (rule flush_run [OF assms]) simp
  moreover have "map2 (stamped spec w b) qs [m..<m + length qs] =
      map (\<lambda>i. let (c, v) = qs ! i in SendEvent c (ts_timestamped_output spec)
                   (PTimestamped (Timestamped v (the (start_of (ts_key spec) w c)) (clock w (m + i)) b)))
        [0..<length qs]" for qs m
    by (rule nth_equalityI) (auto simp: stamped_def case_prod_beta)
  ultimately show ?thesis
    using False by (simp add: ts_handle_block_beat_def act_defs)
qed

theorem beat_flushes_queue_in_order_witness:
  "\<exists>r. ts_handle_block_beat (mk_timestamper ''t'') demo_beat
     (\<lparr>latest_block_beat = None, queued_outputs = [(Uuid 1, PInt 7), (Uuid 0, PInt 8)], warning_logged_head = None\<rparr>, demo_ts_world) =
     (Inr [SendEvent (Uuid 1) (Source ''t-output-source'') (PTimestamped (Timestamped (PInt 7) 1 10 demo_beat)),
           SendEvent (Uuid 0) (Source ''t-output-source'') (PTimestamped (Timestamped (PInt 8) 0 11 demo_beat))], r)"
  using beat_flushes_queue_in_order [of
      "\<lparr>latest_block_beat = None, queued_outputs = [(Uuid 1, PInt 7), (Uuid 0, PInt 8)], warning_logged_head = None\<rparr>"
      "mk_timestamper ''t''" demo_ts_world demo_beat]
  by (auto simp: demo_ts_start upt_rec) (auto simp: mk_timestamper_def)

text \<open>C16: over any sequence of outputs with a start time and of block beats, under any clock: the outputs emitted
  followed by those still waiting are, in order and without duplicates, outputs received; from the first beat on every
  output is emitted at once and none waits. An output is lost only before the first beat, and only if it was older
  than five minutes when a later one, or itself, arrived. If the first output received was never that old when
  one arrived before the first beat, nothing is lost.\<close>

theorem timestamper_conserves_outputs:
  fixes w :: "('d, 'x) world_scheme"
  assumes "\<forall>q \<in> set (outputs es). start_of (ts_key spec) w (fst q) \<noteq> None"
  defines "early \<equiv> outputs (takeWhile is_output es)"
  shows "\<exists>evs ts w'. ts_run spec es (timestamper_init, w) = (Inr evs, (ts, w'))
      \<and> ((\<exists>b. TsBeat b \<in> set es) \<longrightarrow> queued_outputs ts = [])
      \<and> (\<exists>kept. stamped_outputs evs @ queued_outputs ts = kept @ outputs (dropWhile is_output es) \<and> subseq kept early
           \<and> (\<forall>q \<in> set early. q \<notin> set kept \<longrightarrow> (\<exists>j < length early. too_old spec w (clock w (ticks w + j)) q))
           \<and> ((\<forall>j < length early. \<not> too_old spec w (clock w (ticks w + j)) (hd early)) \<longrightarrow> kept = early))"
proof -
  let ?old = "\<lambda>j. too_old spec w (clock w (ticks w + j))"
  obtain evs ts w' where run: "ts_run spec es (timestamper_init, w) = (Inr evs, (ts, w'))"
    "(\<exists>b. TsBeat b \<in> set es) \<longrightarrow> queued_outputs ts = []"
    "stamped_outputs evs @ queued_outputs ts = waiting_after ?old [] early @ outputs (dropWhile is_output es)"
    using run_from_start [of timestamper_init es spec w] assms(1) by (auto simp: timestamper_init_def early_def)
  moreover have "subseq (waiting_after ?old [] early) early" using waiting_after_subseq [of ?old "[]"] by simp
  moreover have "\<forall>q \<in> set early. q \<notin> set (waiting_after ?old [] early) \<longrightarrow> (\<exists>j < length early. ?old j q)"
    using waiting_after_dropped [of _ "[]" early ?old] by simp
  moreover have "(\<forall>j < length early. \<not> ?old j (hd early)) \<longrightarrow> waiting_after ?old [] early = early"
    using waiting_after_all [of early ?old "[]"] by simp
  ultimately show ?thesis by (intro exI [of _ evs] exI [of _ ts] exI [of _ w'] conjI exI [of _ "waiting_after ?old [] early"])
qed

text \<open>The clock advances; two outputs wait for the first beat, a third comes after it.\<close>

theorem timestamper_conserves_outputs_witness:
  "\<exists>evs ts w'. ts_run (mk_timestamper ''t'') [TsOutput (Uuid 0) (PInt 7), TsOutput (Uuid 1) (PInt 8), TsBeat demo_beat, TsOutput (Uuid 0) (PInt 9)]
         (timestamper_init, demo_ts_world) = (Inr evs, (ts, w'))
       \<and> stamped_outputs evs = [(Uuid 0, PInt 7), (Uuid 1, PInt 8), (Uuid 0, PInt 9)]"
proof -
  let ?es = "[TsOutput (Uuid 0) (PInt 7), TsOutput (Uuid 1) (PInt 8), TsBeat demo_beat, TsOutput (Uuid 0) (PInt 9)]"
  have "\<forall>q \<in> set (outputs ?es). start_of (ts_key (mk_timestamper ''t'')) demo_ts_world (fst q) \<noteq> None"
    by (simp add: demo_ts_start)
  from timestamper_conserves_outputs [OF this] show ?thesis
    by (auto simp: demo_ts_start too_old_def QUEUE_AGE_ERROR_THRESHOLD_def)
qed

text \<open>An output that finds the queue's head older than five minutes drops exactly the outputs
  older than that, keeps the others in order, and emits nothing.\<close>

theorem stale_outputs_are_dropped:
  fixes c v
  assumes "latest_block_beat ts = None"
  defines "qs \<equiv> queued_outputs ts @ [(c, v)]"
  assumes "\<forall>q \<in> set qs. start_of (ts_key spec) w (fst q) \<noteq> None"
  defines "old \<equiv> \<lambda>q. clock w (ticks w) - the (start_of (ts_key spec) w (fst q)) > QUEUE_AGE_ERROR_THRESHOLD"
  assumes "old (hd qs)"
  shows "\<exists>ts' w'. ts_handle_output spec c v (ts, w) = (Inr [], (ts', w')) \<and> queued_outputs ts' = filter (\<lambda>q. \<not> old q) qs"
proof -
  let ?w = "w\<lparr>ticks := Suc (ticks w)\<rparr>"
  have split: "split_stale (ts_key spec) (clock w (ticks w)) qs ?w =
      (Inr (filter (\<lambda>q. \<not> old q) qs, length (filter old qs)), ?w)"
    using split_stale_run [of qs "ts_key spec" ?w "clock w (ticks w)"] assms(3) by (simp add: old_def not_less)
  obtain q r where q: "qs = q # r" by (cases qs) (simp_all add: qs_def)
  from assms(3) q obtain t where t: "start_of (ts_key spec) w (fst q) = Some t" by auto
  have age: "QUEUE_AGE_ERROR_THRESHOLD < clock w (ticks w) - t" using assms(5) q t by (simp add: old_def)
  let ?ts = "ts\<lparr>queued_outputs := qs\<rparr>"
  have "log_if_first_queued_output_too_old (ts_key spec) (?ts, w) =
      (Inr (), (ts\<lparr>queued_outputs := filter (\<lambda>q. \<not> old q) qs, warning_logged_head := None\<rparr>, ?w))"
    using split q t age
    by (simp add: log_if_first_queued_output_too_old_def drop_entries_older_than_error_threshold_def set_warned_def
        act_defs started_at_some read_now_def Let_def case_prod_beta)
  with assms(1) show ?thesis
    by (simp add: ts_handle_output_def act_defs qs_def [symmetric])
qed

theorem stale_outputs_are_dropped_witness:
  "\<exists>ts' w'. ts_handle_output (mk_timestamper ''t'') (Uuid 1) (PInt 8)
      (timestamper_init\<lparr>queued_outputs := [(Uuid 0, PInt 7)]\<rparr>, demo_ts_world\<lparr>clock := \<lambda>_. 5 * 60 * 1000000 + 1\<rparr>) = (Inr [], (ts', w'))
     \<and> queued_outputs ts' = [(Uuid 1, PInt 8)]"
proof -
  have "start_of (ts_key (mk_timestamper ''t'')) (demo_ts_world\<lparr>clock := \<lambda>_. 5 * 60 * 1000000 + 1\<rparr>) (Uuid n) =
      (if n = 0 then Some 0 else if n = 1 then Some 1 else None)" for n
    by (auto simp: start_of_def demo_ts_world_def world_init_def)
  with stale_outputs_are_dropped [of "timestamper_init\<lparr>queued_outputs := [(Uuid 0, PInt 7)]\<rparr>" "Uuid 1" "PInt 8"
      "mk_timestamper ''t''" "demo_ts_world\<lparr>clock := \<lambda>_. 5 * 60 * 1000000 + 1\<rparr>"]
  show ?thesis by (simp add: timestamper_init_def QUEUE_AGE_ERROR_THRESHOLD_def)
qed

text \<open>An output whose context has no start time is never flushed and blocks the queue: the beat
  that should flush raises, nothing is emitted, and the whole queue is still there, so that every
  later beat raises as well.\<close>

theorem unstarted_output_blocks_queue:
  assumes "q \<in> set (queued_outputs ts)" and "start_of (ts_key spec) w (fst q) = None"
  shows "\<exists>e ts' n. ts_handle_block_beat spec b (ts, w) = (Inl e, (ts', w\<lparr>ticks := n\<rparr>))
      \<and> queued_outputs ts' = queued_outputs ts \<and> latest_block_beat ts' = Some b"
proof -
  let ?ts = "ts\<lparr>latest_block_beat := Some b\<rparr>"
  obtain e n where "map_act (ts_flush_one spec) (queued_outputs ts) (?ts, w) = (Inl e, (?ts, w\<lparr>ticks := n\<rparr>))"
    using flush_fails [OF assms, of ?ts b] by auto
  moreover have "queued_outputs ts \<noteq> []" using assms(1) by auto
  ultimately show ?thesis
    by (intro exI [of _ e] exI [of _ ?ts] exI [of _ n]) (simp add: ts_handle_block_beat_def act_defs)
qed

theorem unstarted_output_blocks_queue_witness:
  "\<exists>e ts'. ts_handle_block_beat (mk_timestamper ''t'') demo_beat
     (timestamper_init\<lparr>queued_outputs := [(Uuid 0, PInt 7), (Uuid 2, PInt 8)]\<rparr>, demo_ts_world) = (Inl e, ts')
     \<and> queued_outputs (fst ts') = [(Uuid 0, PInt 7), (Uuid 2, PInt 8)]"
  using unstarted_output_blocks_queue [of "(Uuid 2, PInt 8)"
      "timestamper_init\<lparr>queued_outputs := [(Uuid 0, PInt 7), (Uuid 2, PInt 8)]\<rparr>" "mk_timestamper ''t''" demo_ts_world demo_beat]
  by (auto simp: demo_ts_start)

end
