(* ===== verification/Retry.thy ===== *)
theory Retry
  imports StoreRuns
begin

text \<open>
  \<open>RetryStrategyActor\<close> of \<open>actors/retry_strategy.py\<close>. The retry state lives in the user data of
  the context, under the node's id; the actor itself keeps the set of running timers, here the
  list of the contexts they will fire for. A timer firing is a step of its own: it happens later,
  on another thread, under the context's lock.
\<close>

section \<open>State and operations\<close>

record retry_spec =
  retry_id :: string
  max_attempts :: int
  retry_input :: sink
  failed_attempt :: sink
  next_attempt :: source
  retry_error :: source

definition mk_retry :: "string \<Rightarrow> int \<Rightarrow> retry_spec" where
  "mk_retry i m = \<lparr>retry_id = i, max_attempts = m, retry_input = Sink (i @ ''-input''),
     failed_attempt = Sink (i @ ''-failed-attempt''), next_attempt = Source (i @ ''-next-attempt''),
     retry_error = Source (i @ ''-error'')\<rparr>"

definition retry_sinks :: "retry_spec \<Rightarrow> exn + node_sinks" where
  "retry_sinks s = node_sinks_init [(''input'', retry_input s), (''failed-attempt'', failed_attempt s)] None"

definition retry_sources :: "retry_spec \<Rightarrow> exn + node_sources" where
  "retry_sources s = node_sources_init [(''retries-exhausted'', retry_error s), (''next-attempt'', next_attempt s)] None"

type_synonym ('a, 'd, 'x) retry_act = "(exn, 'a, context_id list \<times> ('d, 'x) bus_world_scheme) act"

definition retry_state_from_context ::
  "retry_spec \<Rightarrow> context_id \<Rightarrow> (exn, (pyval \<times> nat) option, ('d, 'x) world_scheme) act" where
  "retry_state_from_context spec c =
     bind_act (copy_user_data c) (\<lambda>ud.
       case dict_get ud (retry_id spec) of
         None \<Rightarrow> ret None
       | Some PNone \<Rightarrow> ret None
       | Some (PRetryState original attempts) \<Rightarrow> ret (Some (original, attempts))
       | Some _ \<Rightarrow> raise framework_exn)"

definition next_attempt_message ::
  "'d deepdiff \<Rightarrow> retry_spec \<Rightarrow> context_id \<Rightarrow> pyval \<times> nat \<Rightarrow> (exn, send_event, ('d, 'x) world_scheme) act" where
  "next_attempt_message dd spec c = (\<lambda>(original, attempts).
     seq_act (set_user_data dd c (retry_id spec) (PRetryState original (Suc attempts)))
       (ret (SendEvent c (next_attempt spec) original)))"

definition retry_handle_input ::
  "'d deepdiff \<Rightarrow> retry_spec \<Rightarrow> context_id \<Rightarrow> pyval \<Rightarrow> (send_event list, 'd, 'x) retry_act" where
  "retry_handle_input dd spec c v =
     bind_act (on_snd (retry_state_from_context spec c)) (\<lambda>st.
     bind_act (on_snd (next_attempt_message dd spec c (case st of None \<Rightarrow> (v, 0) | Some s \<Rightarrow> s))) (\<lambda>ev.
     ret [ev]))"

definition schedule_next_attempt :: "context_id \<Rightarrow> (unit, 'd, 'x) retry_act" where
  "schedule_next_attempt c = modify_act (\<lambda>(timers, w). (timers @ [c], w))"

definition retry_handle_failed_attempt ::
  "retry_spec \<Rightarrow> context_id \<Rightarrow> (send_event list, 'd, 'x) retry_act" where
  "retry_handle_failed_attempt spec c =
     bind_act (on_snd (retry_state_from_context spec c)) (\<lambda>st.
       case st of
         None \<Rightarrow> raise corruption_exn
       | Some (original, attempts) \<Rightarrow>
           if int attempts \<ge> max_attempts spec
           then ret [SendEvent c (retry_error spec) (PExn (exn_of RetriesExhaustedException))]
           else seq_act (schedule_next_attempt c) (ret []))"

definition trigger_next_attempt :: "'d deepdiff \<Rightarrow> retry_spec \<Rightarrow> context_id \<Rightarrow> (unit, 'd, 'x) retry_act" where
  "trigger_next_attempt dd spec c =
     seq_act (modify_act (\<lambda>(timers, w). (remove1 c timers, w)))
     (on_snd (with_context c (
        bind_act (retry_state_from_context spec c) (\<lambda>st.
          case st of
            None \<Rightarrow> ret ()
          | Some s \<Rightarrow> bind_act (next_attempt_message dd spec c s) put_bus))))"

section \<open>One attempt\<close>

definition retry_state :: "retry_spec \<Rightarrow> ('d, 'x) world_scheme \<Rightarrow> context_id \<Rightarrow> (pyval \<times> nat) option" where
  "retry_state spec w c =
     (case dict_get (contexts w) c of
        Some x \<Rightarrow> (case dict_get (user_data x) (retry_id spec) of Some (PRetryState v n) \<Rightarrow> Some (v, n) | _ \<Rightarrow> None)
      | None \<Rightarrow> None)"

lemma retry_state_some:
  "retry_state spec w c = Some s \<Longrightarrow> retry_state_from_context spec c w = (Inr (Some s), w)"
  by (auto simp: retry_state_def retry_state_from_context_def copy_user_data_run bind_act_def
      split: option.splits pyval.splits)

lemma retry_state_fresh:
  "dict_get (contexts w) c = Some x \<Longrightarrow> dict_get (user_data x) (retry_id spec) = None \<Longrightarrow>
     retry_state_from_context spec c w = (Inr None, w)"
  by (simp add: retry_state_from_context_def copy_user_data_run bind_act_def)

lemma next_attempt_run:
  fixes w :: "('d, 'x) bus_world_scheme"
  assumes "deepdiff_total dd" "store_inv dd w" "live w c"
  shows "\<exists>w'. next_attempt_message dd spec c (v, n) w = (Inr (SendEvent c (next_attempt spec) v), w')
      \<and> store_inv dd w' \<and> live w' c \<and> retry_state spec w' c = Some (v, Suc n) \<and> bus_in w' = bus_in w
      \<and> (\<forall>k. k \<noteq> c \<longrightarrow> dict_get (contexts w') k = dict_get (contexts w) k)"
proof -
  from assms(3) obtain x where x: "dict_get (contexts w) c = Some x" "\<not> is_completed x" by (auto simp: live_def)
  obtain w' where w': "set_user_data dd c (retry_id spec) (PRetryState v (Suc n)) w = (Inr (), w')" "store_inv dd w'"
    "contexts w' = dict_set c (x\<lparr>user_data := dict_set (retry_id spec) (PRetryState v (Suc n)) (user_data x)\<rparr>) (contexts w)"
    using set_user_data_run [OF assms(1,2) x] by blast
  have "bus_in w' = bus_in w" using keeps_queues [OF keeps_set_user_data w'(1)] by simp
  with w' x show ?thesis
    by (auto simp: next_attempt_message_def seq_act_def bind_act_def live_def retry_state_def)
qed

lemma failed_schedules:
  assumes "retry_state spec w c = Some (v, n)" "int n < max_attempts spec"
  shows "retry_handle_failed_attempt spec c (timers, w) = (Inr [], (timers @ [c], w))"
  using assms
  by (simp add: retry_handle_failed_attempt_def on_snd_def bind_act_def retry_state_some schedule_next_attempt_def act_defs)

lemma failed_exhausts:
  assumes "retry_state spec w c = Some (v, n)" "int n \<ge> max_attempts spec"
  shows "retry_handle_failed_attempt spec c (timers, w) =
      (Inr [SendEvent c (retry_error spec) (PExn (exn_of RetriesExhaustedException))], (timers, w))"
  using assms
  by (simp add: retry_handle_failed_attempt_def on_snd_def bind_act_def retry_state_some)

lemma trigger_run:
  fixes w :: "('d, 'x) bus_world_scheme"
  assumes dd: "deepdiff_total dd" and inv: "store_inv dd w" and live: "live w c" and st: "retry_state spec w c = Some (v, n)"
  shows "\<exists>w'. trigger_next_attempt dd spec c (timers, w) = (Inr (), (remove1 c timers, w'))
      \<and> store_inv dd w' \<and> live w' c \<and> retry_state spec w' c = Some (v, Suc n)
      \<and> bus_in w' = bus_in w @ [SendEvent c (next_attempt spec) v]
      \<and> (\<forall>k. k \<noteq> c \<longrightarrow> dict_get (contexts w') k = dict_get (contexts w) k)"
proof -
  obtain w1 where w1: "next_attempt_message dd spec c (v, n) w = (Inr (SendEvent c (next_attempt spec) v), w1)"
    "store_inv dd w1" "live w1 c" "retry_state spec w1 c = Some (v, Suc n)" "bus_in w1 = bus_in w"
    "\<forall>k. k \<noteq> c \<longrightarrow> dict_get (contexts w1) k = dict_get (contexts w) k"
    using next_attempt_run [OF dd inv live, of spec v n] by blast
  let ?w = "w1\<lparr>bus_in := bus_in w1 @ [SendEvent c (next_attempt spec) v]\<rparr>"
  have lock: "c \<in> set (locks w)" "dict_has (contexts w) c"
    using live store_invD(2) [OF inv] by (auto simp: live_def dict_has_def)
  have run: "trigger_next_attempt dd spec c (timers, w) = (Inr (), (remove1 c timers, ?w))"
    using retry_state_some [OF st] w1(1)
    by (simp add: trigger_next_attempt_def seq_act_def bind_act_def modify_act_def on_snd_def with_context_known [OF lock] put_bus_def)
  have "store_inv dd ?w" using w1(2) by (simp add: store_inv_def)
  with run w1(3-6) show ?thesis by (intro exI [of _ ?w]) (simp add: live_def retry_state_def)
qed

section \<open>Failure reports and timers in any order\<close>

text \<open>What the actor does: its two handlers, on its own thread, and its timers. What it emits is what a handler
  returns and what a timer puts on the bus; a handler that raises emits nothing.\<close>

datatype retry_op = InputArrives context_id pyval | FailureReported context_id | TimerFires context_id

fun op_context :: "retry_op \<Rightarrow> context_id" where
  "op_context (InputArrives c v) = c"
| "op_context (FailureReported c) = c"
| "op_context (TimerFires c) = c"

fun retry_op_act :: "'d deepdiff \<Rightarrow> retry_spec \<Rightarrow> retry_op \<Rightarrow> (send_event list, 'd, 'x) retry_act" where
  "retry_op_act dd spec (InputArrives c v) = retry_handle_input dd spec c v"
| "retry_op_act dd spec (FailureReported c) = retry_handle_failed_attempt spec c"
| "retry_op_act dd spec (TimerFires c) = seq_act (trigger_next_attempt dd spec c) (ret [])"

definition retry_op_run ::
  "'d deepdiff \<Rightarrow> retry_spec \<Rightarrow> retry_op \<Rightarrow> context_id list \<times> ('d, 'x) bus_world_scheme \<Rightarrow>
     send_event list \<times> context_id list \<times> ('d, 'x) bus_world_scheme" where
  "retry_op_run dd spec op st =
     (case retry_op_act dd spec op st of
        (r, st') \<Rightarrow> ((case r of Inr sent \<Rightarrow> sent | Inl _ \<Rightarrow> []) @ drop (length (bus_in (snd st))) (bus_in (snd st')), st'))"

text \<open>A run: operations on live contexts in any order, a timer only when it is running. Each is recorded with the timers
  that ran when it began. In between the rest of the program may do anything to the store and the bus that keeps
  the store consistent, its contexts live and the actor's own user data.\<close>

inductive retry_run ::
  "'d deepdiff \<Rightarrow> retry_spec \<Rightarrow> context_id list \<times> ('d, 'x) bus_world_scheme \<Rightarrow> (retry_op \<times> context_id list) list \<Rightarrow>
     send_event list \<Rightarrow> context_id list \<times> ('d, 'x) bus_world_scheme \<Rightarrow> bool" for dd spec st0 where
  begun: "retry_run dd spec st0 [] [] st0"
| acted: "retry_run dd spec st0 trace evs (timers, w) \<Longrightarrow> live w (op_context op) \<Longrightarrow>
    (\<forall>c. op = TimerFires c \<longrightarrow> c \<in> set timers) \<Longrightarrow> retry_op_run dd spec op (timers, w) = (sent, st') \<Longrightarrow>
    retry_run dd spec st0 (trace @ [(op, timers)]) (evs @ sent) st'"
| others: "retry_run dd spec st0 trace evs (timers, w) \<Longrightarrow> store_inv dd w' \<Longrightarrow>
    (\<forall>c. live w c \<longrightarrow> live w' c \<and> retry_state spec w' c = retry_state spec w c) \<Longrightarrow>
    retry_run dd spec st0 trace evs (timers, w')"

text \<open>The payloads sent from a source in a context, and how often something happened to a context.\<close>

definition sent_by :: "context_id \<Rightarrow> source \<Rightarrow> send_event list \<Rightarrow> pyval list" where
  "sent_by c src evs =
     List.map_filter (\<lambda>ev. case ev of SendEvent c' src' v \<Rightarrow> if c' = c \<and> src' = src then Some v else None | _ \<Rightarrow> None) evs"

definition times_in :: "retry_op \<Rightarrow> (retry_op \<times> context_id list) list \<Rightarrow> nat" where
  "times_in op trace = count_list (map fst trace) op"

definition reports_wait :: "context_id \<Rightarrow> (retry_op \<times> context_id list) list \<Rightarrow> bool" where
  "reports_wait c trace \<longleftrightarrow> (\<forall>(op, timers) \<in> set trace. op = FailureReported c \<longrightarrow> c \<notin> set timers)"

lemma sent_by_simps [simp]:
  "sent_by c src [] = []" "sent_by c src (xs @ ys) = sent_by c src xs @ sent_by c src ys"
  "sent_by c src [SendEvent c' src' v] = (if c' = c \<and> src' = src then [v] else [])"
  by (simp_all add: sent_by_def map_filter_def)

lemma times_in_simps [simp]:
  "times_in op [] = 0" "times_in op (trace @ [(op', ts)]) = times_in op trace + (if op' = op then 1 else 0)"
  by (simp_all add: times_in_def)

lemma reports_wait_snoc: "reports_wait c (trace @ [(op, ts)]) \<longleftrightarrow> reports_wait c trace \<and> (op = FailureReported c \<longrightarrow> c \<notin> set ts)"
  by (auto simp: reports_wait_def)

lemma count_remove1: "count_list (remove1 k xs) c = count_list xs c - (if k = c then 1 else 0)"
  by (induction xs) (auto simp: count_notin Suc_diff_Suc count_list_0_iff)

lemma retry_context_cases:
  assumes "live w k"
  obtains (known) v n where "retry_state_from_context spec k w = (Inr (Some (v, n)), w)" "retry_state spec w k = Some (v, n)"
  | (unknown) "retry_state_from_context spec k w = (Inr None, w)"
  | (corrupt) e where "retry_state_from_context spec k w = (Inl e, w)"
proof -
  from assms obtain x where x: "dict_get (contexts w) k = Some x" by (auto simp: live_def)
  show thesis
  proof (cases "dict_get (user_data x) (retry_id spec)")
    case None
    with retry_state_fresh [OF x] unknown show ?thesis by blast
  next
    case (Some u)
    with x that show ?thesis
      by (cases u) (auto simp: retry_state_def retry_state_from_context_def copy_user_data_run bind_act_def)
  qed
qed

text \<open>What an operation on one context leaves of another.\<close>

definition untouched ::
  "'d deepdiff \<Rightarrow> retry_spec \<Rightarrow> context_id \<Rightarrow> context_id list \<times> ('d, 'x) bus_world_scheme \<Rightarrow> send_event list \<Rightarrow>
     context_id list \<times> ('d, 'x) bus_world_scheme \<Rightarrow> bool" where
  "untouched dd spec c = (\<lambda>(timers, w) sent (timers', w').
     store_inv dd w' \<and> dict_get (contexts w') c = dict_get (contexts w) c \<and> count_list timers' c = count_list timers c
     \<and> (\<forall>src. sent_by c src sent = []))"

lemma untouched_same: "store_inv dd w \<Longrightarrow> untouched dd spec c (timers, w) [] (timers, w)"
  by (simp add: untouched_def)

lemma retry_op_frame:
  fixes w :: "('d, 'x) bus_world_scheme"
  assumes dd: "deepdiff_total dd" and inv: "store_inv dd w" and live: "live w (op_context op)" and c: "op_context op \<noteq> c"
    and run: "retry_op_run dd spec op (timers, w) = (sent, st')"
  shows "untouched dd spec c (timers, w) sent st'"
proof -
  let ?k = "op_context op"
  note defs = retry_op_run_def untouched_def
  have lock: "?k \<in> set (locks w)" "dict_has (contexts w) ?k"
    using live store_invD(2) [OF inv] by (auto simp: live_def dict_has_def)
  have next_ok: "\<exists>w'. next_attempt_message dd spec ?k s w = (Inr (SendEvent ?k (next_attempt spec) (fst s)), w') \<and> store_inv dd w'
      \<and> bus_in w' = bus_in w \<and> dict_get (contexts w') c = dict_get (contexts w) c" for s
    using next_attempt_run [OF dd inv live, of spec "fst s" "snd s"] c by auto
  show ?thesis
  proof (cases op)
    case (InputArrives k v)
    show ?thesis
    using live
    proof (cases rule: retry_context_cases [where spec = spec])
      case (known u n)
      obtain w' where "next_attempt_message dd spec ?k (u, n) w = (Inr (SendEvent ?k (next_attempt spec) u), w')" "store_inv dd w'"
        "bus_in w' = bus_in w" "dict_get (contexts w') c = dict_get (contexts w) c" using next_ok [of "(u, n)"] by auto
      with run c known(1) InputArrives show ?thesis
        by (auto simp: defs retry_handle_input_def bind_act_def on_snd_def)
    next
      case unknown
      obtain w' where "next_attempt_message dd spec ?k (v, 0) w = (Inr (SendEvent ?k (next_attempt spec) v), w')" "store_inv dd w'"
        "bus_in w' = bus_in w" "dict_get (contexts w') c = dict_get (contexts w) c" using next_ok [of "(v, 0)"] by auto
      with run c unknown InputArrives show ?thesis
        by (auto simp: defs retry_handle_input_def bind_act_def on_snd_def)
    next
      case (corrupt e)
      with run inv InputArrives show ?thesis by (auto simp: defs retry_handle_input_def bind_act_def on_snd_def)
    qed
  next
    case (FailureReported k)
    from live show ?thesis
      by (cases rule: retry_context_cases [where spec = spec])
        (use run inv c FailureReported in \<open>auto simp: defs retry_handle_failed_attempt_def bind_act_def on_snd_def schedule_next_attempt_def
          act_defs split: if_splits\<close>)
  next
    case (TimerFires k)
    show ?thesis
    using live
    proof (cases rule: retry_context_cases [where spec = spec])
      case (known u n)
      with trigger_run [OF dd inv live known(2), of timers] obtain w' where
        "trigger_next_attempt dd spec ?k (timers, w) = (Inr (), (remove1 ?k timers, w'))" "store_inv dd w'"
        "bus_in w' = bus_in w @ [SendEvent ?k (next_attempt spec) u]" "dict_get (contexts w') c = dict_get (contexts w) c" using c by auto
      with run c TimerFires show ?thesis by (auto simp: defs seq_act_def bind_act_def count_remove1)
    qed (use run inv c TimerFires lock in \<open>auto simp: defs trigger_next_attempt_def seq_act_def bind_act_def modify_act_def on_snd_def
        with_context_known count_remove1\<close>)
  qed
qed

lemma retry_input_fresh_run:
  fixes w :: "('d, 'x) bus_world_scheme"
  assumes "deepdiff_total dd" "store_inv dd w" "dict_get (contexts w) c = Some x" "\<not> is_completed x"
    "dict_get (user_data x) (retry_id spec) = None"
  shows "\<exists>w'. retry_handle_input dd spec c v (timers, w) = (Inr [SendEvent c (next_attempt spec) v], (timers, w'))
      \<and> store_inv dd w' \<and> live w' c \<and> retry_state spec w' c = Some (v, 1) \<and> bus_in w' = bus_in w"
proof -
  have "live w c" using assms(3,4) by (simp add: live_def)
  from next_attempt_run [OF assms(1,2) this, of spec v 0] retry_state_fresh [OF assms(3,5)] show ?thesis
    by (auto simp: retry_handle_input_def bind_act_def on_snd_def)
qed

section \<open>Properties\<close>

text \<open>The account of one context, from its first input on.\<close>

definition retry_account ::
  "'d deepdiff \<Rightarrow> retry_spec \<Rightarrow> context_id \<Rightarrow> pyval \<Rightarrow> (retry_op \<times> context_id list) list \<Rightarrow> send_event list \<Rightarrow>
     context_id list \<times> ('d, 'x) bus_world_scheme \<Rightarrow> bool" where
  "retry_account dd spec c v trace evs = (\<lambda>(timers, w).
     let fired = times_in (TimerFires c) trace; reported = times_in (FailureReported c) trace; running = count_list timers c;
         exhausted = length (sent_by c (retry_error spec) evs) in
     store_inv dd w \<and> live w c \<and> retry_state spec w c = Some (v, Suc fired)
     \<and> sent_by c (next_attempt spec) evs = replicate fired v
     \<and> sent_by c (retry_error spec) evs = replicate exhausted (PExn (exn_of RetriesExhaustedException))
     \<and> reported = fired + running + exhausted \<and> (0 < exhausted \<longrightarrow> max_attempts spec \<le> int (Suc fired))
     \<and> (reports_wait c trace \<longrightarrow> running \<le> 1 \<and> int (Suc fired + running) = min (int (Suc reported)) (max 1 (max_attempts spec))))"

lemma all_same_snoc: "xs = replicate (length xs) x \<Longrightarrow> xs @ [x] = x # xs"
  by (metis replicate_append_same)

lemma retry_account_report:
  fixes w :: "('d, 'x) bus_world_scheme"
  assumes "retry_account dd spec c v trace evs (timers, w)" and "next_attempt spec \<noteq> retry_error spec"
    and "retry_op_run dd spec (FailureReported c) (timers, w) = (sent, st')"
  shows "retry_account dd spec c v (trace @ [(FailureReported c, timers)]) (evs @ sent) st'"
proof -
  let ?n = "Suc (times_in (TimerFires c) trace)"
  have st: "retry_state spec w c = Some (v, ?n)" using assms(1) by (simp add: retry_account_def Let_def)
  have wait: "c \<notin> set timers \<longleftrightarrow> count_list timers c = 0" by (simp add: count_list_0_iff)
  show ?thesis
  proof (cases "int ?n < max_attempts spec")
    case True
    with failed_schedules [OF st this, of timers] assms(3) have new: "sent = []" "st' = (timers @ [c], w)"
      by (simp_all add: retry_op_run_def)
    with assms(1,2) True show ?thesis by (auto simp: retry_account_def Let_def reports_wait_snoc wait)
  next
    case False
    with failed_exhausts [OF st, of timers] assms(3)
    have new: "sent = [SendEvent c (retry_error spec) (PExn (exn_of RetriesExhaustedException))]" "st' = (timers, w)"
      by (simp_all add: retry_op_run_def)
    have "sent_by c (retry_error spec) evs =
        replicate (length (sent_by c (retry_error spec) evs)) (PExn (exn_of RetriesExhaustedException))"
      using assms(1) by (simp add: retry_account_def Let_def)
    from all_same_snoc [OF this] assms(1,2) False new show ?thesis
      by (auto simp: retry_account_def Let_def reports_wait_snoc wait)
  qed
qed

lemma retry_account_timer:
  fixes w :: "('d, 'x) bus_world_scheme"
  assumes dd: "deepdiff_total dd" and acc: "retry_account dd spec c v trace evs (timers, w)" and "next_attempt spec \<noteq> retry_error spec"
    and running: "c \<in> set timers" and run: "retry_op_run dd spec (TimerFires c) (timers, w) = (sent, st')"
  shows "retry_account dd spec c v (trace @ [(TimerFires c, timers)]) (evs @ sent) st'"
proof -
  let ?n = "Suc (times_in (TimerFires c) trace)"
  have st: "store_inv dd w" "live w c" "retry_state spec w c = Some (v, ?n)" using acc by (simp_all add: retry_account_def Let_def)
  obtain w' where w': "trigger_next_attempt dd spec c (timers, w) = (Inr (), (remove1 c timers, w'))" "store_inv dd w'" "live w' c"
    "retry_state spec w' c = Some (v, Suc ?n)" "bus_in w' = bus_in w @ [SendEvent c (next_attempt spec) v]"
    using trigger_run [OF dd st, of timers] by blast
  with run have new: "sent = [SendEvent c (next_attempt spec) v]" "st' = (remove1 c timers, w')"
    by (simp_all add: retry_op_run_def seq_act_def bind_act_def)
  have "0 < count_list timers c" using running by (simp add: count_list_0_iff neq0_conv [symmetric] del: neq0_conv)
  with acc assms(3) w'(2-4) new show ?thesis
    by (auto simp: retry_account_def Let_def reports_wait_snoc count_remove1 simp flip: replicate_append_same)
qed

lemma retry_account_run:
  fixes st st' :: "context_id list \<times> ('d, 'x) bus_world_scheme"
  assumes dd: "deepdiff_total dd" and sources: "next_attempt spec \<noteq> retry_error spec"
    and "retry_run dd spec st trace evs st'" and "retry_account dd spec c v [] [] st"
    and "\<forall>op \<in> fst ` set trace. \<forall>v'. op \<noteq> InputArrives c v'"
  shows "retry_account dd spec c v trace evs st'"
  using assms(3-5)
proof (induction rule: retry_run.induct)
  case (acted trace evs timers w op sent st')
  then have acc: "retry_account dd spec c v trace evs (timers, w)" by auto
  show ?case
  proof (cases "op_context op = c")
    case True
    with acted.prems(2) consider "op = FailureReported c" | "op = TimerFires c" by (cases op) auto
    then show ?thesis
    proof cases
      case 1
      with retry_account_report [OF acc sources] acted.hyps(4) show ?thesis by simp
    next
      case 2
      with retry_account_timer [OF dd acc sources] acted.hyps(3,4) show ?thesis by simp
    qed
  next
    case False
    have inv: "store_inv dd w" using acc by (simp add: retry_account_def Let_def)
    obtain timers' w' where st': "st' = (timers', w')" by fastforce
    from retry_op_frame [OF dd inv acted.hyps(2) False acted.hyps(4)]
    have same: "store_inv dd w'" "dict_get (contexts w') c = dict_get (contexts w) c" "count_list timers' c = count_list timers c"
      "\<forall>src. sent_by c src sent = []" by (simp_all add: untouched_def st')
    have "op \<noteq> FailureReported c" "op \<noteq> TimerFires c" using False by auto
    with acc same show ?thesis unfolding st'
      by (simp add: retry_account_def Let_def reports_wait_snoc live_def retry_state_def)
  qed
next
  case (others trace evs timers w w')
  then show ?case by (simp add: retry_account_def Let_def)
qed simp

text \<open>C18: for a fresh context, whatever inputs, failure reports and timers of this and other contexts come in whatever order: the
  first input is attempted at once, and then there is one further attempt for each timer that has fired, all
  with the original payload in the same context; each failure report has led to a timer that has fired, to one
  that is running or to one \<open>RetriesExhaustedException\<close>, which is sent only after \<open>max_attempts\<close> attempts.
  When no report comes while a timer of the context runs, the attempts made and due are one more than the
  reports, up to \<open>max_attempts\<close>, and never more (a negative or zero maximum still allows the first).\<close>

theorem retries_up_to_max_attempts:
  fixes w :: "('d, 'x) bus_world_scheme"
  assumes "deepdiff_total dd" and "spec = mk_retry i m" and "store_reach dd w"
    and "dict_get (contexts w) c = Some x" and "\<not> is_completed x" and "dict_get (user_data x) i = None" and "c \<notin> set timers"
    and "retry_handle_input dd spec c v (timers, w) = (first, st)" and "retry_run dd spec st trace evs (timers', w')"
    and "\<forall>op \<in> fst ` set trace. \<forall>v'. op \<noteq> InputArrives c v'"
  defines "fired \<equiv> times_in (TimerFires c) trace" and "reported \<equiv> times_in (FailureReported c) trace"
    and "running \<equiv> count_list timers' c"
  shows "first = Inr [SendEvent c (next_attempt spec) v] \<and> sent_by c (next_attempt spec) evs = replicate fired v
      \<and> (\<exists>exhausted. sent_by c (retry_error spec) evs = replicate exhausted (PExn (exn_of RetriesExhaustedException))
           \<and> reported = fired + running + exhausted \<and> (0 < exhausted \<longrightarrow> m \<le> int (1 + fired)))
      \<and> (reports_wait c trace \<longrightarrow> int (1 + fired + running) = min (int (1 + reported)) (max 1 m))"
proof -
  note inv = store_reach_inv [OF assms(3) deepdiff_totalD [OF assms(1)]]
  have spec: "retry_id spec = i" "max_attempts spec = m" "next_attempt spec \<noteq> retry_error spec"
    using assms(2) by (simp_all add: mk_retry_def)
  obtain w1 where w1: "retry_handle_input dd spec c v (timers, w) = (Inr [SendEvent c (next_attempt spec) v], (timers, w1))"
    "store_inv dd w1" "live w1 c" "retry_state spec w1 c = Some (v, 1)"
    using retry_input_fresh_run [OF assms(1) inv assms(4,5), of spec v timers] assms(6) spec(1) by auto
  with assms(8) have first: "first = Inr [SendEvent c (next_attempt spec) v]" "st = (timers, w1)" by simp_all
  have "retry_account dd spec c v [] [] st"
    using w1 assms(7) by (simp add: first(2) retry_account_def reports_wait_def count_list_0_iff)
  from retry_account_run [OF assms(1) spec(3) assms(9) this assms(10)]
  show ?thesis by (auto simp: first(1) retry_account_def Let_def fired_def reported_def running_def spec(2))
qed

text \<open>With two attempts: a report, its timer, and a second report, which finds the attempts used up.\<close>

theorem retries_up_to_max_attempts_witness:
  "\<exists>st evs (st' :: context_id list \<times> pyval bus_world). retry_run plain_diff (mk_retry ''r'' 2) st
        [(FailureReported (Uuid 0), []), (TimerFires (Uuid 0), [Uuid 0]), (FailureReported (Uuid 0), [])] evs st'
      \<and> fst st' = [] \<and> sent_by (Uuid 0) (Source ''r-next-attempt'') evs = [PInt 5]
      \<and> sent_by (Uuid 0) (Source ''r-error'') evs = [PExn (exn_of RetriesExhaustedException)]"
proof -
  let ?s = "mk_retry ''r'' 2" and ?c = "Uuid 0"
  have s: "max_attempts ?s = 2" "next_attempt ?s = Source ''r-next-attempt''" "retry_error ?s = Source ''r-error''"
    by (simp_all add: mk_retry_def)
  note inv = store_reach_inv [OF demo_bus_reach plain_diff_ok]
  obtain w1 where w1: "retry_handle_input plain_diff ?s ?c (PInt 5) ([], demo_bus_world) =
      (Inr [SendEvent ?c (next_attempt ?s) (PInt 5)], ([], w1))"
    "store_inv plain_diff w1" "live w1 ?c" "retry_state ?s w1 ?c = Some (PInt 5, 1)"
    using retry_input_fresh_run [OF plain_diff_total inv demo_bus_world_eval(1), of ?s "PInt 5" "[]"] by auto
  obtain w2 where w2: "trigger_next_attempt plain_diff ?s ?c ([?c], w1) = (Inr (), ([], w2))" "store_inv plain_diff w2" "live w2 ?c"
    "retry_state ?s w2 ?c = Some (PInt 5, 2)" "bus_in w2 = bus_in w1 @ [SendEvent ?c (next_attempt ?s) (PInt 5)]"
    using trigger_run [OF plain_diff_total w1(2-4), of "[?c]"] by (auto simp: numeral_2_eq_2)
  have ops: "retry_op_run plain_diff ?s (FailureReported ?c) ([], w1) = ([], ([?c], w1))"
    "retry_op_run plain_diff ?s (TimerFires ?c) ([?c], w1) = ([SendEvent ?c (next_attempt ?s) (PInt 5)], ([], w2))"
    "retry_op_run plain_diff ?s (FailureReported ?c) ([], w2) =
       ([SendEvent ?c (retry_error ?s) (PExn (exn_of RetriesExhaustedException))], ([], w2))"
    using failed_schedules [OF w1(4), of "[]"] failed_exhausts [OF w2(4), of "[]"] w2(1,5) s(1)
    by (simp_all add: retry_op_run_def seq_act_def bind_act_def)
  have "retry_run plain_diff ?s ([], w1) [(FailureReported ?c, [])] [] ([?c], w1)"
    using retry_run.acted [OF retry_run.begun _ _ ops(1)] w1(3) by simp
  from retry_run.acted [OF this _ _ ops(2)]
  have "retry_run plain_diff ?s ([], w1) [(FailureReported ?c, []), (TimerFires ?c, [?c])] [SendEvent ?c (next_attempt ?s) (PInt 5)] ([], w2)"
    using w1(3) by simp
  from retry_run.acted [OF this _ _ ops(3)]
  have run: "retry_run plain_diff ?s ([], w1) [(FailureReported ?c, []), (TimerFires ?c, [?c]), (FailureReported ?c, [])]
      [SendEvent ?c (next_attempt ?s) (PInt 5), SendEvent ?c (retry_error ?s) (PExn (exn_of RetriesExhaustedException))] ([], w2)"
    using w2(3) by simp
  have "sent_by ?c (next_attempt ?s) [SendEvent ?c (next_attempt ?s) (PInt 5), SendEvent ?c (retry_error ?s) (PExn (exn_of RetriesExhaustedException))]
      = replicate 1 (PInt 5)
    \<and> (\<exists>exhausted. sent_by ?c (retry_error ?s) [SendEvent ?c (next_attempt ?s) (PInt 5),
          SendEvent ?c (retry_error ?s) (PExn (exn_of RetriesExhaustedException))] = replicate exhausted (PExn (exn_of RetriesExhaustedException))
         \<and> 2 = 1 + exhausted)"
    using retries_up_to_max_attempts [OF plain_diff_total refl demo_bus_reach demo_bus_world_eval(1) _ _ _ w1(1) run]
    by (auto simp: times_in_def)
  with run show ?thesis unfolding s by (intro exI conjI) (assumption, auto simp: numeral_2_eq_2)
qed

text \<open>The attempt limit is tested when a failure is reported and not when the timer fires: two
  reports before the first timer fires start two timers, and both fire, so the attempts pass
  \<open>max_attempts\<close> by one.\<close>

theorem double_report_exceeds_max_attempts:
  fixes w :: "('d, 'x) bus_world_scheme"
  assumes "deepdiff_total dd" and "store_reach dd w" and "live w c"
    and "retry_state spec w c = Some (v, m)" and "max_attempts spec = int (Suc m)"
  shows "\<exists>w'. seq_act (retry_handle_failed_attempt spec c)
             (seq_act (retry_handle_failed_attempt spec c)
             (seq_act (trigger_next_attempt dd spec c) (trigger_next_attempt dd spec c))) ([], w) = (Inr (), ([], w'))
      \<and> retry_state spec w' c = Some (v, Suc (Suc m))
      \<and> bus_in w' = bus_in w @ [SendEvent c (next_attempt spec) v, SendEvent c (next_attempt spec) v]"
proof -
  note inv = store_reach_inv [OF assms(2) deepdiff_totalD [OF assms(1)]]
  have f: "retry_handle_failed_attempt spec c (ts, w) = (Inr [], (ts @ [c], w))" for ts
    using failed_schedules [OF assms(4)] assms(5) by simp
  obtain w1 where w1: "trigger_next_attempt dd spec c ([c, c], w) = (Inr (), ([c], w1))" "store_inv dd w1" "live w1 c"
    "retry_state spec w1 c = Some (v, Suc m)" "bus_in w1 = bus_in w @ [SendEvent c (next_attempt spec) v]"
    using trigger_run [OF assms(1) inv assms(3,4), of "[c, c]"] by auto
  obtain w2 where w2: "trigger_next_attempt dd spec c ([c], w1) = (Inr (), ([], w2))"
    "retry_state spec w2 c = Some (v, Suc (Suc m))" "bus_in w2 = bus_in w1 @ [SendEvent c (next_attempt spec) v]"
    using trigger_run [OF assms(1) w1(2-4), of "[c]"] by auto
  from w1 w2 show ?thesis by (simp add: seq_act_def bind_act_def f)
qed

theorem double_report_exceeds_max_attempts_witness:
  "\<exists>w w'. seq_act (retry_handle_failed_attempt (mk_retry ''r'' 2) (Uuid 0))
        (seq_act (retry_handle_failed_attempt (mk_retry ''r'' 2) (Uuid 0))
        (seq_act (trigger_next_attempt plain_diff (mk_retry ''r'' 2) (Uuid 0))
                 (trigger_next_attempt plain_diff (mk_retry ''r'' 2) (Uuid 0)))) ([], w) = (Inr (), ([], w'))
     \<and> retry_state (mk_retry ''r'' 2) (w' :: pyval bus_world) (Uuid 0) = Some (PInt 5, 3)"
proof -
  let ?s = "mk_retry ''r'' 2"
  note inv = store_reach_inv [OF demo_bus_reach plain_diff_ok]
  obtain w where w: "set_user_data plain_diff (Uuid 0) (retry_id ?s) (PRetryState (PInt 5) 1) demo_bus_world = (Inr (), w)"
    "contexts w = dict_set (Uuid 0) (\<lparr>ctx_id = Uuid 0, payload = PNone, user_data = [], parent_contexts = [], is_completed = False\<rparr>
       \<lparr>user_data := dict_set (retry_id ?s) (PRetryState (PInt 5) 1) []\<rparr>) (contexts demo_bus_world)"
    using set_user_data_run [OF plain_diff_total inv demo_bus_world_eval(1), of "retry_id ?s"] by auto
  have r: "store_reach plain_diff w" by (rule store_reach.user_data [OF demo_bus_reach w(1)])
  have "live w (Uuid 0)" "retry_state ?s w (Uuid 0) = Some (PInt 5, 1)"
    using w(2) by (simp_all add: live_def retry_state_def)
  from double_report_exceeds_max_attempts [OF plain_diff_total r this] show ?thesis
    by (auto simp: mk_retry_def numeral_3_eq_3)
qed

text \<open>An input that arrives when its context already has a retry state is answered with the old
  original input and counted on; a failure reported for a context without one raises
  \<open>InternalStateCorruptionException\<close>, starts no timer and changes nothing.\<close>

theorem retry_state_rules:
  fixes w :: "('d, 'x) bus_world_scheme"
  assumes "deepdiff_total dd" and "store_reach dd w" and "dict_get (contexts w) c = Some x" and "\<not> is_completed x"
  shows "case dict_get (user_data x) (retry_id spec) of
      Some (PRetryState old n) \<Rightarrow>
        \<exists>w'. retry_handle_input dd spec c v (timers, w) = (Inr [SendEvent c (next_attempt spec) old], (timers, w'))
          \<and> retry_state spec w' c = Some (old, Suc n)
    | None \<Rightarrow> retry_handle_failed_attempt spec c (timers, w) = (Inl corruption_exn, (timers, w))
    | Some PNone \<Rightarrow> retry_handle_failed_attempt spec c (timers, w) = (Inl corruption_exn, (timers, w))
    | Some _ \<Rightarrow> retry_handle_input dd spec c v (timers, w) = (Inl framework_exn, (timers, w))
          \<and> retry_handle_failed_attempt spec c (timers, w) = (Inl framework_exn, (timers, w))"
proof -
  note inv = store_reach_inv [OF assms(2) deepdiff_totalD [OF assms(1)]]
  have live: "live w c" using assms(3,4) by (simp add: live_def)
  have run: "retry_state_from_context spec c w =
      (case dict_get (user_data x) (retry_id spec) of
         None \<Rightarrow> ret None | Some PNone \<Rightarrow> ret None
       | Some (PRetryState original attempts) \<Rightarrow> ret (Some (original, attempts)) | Some _ \<Rightarrow> raise framework_exn) w"
    by (simp add: retry_state_from_context_def copy_user_data_run [OF assms(3)] bind_act_def)
  show ?thesis
  proof (cases "\<exists>old n. dict_get (user_data x) (retry_id spec) = Some (PRetryState old n)")
    case True
    then obtain old n where o: "dict_get (user_data x) (retry_id spec) = Some (PRetryState old n)" by blast
    from next_attempt_run [OF assms(1) inv live, of spec old n] o run show ?thesis
      by (auto simp: retry_handle_input_def bind_act_def on_snd_def)
  next
    case False
    with run show ?thesis
      by (auto simp: retry_handle_input_def retry_handle_failed_attempt_def bind_act_def on_snd_def
          split: option.splits pyval.splits)
  qed
qed

theorem retry_state_rules_witness:
  "retry_handle_failed_attempt (mk_retry ''r'' 2) (Uuid 0) ([], demo_bus_world) = (Inl corruption_exn, ([], demo_bus_world))"
  using retry_state_rules [OF plain_diff_total demo_bus_reach demo_bus_world_eval(1), where spec = "mk_retry ''r'' 2" and v = PNone and timers = "[]"]
  by simp

end
