(* ===== verification/Router.thy ===== *)
theory Router
  imports ResultActors "HOL-Library.List_Lexorder" "HOL-Library.Char_ord" "HOL-Library.Multiset"
begin

text \<open>
  \<open>neuron_router.py\<close>: the choice of the neuron an input is sent to. The answer of pylon to
  \<open>get_recent_neurons\<close>, the neuron filter and the permutation that \<open>random.Random(seed).shuffle\<close>
  applies to a list of a given length are arguments. Hotkeys compare by code points, as \<open>str\<close> does.
\<close>

section \<open>The node\<close>

definition keep_all_neurons :: "neuron list \<Rightarrow> neuron list" where
  "keep_all_neurons ns = ns"

definition miners_only :: "neuron list \<Rightarrow> neuron list" where
  "miners_only ns = filter (\<lambda>n. \<not> validator_permit n) ns"

definition validators_only :: "neuron list \<Rightarrow> neuron list" where
  "validators_only ns = filter validator_permit ns"

record neuron_router =
  router_id :: string
  router_transform :: transform
  router_netuid :: int
  neuron_filter :: "neuron list \<Rightarrow> neuron list"

definition neuron_router_init :: "string \<Rightarrow> int \<Rightarrow> (neuron list \<Rightarrow> neuron list) \<Rightarrow> exn + neuron_router" where
  "neuron_router_init i netuid filt =
     (if netuid < 0 then Inl (exn_of ActorMisconfiguredException)
      else Inr \<lparr>router_id = i, router_transform = mk_fork i, router_netuid = netuid, neuron_filter = filt\<rparr>)"

definition router_sinks :: "neuron_router \<Rightarrow> exn + node_sinks" where
  "router_sinks r = node_sinks_init [(''input'', fork_sink (router_transform r))] None"

definition router_sources :: "neuron_router \<Rightarrow> exn + node_sources" where
  "router_sources r =
     node_sources_init [(''routed'', tr_ok (router_transform r)), (''error'', tr_error (router_transform r))]
       (Some (tr_ok (router_transform r)))"

section \<open>Round robin\<close>

text \<open>\<open>_get_routable_neurons_from_pylon\<close>: \<open>answer\<close> is the client's answer, by hotkey, or its exception.\<close>

definition routable_neurons :: "neuron_router \<Rightarrow> exn + (string, neuron) dict \<Rightarrow> exn + neuron list" where
  "routable_neurons r answer =
     (case answer of
        Inl e \<Rightarrow> Inl e
      | Inr d \<Rightarrow>
          let ns = neuron_filter r (map snd d) in
          if length ns = 0 then Inl (exn_of NoRoutableNeuronsException) else Inr ns)"

text \<open>\<open>perm c n\<close> lists the positions \<open>0..<n\<close> as the shuffle seeded with \<open>str(ctx.id)\<close> leaves them.\<close>

definition ordered_neurons_for_context :: "(context_id \<Rightarrow> nat \<Rightarrow> nat list) \<Rightarrow> context_id \<Rightarrow> neuron list \<Rightarrow> neuron list" where
  "ordered_neurons_for_context perm c ns = (let s = sort_key hotkey ns in map (\<lambda>i. s ! i) (perm c (length s)))"

definition state_from_context :: "neuron_router \<Rightarrow> context_id \<Rightarrow> (exn, nat option, ('d, 'x) world_scheme) act" where
  "state_from_context r c =
     bind_act (copy_user_data c) (\<lambda>ud.
       case dict_get ud (router_id r) of
         None \<Rightarrow> ret None
       | Some PNone \<Rightarrow> ret None
       | Some (PRoutingState n) \<Rightarrow> ret (Some n)
       | Some _ \<Rightarrow> raise corruption_exn)"

definition select_neuron ::
  "'d deepdiff \<Rightarrow> (context_id \<Rightarrow> nat \<Rightarrow> nat list) \<Rightarrow> neuron_router \<Rightarrow> context_id \<Rightarrow> neuron list \<Rightarrow>
     (exn, neuron, ('d, 'x) world_scheme) act" where
  "select_neuron dd perm r c ns =
     (if length ns = 0 then raise (exn_of NoRoutableNeuronsException)
      else
        let ordered = ordered_neurons_for_context perm c ns in
        bind_act (state_from_context r c) (\<lambda>existing.
          let routed_count = (case existing of None \<Rightarrow> 0 | Some n \<Rightarrow> n) in
          seq_act (set_user_data dd c (router_id r) (PRoutingState (routed_count + 1)))
            (ret (ordered ! (routed_count mod length ordered)))))"

definition round_robin_transform ::
  "'d deepdiff \<Rightarrow> (context_id \<Rightarrow> nat \<Rightarrow> nat list) \<Rightarrow> neuron_router \<Rightarrow> exn + (string, neuron) dict \<Rightarrow> context_id \<Rightarrow> pyval \<Rightarrow>
     (exn, pyval, ('d, 'x) world_scheme) act" where
  "round_robin_transform dd perm r answer c v =
     bind_act (lift_act (routable_neurons r answer)) (\<lambda>ns.
     bind_act (select_neuron dd perm r c ns) (\<lambda>n. ret (PRouted (Routed v n))))"

section \<open>The router without pylon\<close>

definition noop_router_init :: "string \<Rightarrow> exn + neuron_router" where
  "noop_router_init i = neuron_router_init i 0 keep_all_neurons"

text \<open>\<open>built\<close> is what the model factory fills in for the fields it is not given.\<close>

definition noop_select_neuron :: "neuron \<Rightarrow> neuron" where
  "noop_select_neuron built = built\<lparr>hotkey := ''local-neuron''\<rparr>"

definition noop_transform :: "neuron \<Rightarrow> pyval \<Rightarrow> (exn, pyval, 's) act" where
  "noop_transform built v = ret (PRouted (Routed v (noop_select_neuron built)))"

section \<open>One routing\<close>

definition perm_ok :: "(context_id \<Rightarrow> nat \<Rightarrow> nat list) \<Rightarrow> bool" where
  "perm_ok perm \<longleftrightarrow> (\<forall>c n. mset (perm c n) = mset [0..<n])"

lemma perm_length: "perm_ok perm \<Longrightarrow> length (perm c n) = n"
  unfolding perm_ok_def by (metis length_upt minus_nat.diff_0 size_mset)

lemma mset_ordered: "perm_ok perm \<Longrightarrow> mset (ordered_neurons_for_context perm c ns) = mset ns"
proof -
  assume "perm_ok perm"
  then have "mset (map (\<lambda>i. sort_key hotkey ns ! i) (perm c (length ns))) = mset (map (\<lambda>i. sort_key hotkey ns ! i) [0..<length ns])"
    by (simp add: perm_ok_def)
  also have "map (\<lambda>i. sort_key hotkey ns ! i) [0..<length ns] = sort_key hotkey ns"
    using map_nth [of "sort_key hotkey ns"] by simp
  finally show ?thesis by (simp add: ordered_neurons_for_context_def)
qed

lemma length_ordered: "perm_ok perm \<Longrightarrow> length (ordered_neurons_for_context perm c ns) = length ns"
  using mset_ordered by (metis size_mset)

text \<open>The order depends on the set of neurons only, not on the order of pylon's answer.\<close>

lemma ordered_stable:
  assumes "mset ns = mset ms" "distinct (map hotkey ns)"
  shows "ordered_neurons_for_context perm c ns = ordered_neurons_for_context perm c ms"
proof -
  have keys: "map hotkey (sort_key hotkey ks) = sort (map hotkey ks)" for ks :: "neuron list"
    by (rule properties_for_sort [symmetric]) simp_all
  have "map hotkey (sort_key hotkey ns) = map hotkey (sort_key hotkey ms)"
    unfolding keys by (rule properties_for_sort) (simp_all add: assms(1))
  moreover have "inj_on hotkey (set (sort_key hotkey ns) \<union> set (sort_key hotkey ms))"
    unfolding set_sort using assms mset_eq_setD [OF assms(1)] by (simp add: distinct_map)
  ultimately have "sort_key hotkey ns = sort_key hotkey ms" by (rule map_inj_on)
  then show ?thesis unfolding ordered_neurons_for_context_def by (rule arg_cong)
qed

definition routed_so_far :: "neuron_router \<Rightarrow> context_id \<Rightarrow> ('d, 'x) world_scheme \<Rightarrow> nat \<Rightarrow> bool" where
  "routed_so_far r c w k \<longleftrightarrow>
     (\<exists>x. dict_get (contexts w) c = Some x \<and> \<not> is_completed x \<and>
        (dict_get (user_data x) (router_id r) = Some (PRoutingState k)
         \<or> k = 0 \<and> dict_get (user_data x) (router_id r) \<in> {None, Some PNone}))"

lemma round_robin_run:
  assumes "deepdiff_total dd" "store_inv dd w" "routed_so_far r c w k" "perm_ok perm"
    and ns: "routable_neurons r answer = Inr ns"
  shows "\<exists>w'. round_robin_transform dd perm r answer c v w =
        (Inr (PRouted (Routed v (ordered_neurons_for_context perm c ns ! (k mod length ns)))), w')
      \<and> store_inv dd w' \<and> routed_so_far r c w' (Suc k)"
proof -
  from assms(3) obtain x where x: "dict_get (contexts w) c = Some x" "\<not> is_completed x"
    "dict_get (user_data x) (router_id r) = Some (PRoutingState k)
         \<or> k = 0 \<and> dict_get (user_data x) (router_id r) \<in> {None, Some PNone}" by (auto simp: routed_so_far_def)
  have state: "state_from_context r c w = (Inr (if dict_get (user_data x) (router_id r) \<in> {None, Some PNone} then None else Some k), w)"
    using x(3) by (auto simp: state_from_context_def bind_act_def copy_user_data_run [OF x(1)])
  have count: "(case (if dict_get (user_data x) (router_id r) \<in> {None, Some PNone} then None else Some k) of None \<Rightarrow> 0 | Some n \<Rightarrow> n) = k"
    using x(3) by auto
  from set_user_data_run [OF assms(1,2) x(1,2), of "router_id r" "PRoutingState (k + 1)"] obtain w' where
    w': "set_user_data dd c (router_id r) (PRoutingState (k + 1)) w = (Inr (), w')" "store_inv dd w'"
    "contexts w' = dict_set c (x\<lparr>user_data := dict_set (router_id r) (PRoutingState (k + 1)) (user_data x)\<rparr>) (contexts w)"
    by blast
  have ne: "length ns \<noteq> 0" using ns by (auto simp: routable_neurons_def Let_def split: sum.splits if_splits)
  have "select_neuron dd perm r c ns w = (Inr (ordered_neurons_for_context perm c ns ! (k mod length ns)), w')"
    unfolding select_neuron_def if_not_P [OF ne] Let_def bind_act_apply [of "state_from_context r c" w, OF state] count seq_act_apply [of "set_user_data dd c (router_id r) (PRoutingState (k + 1))" w, OF w'(1)]
    by (simp add: length_ordered [OF assms(4)])
  then have "round_robin_transform dd perm r answer c v w =
      (Inr (PRouted (Routed v (ordered_neurons_for_context perm c ns ! (k mod length ns)))), w')"
    by (simp add: round_robin_transform_def ns lift_act_def bind_act_def)
  moreover have "routed_so_far r c w' (Suc k)" using w'(3) x(2) by (auto simp: routed_so_far_def)
  ultimately show ?thesis using w'(2) by blast
qed

section \<open>Rounds\<close>

text \<open>One routing per payload in a row, each with the answer pylon gives to it.\<close>

definition route_all ::
  "'d deepdiff \<Rightarrow> (context_id \<Rightarrow> nat \<Rightarrow> nat list) \<Rightarrow> neuron_router \<Rightarrow> context_id \<Rightarrow> ((exn + (string, neuron) dict) \<times> pyval) list \<Rightarrow>
     (exn, pyval list, ('d, 'x) world_scheme) act" where
  "route_all dd perm r c inputs = map_act (\<lambda>(answer, v). round_robin_transform dd perm r answer c v) inputs"

lemma route_all_run:
  assumes "deepdiff_total dd" "perm_ok perm" "distinct (map hotkey ns)"
    and "\<forall>(answer, v) \<in> set inputs. \<exists>ms. routable_neurons r answer = Inr ms \<and> mset ms = mset ns"
    and "store_inv dd w" "routed_so_far r c w k"
  defines "ordered \<equiv> ordered_neurons_for_context perm c ns"
  shows "\<exists>w'. route_all dd perm r c inputs w =
        (Inr (map2 (\<lambda>(answer, v) i. PRouted (Routed v (ordered ! (i mod length ns)))) inputs [k..<k + length inputs]), w')
      \<and> store_inv dd w' \<and> routed_so_far r c w' (k + length inputs)"
  using assms(4-6) unfolding ordered_def route_all_def
proof (induction inputs arbitrary: w k)
  case (Cons input inputs)
  obtain answer v where input: "input = (answer, v)" by fastforce
  from Cons.prems(1) obtain ms where ms: "routable_neurons r answer = Inr ms" "mset ms = mset ns" by (auto simp: input)
  have same: "ordered_neurons_for_context perm c ms = ordered_neurons_for_context perm c ns" "length ms = length ns"
    by (rule ordered_stable [OF ms(2) [symmetric] assms(3), symmetric]) (rule mset_eq_length [OF ms(2)])
  from round_robin_run [OF assms(1) Cons.prems(2,3) assms(2) ms(1), of v] obtain w1 where
    w1: "round_robin_transform dd perm r answer c v w =
        (Inr (PRouted (Routed v (ordered_neurons_for_context perm c ns ! (k mod length ns)))), w1)"
    "store_inv dd w1" "routed_so_far r c w1 (Suc k)" unfolding same by blast
  from Cons.prems(1) have rest: "\<forall>(answer, v) \<in> set inputs. \<exists>ms. routable_neurons r answer = Inr ms \<and> mset ms = mset ns" by simp
  from Cons.IH [OF rest w1(2,3)] obtain w' where
    "map_act (\<lambda>(answer, v). round_robin_transform dd perm r answer c v) inputs w1 =
       (Inr (map2 (\<lambda>(answer, v) i. PRouted (Routed v (ordered_neurons_for_context perm c ns ! (i mod length ns)))) inputs
          [Suc k..<Suc k + length inputs]), w')"
    "store_inv dd w'" "routed_so_far r c w' (Suc k + length inputs)" by blast
  moreover have "[k..<k + length (input # inputs)] = k # [Suc k..<Suc k + length inputs]" by (simp add: upt_conv_Cons del: upt_Suc)
  ultimately show ?case using w1(1) by (simp add: input bind_act_def)
qed simp

lemma rotated_positions: "n > 0 \<Longrightarrow> mset (map (\<lambda>i. i mod n) [k..<k + n]) = mset [0..<n]"
proof (induction k)
  case 0
  have "map (\<lambda>i. i mod n) [0..<n] = [0..<n]" by (rule map_idI) simp
  then show ?case by simp
next
  case (Suc k)
  have "[k..<k + n] = k # [Suc k..<k + n]" "[Suc k..<Suc k + n] = [Suc k..<k + n] @ [k + n]"
    using Suc.prems by (simp_all add: upt_conv_Cons)
  with Suc show ?case by (simp del: upt_Suc)
qed

section \<open>Properties\<close>

text \<open>C17: round-robin routing is fair. Whatever was routed before in a live context, the next inputs, as
  many as there are routable neurons, go to each routable neuron exactly once, in the order that
  belongs to the context; pylon may list the same neurons in another order each time. The count
  kept in the context advances by their number.\<close>

theorem round_robin_is_fair:
  fixes w :: "('d, 'x) world_scheme"
  assumes "deepdiff_total dd" and "store_reach dd w" and "perm_ok perm"
    and "ns \<noteq> []" and "distinct (map hotkey ns)" and "length inputs = length ns"
    and "\<forall>(answer, v) \<in> set inputs. \<exists>ms. routable_neurons r answer = Inr ms \<and> mset ms = mset ns"
    and "routed_so_far r c w k"
  shows "\<exists>targets w'. route_all dd perm r c inputs w = (Inr (map2 (\<lambda>(answer, v) n. PRouted (Routed v n)) inputs targets), w')
      \<and> mset targets = mset ns
      \<and> targets = map (\<lambda>i. ordered_neurons_for_context perm c ns ! (i mod length ns)) [k..<k + length ns]
      \<and> routed_so_far r c w' (k + length ns)"
proof -
  let ?n = "length ns" and ?o = "ordered_neurons_for_context perm c ns"
  let ?targets = "map (\<lambda>i. ?o ! (i mod ?n)) [k..<k + ?n]"
  from route_all_run [OF assms(1,3,5,7) store_reach_inv [OF assms(2) deepdiff_totalD [OF assms(1)]] assms(8)] obtain w' where
    w': "route_all dd perm r c inputs w = (Inr (map2 (\<lambda>(answer, v) i. PRouted (Routed v (?o ! (i mod ?n)))) inputs [k..<k + ?n]), w')"
    "routed_so_far r c w' (k + ?n)" unfolding assms(6) by blast
  have "mset ?targets = image_mset (\<lambda>i. ?o ! i) (mset (map (\<lambda>i. i mod ?n) [k..<k + ?n]))"
    by (simp add: multiset.map_comp comp_def del: upt_Suc)
  also have "\<dots> = mset (map (\<lambda>i. ?o ! i) [0..<length ?o])"
    using rotated_positions [of ?n k] assms(4) by (simp add: length_ordered [OF assms(3)] del: upt_Suc)
  also have "\<dots> = mset ns" unfolding map_nth by (rule mset_ordered [OF assms(3)])
  finally have "mset ?targets = mset ns" .
  moreover have "map2 (\<lambda>(answer, v) i. PRouted (Routed v (?o ! (i mod ?n)))) inputs [k..<k + ?n]
      = map2 (\<lambda>(answer, v) n. PRouted (Routed v n)) inputs ?targets"
    by (simp add: zip_map2 comp_def case_prod_beta del: upt_Suc)
  ultimately show ?thesis using w' by (metis (no_types, lifting))
qed

definition demo_neurons :: "(string, neuron) dict" where
  "demo_neurons = [(''hk'', demo_neuron), (''aa'', demo_neuron\<lparr>hotkey := ''aa''\<rparr>)]"

definition demo_router :: neuron_router where
  "demo_router = \<lparr>router_id = ''r'', router_transform = mk_fork ''r'', router_netuid = 1, neuron_filter = miners_only\<rparr>"

lemma demo_routable:
  "routable_neurons demo_router (Inr demo_neurons) = Inr (map snd demo_neurons)"
  "routable_neurons demo_router (Inr (rev demo_neurons)) = Inr (rev (map snd demo_neurons))"
  by (simp_all add: routable_neurons_def demo_router_def demo_neurons_def miners_only_def demo_neuron_def)

definition demo_routing :: "((exn + (string, neuron) dict) \<times> pyval) list" where
  "demo_routing = [(Inr demo_neurons, PInt 1), (Inr (rev demo_neurons), PInt 2)]"

theorem round_robin_is_fair_witness:
  "\<exists>targets w'. route_all plain_diff (\<lambda>_ n. rev [0..<n]) demo_router (Uuid 0) demo_routing demo_bus_world =
        (Inr (map2 (\<lambda>(answer, v) n. PRouted (Routed v n)) demo_routing targets), w')
    \<and> mset targets = {#demo_neuron, demo_neuron\<lparr>hotkey := ''aa''\<rparr>#}"
proof -
  let ?ns = "map snd demo_neurons"
  have perm: "perm_ok (\<lambda>_ n. rev [0..<n])" by (simp add: perm_ok_def)
  have ns: "?ns \<noteq> []" "distinct (map hotkey ?ns)" "length demo_routing = length ?ns"
    "mset ?ns = {#demo_neuron, demo_neuron\<lparr>hotkey := ''aa''\<rparr>#}"
    by (simp_all add: demo_neurons_def demo_neuron_def demo_routing_def)
  have same: "\<forall>(answer, v) \<in> set demo_routing. \<exists>ms. routable_neurons demo_router answer = Inr ms \<and> mset ms = mset ?ns"
    by (simp add: demo_routable demo_routing_def)
  have start: "routed_so_far demo_router (Uuid 0) demo_bus_world 0"
    using demo_bus_live by (auto simp: routed_so_far_def blank_context_def)
  from round_robin_is_fair [OF plain_diff_total demo_bus_reach perm ns(1-3) same start] show ?thesis
    unfolding ns(4) by (elim exE conjE) (intro exI conjI, assumption+)
qed

end
