(* ===== verification/Task.thy ===== *)
theory Task
  imports Flow ResultActors Timestamper Retry Router Communicator
begin

text \<open>
  \<open>NexusTask\<close> of \<open>core/runtime/nexus_task.py\<close>: the pipeline of a task, from its input over routing,
  execution, timestamping and storing to its results, and the flow that wires its nodes. The parts the
  constructor is given are arguments; a payload creator is seen as its transform.
\<close>

section \<open>The parts\<close>

record nexus_task =
  task_name :: string
  task_timestamper :: timestamper_spec
  task_retry :: retry_spec
  task_payload_creator :: transform
  task_router :: neuron_router
  task_communicator :: communicator
  task_converter :: transform
  task_preparer :: preparer
  task_success_storer :: transform
  task_failure_storer :: transform
  task_dispatcher :: dispatcher
  task_error_mux :: mux2
  internal_flow :: flow

abbreviation task_input :: "nexus_task \<Rightarrow> sink" where "task_input t \<equiv> retry_input (task_retry t)"
abbreviation task_block_beat :: "nexus_task \<Rightarrow> sink" where "task_block_beat t \<equiv> ts_block_beat (task_timestamper t)"
abbreviation task_success :: "nexus_task \<Rightarrow> source" where "task_success t \<equiv> disp_success (task_dispatcher t)"
abbreviation task_failure :: "nexus_task \<Rightarrow> source" where "task_failure t \<equiv> disp_failure (task_dispatcher t)"
abbreviation task_output :: "nexus_task \<Rightarrow> source" where "task_output t \<equiv> disp_executor_output (task_dispatcher t)"
abbreviation task_error :: "nexus_task \<Rightarrow> source" where "task_error t \<equiv> mux_out (task_error_mux t)"

text \<open>A payload creator renames the endpoints of its transform.\<close>

definition payload_creator_sinks :: "transform \<Rightarrow> exn + node_sinks" where
  "payload_creator_sinks t = node_sinks_init [(''input'', fork_sink t)] None"

definition payload_creator_sources :: "transform \<Rightarrow> exn + node_sources" where
  "payload_creator_sources t = node_sources_init [(''created-payload'', tr_ok t), (''error'', tr_error t)] (Some (tr_ok t))"

section \<open>The wiring\<close>

text \<open>The calls \<open>connect(source, sink)\<close> of the constructor, in their order.\<close>

definition task_connections :: "nexus_task \<Rightarrow> (source, sink) dict" where
  "task_connections t =
     (let retry = task_retry t; pc = task_payload_creator t; router = router_transform (task_router t);
          ts = task_timestamper t; comm = comm_transform (task_communicator t); prep = task_preparer t;
          conv = task_converter t; succ = task_success_storer t; fail = task_failure_storer t;
          disp = task_dispatcher t; mux = task_error_mux t
      in [(next_attempt retry, fork_sink pc),
          (tr_ok pc, fork_sink router),
          (tr_ok router, ts_input ts),
          (ts_forwarded_input ts, fork_sink comm),
          (tr_ok comm, ts_executor_output ts),
          (ts_timestamped_output ts, prep_timestamped_result prep),
          (prep_executor_output_for_conversion prep, fork_sink conv),
          (tr_ok conv, prep_converted_public_output prep),
          (prep_success prep, fork_sink succ),
          (prep_failure prep, fork_sink fail),
          (tr_ok succ, disp_success_input disp),
          (tr_ok fail, disp_failure_input disp),
          (tr_error comm, failed_attempt retry),
          (tr_error succ, failed_attempt retry),
          (tr_error fail, failed_attempt retry),
          (tr_error pc, failed_attempt retry),
          (tr_error router, failed_attempt retry),
          (retry_error retry, mux_left mux),
          (prep_error prep, mux_right mux),
          (tr_error conv, prep_conversion_failed prep)])"

definition connect_each :: "(source, sink) dict \<Rightarrow> (exn, unit, flow) act" where
  "connect_each cs = seq_act (map_act (\<lambda>(src, snk). flow_connect src (Some snk) []) cs) (ret ())"

definition task_parts ::
  "string \<Rightarrow> retry_spec \<Rightarrow> transform \<Rightarrow> neuron_router \<Rightarrow> communicator \<Rightarrow> transform \<Rightarrow> node_sinks \<Rightarrow> node_sources \<Rightarrow> nexus_task" where
  "task_parts name retry pc router comm conv entry exits =
     (let disp = mk_dispatcher (name @ ''-task-result-dispatcher'')
      in \<lparr>task_name = name, task_timestamper = mk_timestamper (name @ ''-timestamper''), task_retry = retry,
          task_payload_creator = pc, task_router = router, task_communicator = comm, task_converter = conv,
          task_preparer = mk_preparer (name @ ''-task-result-preparer''),
          task_success_storer = mk_fork (name @ ''-successful-task-result-storer''),
          task_failure_storer = mk_fork (name @ ''-executor-failure-task-result-storer''),
          task_dispatcher = disp, task_error_mux = mk_mux2 (name @ ''-error-mux''),
          internal_flow = \<lparr>entry_sinks = entry, exit_sources = exits, flow_pipes = [], flow_nodes = {},
            flow_sinks = {retry_input retry},
            flow_sources = {disp_success disp, disp_failure disp, disp_executor_output disp}\<rparr>\<rparr>)"

definition nexus_task_init ::
  "string \<Rightarrow> retry_spec \<Rightarrow> transform \<Rightarrow> neuron_router \<Rightarrow> communicator \<Rightarrow> transform \<Rightarrow> exn + nexus_task" where
  "nexus_task_init name retry pc router comm conv =
     (let disp = mk_dispatcher (name @ ''-task-result-dispatcher'')
      in case node_sinks_init [(''input'', retry_input retry)] None of
           Inl e \<Rightarrow> Inl e
         | Inr entry \<Rightarrow>
             (case node_sources_init [(''successful_task_result'', disp_success disp), (''executor_failure'', disp_failure disp),
                     (''executor_output'', disp_executor_output disp)] None of
                Inl e \<Rightarrow> Inl e
              | Inr exits \<Rightarrow>
                  let t = task_parts name retry pc router comm conv entry exits
                  in case connect_each (task_connections t) (internal_flow t) of
                       (Inl e, _) \<Rightarrow> Inl e
                     | (Inr _, f) \<Rightarrow> Inr (t\<lparr>internal_flow := f\<rparr>)))"

text \<open>The nodes in build order, each with its tables.\<close>

definition build_node :: "string \<Rightarrow> exn + node_sinks \<Rightarrow> exn + node_sources \<Rightarrow> exn + node" where
  "build_node i snks srcs =
     (case (snks, srcs) of
        (Inr a, Inr b) \<Rightarrow> Inr \<lparr>node_id = i, node_sinks_table = a, node_sources_table = b\<rparr>
      | (Inl e, _) \<Rightarrow> Inl e
      | (_, Inl e) \<Rightarrow> Inl e)"

definition internal_nodes :: "nexus_task \<Rightarrow> (exn + node) list" where
  "internal_nodes t =
     [build_node (retry_id (task_retry t)) (retry_sinks (task_retry t)) (retry_sources (task_retry t)),
      build_node (fork_id (task_payload_creator t)) (payload_creator_sinks (task_payload_creator t))
        (payload_creator_sources (task_payload_creator t)),
      build_node (router_id (task_router t)) (router_sinks (task_router t)) (router_sources (task_router t)),
      build_node (task_name t @ ''-timestamper'') (timestamper_sinks (task_timestamper t)) (timestamper_sources (task_timestamper t)),
      build_node (comm_id (task_communicator t)) (comm_sinks (task_communicator t)) (comm_sources (task_communicator t)),
      build_node (prep_id (task_preparer t)) (preparer_sinks (task_preparer t)) (preparer_sources (task_preparer t)),
      build_node (fork_id (task_converter t)) (payload_creator_sinks (task_converter t)) (payload_creator_sources (task_converter t)),
      build_node (fork_id (task_success_storer t)) (storer_sinks (task_success_storer t)) (success_storer_sources (task_success_storer t)),
      build_node (fork_id (task_failure_storer t)) (storer_sinks (task_failure_storer t)) (failure_storer_sources (task_failure_storer t)),
      build_node (task_name t @ ''-task-result-dispatcher'') (dispatcher_sinks (task_dispatcher t)) (dispatcher_sources (task_dispatcher t)),
      build_node (task_name t @ ''-error-mux'') (mux2_sinks (task_error_mux t)) (mux2_sources (task_error_mux t))]"

section \<open>Connecting distinct sources\<close>

abbreviation sole :: "source \<times> sink \<Rightarrow> source \<times> sink targets" where
  "sole c \<equiv> (fst c, mk_targets (Some (snd c)) [])"

lemma connect_each_run:
  assumes "distinct (dict_keys cs)" "\<forall>s \<in> set (dict_keys cs). dict_get (flow_pipes f) s = None"
  shows "\<exists>f'. connect_each cs f = (Inr (), f') \<and> flow_pipes f' = flow_pipes f @ map sole cs
      \<and> entry_sinks f' = entry_sinks f \<and> exit_sources f' = exit_sources f
      \<and> flow_sources f' = flow_sources f \<union> set (dict_keys cs) \<and> flow_sinks f' = flow_sinks f \<union> snd ` set cs"
  using assms
proof (induction cs arbitrary: f)
  case Nil
  then show ?case by (simp add: connect_each_def seq_act_def)
next
  case (Cons c cs)
  obtain src snk where c: "c = (src, snk)" by (rule prod.exhaust)
  have new: "dict_get (flow_pipes f) src = None" using Cons.prems(2) c by simp
  let ?f = "f\<lparr>flow_pipes := flow_pipes f @ [(src, mk_targets (Some snk) [])],
              flow_sources := insert src (flow_sources f), flow_sinks := flow_sinks f \<union> {snk}\<rparr>"
  have "dict_set src (mk_targets (Some snk) []) (flow_pipes f) = flow_pipes f @ [(src, mk_targets (Some snk) [])]"
    using new by (intro dict_set_append) (simp add: dict_has_def)
  then have one: "flow_connect src (Some snk) [] f = (Inr (), ?f)"
    using new by (simp add: flow_connect_def on_pipes_def pipes_connect_def validate_roles_def mk_targets_def act_defs)
  have "\<forall>s \<in> set (dict_keys cs). dict_get (flow_pipes ?f) s = None"
    using Cons.prems c by (auto simp: map_of_append map_add_def split: option.splits)
  with Cons.prems(1) Cons.IH [of ?f] obtain f' where
    f': "connect_each cs ?f = (Inr (), f')" "flow_pipes f' = flow_pipes ?f @ map sole cs"
    "entry_sinks f' = entry_sinks ?f" "exit_sources f' = exit_sources ?f"
    "flow_sources f' = flow_sources ?f \<union> set (dict_keys cs)" "flow_sinks f' = flow_sinks ?f \<union> snd ` set cs" by auto
  have "connect_each (c # cs) f = connect_each cs ?f"
    unfolding connect_each_def map_act.simps c prod.case seq_act_bind
    by (subst bind_act_apply [of "flow_connect src (Some snk) []" f, OF one])
      (simp add: seq_act_def bind_act_def split: prod.split sum.split)
  with f' c show ?case by (intro exI [of _ f']) auto
qed

section \<open>Properties\<close>

lemma connections_flow [simp]: "task_connections (t\<lparr>internal_flow := f\<rparr>) = task_connections t"
  by (simp add: task_connections_def Let_def)

lemma nodes_flow [simp]: "internal_nodes (t\<lparr>internal_flow := f\<rparr>) = internal_nodes t"
  by (simp add: internal_nodes_def)

lemmas node_tables = build_node_def retry_sinks_def retry_sources_def payload_creator_sinks_def payload_creator_sources_def
  router_sinks_def router_sources_def timestamper_sinks_def timestamper_sources_def comm_sinks_def comm_sources_def
  preparer_sinks_def preparer_sources_def storer_sinks_def success_storer_sources_def failure_storer_sources_def
  dispatcher_sinks_def dispatcher_sources_def mux2_sinks_def mux2_sources_def node_sinks_init_def node_sources_init_def

lemma internal_nodes_tables: "\<exists>ns. internal_nodes t = map Inr ns
    \<and> (\<forall>n \<in> set ns. (\<forall>src \<in> snd ` set (sources_of (node_sources_table n)).
            src \<in> set (dict_keys (task_connections t)) \<or> src \<in> {task_success t, task_failure t, task_output t, task_error t})
         \<and> (\<forall>snk \<in> snd ` set (sinks_of (node_sinks_table n)).
            snk \<in> snd ` set (task_connections t) \<or> snk \<in> {task_input t, task_block_beat t}))"
  by (rule exI [of _ "map (\<lambda>r. case r of Inr n \<Rightarrow> n) (internal_nodes t)"])
    (simp add: internal_nodes_def node_tables task_connections_def Let_def)

abbreviation task_entry :: "retry_spec \<Rightarrow> node_sinks" where
  "task_entry retry \<equiv> \<lparr>sinks_of = [(''input'', retry_input retry)], default_sink = Some (retry_input retry)\<rparr>"

abbreviation task_exits :: "string \<Rightarrow> node_sources" where
  "task_exits name \<equiv>
     (let disp = mk_dispatcher (name @ ''-task-result-dispatcher'')
      in \<lparr>sources_of = [(''successful_task_result'', disp_success disp), (''executor_failure'', disp_failure disp),
            (''executor_output'', disp_executor_output disp)], default_source = None\<rparr>)"

text \<open>The constructor, on nodes with different sources.\<close>

lemma nexus_task_run:
  assumes "t0 = task_parts name retry pc router comm conv entry exits" and "distinct (dict_keys (task_connections t0))"
  defines "t \<equiv> task_parts name retry pc router comm conv (task_entry retry) (task_exits name)"
  obtains f where "nexus_task_init name retry pc router comm conv = Inr (t\<lparr>internal_flow := f\<rparr>)"
    "flow_pipes f = map sole (task_connections t0)" "entry_sinks f = task_entry retry" "exit_sources f = task_exits name"
    "task_connections t = task_connections t0"
proof -
  let ?disp = "mk_dispatcher (name @ ''-task-result-dispatcher'')"
  let ?outs = "[(''successful_task_result'', disp_success ?disp), (''executor_failure'', disp_failure ?disp),
      (''executor_output'', disp_executor_output ?disp)]"
  have tables: "node_sinks_init [(''input'', retry_input retry)] None = Inr (task_entry retry)"
    "node_sources_init ?outs None = Inr (task_exits name)"
    by (simp_all add: node_sinks_init_def node_sources_init_def Let_def)
  have same: "task_connections t0 = task_connections t" by (simp add: assms(1) t_def task_connections_def task_parts_def Let_def)
  have empty: "flow_pipes (internal_flow t) = []" by (simp add: t_def task_parts_def Let_def)
  have "\<forall>s \<in> set (dict_keys (task_connections t)). dict_get (flow_pipes (internal_flow t)) s = None" by (simp add: empty)
  from connect_each_run [OF assms(2) [unfolded same] this] obtain f where
    f: "connect_each (task_connections t) (internal_flow t) = (Inr (), f)"
      "flow_pipes f = flow_pipes (internal_flow t) @ map sole (task_connections t)"
      "entry_sinks f = entry_sinks (internal_flow t)" "exit_sources f = exit_sources (internal_flow t)" by blast
  have tables_of: "entry_sinks (internal_flow t) = task_entry retry" "exit_sources (internal_flow t) = task_exits name"
    by (simp_all add: t_def task_parts_def Let_def)
  have "nexus_task_init name retry pc router comm conv = Inr (t\<lparr>internal_flow := f\<rparr>)"
    unfolding nexus_task_init_def Let_def tables [unfolded Let_def] sum.case t_def [unfolded Let_def, symmetric] by (simp add: f(1))
  then show thesis by (rule that) (simp_all only: f(2-4) tables_of empty append_Nil same)
qed

text \<open>C19: when the nodes of a task have different sources, building it succeeds; in the graph every source
  goes to the one sink the constructor names and to no tap; no source of any node is left dangling apart from
  the four outputs of the task, and no sink is left unfed apart from the input and the block beat.\<close>

theorem task_graph_is_complete:
  assumes "t0 = task_parts name retry pc router comm conv entry exits" and "distinct (dict_keys (task_connections t0))"
  shows "\<exists>t ns. nexus_task_init name retry pc router comm conv = Inr t \<and> task_connections t = task_connections t0
      \<and> (\<forall>src. pipes_get (flow_pipes (internal_flow t)) src = mk_targets (dict_get (task_connections t) src) [])
      \<and> sinks_of (entry_sinks (internal_flow t)) = [(''input'', task_input t)]
      \<and> map snd (sources_of (exit_sources (internal_flow t))) = [task_success t, task_failure t, task_output t]
      \<and> internal_nodes t = map Inr ns
      \<and> (\<forall>n \<in> set ns. (\<forall>src \<in> snd ` set (sources_of (node_sources_table n)).
            src \<in> set (dict_keys (task_connections t)) \<or> src \<in> {task_success t, task_failure t, task_output t, task_error t})
         \<and> (\<forall>snk \<in> snd ` set (sinks_of (node_sinks_table n)).
            snk \<in> snd ` set (task_connections t) \<or> snk \<in> {task_input t, task_block_beat t}))"
proof -
  let ?t = "task_parts name retry pc router comm conv (task_entry retry) (task_exits name)"
  obtain f where init: "nexus_task_init name retry pc router comm conv = Inr (?t\<lparr>internal_flow := f\<rparr>)"
    and f: "flow_pipes f = map sole (task_connections t0)" "entry_sinks f = task_entry retry" "exit_sources f = task_exits name"
    and same: "task_connections ?t = task_connections t0"
    by (rule nexus_task_run [OF assms])
  have get: "pipes_get (map sole cs) src = mk_targets (dict_get cs src) []" for cs :: "(source, sink) dict" and src
    by (induction cs) (auto simp: pipes_get_def split: if_splits)
  obtain ns where "internal_nodes ?t = map Inr ns" and
    "\<forall>n \<in> set ns. (\<forall>src \<in> snd ` set (sources_of (node_sources_table n)).
            src \<in> set (dict_keys (task_connections ?t)) \<or> src \<in> {task_success ?t, task_failure ?t, task_output ?t, task_error ?t})
         \<and> (\<forall>snk \<in> snd ` set (sinks_of (node_sinks_table n)).
            snk \<in> snd ` set (task_connections ?t) \<or> snk \<in> {task_input ?t, task_block_beat ?t})"
    using internal_nodes_tables [of ?t] by blast
  with init show ?thesis
    by (intro exI [of _ "?t\<lparr>internal_flow := f\<rparr>"] exI [of _ ns])
      (simp add: same f get, simp add: task_parts_def Let_def)
qed

definition demo_task_parts :: nexus_task where
  "demo_task_parts = task_parts ''t'' (mk_retry ''r'' 3) (mk_fork ''p'')
     \<lparr>router_id = ''n'', router_transform = mk_fork ''n'', router_netuid = 1, neuron_filter = keep_all_neurons\<rparr>
     (mk_communicator ''c'') (mk_fork ''v'') \<lparr>sinks_of = [], default_sink = None\<rparr> no_sources"

theorem task_graph_is_complete_witness:
  "\<exists>t. nexus_task_init ''t'' (mk_retry ''r'' 3) (mk_fork ''p'')
       \<lparr>router_id = ''n'', router_transform = mk_fork ''n'', router_netuid = 1, neuron_filter = keep_all_neurons\<rparr>
       (mk_communicator ''c'') (mk_fork ''v'') = Inr t
     \<and> pipes_get (flow_pipes (internal_flow t)) (Source ''c-right-source'') = mk_targets (Some (Sink ''r-failed-attempt'')) []"
proof -
  have "distinct (dict_keys (task_connections demo_task_parts))"
    "dict_get (task_connections demo_task_parts) (Source ''c-right-source'') = Some (Sink ''r-failed-attempt'')"
    by (simp_all add: demo_task_parts_def task_connections_def task_parts_def Let_def mk_fork_def mk_retry_def mk_communicator_def
        mk_timestamper_def mk_preparer_def mk_dispatcher_def mk_mux2_def)
  with task_graph_is_complete [OF demo_task_parts_def] show ?thesis by metis
qed

end
