(* ===== verification/Runtime.thy ===== *)
theory Runtime
  imports Flow StoreRuns
begin

text \<open>
  Building and running a subnet: \<open>SubnetBuilder\<close> and \<open>SubnetRuntime\<close> of \<open>core/runtime/subnet_runtime.py\<close>
  and \<open>NexusValidator\<close> of \<open>nexus_validator.py\<close>. An actor or node object is named by a number (its
  identity) and seen by the sinks its \<open>handlers()\<close> names. What \<open>build_actor\<close> and a factory return,
  the body of a \<open>with\<close> block, and which threads outlive a join are arguments.
\<close>

section \<open>The builder\<close>

type_synonym built_actor = "nat \<times> sink list"

record subnet_node =
  sn_node :: node
  sn_build :: "(exn + built_actor) option" \<comment> \<open>\<open>None\<close>: not an \<open>ActorBuilder\<close>\<close>

record subnet_builder =
  b_nodes :: "subnet_node list"
  b_flows :: "flow list"
  b_actors :: "built_actor list"
  b_factories :: "(exn + built_actor) list"
  b_include_node_flows :: bool
  b_built :: bool

record subnet_runtime =
  rt_actors :: "built_actor list"
  rt_piping :: piping
  rt_bus :: event_bus

abbreviation type_error :: exn where "type_error \<equiv> exn_of (OtherException ''TypeError'')"

definition builder_init :: "subnet_node list \<Rightarrow> bool \<Rightarrow> subnet_builder" where
  "builder_init nodes include = \<lparr>b_nodes = nodes, b_flows = [], b_actors = [], b_factories = [],
     b_include_node_flows = include, b_built = False\<rparr>"

definition ensure_not_built :: "(exn, unit, subnet_builder) act" where
  "ensure_not_built = bind_act (gets_act b_built) (\<lambda>built. if built then raise runtime_error else ret ())"

definition builder_add_flows :: "flow list \<Rightarrow> (exn, unit, subnet_builder) act" where
  "builder_add_flows fs = seq_act ensure_not_built (modify_act (\<lambda>b. b\<lparr>b_flows := b_flows b @ fs\<rparr>))"

definition builder_add_actors :: "built_actor list \<Rightarrow> (exn, unit, subnet_builder) act" where
  "builder_add_actors as = seq_act ensure_not_built (modify_act (\<lambda>b. b\<lparr>b_actors := b_actors b @ as\<rparr>))"

definition builder_add_factories :: "(exn + built_actor) list \<Rightarrow> (exn, unit, subnet_builder) act" where
  "builder_add_factories fs = seq_act ensure_not_built (modify_act (\<lambda>b. b\<lparr>b_factories := b_factories b @ fs\<rparr>))"

definition node_flow :: "subnet_node \<Rightarrow> exn + flow" where
  "node_flow n = flow_from_connectable (CNode (sn_node n))"

definition build_actors :: "subnet_node list \<Rightarrow> exn + built_actor list" where
  "build_actors = map_res (\<lambda>n. case sn_build n of None \<Rightarrow> Inl type_error | Some r \<Rightarrow> r)"

definition build_runtime :: "subnet_builder \<Rightarrow> exn + subnet_runtime" where
  "build_runtime b =
     (if b_flows b = [] then Inl value_error
      else
        case map_res node_flow (if b_include_node_flows b then b_nodes b else []) of Inl e \<Rightarrow> Inl e | Inr node_flows \<Rightarrow>
        case add_flows (node_flows @ b_flows b) piping_init of (Inl e, _) \<Rightarrow> Inl e | (Inr _, piping) \<Rightarrow>
        case build_actors (b_nodes b) of Inl e \<Rightarrow> Inl e | Inr built \<Rightarrow>
        case map_res (\<lambda>r. r) (b_factories b) of Inl e \<Rightarrow> Inl e | Inr made \<Rightarrow>
          let all_actors = built @ b_actors b @ made
          in Inr \<lparr>rt_actors = all_actors, rt_piping = piping, rt_bus = event_bus_init (all_pipes piping) all_actors\<rparr>)"

definition builder_build :: "(exn, subnet_runtime, subnet_builder) act" where
  "builder_build =
     seq_act ensure_not_built
       (bind_act (gets_act build_runtime) (\<lambda>r.
        case r of
          Inl e \<Rightarrow> raise e
        | Inr rt \<Rightarrow> seq_act (modify_act (\<lambda>b. b\<lparr>b_built := True\<rparr>)) (ret rt)))"

section \<open>The runtime\<close>

text \<open>The threads a runtime has started: those of its actors, by actor, and those of its bus.\<close>

record 'd runtime_world = "'d bus_world" +
  actor_starts :: "nat list"
  bus_starts :: nat
  is_started :: bool
  stop_requested :: bool

definition run_loop :: "subnet_runtime \<Rightarrow> (exn, unit, ('d, 'x) runtime_world_scheme) act" where
  "run_loop rt =
     bind_act (gets_act is_started) (\<lambda>started.
       if started then raise runtime_error
       else modify_act (\<lambda>w. w\<lparr>actor_starts := actor_starts w @ map fst (dedup (rt_actors rt)),
                              bus_starts := Suc (bus_starts w), is_started := True\<rparr>))"

definition request_stop :: "(exn, unit, ('d, 'x) runtime_world_scheme) act" where
  "request_stop =
     bind_act (gets_act (\<lambda>w. (is_started w, stop_requested w))) (\<lambda>(started, requested).
       if \<not> started then raise runtime_error
       else if requested then ret ()
       else seq_act (modify_act (\<lambda>w. w\<lparr>stop_requested := True\<rparr>)) (put_bus StopBusEvent))"

text \<open>\<open>outlives k\<close>: the \<open>k\<close>-th thread is alive after its join.\<close>

definition wait_for_stop :: "int \<Rightarrow> (nat \<Rightarrow> bool) \<Rightarrow> (exn, unit, ('d, 'x) runtime_world_scheme) act" where
  "wait_for_stop timeout outlives =
     (if timeout < 0 then raise value_error
      else
        bind_act (gets_act (\<lambda>w. length (actor_starts w) + bus_starts w)) (\<lambda>threads.
          if filter outlives [0..<threads] \<noteq> [] then raise (exn_of (OtherException ''TimeoutError'')) else ret ()))"

definition running ::
  "subnet_runtime \<Rightarrow> int \<Rightarrow> (nat \<Rightarrow> bool) \<Rightarrow> (exn, 'a, ('d, 'x) runtime_world_scheme) act \<Rightarrow>
     (exn, 'a, ('d, 'x) runtime_world_scheme) act" where
  "running rt timeout outlives body =
     (let shutdown = seq_act request_stop (wait_for_stop timeout outlives) in
      if timeout < 0 then raise value_error
      else
        seq_act (run_loop rt)
          (\<lambda>w. case body w of
             (Inl e, w') \<Rightarrow>
               (case shutdown w' of
                  (Inl e', w'') \<Rightarrow> (Inl (exn_of (OtherException ''BaseExceptionGroup'')), w'')
                | (Inr _, w'') \<Rightarrow> (Inl e, w''))
           | (Inr x, w') \<Rightarrow> seq_act shutdown (ret x) w'))"

section \<open>The validator\<close>

text \<open>What an endpoint knows of its owners, and what a task has to offer.\<close>

record owners =
  source_node :: "source \<Rightarrow> nat option"
  sink_node :: "sink \<Rightarrow> nat option"
  source_task :: "source \<Rightarrow> nat option"
  sink_task :: "sink \<Rightarrow> nat option"

record task_info =
  ti_block_beat :: sink
  ti_flow :: flow
  ti_nodes :: "nat list"

record validator =
  subnet_clock :: source
  connected_nodes :: "nat list" \<comment> \<open>the keys of the dictionaries from \<open>id(x)\<close> to \<open>x\<close>\<close>
  connected_tasks :: "nat list"
  subnet_flow :: flow
  runtime_up :: bool

definition validator_init :: "string \<Rightarrow> exn + validator" where
  "validator_init clk =
     (case (node_sinks_init [] None, node_sources_init [(''internal-subnet-clock'', Source clk)] None) of
        (Inr entry, Inr exits) \<Rightarrow>
          Inr \<lparr>subnet_clock = Source clk, connected_nodes = [], connected_tasks = [],
               subnet_flow = \<lparr>entry_sinks = entry, exit_sources = exits, flow_pipes = [], flow_nodes = {},
                              flow_sinks = {}, flow_sources = {}\<rparr>, runtime_up = False\<rparr>
      | (Inl e, _) \<Rightarrow> Inl e
      | (_, Inl e) \<Rightarrow> Inl e)"

definition remember :: "nat \<Rightarrow> nat list \<Rightarrow> nat list" where
  "remember n ns = (if n \<in> set ns then ns else ns @ [n])"

definition register_endpoint_owner :: "nat option \<Rightarrow> nat option \<Rightarrow> validator \<Rightarrow> validator" where
  "register_endpoint_owner node task v =
     (let v = (case node of None \<Rightarrow> v | Some n \<Rightarrow> v\<lparr>connected_nodes := remember n (connected_nodes v)\<rparr>)
      in case task of None \<Rightarrow> v | Some t \<Rightarrow> v\<lparr>connected_tasks := remember t (connected_tasks v)\<rparr>)"

definition register_source :: "owners \<Rightarrow> source \<Rightarrow> validator \<Rightarrow> validator" where
  "register_source ow src = register_endpoint_owner (source_node ow src) (source_task ow src)"

definition register_sink :: "owners \<Rightarrow> sink \<Rightarrow> validator \<Rightarrow> validator" where
  "register_sink ow snk = register_endpoint_owner (sink_node ow snk) (sink_task ow snk)"

definition validator_connect :: "owners \<Rightarrow> source \<Rightarrow> sink option \<Rightarrow> sink list \<Rightarrow> (exn, unit, validator) act" where
  "validator_connect ow src prim tps v =
     (case flow_connect src prim (dedup tps) (subnet_flow v) of
        (Inl e, f) \<Rightarrow> (Inl e, v\<lparr>subnet_flow := f\<rparr>)
      | (Inr _, f) \<Rightarrow>
          (Inr (), fold (register_sink ow) ((case prim of None \<Rightarrow> [] | Some p \<Rightarrow> [p]) @ dedup tps)
                     (register_source ow src (v\<lparr>subnet_flow := f\<rparr>))))"

definition validator_builder ::
  "owners \<Rightarrow> (nat \<Rightarrow> task_info) \<Rightarrow> (nat \<Rightarrow> subnet_node) \<Rightarrow> (exn, nat list \<times> subnet_builder, validator) act" where
  "validator_builder ow task node =
     bind_act (gets_act (\<lambda>v. (subnet_clock v, connected_tasks v))) (\<lambda>(clk, tasks).
     bind_act (map_act (\<lambda>t. validator_connect ow clk None [ti_block_beat (task t)]) tasks) (\<lambda>_.
     gets_act (\<lambda>v.
       let nodes = dedup (connected_nodes v @ concat (map (\<lambda>t. ti_nodes (task t)) tasks))
       in (nodes, (builder_init (map node nodes) True)\<lparr>b_flows := subnet_flow v # map (\<lambda>t. ti_flow (task t)) tasks\<rparr>))))"

definition validator_build_runtime ::
  "owners \<Rightarrow> (nat \<Rightarrow> task_info) \<Rightarrow> (nat \<Rightarrow> subnet_node) \<Rightarrow> (exn, subnet_runtime, validator) act" where
  "validator_build_runtime ow task node =
     bind_act (validator_builder ow task node) (\<lambda>(_, b). lift_act (build_runtime b))"

definition validator_start :: "owners \<Rightarrow> (nat \<Rightarrow> task_info) \<Rightarrow> (nat \<Rightarrow> subnet_node) \<Rightarrow> (exn, subnet_runtime, validator) act" where
  "validator_start ow task node =
     bind_act (gets_act runtime_up) (\<lambda>up.
       if up then raise runtime_error
       else bind_act (validator_build_runtime ow task node) (\<lambda>rt.
              seq_act (modify_act (\<lambda>v. v\<lparr>runtime_up := True\<rparr>)) (ret rt)))"

definition validator_finish :: "(exn, unit, validator) act" where
  "validator_finish = modify_act (\<lambda>v. v\<lparr>runtime_up := False\<rparr>)"

section \<open>A built runtime\<close>

lemma map_res_all: "(\<And>x. x \<in> set xs \<Longrightarrow> f x = Inr (g x)) \<Longrightarrow> map_res f xs = Inr (map g xs)"
  by (induction xs) simp_all

lemma node_flow_run: "\<exists>f. node_flow n = Inr f \<and> flow_decls f = []"
  by (simp add: node_flow_def flow_from_connectable_def node_of_def decls_of_def)

lemma node_flows_run: "\<exists>fs. map_res node_flow ns = Inr fs \<and> concat (map flow_decls fs) = []"
proof (induction ns)
  case (Cons n ns)
  with node_flow_run [of n] show ?case by auto
qed simp

text \<open>Who owns a sink: the last actor whose handlers name it.\<close>

lemma owner_sinks: "dict_has (fold (\<lambda>s. dict_set s i) snks d) s \<longleftrightarrow> dict_has d s \<or> s \<in> set snks"
  by (induction snks arbitrary: d) (auto simp: dict_has_def)

lemma bus_owns: "dict_has (sink_owner (event_bus_init p actors)) s \<longleftrightarrow> (\<exists>a \<in> set actors. s \<in> set (snd a))"
proof -
  have "dict_has (fold (\<lambda>(i, snks) d. fold (\<lambda>s. dict_set s i) snks d) actors d) s
      \<longleftrightarrow> dict_has d s \<or> (\<exists>a \<in> set actors. s \<in> set (snd a))" for d
  proof (induction actors arbitrary: d)
    case (Cons a actors)
    obtain i snks where a: "a = (i, snks)" by (rule prod.exhaust)
    show ?case by (simp add: a Cons.IH owner_sinks)
  qed simp
  from this [of "[]"] show ?thesis by (simp add: event_bus_init_def) (simp add: dict_has_def)
qed

text \<open>What a sequence of calls on a runtime does; an exception leaves the runtime as the call left it.\<close>

datatype runtime_call = RunLoop | RequestStop | WaitForStop int "nat \<Rightarrow> bool"

fun do_call :: "subnet_runtime \<Rightarrow> runtime_call \<Rightarrow> (exn, unit, ('d, 'x) runtime_world_scheme) act" where
  "do_call rt RunLoop = run_loop rt"
| "do_call rt RequestStop = request_stop"
| "do_call rt (WaitForStop timeout outlives) = wait_for_stop timeout outlives"

definition runtime_calls ::
  "subnet_runtime \<Rightarrow> runtime_call list \<Rightarrow> ('d, 'x) runtime_world_scheme \<Rightarrow> ('d, 'x) runtime_world_scheme" where
  "runtime_calls rt calls w = fold (\<lambda>call w. snd (do_call rt call w)) calls w"

definition stop_after_start :: "runtime_call list \<Rightarrow> bool" where
  "stop_after_start calls \<longleftrightarrow> (\<exists>xs ys. calls = xs @ ys \<and> RunLoop \<in> set xs \<and> RequestStop \<in> set ys)"

lemma stop_after_start_snoc:
  "stop_after_start (calls @ [call]) \<longleftrightarrow> stop_after_start calls \<or> RunLoop \<in> set calls \<and> call = RequestStop"
proof
  assume "stop_after_start (calls @ [call])"
  then obtain xs ys where s: "calls @ [call] = xs @ ys" "RunLoop \<in> set xs" "RequestStop \<in> set ys"
    by (auto simp: stop_after_start_def)
  from s(3) have "ys \<noteq> []" by auto
  then obtain zs z where ys: "ys = zs @ [z]" by (metis rev_exhaust)
  with s(1) have calls: "calls = xs @ zs" "z = call" by simp_all
  show "stop_after_start calls \<or> RunLoop \<in> set calls \<and> call = RequestStop"
  proof (cases "RequestStop \<in> set zs")
    case True
    with calls(1) s(2) show ?thesis unfolding stop_after_start_def by blast
  next
    case False
    with s ys calls show ?thesis by simp
  qed
next
  assume "stop_after_start calls \<or> RunLoop \<in> set calls \<and> call = RequestStop"
  then show "stop_after_start (calls @ [call])"
  proof
    assume "stop_after_start calls"
    then obtain xs ys where "calls @ [call] = xs @ (ys @ [call])" "RunLoop \<in> set xs" "RequestStop \<in> set (ys @ [call])"
      by (auto simp: stop_after_start_def)
    then show ?thesis unfolding stop_after_start_def by blast
  next
    assume "RunLoop \<in> set calls \<and> call = RequestStop"
    then show ?thesis unfolding stop_after_start_def by (intro exI [of _ calls] exI [of _ "[call]"]) simp
  qed
qed

section \<open>What a validator has connected\<close>

fun validator_connects :: "owners \<Rightarrow> decl list \<Rightarrow> (exn, unit, validator) act" where
  "validator_connects ow [] = ret ()"
| "validator_connects ow ((src, prim, tps) # ds) = seq_act (validator_connect ow src prim tps) (validator_connects ow ds)"

definition decl_nodes :: "owners \<Rightarrow> decl \<Rightarrow> nat set" where
  "decl_nodes ow d = (case d of (src, prim, tps) \<Rightarrow>
     set_option (source_node ow src) \<union> (\<Union>snk \<in> set_option prim \<union> set tps. set_option (sink_node ow snk)))"

definition decl_tasks :: "owners \<Rightarrow> decl \<Rightarrow> nat set" where
  "decl_tasks ow d = (case d of (src, prim, tps) \<Rightarrow>
     set_option (source_task ow src) \<union> (\<Union>snk \<in> set_option prim \<union> set tps. set_option (sink_task ow snk)))"

lemma set_remember [simp]: "set (remember n ns) = insert n (set ns)"
  by (auto simp: remember_def)

lemma register_owner_effect:
  "set (connected_nodes (register_endpoint_owner node task v)) = set (connected_nodes v) \<union> set_option node"
  "set (connected_tasks (register_endpoint_owner node task v)) = set (connected_tasks v) \<union> set_option task"
  "subnet_flow (register_endpoint_owner node task v) = subnet_flow v"
  "subnet_clock (register_endpoint_owner node task v) = subnet_clock v"
  "runtime_up (register_endpoint_owner node task v) = runtime_up v"
  by (auto simp: register_endpoint_owner_def Let_def split: option.splits)

lemma register_sinks_effect:
  "set (connected_nodes (fold (register_sink ow) snks v)) = set (connected_nodes v) \<union> (\<Union>s \<in> set snks. set_option (sink_node ow s))"
  "set (connected_tasks (fold (register_sink ow) snks v)) = set (connected_tasks v) \<union> (\<Union>s \<in> set snks. set_option (sink_task ow s))"
  "subnet_flow (fold (register_sink ow) snks v) = subnet_flow v"
  "subnet_clock (fold (register_sink ow) snks v) = subnet_clock v"
  by (induction snks arbitrary: v) (auto simp: register_sink_def register_owner_effect)

lemma pipes_connect_taps:
  assumes "pipes_connect src prim tps p = (Inr (), p')"
  shows "set (taps (pipes_get p' s)) = set (taps (pipes_get p s)) \<union> (if s = src then set tps else {})"
proof (cases "dict_get p src")
  case None
  with assms show ?thesis
    by (auto simp: pipes_connect_def Let_def pipes_get_def split: if_splits sum.splits option.splits)
next
  case (Some t)
  with assms show ?thesis
    by (auto simp: pipes_connect_def Let_def pipes_get_def merge_targets_def split: if_splits sum.splits option.splits)
qed

lemma validator_connect_effect:
  assumes "validator_connect ow src prim tps v = (Inr (), v')"
  shows "set (connected_nodes v') = set (connected_nodes v) \<union> decl_nodes ow (src, prim, tps)"
    "set (connected_tasks v') = set (connected_tasks v) \<union> decl_tasks ow (src, prim, tps)"
    "subnet_clock v' = subnet_clock v"
    "set (taps (pipes_get (flow_pipes (subnet_flow v')) s)) =
       set (taps (pipes_get (flow_pipes (subnet_flow v)) s)) \<union> (if s = src then set tps else {})"
proof -
  obtain f where f: "flow_connect src prim (dedup tps) (subnet_flow v) = (Inr (), f)"
    and v': "v' = fold (register_sink ow) ((case prim of None \<Rightarrow> [] | Some p \<Rightarrow> [p]) @ dedup tps)
                     (register_source ow src (v\<lparr>subnet_flow := f\<rparr>))"
    using assms by (auto simp: validator_connect_def split: prod.splits sum.splits)
  show "set (connected_nodes v') = set (connected_nodes v) \<union> decl_nodes ow (src, prim, tps)"
    "set (connected_tasks v') = set (connected_tasks v) \<union> decl_tasks ow (src, prim, tps)"
    "subnet_clock v' = subnet_clock v"
    unfolding v' register_sinks_effect decl_nodes_def decl_tasks_def
    by (cases prim; simp add: register_source_def register_owner_effect Un_assoc)+
  obtain p where p: "pipes_connect src prim (dedup tps) (flow_pipes (subnet_flow v)) = (Inr (), p)" "flow_pipes f = p"
    using f by (auto simp: flow_connect_def on_pipes_def act_defs split: prod.splits sum.splits)
  show "set (taps (pipes_get (flow_pipes (subnet_flow v')) s)) =
       set (taps (pipes_get (flow_pipes (subnet_flow v)) s)) \<union> (if s = src then set tps else {})"
    using pipes_connect_taps [OF p(1), of s] by (simp add: v' register_sinks_effect register_source_def register_owner_effect p(2))
qed

lemma validator_connects_effect:
  assumes "validator_connects ow ds v = (Inr (), v')"
  shows "set (connected_nodes v') = set (connected_nodes v) \<union> (\<Union>d \<in> set ds. decl_nodes ow d)
      \<and> set (connected_tasks v') = set (connected_tasks v) \<union> (\<Union>d \<in> set ds. decl_tasks ow d)
      \<and> subnet_clock v' = subnet_clock v
      \<and> (\<forall>s. set (taps (pipes_get (flow_pipes (subnet_flow v')) s)) =
            set (taps (pipes_get (flow_pipes (subnet_flow v)) s)) \<union> declared_taps ds s)"
  using assms
proof (induction ds arbitrary: v)
  case (Cons d ds)
  obtain src prim tps where d: "d = (src, prim, tps)" by (rule prod_cases3)
  from Cons.prems obtain v1 where v1: "validator_connect ow src prim tps v = (Inr (), v1)"
      "validator_connects ow ds v1 = (Inr (), v')"
    by (auto simp: d seq_act_def bind_act_def split: prod.splits sum.splits)
  have "declared_taps (d # ds) s = (if s = src then set tps else {}) \<union> declared_taps ds s" for s
    by (auto simp: declared_taps_def d)
  with Cons.IH [OF v1(2)] validator_connect_effect [OF v1(1)] d show ?case by auto
qed (simp add: declared_taps_def)

lemma connect_clock_ticks:
  "map_act (\<lambda>t. validator_connect ow clk None [beat t]) ts v = (r, v') \<Longrightarrow>
     (\<exists>us. r = Inr us) \<longleftrightarrow> validator_connects ow (map (\<lambda>t. (clk, None, [beat t])) ts) v = (Inr (), v')"
proof (induction ts arbitrary: v r v')
  case (Cons t ts)
  obtain r1 v1 where v1: "validator_connect ow clk None [beat t] v = (r1, v1)" by (rule prod.exhaust)
  obtain r2 v2 where v2: "map_act (\<lambda>t. validator_connect ow clk None [beat t]) ts v1 = (r2, v2)" by (rule prod.exhaust)
  note IH = Cons.IH [OF v2]
  show ?case
  proof (cases r1)
    case (Inl e)
    with Cons.prems v1 show ?thesis by (auto simp: bind_act_def seq_act_def)
  next
    case (Inr u)
    with Cons.prems v1 v2 IH show ?thesis by (cases r2) (auto simp: bind_act_def seq_act_def)
  qed
qed auto

section \<open>Properties\<close>

text \<open>Building: the wiring is that of the flows' declarations, when they fit together.\<close>

lemma build_wires:
  assumes "\<not> b_built b" and "b_flows b \<noteq> []" and "\<forall>n \<in> set (b_nodes b). sn_build n = Some (Inr (actor n))"
    and "b_factories b = map Inr made"
  defines "ds \<equiv> concat (map flow_decls (b_flows b))" and "actors \<equiv> map actor (b_nodes b) @ b_actors b @ made"
  shows "if consistent ds
         then \<exists>rt. builder_build b = (Inr rt, b\<lparr>b_built := True\<rparr>) \<and> rt_actors rt = actors
            \<and> represents (connections (rt_bus rt)) ds
            \<and> (\<forall>s. dict_has (sink_owner (rt_bus rt)) s \<longleftrightarrow> (\<exists>a \<in> set actors. s \<in> set (snd a)))
            \<and> builder_build (b\<lparr>b_built := True\<rparr>) = (Inl runtime_error, b\<lparr>b_built := True\<rparr>)
            \<and> builder_add_flows fs (b\<lparr>b_built := True\<rparr>) = (Inl runtime_error, b\<lparr>b_built := True\<rparr>)
         else \<exists>e. builder_build b = (Inl e, b)"
proof -
  obtain nfs where nfs: "map_res node_flow (if b_include_node_flows b then b_nodes b else []) = Inr nfs"
    "concat (map flow_decls nfs) = []"
    using node_flows_run by blast
  have ds: "concat (map flow_decls (nfs @ b_flows b)) = ds" by (simp add: nfs(2) ds_def)
  have nil: "consistent []" by (simp add: consistent_def declared_primaries_def)
  note add = add_flows_represents [of piping_init "[]" "nfs @ b_flows b", unfolded ds append_Nil]
  have acts: "build_actors (b_nodes b) = Inr (map actor (b_nodes b))" unfolding build_actors_def
    by (rule map_res_all) (use assms(3) in simp)
  have made: "map_res (\<lambda>r. r) (b_factories b) = Inr made" unfolding assms(4) by (induction made) simp_all
  show ?thesis
  proof (cases "consistent ds")
    case True
    with add obtain pp where pp: "add_flows (nfs @ b_flows b) piping_init = (Inr (), pp)" "represents (all_pipes pp) ds"
      using represents_Nil nil by (auto simp: piping_init_def)
    let ?rt = "\<lparr>rt_actors = actors, rt_piping = pp, rt_bus = event_bus_init (all_pipes pp) actors\<rparr>"
    have "build_runtime b = Inr ?rt"
      using assms(2) by (simp add: build_runtime_def nfs(1) pp(1) acts made Let_def actors_def)
    then have "builder_build b = (Inr ?rt, b\<lparr>b_built := True\<rparr>)"
      using assms(1) by (simp add: builder_build_def ensure_not_built_def act_defs)
    moreover have "connections (rt_bus ?rt) = all_pipes pp" by (simp add: event_bus_init_def)
    moreover have "dict_has (sink_owner (rt_bus ?rt)) s \<longleftrightarrow> (\<exists>a \<in> set actors. s \<in> set (snd a))" for s
      by (simp add: bus_owns)
    ultimately show ?thesis using True pp(2)
      by (auto simp: builder_build_def builder_add_flows_def ensure_not_built_def act_defs)
  next
    case False
    with add obtain e pp where "add_flows (nfs @ b_flows b) piping_init = (Inl e, pp)"
      using represents_Nil nil by (auto simp: piping_init_def)
    then have "build_runtime b = Inl e" using assms(2) by (simp add: build_runtime_def nfs(1))
    with False assms(1) show ?thesis by (simp add: builder_build_def ensure_not_built_def act_defs)
  qed
qed

text \<open>C20: building a subnet succeeds exactly when the connections of all its flows are consistent together, the nodes
  being actor builders; the bus then holds exactly the declared connections and can reach exactly the sinks
  some actor handles, and the builder accepts nothing more. A failed build changes nothing.\<close>

theorem build_wires_all_flows:
  assumes "\<not> b_built b" and "b_flows b \<noteq> []" and "\<forall>n \<in> set (b_nodes b). sn_build n = Some (Inr (actor n))"
    and "b_factories b = map Inr made"
  defines "ds \<equiv> concat (map flow_decls (b_flows b))" and "actors \<equiv> map actor (b_nodes b) @ b_actors b @ made"
  shows "if consistent ds
         then \<exists>rt. builder_build b = (Inr rt, b\<lparr>b_built := True\<rparr>) \<and> rt_actors rt = actors
            \<and> represents (connections (rt_bus rt)) ds
            \<and> (\<forall>s. dict_has (sink_owner (rt_bus rt)) s \<longleftrightarrow> (\<exists>a \<in> set actors. s \<in> set (snd a)))
            \<and> builder_build (b\<lparr>b_built := True\<rparr>) = (Inl runtime_error, b\<lparr>b_built := True\<rparr>)
            \<and> builder_add_flows fs (b\<lparr>b_built := True\<rparr>) = (Inl runtime_error, b\<lparr>b_built := True\<rparr>)
         else \<exists>e. builder_build b = (Inl e, b)"
  unfolding ds_def actors_def by (rule build_wires [OF assms(1-4)])

definition demo_builder :: subnet_builder where
  "demo_builder = \<lparr>b_nodes = [], b_flows = [demo_flow ''a''], b_actors = [(0, [Sink ''a-sink''])], b_factories = [],
     b_include_node_flows = True, b_built = False\<rparr>"

theorem build_wires_all_flows_witness:
  "\<exists>rt. builder_build demo_builder = (Inr rt, demo_builder\<lparr>b_built := True\<rparr>)
     \<and> dict_has (sink_owner (rt_bus rt)) (Sink ''a-sink'')"
proof -
  have "concat (map flow_decls (b_flows demo_builder)) = []"
    by (simp add: demo_builder_def demo_flow_eval decls_of_def)
  moreover have "consistent []" by (simp add: consistent_def declared_primaries_def)
  moreover have "\<not> b_built demo_builder" "b_flows demo_builder \<noteq> []" "b_factories demo_builder = map Inr []"
    "\<forall>n \<in> set (b_nodes demo_builder). sn_build n = Some (Inr (0, []))" by (simp_all add: demo_builder_def)
  ultimately show ?thesis
    using build_wires_all_flows [of demo_builder "\<lambda>_. (0, [])" "[]" "[]"] by (auto simp: demo_builder_def)
qed

text \<open>However its methods are called, a runtime starts every distinct actor and the bus at most once, and puts one
  stop event on the bus: exactly when a stop was requested after the loop was run.\<close>

theorem runtime_starts_and_stops_once:
  fixes w :: "('d, 'x) runtime_world_scheme" and rt :: subnet_runtime and calls :: "runtime_call list"
  assumes "\<not> is_started w" and "\<not> stop_requested w" and "actor_starts w = []" and "bus_starts w = 0"
  defines "w' \<equiv> runtime_calls rt calls w"
  shows "actor_starts w' = (if RunLoop \<in> set calls then map fst (dedup (rt_actors rt)) else [])
      \<and> bus_starts w' = (if RunLoop \<in> set calls then 1 else 0)
      \<and> bus_in w' = bus_in w @ (if stop_after_start calls then [StopBusEvent] else [])"
proof -
  have "is_started w' = (RunLoop \<in> set calls) \<and> stop_requested w' = stop_after_start calls
      \<and> actor_starts w' = (if RunLoop \<in> set calls then map fst (dedup (rt_actors rt)) else [])
      \<and> bus_starts w' = (if RunLoop \<in> set calls then 1 else 0)
      \<and> bus_in w' = bus_in w @ (if stop_after_start calls then [StopBusEvent] else [])"
    unfolding w'_def
  proof (induction calls rule: rev_induct)
    case Nil
    with assms show ?case by (simp add: runtime_calls_def stop_after_start_def)
  next
    case (snoc call calls)
    let ?v = "runtime_calls rt calls w"
    have step: "runtime_calls rt (calls @ [call]) w = snd (do_call rt call ?v)" by (simp add: runtime_calls_def)
    have started: "stop_after_start calls \<Longrightarrow> RunLoop \<in> set calls" by (auto simp: stop_after_start_def)
    show ?case
    proof (cases call)
      case RunLoop
      with snoc started show ?thesis unfolding step stop_after_start_snoc
        by (cases "RunLoop \<in> set calls") (auto simp: run_loop_def act_defs)
    next
      case RequestStop
      with snoc started show ?thesis unfolding step stop_after_start_snoc
        by (cases "RunLoop \<in> set calls"; cases "stop_after_start calls")
          (auto simp: request_stop_def put_bus_def act_defs)
    next
      case (WaitForStop timeout outlives)
      with snoc started show ?thesis unfolding step stop_after_start_snoc
        by (auto simp: wait_for_stop_def act_defs)
    qed
  qed
  then show ?thesis by blast
qed

definition runtime_world_init :: "'d runtime_world" where
  "runtime_world_init = \<lparr>persistence = mem_persistence_init, contexts = [], locks = [], uuids = 0, clock = int, ticks = 0,
     bus_in = [], inbox = \<lambda>_. [], actor_starts = [], bus_starts = 0, is_started = False, stop_requested = False\<rparr>"

definition demo_runtime :: subnet_runtime where
  "demo_runtime = \<lparr>rt_actors = [(0, []), (1, []), (0, [])], rt_piping = piping_init, rt_bus = event_bus_init [] []\<rparr>"

theorem runtime_starts_and_stops_once_witness:
  "actor_starts (runtime_calls demo_runtime [RequestStop, RunLoop, RunLoop, RequestStop, RequestStop]
       (runtime_world_init :: pyval runtime_world)) = [0, 1]
   \<and> bus_in (runtime_calls demo_runtime [RequestStop, RunLoop, RunLoop, RequestStop, RequestStop]
       (runtime_world_init :: pyval runtime_world)) = [StopBusEvent]"
proof -
  let ?calls = "[RequestStop, RunLoop, RunLoop, RequestStop, RequestStop]"
  have "stop_after_start ?calls"
    unfolding stop_after_start_def
    by (intro exI [of _ "[RequestStop, RunLoop]"] exI [of _ "[RunLoop, RequestStop, RequestStop]"]) simp
  then show ?thesis
    using runtime_starts_and_stops_once [of "runtime_world_init :: pyval runtime_world" demo_runtime ?calls]
    by (simp add: runtime_world_init_def demo_runtime_def)
qed

text \<open>What the builder of a validator is given.\<close>

lemma validator_builder_run:
  assumes "validator_init clk = Inr v0" and "validator_connects ow ds v0 = (Inr (), v)"
    and "validator_builder ow task node v = (Inr (nodes, b), v')"
  defines "tasks \<equiv> \<Union>d \<in> set ds. decl_tasks ow d"
  shows "distinct nodes
      \<and> set nodes = (\<Union>d \<in> set ds. decl_nodes ow d)
           \<union> (\<Union>t \<in> tasks. set_option (source_node ow (Source clk)) \<union> set_option (sink_node ow (ti_block_beat (task t)))
                            \<union> set (ti_nodes (task t)))
      \<and> b_nodes b = map node nodes
      \<and> (\<forall>t \<in> tasks. ti_block_beat (task t) \<in> set (taps (pipes_get (flow_pipes (subnet_flow v')) (Source clk)))
           \<and> ti_flow (task t) \<in> set (b_flows b))
      \<and> subnet_flow v' \<in> set (b_flows b)"
proof -
  have v0: "connected_nodes v0 = []" "connected_tasks v0 = []" "subnet_clock v0 = Source clk"
    using assms(1) by (auto simp: validator_init_def split: sum.splits)
  note e = validator_connects_effect [OF assms(2)]
  have ts: "set (connected_tasks v) = tasks" "subnet_clock v = Source clk" using e by (simp_all add: v0 tasks_def)
  obtain r where r: "map_act (\<lambda>t. validator_connect ow (Source clk) None [ti_block_beat (task t)]) (connected_tasks v) v = (Inr r, v')"
    and nodes: "nodes = dedup (connected_nodes v' @ concat (map (\<lambda>t. ti_nodes (task t)) (connected_tasks v)))"
    and b: "b = (builder_init (map node nodes) True)\<lparr>b_flows := subnet_flow v' # map (\<lambda>t. ti_flow (task t)) (connected_tasks v)\<rparr>"
    using assms(3) by (auto simp: validator_builder_def act_defs ts Let_def split: prod.splits sum.splits)
  let ?clocks = "map (\<lambda>t. (Source clk, None, [ti_block_beat (task t)])) (connected_tasks v)"
  have "validator_connects ow ?clocks v = (Inr (), v')" using connect_clock_ticks [OF r] by blast
  note e' = validator_connects_effect [OF this]
  have "(\<Union>d \<in> set ?clocks. decl_nodes ow d) =
      (\<Union>t \<in> tasks. set_option (source_node ow (Source clk)) \<union> set_option (sink_node ow (ti_block_beat (task t))))"
    by (auto simp: decl_nodes_def ts)
  then have "set nodes = (\<Union>d \<in> set ds. decl_nodes ow d)
      \<union> (\<Union>t \<in> tasks. set_option (source_node ow (Source clk)) \<union> set_option (sink_node ow (ti_block_beat (task t)))
                       \<union> set (ti_nodes (task t)))"
    using e e' by (auto simp: nodes v0 ts(1))
  moreover have "ti_block_beat (task t) \<in> set (taps (pipes_get (flow_pipes (subnet_flow v')) (Source clk)))" if "t \<in> tasks" for t
  proof -
    have "(Source clk, None, [ti_block_beat (task t)]) \<in> set ?clocks" using that ts(1) by auto
    then have "ti_block_beat (task t) \<in> declared_taps ?clocks (Source clk)"
      unfolding declared_taps_def mem_Collect_eq by (intro exI conjI) (assumption, simp)
    with e' show ?thesis by blast
  qed
  ultimately show ?thesis using ts(1) by (auto simp: nodes b builder_init_def)
qed

text \<open>C21: the runtime of a validator has one actor per node object: the owner of every endpoint that was ever connected
  and every internal node of a connected task, each built once; every connected task hears the subnet clock
  on a tap, and its flow is part of the graph.\<close>

theorem validator_builds_each_node_once:
  assumes "validator_init clk = Inr v0" and "validator_connects ow ds v0 = (Inr (), v)"
    and "validator_builder ow task node v = (Inr (nodes, b), v')"
  defines "tasks \<equiv> \<Union>d \<in> set ds. decl_tasks ow d"
  shows "distinct nodes
      \<and> set nodes = (\<Union>d \<in> set ds. decl_nodes ow d)
           \<union> (\<Union>t \<in> tasks. set_option (source_node ow (Source clk)) \<union> set_option (sink_node ow (ti_block_beat (task t)))
                            \<union> set (ti_nodes (task t)))
      \<and> b_nodes b = map node nodes
      \<and> (\<forall>t \<in> tasks. ti_block_beat (task t) \<in> set (taps (pipes_get (flow_pipes (subnet_flow v')) (Source clk)))
           \<and> ti_flow (task t) \<in> set (b_flows b))
      \<and> subnet_flow v' \<in> set (b_flows b)"
  unfolding tasks_def by (rule validator_builder_run [OF assms(1-3)])

definition demo_owners :: owners where
  "demo_owners = \<lparr>source_node = (\<lambda>s. if s = Source ''clk'' then Some 0 else if s = Source ''a'' then Some 1 else None),
     sink_node = (\<lambda>s. if s = Sink ''in'' then Some 2 else if s = Sink ''beat'' then Some 3 else None),
     source_task = (\<lambda>_. None), sink_task = (\<lambda>s. if s \<in> {Sink ''in'', Sink ''beat''} then Some 7 else None)\<rparr>"

definition demo_task_info :: task_info where
  "demo_task_info = \<lparr>ti_block_beat = Sink ''beat'', ti_flow = demo_flow ''t'', ti_nodes = [2, 3, 4]\<rparr>"

theorem validator_builds_each_node_once_witness:
  "\<forall>node. \<exists>v nodes b v'. validator_connects demo_owners [(Source ''a'', Some (Sink ''in''), [])]
       (case validator_init ''clk'' of Inr v0 \<Rightarrow> v0) = (Inr (), v)
     \<and> validator_builder demo_owners (\<lambda>_. demo_task_info) node v = (Inr (nodes, b), v')
     \<and> distinct nodes \<and> set nodes = {0, 1, 2, 3, 4}"
proof
  fix node
  let ?run = "\<lambda>v0. validator_connects demo_owners [(Source ''a'', Some (Sink ''in''), [])] v0"
  let ?build = "validator_builder demo_owners (\<lambda>_. demo_task_info) node"
  obtain v0 where v0: "validator_init ''clk'' = Inr v0"
    by (simp add: validator_init_def node_sinks_init_def node_sources_init_def)
  note eval = validator_init_def node_sinks_init_def node_sources_init_def validator_connect_def flow_connect_def
    on_pipes_def pipes_connect_def validate_roles_def mk_targets_def act_defs register_source_def register_sink_def
    register_endpoint_owner_def remember_def Let_def
  have "\<exists>v. ?run v0 = (Inr (), v)" using v0 by (auto simp: eval demo_owners_def)
  then obtain v where v: "?run v0 = (Inr (), v)" by blast
  have "\<exists>nodes b v'. ?build v = (Inr (nodes, b), v')"
    using v0 v by (auto simp: validator_builder_def eval demo_owners_def demo_task_info_def)
  then obtain nodes b v' where b: "?build v = (Inr (nodes, b), v')" by blast
  from validator_builds_each_node_once [OF v0 v b]
  have "distinct nodes" "set nodes = {0, 1, 2, 3, 4}"
    by (auto simp: decl_tasks_def decl_nodes_def demo_owners_def demo_task_info_def)
  with v0 v b show "\<exists>v nodes b v'. validator_connects demo_owners [(Source ''a'', Some (Sink ''in''), [])]
       (case validator_init ''clk'' of Inr v0 \<Rightarrow> v0) = (Inr (), v)
     \<and> ?build v = (Inr (nodes, b), v') \<and> distinct nodes \<and> set nodes = {0, 1, 2, 3, 4}"
    by auto
qed

text \<open>C38: the bus loop has no guard. A message for an unknown or completed context raises in the loop and ends its
  thread; it is not logged and reaches no inbox. A message with a primary sink or a tap that no actor of the runtime
  handles is logged and its tap contexts are created; the sinks before the first unhandled one, in the order primary
  and then taps, get it, and then the loop raises \<open>KeyError\<close>: the sinks after it get nothing. In both cases the
  events behind it stay in the queue.\<close>

theorem bus_failures_end_the_loop:
  fixes w :: "('d, 'x) bus_world_scheme" and bus :: event_bus
  assumes "deepdiff_total dd" and "store_reach dd w" and "bus_in w = SendEvent c src v # evs"
  defines "t \<equiv> pipes_get (connections bus) src"
  defines "dl \<equiv> (case primary t of None \<Rightarrow> [] | Some s \<Rightarrow> [(s, c)]) @ zip (taps t) (map Uuid [uuids w..<uuids w + length (taps t)])"
  assumes "\<not> live w c \<or> (\<exists>s \<in> set_option (primary t) \<union> set (taps t). \<not> dict_has (sink_owner bus) s)"
  shows "if live w c
    then \<exists>w' d. bus_step dd bus w = Some (Inl key_error, w') \<and> bus_in w' = evs
      \<and> log_data w' c = log_data w c @ MessageSent (source_id src) d # map (\<lambda>n. ChildContextCreated (Uuid n)) [uuids w..<uuids w + length (taps t)]
      \<and> (\<forall>i. inbox w' i = inbox w i @ map (\<lambda>(s, k). ReceiveEvent k s v) (filter (\<lambda>(s, k). dict_get (sink_owner bus) s = Some i)
             (takeWhile (\<lambda>(s, k). dict_has (sink_owner bus) s) dl)))
    else \<exists>e w'. bus_step dd bus w = Some (Inl e, w') \<and> bus_in w' = evs \<and> inbox w' = inbox w \<and> log_data w' = log_data w
      \<and> e = (if dict_has (contexts w) c then exn_of ContextCompletedException else exn_of InvalidContextIdException)"
proof -
  have dd: "deepdiff_ok dd" by (rule deepdiff_totalD [OF assms(1)])
  let ?w = "w\<lparr>bus_in := evs\<rparr>"
  have "store_reach dd ?w" by (rule store_reach.env [OF assms(2)]) simp_all
  then have inv: "store_inv dd ?w" by (rule store_reach_inv [OF _ dd])
  have step: "bus_step dd bus w = Some (seq_act (bus_handle dd bus c src v) (ret True) ?w)" using assms(3) by (simp add: bus_step_def)
  show ?thesis
  proof (cases "dict_get (contexts w) c")
    case None
    then have none: "dict_get (contexts ?w) c = None" by simp
    have "with_context c (append_message dd c (source_id src) v) ?w = (Inl (exn_of InvalidContextIdException), ?w)"
      by (rule with_context_unknown) (use none in \<open>simp add: dict_has_def\<close>)
    then show ?thesis using None unfolding step bus_handle_def
      by (simp add: seq_act_def bind_act_def live_def dict_has_def log_data_def fun_eq_iff)
  next
    case (Some x)
    then have x: "dict_get (contexts ?w) c = Some x" by simp
    have "dict_has (contexts ?w) c" using x by (simp add: dict_has_def)
    then have known: "with_context c m ?w = m ?w" for m :: "(exn, unit, ('d, 'x) bus_world_scheme) act"
      by (intro with_context_known) (use store_invD(2) [OF inv] in blast)
    show ?thesis
    proof (cases "is_completed x")
      case True
      then have "append_message dd c (source_id src) v ?w = (Inl (exn_of ContextCompletedException), ?w)"
        using x by (simp add: append_message_def the_context_def assert_mutable_def act_defs)
      with known have "with_context c (append_message dd c (source_id src) v) ?w = (Inl (exn_of ContextCompletedException), ?w)"
        by simp
      then show ?thesis using Some True unfolding step bus_handle_def
        by (simp add: seq_act_def bind_act_def live_def dict_has_def log_data_def fun_eq_iff)
    next
      case False
      with Some have live: "live w c" by (simp add: live_def)
      with assms(6) obtain s where s: "s \<in> set_option (primary t) \<union> set (taps t)" "\<not> dict_has (sink_owner bus) s" by blast
      have "\<exists>k. (s, k) \<in> set dl"
      proof (cases "s \<in> set (taps t)")
        case True
        then obtain n where n: "n < length (taps t)" "taps t ! n = s" by (auto simp: in_set_conv_nth)
        let ?ks = "map Uuid [uuids w..<uuids w + length (taps t)]"
        have "zip (taps t) ?ks ! n \<in> set (zip (taps t) ?ks)" using n(1) by (intro nth_mem) simp
        then have "(s, ?ks ! n) \<in> set dl" using n by (simp add: dl_def)
        then show ?thesis ..
      qed (use s(1) in \<open>auto simp: dl_def\<close>)
      with s(2) have unhandled: "\<not> (\<forall>(s, k) \<in> set dl. dict_has (sink_owner bus) s)" by blast
      obtain d where d: "dd_delta dd (payload x) v = Inr d" using assms(1) by (auto simp: deepdiff_total_def)
      have ids: "uuids ?w = uuids w" by simp
      obtain w2 where w2: "bus_handle dd bus c src v ?w = seq_act (map_act (\<lambda>(s, k). pass_message_to_sink bus v s k) dl) (ret ()) w2"
        "bus_in w2 = evs" "inbox w2 = inbox w"
        "log_data w2 c = log_data ?w c @ MessageSent (source_id src) d # map (\<lambda>n. ChildContextCreated (Uuid n)) [uuids w..<uuids w + length (taps t)]"
        using bus_handle_deliveries [OF dd inv x False d, of bus src] unfolding ids t_def [symmetric] dl_def [symmetric] by auto
      let ?w' = "w2\<lparr>inbox := \<lambda>i. inbox w2 i @ delivered bus v (takeWhile (\<lambda>(s, k). dict_has (sink_owner bus) s) dl) i\<rparr>"
      have "bus_step dd bus w = Some (Inl key_error, ?w')"
        unfolding step by (simp add: seq_act_def bind_act_def w2(1) pass_all_fails [OF unhandled])
      moreover have "log_data ?w' c = log_data w c @ MessageSent (source_id src) d # map (\<lambda>n. ChildContextCreated (Uuid n)) [uuids w..<uuids w + length (taps t)]"
        using w2(4) by (simp add: log_data_def)
      ultimately show ?thesis using live w2(2,3)
        by (auto simp: delivered_def intro!: exI [of _ ?w'] exI [of _ d])
    qed
  qed
qed

text \<open>The primary of \<open>a\<close> gets the message, its tap is not handled.\<close>

theorem bus_failures_end_the_loop_witness:
  "\<exists>w'. bus_step plain_diff (demo_bus\<lparr>sink_owner := [(Sink ''x'', 0)]\<rparr>) demo_bus_world = Some (Inl key_error, w')
     \<and> inbox w' 0 = [ReceiveEvent (Uuid 0) (Sink ''x'') (PInt 5)] \<and> inbox w' 1 = []"
proof -
  let ?bus = "demo_bus\<lparr>sink_owner := [(Sink ''x'', 0)]\<rparr>"
  have t: "pipes_get (connections ?bus) (Source ''a'') = mk_targets (Some (Sink ''x'')) [Sink ''y'']"
    by (simp add: demo_bus_def event_bus_init_def pipes_get_def)
  have "live demo_bus_world (Uuid 0)" using demo_bus_world_eval(1) by (simp add: live_def)
  with bus_failures_end_the_loop [OF plain_diff_total demo_bus_reach demo_bus_world_eval(4), of ?bus] show ?thesis
    unfolding t by (auto simp: mk_targets_def dict_has_def demo_bus_world_eval)
qed

end
