(* ===== verification/Payload.thy ===== *)
theory Payload
  imports Rest Flow
begin

text \<open>
  Payload creators: \<open>payload_creator.py\<close>, the OpenRouter selections of \<open>openrouter_selection.py\<close>, the request built
  from them in \<open>openrouter_payload_creator.py\<close> and the client of \<open>utils/openrouter_client.py\<close>. The S3 client, the
  item selector, the checks of pydantic and the HTTP exchange are arguments.
\<close>

section \<open>Presigned URLs\<close>

record presigned_spec =
  pu_id :: string
  pu_bucket :: string
  pu_expiration :: int
  load_s3_key :: "string option"
  pu_method :: string

definition presigned_url_creator_init ::
  "string \<Rightarrow> string \<Rightarrow> int \<Rightarrow> string option \<Rightarrow> string \<Rightarrow> exn + presigned_spec" where
  "presigned_url_creator_init i bucket expiration key method =
     (if expiration \<le> 0 then Inl (exn_of ActorMisconfiguredException)
      else Inr \<lparr>pu_id = i, pu_bucket = bucket, pu_expiration = expiration, load_s3_key = key, pu_method = method\<rparr>)"

text \<open>\<open>presign method bucket key expiration\<close> is the S3 client, \<open>text_of\<close> the text of a uuid.\<close>

definition presigned_url_transform ::
  "'d deepdiff \<Rightarrow> (string \<Rightarrow> string \<Rightarrow> pyval \<Rightarrow> int \<Rightarrow> exn + string) \<Rightarrow> (nat \<Rightarrow> string) \<Rightarrow> presigned_spec \<Rightarrow>
     context_id \<Rightarrow> pyval \<Rightarrow> (exn, pyval, ('d, 'x) world_scheme) act" where
  "presigned_url_transform dd presign text_of s c v =
     bind_act
       (case load_s3_key s of
          Some k \<Rightarrow>
            bind_act (copy_user_data c) (\<lambda>ud. case dict_get ud k of None \<Rightarrow> raise key_error | Some key \<Rightarrow> ret key)
        | None \<Rightarrow>
            bind_act fresh_uuid (\<lambda>u.
              seq_act (set_user_data dd c (pu_id s) (PStr (text_of u))) (ret (PStr (text_of u)))))
       (\<lambda>key.
          if pu_method s \<in> {''PUT'', ''GET''}
          then bind_act (lift_act (presign (pu_method s) (pu_bucket s) key (pu_expiration s))) (\<lambda>url.
                 ret (PDict [(''input'', v), (''presigned_url'', PStr url)]))
          else raise (exn_of ActorMisconfiguredException))"

definition noop_payload_transform :: "context_id \<Rightarrow> pyval \<Rightarrow> (exn, pyval, 's) act" where
  "noop_payload_transform c v = ret v"

section \<open>Selections\<close>

text \<open>A float is seen as its \<open>str\<close>.\<close>

datatype scalar = ScStr string | ScInt int | ScFloat string | ScBool bool | ScNone

datatype field_value =
    ScalarField scalar
  | ImageUrlField string
  | FileField string string
  | InputAudioField string string
  | VideoUrlField string

type_synonym block = "(string, json) dict"

definition text_content_block :: "string \<Rightarrow> block" where
  "text_content_block t = [(''type'', JStr ''text''), (''text'', JStr t)]"

definition label_block :: "nat \<Rightarrow> string \<Rightarrow> block" where
  "label_block index field_name = text_content_block (''item['' @ nat_text index @ ''].'' @ field_name @ '':'')"

definition rendered_value :: "scalar \<Rightarrow> string" where
  "rendered_value v =
     (case v of ScStr t \<Rightarrow> t | ScInt n \<Rightarrow> int_text n | ScFloat t \<Rightarrow> t | ScBool b \<Rightarrow> if b then ''True'' else ''False''
      | ScNone \<Rightarrow> ''None'')"

definition render_openrouter_content :: "nat \<Rightarrow> string \<Rightarrow> field_value \<Rightarrow> block list" where
  "render_openrouter_content index field_name v =
     (case v of
        ScalarField x \<Rightarrow>
          [text_content_block (''item['' @ nat_text index @ ''].'' @ field_name @ '': '' @ rendered_value x)]
      | ImageUrlField url \<Rightarrow>
          [label_block index field_name, [(''type'', JStr ''image_url''), (''image_url'', JDict [(''url'', JStr url)])]]
      | FileField filename file_data \<Rightarrow>
          [label_block index field_name,
           [(''type'', JStr ''file''),
            (''file'', JDict [(''filename'', JStr filename), (''file_data'', JStr file_data)])]]
      | InputAudioField data format \<Rightarrow>
          [label_block index field_name,
           [(''type'', JStr ''input_audio''),
            (''input_audio'', JDict [(''data'', JStr data), (''format'', JStr format)])]]
      | VideoUrlField url \<Rightarrow>
          [label_block index field_name, [(''type'', JStr ''video_url''), (''video_url'', JDict [(''url'', JStr url)])]])"

section \<open>Requests\<close>

definition is_json_string :: "json \<Rightarrow> bool" where
  "is_json_string j = (case j of JStr _ \<Rightarrow> True | _ \<Rightarrow> False)"

definition is_string_mapping :: "json option \<Rightarrow> string list \<Rightarrow> bool" where
  "is_string_mapping v ks =
     (case v of Some (JDict d) \<Rightarrow> set (dict_keys d) = set ks \<and> list_all is_json_string (map snd d) | _ \<Rightarrow> False)"

definition validate_message_content :: "block \<Rightarrow> exn + block" where
  "validate_message_content b =
     (let kind = dict_get b ''type'';
          shaped = (\<lambda>k ks. set (dict_keys b) = {''type'', k} \<and> is_string_mapping (dict_get b k) ks) in
      if kind = Some (JStr ''text'')
      then (if set (dict_keys b) = {''type'', ''text''} \<and> (case dict_get b ''text'' of Some j \<Rightarrow> is_json_string j | None \<Rightarrow> False)
            then Inr b else Inl value_error)
      else if kind = Some (JStr ''image_url'') then (if shaped ''image_url'' [''url''] then Inr b else Inl value_error)
      else if kind = Some (JStr ''file'') then (if shaped ''file'' [''filename'', ''file_data''] then Inr b else Inl value_error)
      else if kind = Some (JStr ''input_audio'') then (if shaped ''input_audio'' [''data'', ''format''] then Inr b else Inl value_error)
      else if kind = Some (JStr ''video_url'') then (if shaped ''video_url'' [''url''] then Inr b else Inl value_error)
      else Inl value_error)"

type_synonym fields = "(string, field_value) dict"

record openrouter_request =
  or_fields :: "fields list"
  or_content :: "block list" \<comment> \<open>of the one message, whose role is \<open>user\<close>\<close>

definition openrouter_request_init :: "fields list \<Rightarrow> block list \<Rightarrow> exn + openrouter_request" where
  "openrouter_request_init fs content =
     (case map_res validate_message_content content of
        Inl e \<Rightarrow> Inl e | Inr _ \<Rightarrow> Inr \<lparr>or_fields = fs, or_content = content\<rparr>)"

definition build_selected_item ::
  "('i \<Rightarrow> exn + fields option) \<Rightarrow> (fields \<Rightarrow> exn + fields) \<Rightarrow> 'i \<Rightarrow> exn + fields option" where
  "build_selected_item selector check item =
     (case selector item of
        Inl e \<Rightarrow> Inl e
      | Inr None \<Rightarrow> Inr None
      | Inr (Some selected) \<Rightarrow>
          (case check selected of
             Inl e \<Rightarrow> Inl (exn_from (OtherException ''ValueError'') e)
           | Inr fs \<Rightarrow> Inr (Some fs)))"

definition render_content :: "string \<Rightarrow> fields list \<Rightarrow> block list" where
  "render_content user_prompt items =
     text_content_block user_prompt #
       concat (map (\<lambda>(index, fs). concat (map (\<lambda>(field_name, v). render_openrouter_content index field_name v) fs))
                (enumerate 0 items))"

definition openrouter_payload_transform ::
  "('i \<Rightarrow> exn + fields option) \<Rightarrow> (fields \<Rightarrow> exn + fields) \<Rightarrow> string \<Rightarrow> 'i list \<Rightarrow> exn + openrouter_request" where
  "openrouter_payload_transform selector check user_prompt items =
     (case map_res (build_selected_item selector check) items of
        Inl e \<Rightarrow> Inl e
      | Inr picked \<Rightarrow>
          let selected = List.map_filter (\<lambda>x. x) picked in
          if length selected = 0 then Inl value_error
          else openrouter_request_init selected (render_content user_prompt selected))"

section \<open>The client\<close>

definition extract_textual_message_content :: "(string, json) dict \<Rightarrow> exn + string" where
  "extract_textual_message_content raw =
     (case dict_get raw ''choices'' of
        Some (JList choices) \<Rightarrow>
          (case choices of
             [] \<Rightarrow> Inl value_error
           | JDict first_choice # _ \<Rightarrow>
               (case dict_get first_choice ''message'' of
                  Some (JDict message) \<Rightarrow>
                    (case dict_get message ''content'' of Some (JStr t) \<Rightarrow> Inr t | _ \<Rightarrow> Inl value_error)
                | _ \<Rightarrow> Inl value_error)
           | _ \<Rightarrow> Inl value_error)
      | _ \<Rightarrow> Inl value_error)"

record openrouter_client =
  oc_url :: string
  oc_api_key :: string
  oc_model :: string
  oc_timeout_seconds :: json
  oc_temperature :: json

text \<open>\<open>exchange timeout url key payload\<close> posts the payload and decodes the reply; \<open>parse\<close> validates its text.\<close>

definition openrouter_query ::
  "(json \<Rightarrow> string \<Rightarrow> string \<Rightarrow> json \<Rightarrow> exn + json) \<Rightarrow> (string \<Rightarrow> exn + 'a) \<Rightarrow> openrouter_client \<Rightarrow> json list \<Rightarrow> exn + 'a" where
  "openrouter_query exchange parse client messages =
     (case exchange (oc_timeout_seconds client) (oc_url client) (oc_api_key client)
             (JDict [(''model'', JStr (oc_model client)), (''temperature'', oc_temperature client), (''messages'', JList messages)]) of
        Inl e \<Rightarrow> Inl e
      | Inr (JDict raw) \<Rightarrow>
          (case extract_textual_message_content raw of Inl e \<Rightarrow> Inl e | Inr t \<Rightarrow> parse (strip t))
      | Inr _ \<Rightarrow> Inl value_error)"

section \<open>Properties\<close>

lemma valid_blocks [simp]:
  "validate_message_content (text_content_block t) = Inr (text_content_block t)"
  "validate_message_content [(''type'', JStr ''image_url''), (''image_url'', JDict [(''url'', JStr url)])] =
     Inr [(''type'', JStr ''image_url''), (''image_url'', JDict [(''url'', JStr url)])]"
  "validate_message_content [(''type'', JStr ''file''), (''file'', JDict [(''filename'', JStr fn), (''file_data'', JStr fd)])] =
     Inr [(''type'', JStr ''file''), (''file'', JDict [(''filename'', JStr fn), (''file_data'', JStr fd)])]"
  "validate_message_content [(''type'', JStr ''input_audio''), (''input_audio'', JDict [(''data'', JStr d), (''format'', JStr f)])] =
     Inr [(''type'', JStr ''input_audio''), (''input_audio'', JDict [(''data'', JStr d), (''format'', JStr f)])]"
  "validate_message_content [(''type'', JStr ''video_url''), (''video_url'', JDict [(''url'', JStr url)])] =
     Inr [(''type'', JStr ''video_url''), (''video_url'', JDict [(''url'', JStr url)])]"
  by (simp_all add: validate_message_content_def text_content_block_def is_string_mapping_def is_json_string_def Let_def)

lemma valid_rendered_block:
  assumes "b \<in> set (render_openrouter_content index field_name v)"
  shows "validate_message_content b = Inr b"
proof (cases v)
  case (ScalarField x)
  with assms have "b = text_content_block (''item['' @ nat_text index @ ''].'' @ field_name @ '': '' @ rendered_value x)"
    by (simp add: render_openrouter_content_def)
  then show ?thesis by (simp only: valid_blocks)
next
  case (ImageUrlField url)
  with assms have "b = label_block index field_name \<or> b = [(''type'', JStr ''image_url''), (''image_url'', JDict [(''url'', JStr url)])]"
    by (simp add: render_openrouter_content_def)
  then show ?thesis unfolding label_block_def by (elim disjE) (simp_all only: valid_blocks)
next
  case (FileField fn fd)
  with assms have "b = label_block index field_name
      \<or> b = [(''type'', JStr ''file''), (''file'', JDict [(''filename'', JStr fn), (''file_data'', JStr fd)])]"
    by (simp add: render_openrouter_content_def)
  then show ?thesis unfolding label_block_def by (elim disjE) (simp_all only: valid_blocks)
next
  case (InputAudioField d f)
  with assms have "b = label_block index field_name
      \<or> b = [(''type'', JStr ''input_audio''), (''input_audio'', JDict [(''data'', JStr d), (''format'', JStr f)])]"
    by (simp add: render_openrouter_content_def)
  then show ?thesis unfolding label_block_def by (elim disjE) (simp_all only: valid_blocks)
next
  case (VideoUrlField url)
  with assms have "b = label_block index field_name \<or> b = [(''type'', JStr ''video_url''), (''video_url'', JDict [(''url'', JStr url)])]"
    by (simp add: render_openrouter_content_def)
  then show ?thesis unfolding label_block_def by (elim disjE) (simp_all only: valid_blocks)
qed

lemma valid_content:
  assumes "b \<in> set (render_content prompt items)"
  shows "validate_message_content b = Inr b"
proof (cases "b = text_content_block prompt")
  case False
  with assms obtain i fs nm v where "b \<in> set (render_openrouter_content i nm v)"
    unfolding render_content_def by auto
  then show ?thesis by (rule valid_rendered_block)
qed (simp only: valid_blocks)

text \<open>C33: a request made from selections is always well formed: whatever the selector picks, the creator raises a
  \<open>ValueError\<close> when nothing is picked and otherwise returns the selected items with a message that
  passes its own validation, the prompt first and then every field of every item in order.\<close>

theorem openrouter_requests_are_well_formed:
  assumes "map_res (build_selected_item selector check) items = Inr picked"
  defines "selected \<equiv> List.map_filter (\<lambda>x. x) picked"
  shows "if selected = [] then openrouter_payload_transform selector check prompt items = Inl value_error
         else \<exists>rq. openrouter_payload_transform selector check prompt items = Inr rq
            \<and> or_fields rq = selected
            \<and> hd (or_content rq) = text_content_block prompt
            \<and> tl (or_content rq) = concat (map (\<lambda>i. concat (map (\<lambda>(nm, v). render_openrouter_content i nm v) (selected ! i)))
                 [0..<length selected])
            \<and> (\<forall>b \<in> set (or_content rq). validate_message_content b = Inr b)"
proof (cases "selected = []")
  case True
  with assms show ?thesis by (simp add: openrouter_payload_transform_def)
next
  case False
  have "map_res validate_message_content content = Inr content" if "\<forall>b \<in> set content. validate_message_content b = Inr b" for content
    using that by (induction content) simp_all
  then have "openrouter_request_init selected (render_content prompt selected)
      = Inr \<lparr>or_fields = selected, or_content = render_content prompt selected\<rparr>"
    using valid_content by (simp add: openrouter_request_init_def)
  moreover have "enumerate 0 selected = map (\<lambda>i. (i, selected ! i)) [0..<length selected]"
    by (rule nth_equalityI) (simp_all add: nth_enumerate_eq)
  ultimately show ?thesis
    using False assms(1) valid_content
    by (simp add: openrouter_payload_transform_def selected_def [symmetric])
      (simp add: render_content_def comp_def)
qed

theorem openrouter_requests_are_well_formed_witness:
  "\<exists>rq. openrouter_payload_transform (\<lambda>n. Inr (if n = 0 then None else Some [(''k'', ScalarField (ScInt n))])) Inr ''p'' [0, 7] = Inr rq
     \<and> list_all (\<lambda>b. validate_message_content b = Inr b) (or_content rq)"
  using openrouter_requests_are_well_formed
    [of "\<lambda>n. Inr (if n = 0 then None else Some [(''k'', ScalarField (ScInt n))])" Inr "[0, 7]"
        "[None, Some [(''k'', ScalarField (ScInt 7))]]" "''p''"]
  by (auto simp: build_selected_item_def map_filter_simps list_all_iff)

text \<open>C31: a PUT creator and a later GET creator that loads the key under the first one's id presign the same object:
  the key written into the context is read back, through any later contexts that inherit the data.\<close>

theorem presigned_keys_round_trip:
  fixes w :: "('d, 'x) world_scheme"
  assumes "deepdiff_total dd" and "store_reach dd w" and "dict_get (contexts w) c = Some x" and "\<not> is_completed x"
    and "load_s3_key put = None" and "pu_method put = ''PUT''" and "load_s3_key get = Some (pu_id put)" and "pu_method get = ''GET''"
  shows "\<exists>w' w'' c'. presigned_url_transform dd (\<lambda>m b k e. Inr (sign m b k e)) text_of put c v w =
             (Inr (PDict [(''input'', v), (''presigned_url'', PStr (sign ''PUT'' (pu_bucket put) (PStr (text_of (uuids w))) (pu_expiration put)))]), w')
      \<and> presigned_url_transform dd (\<lambda>m b k e. Inr (sign m b k e)) text_of get c u w' =
             (Inr (PDict [(''input'', u), (''presigned_url'', PStr (sign ''GET'' (pu_bucket get) (PStr (text_of (uuids w))) (pu_expiration get)))]), w')
      \<and> create_context [c] w' = (Inr c', w'')
      \<and> fst (presigned_url_transform dd (\<lambda>m b k e. Inr (sign m b k e)) text_of get c' u w'') =
             Inr (PDict [(''input'', u), (''presigned_url'', PStr (sign ''GET'' (pu_bucket get) (PStr (text_of (uuids w))) (pu_expiration get)))])"
proof -
  let ?key = "PStr (text_of (uuids w))" and ?w = "w\<lparr>uuids := Suc (uuids w)\<rparr>"
  have dd: "deepdiff_ok dd" by (rule deepdiff_totalD [OF assms(1)])
  have "store_reach dd ?w" by (rule store_reach.env [OF assms(2)]) simp_all
  then have inv: "store_inv dd ?w" by (rule store_reach_inv [OF _ dd])
  have x: "dict_get (contexts ?w) c = Some x" using assms(3) by simp
  let ?x = "x\<lparr>user_data := dict_set (pu_id put) ?key (user_data x)\<rparr>"
  obtain w' where w': "set_user_data dd c (pu_id put) ?key ?w = (Inr (), w')" "store_inv dd w'"
    "contexts w' = dict_set c ?x (contexts ?w)"
    using set_user_data_run [OF assms(1) inv x assms(4), of "pu_id put" ?key] by metis
  have x': "dict_get (contexts w') c = Some ?x" by (simp add: w'(3))
  have fresh: "fresh_uuid w = (Inr (uuids w), ?w)" by (simp add: fresh_uuid_def)
  have 1: "presigned_url_transform dd (\<lambda>m b k e. Inr (sign m b k e)) text_of put c v w =
      (Inr (PDict [(''input'', v), (''presigned_url'', PStr (sign ''PUT'' (pu_bucket put) ?key (pu_expiration put)))]), w')"
    using assms(5,6) w'(1) by (simp add: presigned_url_transform_def fresh bind_act_def seq_act_def lift_act_def)
  have load: "presigned_url_transform dd (\<lambda>m b k e. Inr (sign m b k e)) text_of get k u s =
      (Inr (PDict [(''input'', u), (''presigned_url'', PStr (sign ''GET'' (pu_bucket get) ?key (pu_expiration get)))]), s)"
    if "dict_get (contexts s) k = Some y" "dict_get (user_data y) (pu_id put) = Some ?key" for k y and s :: "('d, 'x) world_scheme"
    using assms(7,8) that copy_user_data_run [OF that(1)]
    by (simp add: presigned_url_transform_def bind_act_def lift_act_def)
  have "\<forall>k \<in> set [c]. live w' k" using x' assms(4) by (simp add: live_def)
  from create_context_run [OF w'(2) this] obtain w'' where
    w'': "create_context [c] w' = (Inr (Uuid (uuids w')), w'')"
    "\<exists>y. dict_get (contexts w'') (Uuid (uuids w')) = Some y \<and> user_data y = user_data ?x"
    using x' by (auto simp: snapshots_of_def initial_data_def snapshot_of_def)
  from w''(2) obtain y where y: "dict_get (contexts w'') (Uuid (uuids w')) = Some y" "user_data y = user_data ?x" by blast
  have "dict_get (user_data y) (pu_id put) = Some ?key" by (simp add: y(2))
  with 1 load [OF x'] load [OF y(1)] w''(1) show ?thesis
    by (intro exI [of _ w'] exI [of _ w''] exI [of _ "Uuid (uuids w')"]) simp
qed

theorem presigned_keys_round_trip_witness:
  "\<exists>w'. presigned_url_transform plain_diff (\<lambda>m b k e. Inr (m @ ''-'' @ b)) nat_text
       \<lparr>pu_id = ''up'', pu_bucket = ''b'', pu_expiration = 900, load_s3_key = None, pu_method = ''PUT''\<rparr> (Uuid 0) PNone
       (snd (create_context [] (world_init int)) :: pyval world) =
     (Inr (PDict [(''input'', PNone), (''presigned_url'', PStr ''PUT-b'')]), w')"
proof -
  let ?w = "snd (create_context [] (world_init int)) :: pyval world"
  have "store_reach plain_diff (world_init int :: pyval world)" by (rule store_reach.start) (simp_all add: world_init_def)
  then have reach: "store_reach plain_diff ?w" by (rule store_reach.create) (rule prod.collapse [symmetric])
  have x: "dict_get (contexts ?w) (Uuid 0) = Some (blank_context (Uuid 0))"
    by (simp add: demo_eval lock_contexts_def blank_context_def)
  have live: "\<not> is_completed (blank_context (Uuid 0))" by (simp add: blank_context_def)
  let ?put = "\<lparr>pu_id = ''up'', pu_bucket = ''b'', pu_expiration = 900, load_s3_key = None, pu_method = ''PUT''\<rparr>"
  let ?get = "\<lparr>pu_id = ''down'', pu_bucket = ''b'', pu_expiration = 900, load_s3_key = Some ''up'', pu_method = ''GET''\<rparr>"
  from presigned_keys_round_trip [OF plain_diff_total reach x live, of ?put ?get "\<lambda>m b k e. m @ ''-'' @ b" nat_text PNone PNone]
  show ?thesis by auto
qed

end
