(* ===== verification/Pending.thy ===== *)
theory Pending
  imports StoreRuns
begin

text \<open>
  \<open>executor_communicator/pending_requests.py\<close>: the requests that wait for an answer from a neuron,
  keyed by request id. The interface \<open>PendingAsyncHttpRequestStore\<close> is the locale
  \<open>pending_requests\<close>; what the communicator relies on is proved from it once, as the account of how
  many requests of a context wait. The lock makes every call atomic, which is how a call is modelled.
\<close>

section \<open>The in-memory store\<close>

record pending_request =
  req_id :: nat
  req_ctx :: context_id
  expires_at :: int

type_synonym pending_store = "(nat, pending_request) dict"

definition pending_put :: "pending_request \<Rightarrow> pending_store \<Rightarrow> exn + pending_store" where
  "pending_put r d = (if dict_has d (req_id r) then Inl framework_exn else Inr (dict_set (req_id r) r d))"

definition pending_pop :: "nat \<Rightarrow> pending_store \<Rightarrow> pending_request option \<times> pending_store" where
  "pending_pop i d = (dict_get d i, dict_del i d)"

definition pending_pop_expired :: "int \<Rightarrow> pending_store \<Rightarrow> pending_request list \<times> pending_store" where
  "pending_pop_expired now d =
     (let expired = filter (\<lambda>r. expires_at r \<le> now) (map snd d) in
      (expired, fold (\<lambda>r. dict_del (req_id r)) expired d))"

section \<open>The interface\<close>

definition waiting_in :: "(nat \<Rightarrow> pending_request option) \<Rightarrow> context_id \<Rightarrow> nat" where
  "waiting_in v c = card {i. \<exists>r. v i = Some r \<and> req_ctx r = c}"

locale pending_requests =
  fixes ok :: "'s \<Rightarrow> bool"
    and view :: "'s \<Rightarrow> nat \<Rightarrow> pending_request option"
    and put :: "pending_request \<Rightarrow> 's \<Rightarrow> exn + 's"
    and pop :: "nat \<Rightarrow> 's \<Rightarrow> pending_request option \<times> 's"
    and pop_expired :: "int \<Rightarrow> 's \<Rightarrow> pending_request list \<times> 's"
  assumes put_law: "ok s \<Longrightarrow> (case put r s of
        Inl e \<Rightarrow> view s (req_id r) \<noteq> None
      | Inr s' \<Rightarrow> view s (req_id r) = None \<and> ok s' \<and> view s' = (view s)(req_id r \<mapsto> r))"
    and pop_law: "ok s \<Longrightarrow> pop i s = (x, s') \<Longrightarrow> x = view s i \<and> ok s' \<and> view s' = (view s)(i := None)"
    and expired_law: "ok s \<Longrightarrow> pop_expired now s = (rs, s') \<Longrightarrow>
        distinct rs \<and> ok s' \<and> (\<forall>r. r \<in> set rs \<longleftrightarrow> view s (req_id r) = Some r \<and> expires_at r \<le> now)
        \<and> (\<forall>i. view s' i = (case view s i of None \<Rightarrow> None | Some r \<Rightarrow> if expires_at r \<le> now then None else Some r))"
    and keyed: "ok s \<Longrightarrow> view s i = Some r \<Longrightarrow> req_id r = i"
    and bounded: "ok s \<Longrightarrow> finite (dom (view s))"
begin

lemma waiting_finite: "ok s \<Longrightarrow> finite {i. \<exists>r. view s i = Some r \<and> P r}"
  by (rule finite_subset [OF _ bounded]) auto

lemma put_waiting:
  assumes "ok s" "put r s = Inr s'"
  shows "waiting_in (view s') c = waiting_in (view s) c + (if req_ctx r = c then 1 else 0)"
proof -
  from put_law [OF assms(1), of r] assms(2) have new: "view s (req_id r) = None" "view s' = (view s)(req_id r \<mapsto> r)" by simp_all
  have "{i. \<exists>q. view s' i = Some q \<and> req_ctx q = c} =
      (if req_ctx r = c then insert (req_id r) {i. \<exists>q. view s i = Some q \<and> req_ctx q = c}
       else {i. \<exists>q. view s i = Some q \<and> req_ctx q = c})"
    using new by auto
  moreover have "req_id r \<notin> {i. \<exists>q. view s i = Some q \<and> req_ctx q = c}" using new(1) by simp
  ultimately show ?thesis using waiting_finite [OF assms(1), of "\<lambda>q. req_ctx q = c"] by (simp add: waiting_in_def)
qed

lemma pop_waiting:
  assumes "ok s" "pop i s = (x, s')"
  shows "waiting_in (view s) c = waiting_in (view s') c + (case x of None \<Rightarrow> 0 | Some r \<Rightarrow> if req_ctx r = c then 1 else 0)"
proof -
  from pop_law [OF assms] have x: "x = view s i" "view s' = (view s)(i := None)" by simp_all
  let ?W = "{i. \<exists>q. view s i = Some q \<and> req_ctx q = c}"
  have "{i. \<exists>q. view s' i = Some q \<and> req_ctx q = c} = ?W - {i}" using x(2) by auto
  moreover have "i \<in> ?W \<longleftrightarrow> (\<exists>r. x = Some r \<and> req_ctx r = c)" by (simp add: x(1))
  ultimately show ?thesis
    using card_Diff_singleton_if [of ?W i] card_gt_0_iff [of ?W] waiting_finite [OF assms(1), of "\<lambda>q. req_ctx q = c"]
    by (auto simp: waiting_in_def split: option.splits)
qed

lemma expired_waiting:
  assumes "ok s" "pop_expired now s = (rs, s')"
  shows "waiting_in (view s) c = waiting_in (view s') c + length (filter (\<lambda>r. req_ctx r = c) rs)"
proof -
  note law = expired_law [OF assms]
  let ?W = "\<lambda>v. {i. \<exists>q. v i = Some q \<and> req_ctx q = c}" and ?R = "filter (\<lambda>r. req_ctx r = c) rs"
  have left: "view s' i = Some q \<longleftrightarrow> view s i = Some q \<and> \<not> expires_at q \<le> now" for i q
    using law by (cases "view s i") auto
  have gone: "q \<in> set rs \<longleftrightarrow> view s (req_id q) = Some q \<and> expires_at q \<le> now" for q using law by blast
  have img: "i \<in> req_id ` set ?R \<longleftrightarrow> (\<exists>q. view s i = Some q \<and> req_ctx q = c \<and> expires_at q \<le> now)" for i
    unfolding image_iff using keyed [OF assms(1), of i] by (auto simp: gone)
  have split: "?W (view s) = ?W (view s') \<union> req_id ` set ?R" and disjoint: "?W (view s') \<inter> req_id ` set ?R = {}"
    unfolding set_eq_iff Un_iff Int_iff mem_Collect_eq img left by auto
  have "inj_on req_id (set ?R)"
  proof (rule inj_onI)
    fix q r assume "q \<in> set ?R" "r \<in> set ?R" "req_id q = req_id r"
    then show "q = r" using gone [of q] gone [of r] by simp
  qed
  then have "card (req_id ` set ?R) = card (set ?R)" by (rule card_image)
  moreover have "card (set ?R) = length ?R" using law by (intro distinct_card distinct_filter) simp
  moreover have "finite (?W (view s'))" using law by (intro waiting_finite) simp
  ultimately show ?thesis using disjoint unfolding waiting_in_def split by (simp add: card_Un_disjoint)
qed

lemma none_after_deadlines:
  assumes "ok s" "pop_expired now s = (rs, s')" "\<forall>i r. view s i = Some r \<longrightarrow> expires_at r \<le> now"
  shows "view s' = (\<lambda>_. None)"
  using expired_law [OF assms(1,2)] assms(3) by (auto simp: fun_eq_iff split: option.splits)

end

section \<open>The in-memory store implements it\<close>

definition pending_ok :: "pending_store \<Rightarrow> bool" where
  "pending_ok d \<longleftrightarrow> distinct (dict_keys d) \<and> (\<forall>(i, r) \<in> set d. req_id r = i)"

lemma get_fold_del: "dict_get (fold (\<lambda>r. dict_del (req_id r)) rs d) i = (if i \<in> req_id ` set rs then None else dict_get d i)"
  by (induction rs arbitrary: d) auto

lemma set_dict_del: "set (dict_del k d) \<subseteq> set d"
  by (induction d) auto

lemma pending_ok_del: "pending_ok d \<Longrightarrow> pending_ok (dict_del k d)"
  using set_dict_del unfolding pending_ok_def by (fast intro: dict_distinct_del)

lemma pending_ok_fold: "pending_ok d \<Longrightarrow> pending_ok (fold (\<lambda>r. dict_del (req_id r)) rs d)"
  by (induction rs arbitrary: d) (simp_all add: pending_ok_del)

lemma pending_ok_get: "pending_ok d \<Longrightarrow> dict_get d i = Some r \<longleftrightarrow> req_id r = i \<and> r \<in> snd ` set d"
  unfolding pending_ok_def by (force dest: map_of_SomeD)

lemma pending_distinct: "pending_ok d \<Longrightarrow> distinct (map snd d)"
proof -
  assume ok: "pending_ok d"
  then have "map req_id (map snd d) = dict_keys d" by (auto simp: pending_ok_def)
  with ok show ?thesis by (metis distinct_map pending_ok_def)
qed

interpretation pend: pending_requests pending_ok dict_get pending_put pending_pop pending_pop_expired
proof
  fix s r
  assume ok: "pending_ok s"
  have "pending_ok (dict_set (req_id r) r s)" if "\<not> dict_has s (req_id r)"
    using ok that by (auto simp: pending_ok_def dict_set_append dict_has_iff)
  then show "case pending_put r s of Inl e \<Rightarrow> dict_get s (req_id r) \<noteq> None
      | Inr s' \<Rightarrow> dict_get s (req_id r) = None \<and> pending_ok s' \<and> dict_get s' = (dict_get s)(req_id r \<mapsto> r)"
    by (auto simp: pending_put_def dict_has_def fun_eq_iff)
next
  fix s i x s'
  assume "pending_ok s" "pending_pop i s = (x, s')"
  then show "x = dict_get s i \<and> pending_ok s' \<and> dict_get s' = (dict_get s)(i := None)"
    by (auto simp: pending_pop_def pending_ok_del fun_eq_iff)
next
  fix s now rs s'
  assume ok: "pending_ok s" and run: "pending_pop_expired now s = (rs, s')"
  from run have rs: "rs = filter (\<lambda>r. expires_at r \<le> now) (map snd s)" "s' = fold (\<lambda>r. dict_del (req_id r)) rs s"
    by (auto simp: pending_pop_expired_def Let_def)
  have mem: "r \<in> set rs \<longleftrightarrow> dict_get s (req_id r) = Some r \<and> expires_at r \<le> now" for r
    using pending_ok_get [OF ok] by (auto simp: rs(1))
  have "i \<in> req_id ` set rs \<longleftrightarrow> (\<exists>r. dict_get s i = Some r \<and> expires_at r \<le> now)" for i
    using mem pending_ok_get [OF ok] by force
  then have "dict_get s' i = (case dict_get s i of None \<Rightarrow> None | Some r \<Rightarrow> if expires_at r \<le> now then None else Some r)" for i
    unfolding rs(2) get_fold_del by (auto split: option.splits)
  with mem show "distinct rs \<and> pending_ok s' \<and> (\<forall>r. r \<in> set rs \<longleftrightarrow> dict_get s (req_id r) = Some r \<and> expires_at r \<le> now)
      \<and> (\<forall>i. dict_get s' i = (case dict_get s i of None \<Rightarrow> None | Some r \<Rightarrow> if expires_at r \<le> now then None else Some r))"
    using pending_distinct [OF ok] pending_ok_fold [OF ok] by (auto simp: rs distinct_filter)
qed (simp_all add: pending_ok_get finite_dom_map_of)

end
