(* ===== verification/AsyncHttp.thy ===== *)
theory AsyncHttp
  imports Communicator Pending
begin

text \<open>
  \<open>AsyncHttpNeuronCommunicator\<close>: the actor of \<open>async_http_neuron_communicator.py\<close> and the three
  threads it starts, \<open>sender_loop_runtime.py\<close>, \<open>callback_http_server_runtime.py\<close> and
  \<open>timeout_sweep_runtime.py\<close>. One turn of each thread is one operation on the shared world; the
  network, the validation of payloads and URLs (pydantic) and the outcome of handing an item to the
  sender's event loop are arguments. Request ids come from the supply of uuids.
\<close>

section \<open>State\<close>

record pending_send =
  ps_request_id :: nat
  ps_ctx :: context_id
  ps_target_url :: string
  ps_target :: neuron
  ps_payload :: pyval

datatype queue_item = SendItem pending_send | StopSenderLoopSignal

text \<open>Which of the three background runtimes the actor holds.\<close>

record 'd http_world = "'d bus_world" +
  requests :: pending_store
  send_queue :: "queue_item list"
  sender_up :: bool
  server_up :: bool
  sweep_up :: bool

record http_config =
  cfg_comm :: communicator
  target_path :: string
  send_timeout :: int
  total_processing_timeout :: int
  max_in_flight :: int
  callback_port :: int
  response_path :: string
  callback_base_url :: string

text \<open>\<open>urlparse\<close>: the fragment follows the first \<open>#\<close>, the query the first \<open>?\<close> before it.\<close>

definition url_fragment :: "string \<Rightarrow> string" where
  "url_fragment u = drop 1 (dropWhile (\<lambda>c. c \<noteq> CHR ''#'') u)"

definition url_query :: "string \<Rightarrow> string" where
  "url_query u = drop 1 (dropWhile (\<lambda>c. c \<noteq> CHR ''?'') (takeWhile (\<lambda>c. c \<noteq> CHR ''#'') u))"

definition http_communicator_init ::
  "(string \<Rightarrow> exn + string) \<Rightarrow> string \<Rightarrow> string \<Rightarrow> int \<Rightarrow> int \<Rightarrow> int \<Rightarrow> int \<Rightarrow> string \<Rightarrow> string \<Rightarrow> exn + http_config" where
  "http_communicator_init check_url i path send deadline in_flight port cb_path base_url =
     (case validate_positive_timeout send of Inl e \<Rightarrow> Inl e | Inr _ \<Rightarrow>
      case validate_positive_timeout deadline of Inl e \<Rightarrow> Inl e | Inr _ \<Rightarrow>
      if in_flight \<le> 0 then Inl (exn_of ActorMisconfiguredException)
      else if \<not> (0 \<le> port \<and> port \<le> 65535) then Inl (exn_of ActorMisconfiguredException)
      else
        case check_url base_url of Inl e \<Rightarrow> Inl e | Inr base \<Rightarrow>
        if url_query base \<noteq> [] \<or> url_fragment base \<noteq> [] then Inl (exn_of ActorMisconfiguredException)
        else
          case normalize_http_path path of Inl e \<Rightarrow> Inl e | Inr tp \<Rightarrow>
          case normalize_http_path cb_path of Inl e \<Rightarrow> Inl e | Inr rp \<Rightarrow>
            Inr \<lparr>cfg_comm = mk_communicator i, target_path = tp, send_timeout = send, total_processing_timeout = deadline,
                 max_in_flight = in_flight, callback_port = port, response_path = rp, callback_base_url = base\<rparr>)"

definition resolve_neuron_target_url :: "(string \<Rightarrow> exn + string) \<Rightarrow> http_config \<Rightarrow> neuron \<Rightarrow> exn + string" where
  "resolve_neuron_target_url check_url cfg target =
     (if axon_proto target \<noteq> AxonHttp then Inl (exn_of (UnsupportedAxonProtocolException AxonHttp (axon_proto target)))
      else if axon_port target \<le> 0 \<or> axon_port target > 65535 then Inl (exn_of NeuronAddressInvalidException)
      else
        case format_host_for_url (axon_ip target) of
          Inl e \<Rightarrow> Inl e
        | Inr host \<Rightarrow> check_url (''http://'' @ host @ '':'' @ int_text (axon_port target) @ target_path cfg))"

section \<open>The pending store, shared by the threads\<close>

definition put_request :: "pending_request \<Rightarrow> (exn, unit, ('d, 'x) http_world_scheme) act" where
  "put_request r w = (case pending_put r (requests w) of Inl e \<Rightarrow> (Inl e, w) | Inr d \<Rightarrow> (Inr (), w\<lparr>requests := d\<rparr>))"

definition pop_request :: "nat \<Rightarrow> (exn, pending_request option, ('d, 'x) http_world_scheme) act" where
  "pop_request i w = (case pending_pop i (requests w) of (r, d) \<Rightarrow> (Inr r, w\<lparr>requests := d\<rparr>))"

definition pop_expired_requests :: "int \<Rightarrow> (exn, pending_request list, ('d, 'x) http_world_scheme) act" where
  "pop_expired_requests now w = (case pending_pop_expired now (requests w) of (rs, d) \<Rightarrow> (Inr rs, w\<lparr>requests := d\<rparr>))"

definition fail_pending_request :: "communicator \<Rightarrow> nat \<Rightarrow> exn \<Rightarrow> (exn, unit, ('d, 'x) http_world_scheme) act" where
  "fail_pending_request s i e =
     bind_act (pop_request i) (\<lambda>p.
       case p of None \<Rightarrow> ret () | Some r \<Rightarrow> emit_executor_error s (req_ctx r) e)"

section \<open>Sender\<close>

text \<open>What becomes of handing an item to the sender's loop: it is queued; the loop is closed; the wait
  times out, before or after the loop queued it; or the wait raises.\<close>

datatype enqueue_outcome = Enqueued | LoopClosed | EnqueueTimeout bool | EnqueueRaised exn

definition queue_put :: "queue_item \<Rightarrow> (exn, unit, ('d, 'x) http_world_scheme) act" where
  "queue_put item = modify_act (\<lambda>w. w\<lparr>send_queue := send_queue w @ [item]\<rparr>)"

definition enqueue_send_request ::
  "enqueue_outcome \<Rightarrow> communicator \<Rightarrow> pending_send \<Rightarrow> (exn, unit, ('d, 'x) http_world_scheme) act" where
  "enqueue_send_request outcome s ps =
     (case outcome of
        Enqueued \<Rightarrow> queue_put (SendItem ps)
      | LoopClosed \<Rightarrow> fail_pending_request s (ps_request_id ps) framework_exn
      | EnqueueTimeout late \<Rightarrow>
          seq_act (if late then queue_put (SendItem ps) else ret ())
            (fail_pending_request s (ps_request_id ps) (exn_of RemoteRequestFailedException))
      | EnqueueRaised _ \<Rightarrow> fail_pending_request s (ps_request_id ps) framework_exn)"

definition dispatch ::
  "enqueue_outcome \<Rightarrow> http_config \<Rightarrow> context_id \<Rightarrow> string \<Rightarrow> neuron \<Rightarrow> pyval \<Rightarrow> (exn, unit, ('d, 'x) http_world_scheme) act" where
  "dispatch outcome cfg c url target v =
     bind_act fresh_uuid (\<lambda>i.
     bind_act read_now (\<lambda>now.
     seq_act (put_request \<lparr>req_id = i, req_ctx = c, expires_at = now + total_processing_timeout cfg\<rparr>)
       (enqueue_send_request outcome (cfg_comm cfg)
          \<lparr>ps_request_id = i, ps_ctx = c, ps_target_url = url, ps_target = target, ps_payload = v\<rparr>)))"

record request_envelope =
  env_request_id :: nat
  env_callback_url :: string
  env_input :: pyval

datatype http_result = HttpStatus int | HttpMtlsError exn | HttpTimeout exn | HttpRequestError exn | HttpOther exn

text \<open>The network: what is sent to which neuron, and the result.\<close>

record sender_env =
  validate_url :: "string \<Rightarrow> exn + string"
  dump_input :: "pyval \<Rightarrow> exn + pyval"
  post :: "neuron \<Rightarrow> string \<Rightarrow> request_envelope \<Rightarrow> http_result"

definition callback_url :: "sender_env \<Rightarrow> http_config \<Rightarrow> exn + string" where
  "callback_url env cfg =
     validate_url env (rev (dropWhile (\<lambda>c. c = CHR ''/'') (rev (callback_base_url cfg))) @ response_path cfg)"

definition send_request :: "sender_env \<Rightarrow> http_config \<Rightarrow> pending_send \<Rightarrow> exn + unit" where
  "send_request env cfg ps =
     (case callback_url env cfg of
        Inl e \<Rightarrow> Inl e
      | Inr url \<Rightarrow>
          (case dump_input env (ps_payload ps) of
             Inl e \<Rightarrow> Inl e
           | Inr body \<Rightarrow>
               (case post env (ps_target ps) (ps_target_url ps)
                       \<lparr>env_request_id = ps_request_id ps, env_callback_url = url, env_input = body\<rparr> of
                  HttpStatus n \<Rightarrow> if n < 200 \<or> n \<ge> 300 then Inl (exn_of RemoteRequestRejectedException) else Inr ()
                | HttpMtlsError e \<Rightarrow> Inl (exn_from MinerMtlsVerificationException e)
                | HttpTimeout e \<Rightarrow> Inl (exn_from RemoteRequestFailedException e)
                | HttpRequestError e \<Rightarrow> Inl (exn_from RemoteRequestFailedException e)
                | HttpOther e \<Rightarrow> Inl e)))"

text \<open>One item of a sender worker; \<open>None\<close> when the queue is empty, \<open>Inr False\<close> when the worker ends.\<close>

definition sender_worker_turn ::
  "sender_env \<Rightarrow> http_config \<Rightarrow> ('d, 'x) http_world_scheme \<Rightarrow> ((exn + bool) \<times> ('d, 'x) http_world_scheme) option" where
  "sender_worker_turn env cfg w =
     (case send_queue w of
        [] \<Rightarrow> None
      | StopSenderLoopSignal # q \<Rightarrow> Some (Inr False, w\<lparr>send_queue := q\<rparr>)
      | SendItem ps # q \<Rightarrow>
          Some (seq_act
            (case send_request env cfg ps of
               Inr _ \<Rightarrow> ret ()
             | Inl e \<Rightarrow>
                 fail_pending_request (cfg_comm cfg) (ps_request_id ps)
                   (if is_async_http_class (exn_class e) then e else exn_of RemoteRequestFailedException))
            (ret True) (w\<lparr>send_queue := q\<rparr>)))"

text \<open>One stop signal per worker; \<open>put\<close> of them are queued before the wait for the queue times out.\<close>

definition enqueue_stop_signals :: "nat \<Rightarrow> http_config \<Rightarrow> (exn, unit, ('d, 'x) http_world_scheme) act" where
  "enqueue_stop_signals put cfg =
     modify_act (\<lambda>w. w\<lparr>send_queue := send_queue w @ replicate (min put (nat (max_in_flight cfg))) StopSenderLoopSignal\<rparr>)"

section \<open>Callback server\<close>

record response_envelope =
  renv_request_id :: nat
  renv_output :: "pyval option"
  renv_error :: "string option"

text \<open>\<open>parse\<close> decodes a body, \<open>validate\<close> checks an output against the output model; the status is the result.\<close>

definition process_callback ::
  "('b \<Rightarrow> exn + response_envelope) \<Rightarrow> (pyval \<Rightarrow> pyval validated) \<Rightarrow> http_config \<Rightarrow> 'b \<Rightarrow> (exn, int, ('d, 'x) http_world_scheme) act" where
  "process_callback parse validate cfg body =
     (case parse body of
        Inl _ \<Rightarrow> ret 400
      | Inr envelope \<Rightarrow>
          bind_act (pop_request (renv_request_id envelope)) (\<lambda>p.
            case p of
              None \<Rightarrow> ret 404
            | Some r \<Rightarrow>
                if renv_error envelope \<noteq> None
                then seq_act (emit_executor_error (cfg_comm cfg) (req_ctx r) (exn_of RemoteExecutionException)) (ret 202)
                else
                  (case renv_output envelope of
                     None \<Rightarrow>
                       seq_act (emit_executor_error (cfg_comm cfg) (req_ctx r) (exn_of ResponseInvalidException)) (ret 202)
                   | Some out \<Rightarrow>
                       (case validate out of
                          NotValid _ \<Rightarrow>
                            seq_act (emit_executor_error (cfg_comm cfg) (req_ctx r) (exn_of ResponseValidationException)) (ret 400)
                        | Broken e \<Rightarrow> raise e
                        | Valid v \<Rightarrow> seq_act (emit_processed (cfg_comm cfg) (req_ctx r) v) (ret 202)))))"

text \<open>The endpoint: \<open>body\<close> is \<open>None\<close> when reading the request fails.\<close>

definition callback_endpoint ::
  "('b \<Rightarrow> exn + response_envelope) \<Rightarrow> (pyval \<Rightarrow> pyval validated) \<Rightarrow> http_config \<Rightarrow> 'b option \<Rightarrow>
     (exn, int, ('d, 'x) http_world_scheme) act" where
  "callback_endpoint parse validate cfg body =
     (case body of
        None \<Rightarrow> ret 400
      | Some b \<Rightarrow> try_act (process_callback parse validate cfg b) (\<lambda>_. ret 500))"

section \<open>Timeout sweep\<close>

definition timeout_sweep_turn :: "http_config \<Rightarrow> (exn, unit, ('d, 'x) http_world_scheme) act" where
  "timeout_sweep_turn cfg =
     bind_act read_now (\<lambda>now.
     bind_act (pop_expired_requests now) (\<lambda>expired.
     seq_act (map_act (\<lambda>r. emit_executor_error (cfg_comm cfg) (req_ctx r) (exn_of RemoteResponseTimeoutException)) expired)
       (ret ())))"

section \<open>The actor\<close>

definition http_handle_input ::
  "(string \<Rightarrow> exn + string) \<Rightarrow> enqueue_outcome \<Rightarrow> http_config \<Rightarrow> context_id \<Rightarrow> pyval \<Rightarrow>
     (exn, send_event list, ('d, 'x) http_world_scheme) act" where
  "http_handle_input check_url outcome cfg c v =
     bind_act (gets_act sender_up) (\<lambda>up.
       if \<not> up then seq_act (emit_internal_error (cfg_comm cfg) c framework_exn) (ret [])
       else
         seq_act
           (try_act
              (case v of
                 PRouted r \<Rightarrow>
                   bind_act (lift_act (resolve_neuron_target_url check_url cfg (routed_target r))) (\<lambda>url.
                     dispatch outcome cfg c url (routed_target r) (routed_input r))
               | _ \<Rightarrow> raise attribute_error)
              (\<lambda>e. emit_internal_error (cfg_comm cfg) c (if is_nexus e then e else exn_of RemoteRequestFailedException)))
           (ret []))"

text \<open>\<open>_ensure_background_threads_started\<close> and \<open>on_start\<close>: each runtime starts or raises.\<close>

definition start_sender :: "exn + unit \<Rightarrow> (exn, unit, ('d, 'x) http_world_scheme) act" where
  "start_sender outcome = seq_act (lift_act outcome) (modify_act (\<lambda>w. w\<lparr>sender_up := True\<rparr>))"

definition start_server :: "exn + unit \<Rightarrow> (exn, unit, ('d, 'x) http_world_scheme) act" where
  "start_server outcome = seq_act (lift_act outcome) (modify_act (\<lambda>w. w\<lparr>server_up := True\<rparr>))"

definition start_sweep :: "exn + unit \<Rightarrow> (exn, unit, ('d, 'x) http_world_scheme) act" where
  "start_sweep outcome = seq_act (lift_act outcome) (modify_act (\<lambda>w. w\<lparr>sweep_up := True\<rparr>))"

definition ensure_background_threads_started ::
  "exn + unit \<Rightarrow> exn + unit \<Rightarrow> exn + unit \<Rightarrow> (exn, unit, ('d, 'x) http_world_scheme) act" where
  "ensure_background_threads_started sender server sweep =
     bind_act (gets_act (\<lambda>w. sender_up w \<or> server_up w \<or> sweep_up w)) (\<lambda>running.
       if running then raise framework_exn
       else seq_act (start_sender sender) (seq_act (start_server server) (start_sweep sweep)))"

definition stop_background_threads :: "nat \<Rightarrow> http_config \<Rightarrow> (exn, unit, ('d, 'x) http_world_scheme) act" where
  "stop_background_threads put cfg =
     bind_act (gets_act sender_up) (\<lambda>up.
     seq_act (modify_act (\<lambda>w. w\<lparr>sender_up := False, server_up := False, sweep_up := False\<rparr>))
       (if up then enqueue_stop_signals put cfg else ret ()))"

definition on_start ::
  "nat \<Rightarrow> http_config \<Rightarrow> exn + unit \<Rightarrow> exn + unit \<Rightarrow> exn + unit \<Rightarrow> (exn, unit, ('d, 'x) http_world_scheme) act" where
  "on_start put cfg sender server sweep =
     try_act (ensure_background_threads_started sender server sweep)
       (\<lambda>e. seq_act (stop_background_threads put cfg) (raise e))"

end
