(* ===== verification/AsyncHttpSafety.thy ===== *)
theory AsyncHttpSafety
  imports AsyncHttp
begin

text \<open>
  What the asynchronous communicator promises under every interleaving of the actor, the sender
  workers, the callback server and the timeout sweep: each routed input handed to it is answered
  exactly once. The account is kept per context: answers emitted plus requests that still wait.
\<close>

section \<open>The account\<close>

definition waits :: "('d, 'x) http_world_scheme \<Rightarrow> context_id \<Rightarrow> nat" where
  "waits w c = waiting_in (dict_get (requests w)) c"

definition answers :: "context_id \<Rightarrow> send_event list \<Rightarrow> nat" where
  "answers c evs = length (filter (\<lambda>ev. case ev of SendEvent k _ _ \<Rightarrow> k = c | StopBusEvent \<Rightarrow> False) evs)"

lemma answers_simps [simp]:
  "answers c [] = 0" "answers c (xs @ ys) = answers c xs + answers c ys"
  "answers c [SendEvent k s v] = (if k = c then 1 else 0)"
  "answers c (SendEvent k s v # xs) = (if k = c then 1 else 0) + answers c xs"
  by (simp_all add: answers_def)

definition http_inv :: "'d deepdiff \<Rightarrow> http_config \<Rightarrow> ('d, 'x) http_world_scheme \<Rightarrow> bool" where
  "http_inv dd cfg w \<longleftrightarrow> store_inv dd w \<and> pending_ok (requests w) \<and>
     (\<forall>i r. dict_get (requests w) i = Some r \<longrightarrow> i < uuids w \<and> (\<exists>v. saved_input (cfg_comm cfg) w (req_ctx r) v))"

text \<open>\<open>m\<close> returns, keeps the invariant, and changes the account of each context by \<open>d\<close>.\<close>

definition accounts ::
  "'d deepdiff \<Rightarrow> http_config \<Rightarrow> (context_id \<Rightarrow> nat) \<Rightarrow> (exn, 'a, ('d, 'x) http_world_scheme) act \<Rightarrow>
     ('d, 'x) http_world_scheme \<Rightarrow> bool" where
  "accounts dd cfg d m w \<longleftrightarrow>
     (\<exists>a w' es. m w = (Inr a, w') \<and> bus_in w' = bus_in w @ es \<and> http_inv dd cfg w'
        \<and> (\<forall>c. answers c es + waits w' c = waits w c + d c))"

lemma accounts_run:
  "accounts dd cfg d m w \<Longrightarrow> m w = (r, w') \<Longrightarrow> bus_in w' = bus_in w @ es \<Longrightarrow>
     (\<exists>a. r = Inr a) \<and> http_inv dd cfg w' \<and> (\<forall>c. answers c es + waits w' c = waits w c + d c)"
  by (auto simp: accounts_def)

lemma accounts_bind:
  "accounts dd cfg d m w \<Longrightarrow> (\<And>a w1. m w = (Inr a, w1) \<Longrightarrow> http_inv dd cfg w1 \<Longrightarrow> accounts dd cfg e (f a) w1) \<Longrightarrow>
     accounts dd cfg (\<lambda>c. d c + e c) (bind_act m f) w"
proof -
  assume "accounts dd cfg d m w" and next_ok: "\<And>a w1. m w = (Inr a, w1) \<Longrightarrow> http_inv dd cfg w1 \<Longrightarrow> accounts dd cfg e (f a) w1"
  then obtain a w1 es where m: "m w = (Inr a, w1)" "bus_in w1 = bus_in w @ es" "http_inv dd cfg w1"
    "\<forall>c. answers c es + waits w1 c = waits w c + d c" unfolding accounts_def by blast
  from next_ok [OF m(1,3)] obtain b w2 fs where f: "f a w1 = (Inr b, w2)" "bus_in w2 = bus_in w1 @ fs" "http_inv dd cfg w2"
    "\<forall>c. answers c fs + waits w2 c = waits w1 c + e c" unfolding accounts_def by blast
  have "\<forall>c. answers c (es @ fs) + waits w2 c = waits w c + (d c + e c)"
  proof
    fix c
    show "answers c (es @ fs) + waits w2 c = waits w c + (d c + e c)"
      using m(4) [rule_format, of c] f(4) [rule_format, of c] by simp
  qed
  with m f show ?thesis unfolding accounts_def bind_act_apply [of m w, OF m(1)] by auto
qed

lemma accounts_ret: "http_inv dd cfg w \<Longrightarrow> accounts dd cfg (\<lambda>_. 0) (ret x) w"
  by (simp add: accounts_def)

lemma accounts_seq_ret: "accounts dd cfg d m w \<Longrightarrow> accounts dd cfg d (seq_act m (ret x)) w"
  by (fastforce simp: accounts_def seq_act_def bind_act_def)

lemma accounts_try: "accounts dd cfg d m w \<Longrightarrow> accounts dd cfg d (try_act m h) w"
  by (auto simp: accounts_def try_act_def)

text \<open>What the invariant and the account read.\<close>

lemma http_inv_env:
  assumes "http_inv dd cfg w" "store_inv dd w'" "requests w' = requests w" "uuids w \<le> uuids w'"
    "\<forall>c v. saved_input (cfg_comm cfg) w c v \<longrightarrow> (\<exists>v'. saved_input (cfg_comm cfg) w' c v')"
  shows "http_inv dd cfg w'"
  using assms unfolding http_inv_def by (metis order_less_le_trans)

lemma saved_input_cong:
  "contexts w' = contexts w \<Longrightarrow> locks w' = locks w \<Longrightarrow> saved_input s w' c v = saved_input s w c v"
  by (simp add: saved_input_def)

lemma http_inv_cong:
  assumes "http_inv dd cfg w" "persistence w' = persistence w" "contexts w' = contexts w" "locks w' = locks w"
    "uuids w \<le> uuids w'" "requests w' = requests w"
  shows "http_inv dd cfg w'"
proof (rule http_inv_env [OF assms(1)])
  have "store_inv dd w" using assms(1) by (simp add: http_inv_def)
  then show "store_inv dd w'" by (rule store_inv_env) (fact assms)+
  have "saved_input (cfg_comm cfg) w' c v = saved_input (cfg_comm cfg) w c v" for c v
    by (rule saved_input_cong) (fact assms)+
  then show "\<forall>c v. saved_input (cfg_comm cfg) w c v \<longrightarrow> (\<exists>v'. saved_input (cfg_comm cfg) w' c v')" by blast
qed (fact assms)+

section \<open>The operations of the store of requests\<close>

lemma http_inv_drop:
  assumes inv: "http_inv dd cfg w" and "pending_ok d" "\<forall>i r. dict_get d i = Some r \<longrightarrow> dict_get (requests w) i = Some r"
  shows "http_inv dd cfg (w\<lparr>requests := d\<rparr>)"
proof -
  have "store_inv dd w" using inv by (simp add: http_inv_def)
  then have "store_inv dd (w\<lparr>requests := d\<rparr>)" by (rule store_inv_env) simp_all
  moreover have "saved_input s (w\<lparr>requests := d\<rparr>) c v = saved_input s w c v" for s c v by (rule saved_input_cong) simp_all
  ultimately show ?thesis using assms by (simp add: http_inv_def) metis
qed

lemma emit_executor_error_run:
  assumes "saved_input s w c r"
  shows "emit_executor_error s c e w = (Inr (), w\<lparr>bus_in := bus_in w @
      [SendEvent c (tr_ok (comm_transform s)) (PProcessed (ProcessedInput r (PExn (executor_failure e))))]\<rparr>)"
  by (simp add: emit_executor_error_def bind_act_def executor_error_event_saved [OF assms] put_bus_def modify_act_def)

lemma emit_processed_run:
  assumes "saved_input s w c r"
  shows "emit_processed s c v w = (Inr (), w\<lparr>bus_in := bus_in w @
      [SendEvent c (tr_ok (comm_transform s)) (PProcessed (ProcessedInput r v))]\<rparr>)"
  by (simp add: emit_processed_def bind_act_def processed_event_saved [OF assms] put_bus_def modify_act_def)

text \<open>A request taken out of the store is known, its context's input is saved, and it waited.\<close>

lemma pop_request_some:
  assumes inv: "http_inv dd cfg w" and req: "dict_get (requests w) i = Some r"
  shows "pop_request i w = (Inr (Some r), w\<lparr>requests := dict_del i (requests w)\<rparr>)"
    and "http_inv dd cfg (w\<lparr>requests := dict_del i (requests w)\<rparr>)"
    and "\<exists>v. saved_input (cfg_comm cfg) (w\<lparr>requests := dict_del i (requests w)\<rparr>) (req_ctx r) v"
    and "waits w c = waits (w\<lparr>requests := dict_del i (requests w)\<rparr>) c + (if req_ctx r = c then 1 else 0)"
proof -
  have ok: "pending_ok (requests w)" using inv by (simp add: http_inv_def)
  show "pop_request i w = (Inr (Some r), w\<lparr>requests := dict_del i (requests w)\<rparr>)"
    using req by (simp add: pop_request_def pending_pop_def)
  show "http_inv dd cfg (w\<lparr>requests := dict_del i (requests w)\<rparr>)"
    using pending_ok_del [OF ok] by (intro http_inv_drop [OF inv]) (auto split: if_splits)
  have "saved_input s (w\<lparr>requests := dict_del i (requests w)\<rparr>) c v = saved_input s w c v" for s c v
    by (rule saved_input_cong) simp_all
  with inv req show "\<exists>v. saved_input (cfg_comm cfg) (w\<lparr>requests := dict_del i (requests w)\<rparr>) (req_ctx r) v"
    by (auto simp: http_inv_def)
  show "waits w c = waits (w\<lparr>requests := dict_del i (requests w)\<rparr>) c + (if req_ctx r = c then 1 else 0)"
    using pend.pop_waiting [OF ok, of i "Some r" "dict_del i (requests w)" c] req by (simp add: pending_pop_def waits_def)
qed

lemma pop_request_none:
  assumes "http_inv dd cfg w" "dict_get (requests w) i = None"
  shows "pop_request i w = (Inr None, w)"
proof -
  have "dict_del i (requests w) = requests w"
    using assms(2) by (simp add: AList.delete_idem map_of_eq_None_iff)
  then show ?thesis using assms(2) by (simp add: pop_request_def pending_pop_def)
qed

text \<open>Answering a request right after it was taken out leaves the account unchanged.\<close>

lemma answer_popped:
  assumes inv: "http_inv dd cfg w" and req: "dict_get (requests w) i = Some r"
    and answer: "\<And>w1 v. saved_input (cfg_comm cfg) w1 (req_ctx r) v \<Longrightarrow>
        \<exists>a src p. m (Some r) w1 = (Inr a, w1\<lparr>bus_in := bus_in w1 @ [SendEvent (req_ctx r) src p]\<rparr>)"
  shows "accounts dd cfg (\<lambda>_. 0) (bind_act (pop_request i) m) w"
proof -
  note pop = pop_request_some [OF inv req]
  let ?w = "w\<lparr>requests := dict_del i (requests w)\<rparr>"
  from pop(3) answer obtain a src p where
    run: "m (Some r) ?w = (Inr a, ?w\<lparr>bus_in := bus_in ?w @ [SendEvent (req_ctx r) src p]\<rparr>)" by blast
  have "http_inv dd cfg (?w\<lparr>bus_in := bus_in ?w @ [SendEvent (req_ctx r) src p]\<rparr>)"
    by (rule http_inv_cong [OF pop(2)]) simp_all
  moreover have "waits (?w\<lparr>bus_in := es\<rparr>) c = waits ?w c" for es c by (simp add: waits_def)
  ultimately show ?thesis
    using pop(4) unfolding accounts_def bind_act_apply [of "pop_request i" w, OF pop(1)] run
    by (intro exI [of _ a] exI [of _ "?w\<lparr>bus_in := bus_in ?w @ [SendEvent (req_ctx r) src p]\<rparr>"]
        exI [of _ "[SendEvent (req_ctx r) src p]"]) simp
qed

section \<open>Every thread keeps the account\<close>

lemma fail_pending_accounts:
  assumes "http_inv dd cfg w"
  shows "accounts dd cfg (\<lambda>_. 0) (fail_pending_request (cfg_comm cfg) i e) w"
proof (cases "dict_get (requests w) i")
  case None
  then show ?thesis
    using assms by (simp add: fail_pending_request_def bind_act_def pop_request_none accounts_def)
next
  case (Some r)
  show ?thesis unfolding fail_pending_request_def
    by (rule answer_popped [OF assms Some]) (auto simp: emit_executor_error_run)
qed

lemma endpoint_accounts:
  assumes "http_inv dd cfg w" and "\<forall>x e. validate x \<noteq> Broken e"
  shows "accounts dd cfg (\<lambda>_. 0) (callback_endpoint parse validate cfg body) w"
proof (cases body)
  case (Some b)
  have "accounts dd cfg (\<lambda>_. 0) (process_callback parse validate cfg b) w"
  proof (cases "parse b")
    case (Inr envelope)
    show ?thesis
    proof (cases "dict_get (requests w) (renv_request_id envelope)")
      case None
      with Inr assms(1) show ?thesis by (simp add: process_callback_def bind_act_def pop_request_none accounts_def)
    next
      case req: (Some r)
      show ?thesis unfolding process_callback_def Inr sum.case
        using assms(2) by (intro answer_popped [OF assms(1) req])
          (auto simp: emit_executor_error_run emit_processed_run seq_act_def bind_act_def split: option.split validated.split)
    qed
  qed (simp add: process_callback_def accounts_ret assms)
  then show ?thesis by (simp add: callback_endpoint_def Some accounts_try)
qed (simp add: callback_endpoint_def accounts_ret assms)

lemma worker_accounts:
  assumes "http_inv dd cfg w" "sender_worker_turn env cfg w = Some (res, w')"
  shows "\<exists>m w0. m w0 = (res, w') \<and> bus_in w0 = bus_in w \<and> requests w0 = requests w \<and> accounts dd cfg (\<lambda>_. 0) m w0"
proof -
  have inv: "http_inv dd cfg (w\<lparr>send_queue := q\<rparr>)" for q by (rule http_inv_cong [OF assms(1)]) simp_all
  from assms(2) obtain item q where q: "send_queue w = item # q" by (auto simp: sender_worker_turn_def split: list.splits)
  show ?thesis
  proof (cases item)
    case (SendItem ps)
    let ?m = "case send_request env cfg ps of Inr _ \<Rightarrow> ret ()
       | Inl e \<Rightarrow> fail_pending_request (cfg_comm cfg) (ps_request_id ps)
           (if is_async_http_class (exn_class e) then e else exn_of RemoteRequestFailedException)"
    have "accounts dd cfg (\<lambda>_. 0) ?m (w\<lparr>send_queue := q\<rparr>)"
      by (cases "send_request env cfg ps") (simp_all add: inv accounts_ret fail_pending_accounts)
    then have "accounts dd cfg (\<lambda>_. 0) (seq_act ?m (ret True)) (w\<lparr>send_queue := q\<rparr>)" by (rule accounts_seq_ret)
    moreover have "seq_act ?m (ret True) (w\<lparr>send_queue := q\<rparr>) = (res, w')"
      using assms(2) by (simp add: sender_worker_turn_def q SendItem)
    ultimately show ?thesis by (intro exI [of _ "seq_act ?m (ret True)"] exI [of _ "w\<lparr>send_queue := q\<rparr>"]) simp
  next
    case StopSenderLoopSignal
    with assms(2) have "ret False (w\<lparr>send_queue := q\<rparr>) = (res, w')" by (simp add: sender_worker_turn_def q)
    then show ?thesis using accounts_ret [OF inv [of q], of False]
      by (intro exI [of _ "ret False"] exI [of _ "w\<lparr>send_queue := q\<rparr>"]) auto
  qed
qed

text \<open>The sweep: one answer for each expired request.\<close>

definition answer_for :: "communicator \<Rightarrow> ('d, 'x) world_scheme \<Rightarrow> exn \<Rightarrow> pending_request \<Rightarrow> send_event \<Rightarrow> bool" where
  "answer_for s w e r ev \<longleftrightarrow> (\<exists>v. saved_input s w (req_ctx r) v \<and>
     ev = SendEvent (req_ctx r) (tr_ok (comm_transform s)) (PProcessed (ProcessedInput v (PExn (executor_failure e)))))"

lemma emit_errors_run:
  assumes "\<forall>r \<in> set rs. \<exists>v. saved_input s w (req_ctx r) v"
  shows "\<exists>us es. map_act (\<lambda>r. emit_executor_error s (req_ctx r) e) rs w = (Inr us, w\<lparr>bus_in := bus_in w @ es\<rparr>)
      \<and> list_all2 (answer_for s w e) rs es"
  using assms
proof (induction rs arbitrary: w)
  case (Cons r rs)
  from Cons.prems obtain v where v: "saved_input s w (req_ctx r) v" by auto
  let ?ev = "SendEvent (req_ctx r) (tr_ok (comm_transform s)) (PProcessed (ProcessedInput v (PExn (executor_failure e))))"
  let ?w = "w\<lparr>bus_in := bus_in w @ [?ev]\<rparr>"
  have same: "saved_input s ?w c u = saved_input s w c u" for c u by (rule saved_input_cong) simp_all
  have "\<forall>r \<in> set rs. \<exists>v. saved_input s ?w (req_ctx r) v" using Cons.prems by (simp add: same)
  from Cons.IH [OF this] obtain us es where rest:
    "map_act (\<lambda>r. emit_executor_error s (req_ctx r) e) rs ?w = (Inr us, ?w\<lparr>bus_in := bus_in ?w @ es\<rparr>)"
    "list_all2 (answer_for s ?w e) rs es" by blast
  have "answer_for s ?w e = answer_for s w e" by (simp add: answer_for_def fun_eq_iff same)
  moreover have "answer_for s w e r ?ev" using v by (auto simp: answer_for_def)
  ultimately have "list_all2 (answer_for s w e) (r # rs) (?ev # es)" using rest(2) by simp
  moreover have "map_act (\<lambda>r. emit_executor_error s (req_ctx r) e) (r # rs) w = (Inr (() # us), w\<lparr>bus_in := bus_in w @ ?ev # es\<rparr>)"
    using rest(1) by (simp add: bind_act_def emit_executor_error_run [OF v])
  ultimately show ?case by blast
qed simp

lemma answers_for: "list_all2 (answer_for s w e) rs es \<Longrightarrow> answers c es = length (filter (\<lambda>r. req_ctx r = c) rs)"
  by (induction rs es rule: list_all2_induct) (auto simp: answer_for_def)

lemma sweep_run:
  assumes inv: "http_inv dd cfg w"
  shows "\<exists>rs d es. timeout_sweep_turn cfg w = (Inr (), w\<lparr>ticks := Suc (ticks w), requests := d, bus_in := bus_in w @ es\<rparr>)
      \<and> pending_pop_expired (clock w (ticks w)) (requests w) = (rs, d)
      \<and> list_all2 (answer_for (cfg_comm cfg) w (exn_of RemoteResponseTimeoutException)) rs es"
proof -
  obtain rs d where pop: "pending_pop_expired (clock w (ticks w)) (requests w) = (rs, d)" by fastforce
  have ok: "pending_ok (requests w)" using inv by (simp add: http_inv_def)
  let ?w = "w\<lparr>ticks := Suc (ticks w), requests := d\<rparr>"
  have same: "saved_input s ?w c u = saved_input s w c u" for s c u by (rule saved_input_cong) simp_all
  have "\<forall>r \<in> set rs. dict_get (requests w) (req_id r) = Some r" using pend.expired_law [OF ok pop] by blast
  with inv have "\<forall>r \<in> set rs. \<exists>v. saved_input (cfg_comm cfg) ?w (req_ctx r) v" by (auto simp: same http_inv_def)
  from emit_errors_run [OF this] obtain us es where
    "map_act (\<lambda>r. emit_executor_error (cfg_comm cfg) (req_ctx r) (exn_of RemoteResponseTimeoutException)) rs ?w =
       (Inr us, ?w\<lparr>bus_in := bus_in ?w @ es\<rparr>)"
    "list_all2 (answer_for (cfg_comm cfg) ?w (exn_of RemoteResponseTimeoutException)) rs es" by blast
  moreover have "answer_for s ?w e = answer_for s w e" for s e by (simp add: answer_for_def fun_eq_iff same)
  ultimately show ?thesis
    using pop by (intro exI [of _ rs] exI [of _ d] exI [of _ es])
      (simp add: timeout_sweep_turn_def bind_act_def seq_act_def read_now_def pop_expired_requests_def)
qed

lemma sweep_accounts:
  assumes inv: "http_inv dd cfg w"
  shows "accounts dd cfg (\<lambda>_. 0) (timeout_sweep_turn cfg) w"
proof -
  have ok: "pending_ok (requests w)" using inv by (simp add: http_inv_def)
  from sweep_run [OF inv] obtain rs d es where
    run: "timeout_sweep_turn cfg w = (Inr (), w\<lparr>ticks := Suc (ticks w), requests := d, bus_in := bus_in w @ es\<rparr>)"
    and pop: "pending_pop_expired (clock w (ticks w)) (requests w) = (rs, d)"
    and es: "list_all2 (answer_for (cfg_comm cfg) w (exn_of RemoteResponseTimeoutException)) rs es" by blast
  let ?w = "w\<lparr>ticks := Suc (ticks w), requests := d, bus_in := bus_in w @ es\<rparr>"
  note law = pend.expired_law [OF ok pop]
  have "dict_get d i = Some r \<Longrightarrow> dict_get (requests w) i = Some r" for i r
    using law by (cases "dict_get (requests w) i") (auto split: if_splits)
  then have "http_inv dd cfg (w\<lparr>requests := d\<rparr>)" using law by (intro http_inv_drop [OF inv]) simp_all
  then have "http_inv dd cfg ?w" by (rule http_inv_cong) simp_all
  moreover have "answers c es + waits ?w c = waits w c" for c
    using pend.expired_waiting [OF ok pop, of c] by (simp add: answers_for [OF es] waits_def)
  ultimately show ?thesis unfolding accounts_def run by (intro exI conjI) (rule refl | simp)+
qed

text \<open>An input adds one to the account of its context.\<close>

abbreviation one_more :: "context_id \<Rightarrow> context_id \<Rightarrow> nat" where
  "one_more c \<equiv> (\<lambda>k. if k = c then 1 else 0)"

lemma internal_error_accounts:
  assumes "http_inv dd cfg w"
  shows "accounts dd cfg (one_more c) (emit_internal_error (cfg_comm cfg) c e) w"
proof -
  let ?ev = "internal_error_event (cfg_comm cfg) c e"
  have "http_inv dd cfg (w\<lparr>bus_in := bus_in w @ [?ev]\<rparr>)" by (rule http_inv_cong [OF assms]) simp_all
  moreover have "answers k [?ev] + waits (w\<lparr>bus_in := bus_in w @ [?ev]\<rparr>) k = waits w k + one_more c k" for k
    by (simp add: internal_error_event_def waits_def)
  ultimately show ?thesis
    by (intro accounts_def [THEN iffD2] exI [of _ "()"] exI [of _ "w\<lparr>bus_in := bus_in w @ [?ev]\<rparr>"] exI [of _ "[?ev]"])
      (simp add: emit_internal_error_def put_bus_def modify_act_def)
qed

lemma put_request_accounts:
  assumes inv: "http_inv dd cfg w" and saved: "saved_input (cfg_comm cfg) w c v"
  defines "i \<equiv> uuids w"
  shows "\<exists>w1. bind_act fresh_uuid (\<lambda>i. bind_act read_now (\<lambda>now. seq_act (put_request \<lparr>req_id = i, req_ctx = c,
       expires_at = now + total_processing_timeout cfg\<rparr>) (f i))) w = f i w1
    \<and> http_inv dd cfg w1 \<and> bus_in w1 = bus_in w \<and> (\<forall>k. waits w1 k = waits w k + one_more c k)
    \<and> dict_get (requests w1) i = Some \<lparr>req_id = i, req_ctx = c, expires_at = clock w (ticks w) + total_processing_timeout cfg\<rparr>"
proof -
  let ?r = "\<lparr>req_id = i, req_ctx = c, expires_at = clock w (ticks w) + total_processing_timeout cfg\<rparr>"
  have ok: "pending_ok (requests w)" using inv by (simp add: http_inv_def)
  have "dict_get (requests w) i = None" using inv unfolding http_inv_def i_def by (metis less_irrefl option.exhaust)
  then have put: "pending_put ?r (requests w) = Inr (dict_set i ?r (requests w))" by (simp add: pending_put_def dict_has_def)
  let ?d = "dict_set i ?r (requests w)"
  let ?w1 = "w\<lparr>uuids := Suc (uuids w), ticks := Suc (ticks w), requests := ?d\<rparr>"
  have law: "pending_ok ?d" using pend.put_law [OF ok, of ?r] by (simp add: put)
  have "store_inv dd w" using inv by (simp add: http_inv_def)
  then have "store_inv dd ?w1" by (rule store_inv_env) simp_all
  moreover have "saved_input s ?w1 k u = saved_input s w k u" for s k u by (rule saved_input_cong) simp_all
  ultimately have "http_inv dd cfg ?w1"
    using inv law saved by (auto simp: http_inv_def i_def less_Suc_eq split: if_splits)
  moreover have "waits ?w1 k = waits w k + one_more c k" for k
    using pend.put_waiting [OF ok put, of k] by (auto simp: waits_def)
  ultimately show ?thesis
    by (intro exI [of _ ?w1])
      (simp add: bind_act_def seq_act_def fresh_uuid_def read_now_def put_request_def put [unfolded i_def] i_def)
qed

lemma enqueue_accounts:
  assumes "http_inv dd cfg w"
  shows "accounts dd cfg (\<lambda>_. 0) (enqueue_send_request outcome (cfg_comm cfg) ps) w"
proof -
  have put: "accounts dd cfg (\<lambda>_. 0) (queue_put item) w" for item
  proof -
    have "http_inv dd cfg (w\<lparr>send_queue := send_queue w @ [item]\<rparr>)" by (rule http_inv_cong [OF assms]) simp_all
    then show ?thesis by (simp add: accounts_def queue_put_def modify_act_def waits_def)
  qed
  have late: "accounts dd cfg (\<lambda>_. 0) (if late then queue_put item else ret ()) w" for late item
    by (cases late) (simp_all only: if_True if_False put accounts_ret [OF assms])
  have "accounts dd cfg (\<lambda>c. 0 + 0) (seq_act (if late then queue_put (SendItem ps) else ret ())
      (fail_pending_request (cfg_comm cfg) (ps_request_id ps) e)) w" for late e
    unfolding seq_act_def by (rule accounts_bind [OF late]) (rule fail_pending_accounts)
  then show ?thesis
    unfolding enqueue_send_request_def
    by (cases outcome) (simp_all add: put fail_pending_accounts assms)
qed

lemma dispatch_accounts:
  assumes "http_inv dd cfg w" "saved_input (cfg_comm cfg) w c v"
  shows "accounts dd cfg (one_more c) (dispatch outcome cfg c url target p) w"
proof -
  from put_request_accounts [OF assms, of "\<lambda>i. enqueue_send_request outcome (cfg_comm cfg)
      \<lparr>ps_request_id = i, ps_ctx = c, ps_target_url = url, ps_target = target, ps_payload = p\<rparr>"] obtain w1 where
    w1: "dispatch outcome cfg c url target p w = enqueue_send_request outcome (cfg_comm cfg)
      \<lparr>ps_request_id = uuids w, ps_ctx = c, ps_target_url = url, ps_target = target, ps_payload = p\<rparr> w1"
    "http_inv dd cfg w1" "bus_in w1 = bus_in w" "\<forall>k. waits w1 k = waits w k + one_more c k"
    unfolding dispatch_def by blast
  from enqueue_accounts [OF w1(2)] show ?thesis unfolding accounts_def w1(1,3) by (simp add: w1(4))
qed

lemma input_accounts:
  assumes dd: "deepdiff_total dd" and inv: "http_inv dd cfg w" and x: "dict_get (contexts w) c = Some x" "\<not> is_completed x"
  shows "accounts dd cfg (one_more c) (comm_handle_input dd (cfg_comm cfg) (http_handle_input check outcome cfg) c (PRouted r)) w"
proof -
  have sinv: "store_inv dd w" using inv by (simp add: http_inv_def)
  from store_input_run [OF dd sinv x, of "cfg_comm cfg" "PRouted r"] obtain w1 where
    w1: "store_input_in_context dd (cfg_comm cfg) c (PRouted r) w = (Inr (), w1)" "store_inv dd w1" "locks w1 = locks w"
    "contexts w1 = dict_set c (x\<lparr>user_data := dict_set (input_user_data_key (cfg_comm cfg)) (PRouted r) (user_data x)\<rparr>) (contexts w)"
    "uuids w1 = uuids w" "world.more w1 = world.more w" by metis
  from w1(6) have more: "bus_in w1 = bus_in w" "requests w1 = requests w" "sender_up w1 = sender_up w" by (cases w; cases w1; simp)+
  have "c \<in> set (locks w)" using store_invD(2) [OF sinv] x(1) by (simp add: dict_has_def)
  then have saved: "saved_input (cfg_comm cfg) w1 c r" by (simp add: saved_input_def w1(3,4))
  have "\<exists>v'. saved_input (cfg_comm cfg) w1 k v'" if "saved_input (cfg_comm cfg) w k v" for k v
    using that saved by (cases "k = c") (auto simp: saved_input_def w1(3,4))
  then have inv1: "http_inv dd cfg w1" using w1(5) by (intro http_inv_env [OF inv w1(2) more(2)]) auto
  have "accounts dd cfg (one_more c) (http_handle_input check outcome cfg c (PRouted r)) w1"
  proof (cases "sender_up w1 \<and> (\<exists>url. resolve_neuron_target_url check cfg (routed_target r) = Inr url)")
    case True
    then obtain url where "resolve_neuron_target_url check cfg (routed_target r) = Inr url" by blast
    with True have run: "http_handle_input check outcome cfg c (PRouted r) w1 =
        seq_act (try_act (dispatch outcome cfg c url (routed_target r) (routed_input r))
          (\<lambda>e. emit_internal_error (cfg_comm cfg) c (if is_nexus e then e else exn_of RemoteRequestFailedException))) (ret []) w1"
      by (simp add: http_handle_input_def bind_act_def gets_act_def lift_act_def)
    show ?thesis unfolding accounts_def run
      by (rule accounts_seq_ret [OF accounts_try [OF dispatch_accounts [OF inv1 saved]], unfolded accounts_def])
  next
    case False
    then have "\<exists>e. http_handle_input check outcome cfg c (PRouted r) w1 = seq_act (emit_internal_error (cfg_comm cfg) c e) (ret []) w1"
      by (cases "resolve_neuron_target_url check cfg (routed_target r)")
        (auto simp: http_handle_input_def bind_act_def gets_act_def lift_act_def try_act_def seq_act_def)
    then obtain e where run: "http_handle_input check outcome cfg c (PRouted r) w1 =
        seq_act (emit_internal_error (cfg_comm cfg) c e) (ret []) w1" by blast
    show ?thesis unfolding accounts_def run
      by (rule accounts_seq_ret [OF internal_error_accounts [OF inv1], unfolded accounts_def])
  qed
  then show ?thesis
    unfolding accounts_def comm_handle_input_def seq_act_apply [of "store_input_in_context dd (cfg_comm cfg) c (PRouted r)" w, OF w1(1)]
    by (simp add: more waits_def)
qed

section \<open>Reachable states\<close>

text \<open>
  \<open>http_reach (w, inputs, outs)\<close>: the communicator got the routed inputs of the contexts \<open>inputs\<close>,
  in that order, and put \<open>outs\<close> on the bus. The network, the outcome of every enqueueing, the bodies
  of the callbacks and the turns of the threads are arbitrary; \<open>elsewhere\<close> is everything that other
  actors and the bus do, as long as they leave the saved inputs in place.
\<close>

inductive http_reach :: "'d deepdiff \<Rightarrow> http_config \<Rightarrow> ('d, 'x) http_world_scheme \<times> context_id list \<times> send_event list \<Rightarrow> bool"
  for dd cfg where
  start: "store_reach dd w \<Longrightarrow> requests w = [] \<Longrightarrow> http_reach dd cfg (w, [], [])"
| input: "http_reach dd cfg (w, ins, outs) \<Longrightarrow> dict_get (contexts w) c = Some x \<Longrightarrow> \<not> is_completed x \<Longrightarrow>
    comm_handle_input dd (cfg_comm cfg) (http_handle_input check outcome cfg) c (PRouted r) w = (res, w') \<Longrightarrow>
    bus_in w' = bus_in w @ es \<Longrightarrow> http_reach dd cfg (w', ins @ [c], outs @ es)"
| worker: "http_reach dd cfg (w, ins, outs) \<Longrightarrow> sender_worker_turn env cfg w = Some (res, w') \<Longrightarrow>
    bus_in w' = bus_in w @ es \<Longrightarrow> http_reach dd cfg (w', ins, outs @ es)"
| callback: "http_reach dd cfg (w, ins, outs) \<Longrightarrow> \<forall>x e. validate x \<noteq> Broken e \<Longrightarrow>
    callback_endpoint parse validate cfg (body :: string option) w = (res, w') \<Longrightarrow>
    bus_in w' = bus_in w @ es \<Longrightarrow> http_reach dd cfg (w', ins, outs @ es)"
| sweep: "http_reach dd cfg (w, ins, outs) \<Longrightarrow> timeout_sweep_turn cfg w = (res, w') \<Longrightarrow>
    bus_in w' = bus_in w @ es \<Longrightarrow> http_reach dd cfg (w', ins, outs @ es)"
| elsewhere: "http_reach dd cfg (w, ins, outs) \<Longrightarrow> store_inv dd w' \<Longrightarrow> requests w' = requests w \<Longrightarrow> uuids w \<le> uuids w' \<Longrightarrow>
    \<forall>c v. saved_input (cfg_comm cfg) w c v \<longrightarrow> (\<exists>v'. saved_input (cfg_comm cfg) w' c v') \<Longrightarrow> http_reach dd cfg (w', ins, outs)"

definition balanced :: "'d deepdiff \<Rightarrow> http_config \<Rightarrow> ('d, 'x) http_world_scheme \<times> context_id list \<times> send_event list \<Rightarrow> bool" where
  "balanced dd cfg = (\<lambda>(w, ins, outs). http_inv dd cfg w \<and> (\<forall>c. answers c outs + waits w c = count_list ins c))"

lemma balanced_step:
  assumes "balanced dd cfg (w, ins, outs)" "accounts dd cfg d m w" "m w = (res, w')" "bus_in w' = bus_in w @ es"
    "\<forall>c. count_list ins' c = count_list ins c + d c"
  shows "balanced dd cfg (w', ins', outs @ es)"
  unfolding balanced_def prod.case
proof (intro conjI allI)
  note run = accounts_run [OF assms(2,3,4)]
  then show "http_inv dd cfg w'" by blast
  fix c
  have "answers c es + waits w' c = waits w c + d c" using run by blast
  moreover have "answers c outs + waits w c = count_list ins c" using assms(1) by (simp add: balanced_def)
  ultimately show "answers c (outs @ es) + waits w' c = count_list ins' c" using assms(5) by simp
qed

lemma http_reach_balanced:
  assumes "http_reach dd cfg st" "deepdiff_total dd"
  shows "balanced dd cfg st"
  using assms(1)
proof (induction rule: http_reach.induct)
  case (start w)
  then show ?case
    using store_reach_inv [OF start(1) deepdiff_totalD [OF assms(2)]]
    by (simp add: balanced_def http_inv_def pending_ok_def waits_def waiting_in_def)
next
  case (input w ins outs c x check outcome r res w' es)
  have "http_inv dd cfg w" using input.IH by (simp add: balanced_def)
  from balanced_step [OF input.IH input_accounts [OF assms(2) this input(2,3)] input(4,5), of "ins @ [c]"] show ?case by simp
next
  case (worker w ins outs env res w' es)
  have "http_inv dd cfg w" using worker.IH by (simp add: balanced_def)
  from worker_accounts [OF this worker(2)] obtain m w0 where
    m: "m w0 = (res, w')" "bus_in w0 = bus_in w" "requests w0 = requests w" "accounts dd cfg (\<lambda>_. 0) m w0" by blast
  from accounts_run [OF m(4,1), of es] worker(3) m(2) worker.IH show ?case by (auto simp: balanced_def waits_def m(3) add.assoc)
next
  case (callback w ins outs validate parse body res w' es)
  have "http_inv dd cfg w" using callback.IH by (simp add: balanced_def)
  from balanced_step [OF callback.IH endpoint_accounts [OF this callback(2)] callback(3,4)] show ?case by simp
next
  case (sweep w ins outs res w' es)
  have "http_inv dd cfg w" using sweep.IH by (simp add: balanced_def)
  from balanced_step [OF sweep.IH sweep_accounts [OF this] sweep(2,3)] show ?case by simp
next
  case (elsewhere w ins outs w')
  then show ?case using http_inv_env [of dd cfg w w'] by (simp add: balanced_def waits_def)
qed

lemma enqueued_input_waits:
  assumes dd: "deepdiff_total dd" and inv: "http_inv dd cfg w" and x: "dict_get (contexts w) c = Some x" "\<not> is_completed x"
    and up: "sender_up w" and url: "resolve_neuron_target_url check cfg (routed_target r) = Inr url"
  shows "\<exists>w' now. comm_handle_input dd (cfg_comm cfg) (http_handle_input check Enqueued cfg) c (PRouted r) w = (Inr [], w')
      \<and> bus_in w' = bus_in w
      \<and> dict_get (requests w') (uuids w) = Some \<lparr>req_id = uuids w, req_ctx = c, expires_at = now + total_processing_timeout cfg\<rparr>"
proof -
  have sinv: "store_inv dd w" using inv by (simp add: http_inv_def)
  from store_input_run [OF dd sinv x, of "cfg_comm cfg" "PRouted r"] obtain w1 where
    w1: "store_input_in_context dd (cfg_comm cfg) c (PRouted r) w = (Inr (), w1)" "uuids w1 = uuids w"
    "world.more w1 = world.more w" by metis
  from w1(3) have more: "bus_in w1 = bus_in w" "requests w1 = requests w" "sender_up w1 = sender_up w" by (cases w; cases w1; simp)+
  have "dict_get (requests w) (uuids w) = None" using inv unfolding http_inv_def by (metis less_irrefl option.exhaust)
  then show ?thesis
    using up url
    unfolding comm_handle_input_def seq_act_apply [of "store_input_in_context dd (cfg_comm cfg) c (PRouted r)" w, OF w1(1)]
    by (simp add: http_handle_input_def bind_act_def gets_act_def lift_act_def try_act_def dispatch_def fresh_uuid_def read_now_def
        seq_act_def put_request_def pending_put_def dict_has_def more w1(2) enqueue_send_request_def queue_put_def modify_act_def)
qed

section \<open>A concrete communicator, for the witnesses\<close>

definition http_world_init :: "'d http_world" where
  "http_world_init = \<lparr>persistence = mem_persistence_init, contexts = [], locks = [], uuids = 0, clock = int, ticks = 0,
     bus_in = [], inbox = \<lambda>_. [], requests = [], send_queue = [], sender_up = True, server_up = True, sweep_up = True\<rparr>"

definition demo_http_world :: "pyval http_world" where
  "demo_http_world = snd (create_context [] http_world_init)"

definition demo_http_config :: http_config where
  "demo_http_config = \<lparr>cfg_comm = mk_communicator ''h'', target_path = ''/run'', send_timeout = 5, total_processing_timeout = 10,
     max_in_flight = 2, callback_port = 8080, response_path = ''/cb'', callback_base_url = ''http://v''\<rparr>"

lemma demo_http_reach: "store_reach plain_diff demo_http_world"
proof -
  have "store_reach plain_diff (http_world_init :: pyval http_world)"
    by (rule store_reach.start) (simp_all add: http_world_init_def)
  then show ?thesis unfolding demo_http_world_def by (rule store_reach.create) (rule prod.collapse [symmetric])
qed

lemma demo_http_eval:
  "dict_get (contexts demo_http_world) (Uuid 0) = Some (blank_context (Uuid 0))" "\<not> is_completed (blank_context (Uuid 0))"
  "requests demo_http_world = []" "bus_in demo_http_world = []" "sender_up demo_http_world"
  by (simp_all add: demo_http_world_def http_world_init_def demo_eval lock_contexts_def blank_context_def)

lemma demo_http_input:
  "\<exists>(w :: pyval http_world) r. http_reach plain_diff demo_http_config (w, [Uuid 0], []) \<and> bus_in w = []
     \<and> dict_get (requests w) (uuids demo_http_world) = Some r \<and> req_ctx r = Uuid 0"
proof -
  have start: "http_reach plain_diff demo_http_config (demo_http_world, [], [])"
    by (rule http_reach.start [OF demo_http_reach demo_http_eval(3)])
  then have inv: "http_inv plain_diff demo_http_config demo_http_world"
    using http_reach_balanced [OF _ plain_diff_total] by (fastforce simp: balanced_def)
  have url: "resolve_neuron_target_url Inr demo_http_config (routed_target (Routed (PInt 1) demo_neuron)) =
      Inr ''http://10.0.0.1:80/run''"
    by (simp add: resolve_neuron_target_url_def demo_neuron_def demo_http_config_def format_host_for_url_def strip_def
        is_space_def Let_def int_text_def nat_text.simps)
  from enqueued_input_waits [OF plain_diff_total inv demo_http_eval(1,2) demo_http_eval(5) url] obtain w now where
    w: "comm_handle_input plain_diff (cfg_comm demo_http_config) (http_handle_input Inr Enqueued demo_http_config) (Uuid 0)
       (PRouted (Routed (PInt 1) demo_neuron)) demo_http_world = (Inr [], w)" "bus_in w = bus_in demo_http_world"
    "dict_get (requests w) (uuids demo_http_world) = Some \<lparr>req_id = uuids demo_http_world, req_ctx = Uuid 0,
       expires_at = now + total_processing_timeout demo_http_config\<rparr>" by blast
  have "http_reach plain_diff demo_http_config (w, [] @ [Uuid 0], [] @ [])"
    by (rule http_reach.input [OF start demo_http_eval(1,2) w(1)]) (simp add: w(2))
  with w show ?thesis by (auto simp: demo_http_eval(4))
qed

section \<open>Properties\<close>

text \<open>C2: every routed input the communicator accepts is answered exactly once. In every reachable state,
  for every context, the messages emitted for it plus its requests that still wait are as many as
  the inputs handed in for it, whatever the network does and however the actor, the workers, the
  callback server and the sweep interleave, as long as validating an output raises nothing but
  \<open>ValidationError\<close>s; once no request waits, every input has its one answer.\<close>

theorem every_input_is_answered_once:
  assumes "deepdiff_total dd" and "http_reach dd cfg (w, inputs, outs)"
  shows "(\<forall>c. answers c outs + waits w c = count_list inputs c)
      \<and> (requests w = [] \<longrightarrow> (\<forall>c. answers c outs = count_list inputs c))"
proof -
  have "\<forall>c. answers c outs + waits w c = count_list inputs c"
    using http_reach_balanced [OF assms(2,1)] by (simp add: balanced_def)
  moreover have "waits w c = 0" if "requests w = []" for c using that by (simp add: waits_def waiting_in_def)
  ultimately show ?thesis by (metis add_0_right)
qed

theorem every_input_is_answered_once_witness:
  "\<exists>(w :: pyval http_world) outs. http_reach plain_diff demo_http_config (w, [Uuid 0], outs) \<and> answers (Uuid 0) outs + waits w (Uuid 0) = 1"
proof -
  from demo_http_input obtain w :: "pyval http_world" where r: "http_reach plain_diff demo_http_config (w, [Uuid 0], [])" by blast
  from every_input_is_answered_once [OF plain_diff_total r] have "answers (Uuid 0) [] + waits w (Uuid 0) = count_list [Uuid 0] (Uuid 0)" by blast
  with r show ?thesis by (intro exI [of _ w] exI [of _ "[]"]) simp
qed

text \<open>C26: a turn of the timeout sweep never raises. It takes out exactly the requests whose deadline has
  passed, and answers each of them once, in its context, with the saved input and a timeout failure.
  When all deadlines have passed, no request is left, and every input has been answered.\<close>

theorem sweep_answers_overdue_requests:
  assumes "deepdiff_total dd" and "http_reach dd cfg (w, inputs, outs)"
  defines "now \<equiv> clock w (ticks w)"
  shows "\<exists>w' overdue es. timeout_sweep_turn cfg w = (Inr (), w') \<and> bus_in w' = bus_in w @ es
      \<and> list_all2 (answer_for (cfg_comm cfg) w (exn_of RemoteResponseTimeoutException)) overdue es
      \<and> distinct overdue \<and> (\<forall>r. r \<in> set overdue \<longleftrightarrow> dict_get (requests w) (req_id r) = Some r \<and> expires_at r \<le> now)
      \<and> (\<forall>i. dict_get (requests w') i =
            (case dict_get (requests w) i of None \<Rightarrow> None | Some r \<Rightarrow> if expires_at r \<le> now then None else Some r))
      \<and> ((\<forall>i r. dict_get (requests w) i = Some r \<longrightarrow> expires_at r \<le> now) \<longrightarrow>
            (\<forall>c. waits w' c = 0 \<and> answers c (outs @ es) = count_list inputs c))"
proof -
  note bal = http_reach_balanced [OF assms(2,1)]
  have inv: "http_inv dd cfg w" using bal by (simp add: balanced_def)
  have ok: "pending_ok (requests w)" using inv by (simp add: http_inv_def)
  from sweep_run [OF inv] obtain rs d es where
    run: "timeout_sweep_turn cfg w = (Inr (), w\<lparr>ticks := Suc (ticks w), requests := d, bus_in := bus_in w @ es\<rparr>)"
    and pop: "pending_pop_expired now (requests w) = (rs, d)"
    and es: "list_all2 (answer_for (cfg_comm cfg) w (exn_of RemoteResponseTimeoutException)) rs es" unfolding now_def by blast
  let ?w = "w\<lparr>ticks := Suc (ticks w), requests := d, bus_in := bus_in w @ es\<rparr>"
  note law = pend.expired_law [OF ok pop]
  from balanced_step [OF bal sweep_accounts [OF inv] run, of es inputs] have bal': "balanced dd cfg (?w, inputs, outs @ es)" by simp
  have over: "waits ?w c = 0 \<and> answers c (outs @ es) = count_list inputs c"
    if "\<forall>i r. dict_get (requests w) i = Some r \<longrightarrow> expires_at r \<le> now" for c
  proof -
    have none: "waits ?w c = 0" using pend.none_after_deadlines [OF ok pop that] by (simp add: waits_def waiting_in_def)
    moreover have "answers c (outs @ es) + waits ?w c = count_list inputs c" using bal' unfolding balanced_def by blast
    ultimately show ?thesis by simp
  qed
  have parts: "distinct rs" "\<forall>r. r \<in> set rs \<longleftrightarrow> dict_get (requests w) (req_id r) = Some r \<and> expires_at r \<le> now"
    "\<forall>i. dict_get (requests ?w) i = (case dict_get (requests w) i of None \<Rightarrow> None | Some r \<Rightarrow> if expires_at r \<le> now then None else Some r)"
    "bus_in ?w = bus_in w @ es"
    using law by simp_all
  show ?thesis
    by (rule exI [of _ ?w], rule exI [of _ rs], rule exI [of _ es]) (intro conjI run es parts; use over in blast)
qed

theorem sweep_answers_overdue_requests_witness:
  "\<exists>(w :: pyval http_world) w'. http_reach plain_diff demo_http_config (w, [Uuid 0], []) \<and> requests w \<noteq> []
     \<and> timeout_sweep_turn demo_http_config w = (Inr (), w')"
proof -
  from demo_http_input obtain w :: "pyval http_world" and r where
    w: "http_reach plain_diff demo_http_config (w, [Uuid 0], [])" "dict_get (requests w) (uuids demo_http_world) = Some r" by blast
  from sweep_answers_overdue_requests [OF plain_diff_total w(1)] obtain w' where
    "timeout_sweep_turn demo_http_config w = (Inr (), w')" by blast
  with w show ?thesis by fastforce
qed

text \<open>What a callback means for its request: the status of the answer and the value handed on.\<close>

definition callback_verdict :: "(pyval \<Rightarrow> pyval validated) \<Rightarrow> response_envelope \<Rightarrow> int \<times> pyval option" where
  "callback_verdict validate envelope =
     (if renv_error envelope \<noteq> None then (202, Some (PExn (executor_failure (exn_of RemoteExecutionException))))
      else case renv_output envelope of
             None \<Rightarrow> (202, Some (PExn (executor_failure (exn_of ResponseInvalidException))))
           | Some out \<Rightarrow>
               (case validate out of
                  Valid v \<Rightarrow> (202, Some v)
                | NotValid _ \<Rightarrow> (400, Some (PExn (executor_failure (exn_of ResponseValidationException))))
                | Broken _ \<Rightarrow> (500, None)))"

text \<open>The events that carry a verdict, with the input \<open>v\<close>.\<close>

definition verdict_events :: "http_config \<Rightarrow> context_id \<Rightarrow> pyval routed \<Rightarrow> pyval option \<Rightarrow> send_event list" where
  "verdict_events cfg c v verdict =
     (case verdict of
        None \<Rightarrow> []
      | Some out \<Rightarrow> [SendEvent c (tr_ok (comm_transform (cfg_comm cfg))) (PProcessed (ProcessedInput v out))])"

lemma callback_endpoint_resolves:
  fixes w :: "('d, 'x) http_world_scheme"
  assumes inv: "http_inv dd cfg w" and parsed: "parse body = Inr envelope"
    and req: "dict_get (requests w) (renv_request_id envelope) = Some r"
  shows "\<exists>v. saved_input (cfg_comm cfg) w (req_ctx r) v
    \<and> callback_endpoint parse validate cfg (Some body) w = (Inr (fst (callback_verdict validate envelope)),
        w\<lparr>requests := dict_del (renv_request_id envelope) (requests w),
          bus_in := bus_in w @ verdict_events cfg (req_ctx r) v (snd (callback_verdict validate envelope))\<rparr>)"
proof -
  let ?i = "renv_request_id envelope" and ?s = "cfg_comm cfg"
  let ?w = "w\<lparr>requests := dict_del ?i (requests w)\<rparr>"
  from inv req obtain v where v: "saved_input ?s w (req_ctx r) v" by (auto simp: http_inv_def)
  have saved: "saved_input ?s ?w (req_ctx r) v" using v saved_input_cong [of ?w w ?s] by simp
  have "callback_endpoint parse validate cfg (Some body) w = (Inr (fst (callback_verdict validate envelope)),
      ?w\<lparr>bus_in := bus_in w @ verdict_events cfg (req_ctx r) v (snd (callback_verdict validate envelope))\<rparr>)"
    unfolding callback_endpoint_def process_callback_def parsed sum.case option.case try_act_def
      bind_act_apply [of "pop_request ?i" w, OF pop_request_some(1) [OF inv req]]
    by (auto simp: seq_act_def bind_act_def emit_executor_error_run [OF saved] emit_processed_run [OF saved] callback_verdict_def
        verdict_events_def split: option.split validated.split)
  with v show ?thesis by auto
qed

lemma callback_endpoint_unknown:
  assumes "parse body = Inr envelope" "dict_get (requests w) (renv_request_id envelope) = None"
  shows "callback_endpoint parse validate cfg (Some body) w = (Inr 404, w)"
proof -
  have "dict_del (renv_request_id envelope) (requests w) = requests w"
    using assms(2) by (simp add: AList.delete_idem map_of_eq_None_iff)
  with assms show ?thesis
    by (simp add: callback_endpoint_def process_callback_def bind_act_def pop_request_def pending_pop_def try_act_def)
qed

text \<open>C27: a callback for a waiting request is answered by status and message as its content demands, with
  the input saved in the request's context, and resolves the request: the same callback again, or
  one for an unknown request, gets 404 and has no effect.\<close>

theorem callback_resolves_request_once:
  fixes parse :: "'b \<Rightarrow> exn + response_envelope" and validate :: "pyval \<Rightarrow> pyval validated" and w :: "('d, 'x) http_world_scheme"
  assumes "deepdiff_total dd" and "http_reach dd cfg (w, inputs, outs)" and "parse body = Inr envelope"
  shows "case dict_get (requests w) (renv_request_id envelope) of
      None \<Rightarrow> callback_endpoint parse validate cfg (Some body) w = (Inr 404, w)
    | Some r \<Rightarrow> (\<exists>v w'. saved_input (cfg_comm cfg) w (req_ctx r) v
        \<and> callback_endpoint parse validate cfg (Some body) w = (Inr (fst (callback_verdict validate envelope)), w')
        \<and> w' = w\<lparr>requests := dict_del (renv_request_id envelope) (requests w), bus_in := bus_in w @
              verdict_events cfg (req_ctx r) v (snd (callback_verdict validate envelope))\<rparr>
        \<and> callback_endpoint parse validate cfg (Some body) w' = (Inr 404, w'))"
proof -
  have inv: "http_inv dd cfg w" using http_reach_balanced [OF assms(2,1)] by (simp add: balanced_def)
  let ?i = "renv_request_id envelope"
  show ?thesis
  proof (cases "dict_get (requests w) ?i")
    case None
    then show ?thesis using callback_endpoint_unknown [of parse body envelope, OF assms(3)] by simp
  next
    case (Some r)
    from callback_endpoint_resolves [of dd cfg w parse body, OF inv assms(3) Some, of validate] obtain v where
      v: "saved_input (cfg_comm cfg) w (req_ctx r) v" and
      run: "callback_endpoint parse validate cfg (Some body) w = (Inr (fst (callback_verdict validate envelope)),
        w\<lparr>requests := dict_del ?i (requests w), bus_in := bus_in w @ verdict_events cfg (req_ctx r) v (snd (callback_verdict validate envelope))\<rparr>)" (is "_ = (_, ?w')")
      by blast
    have "callback_endpoint parse validate cfg (Some body) ?w' = (Inr 404, ?w')"
      by (rule callback_endpoint_unknown [of parse body envelope, OF assms(3)]) simp
    with v run show ?thesis unfolding Some option.case by blast
  qed
qed

theorem callback_resolves_request_once_witness:
  "\<exists>(w :: pyval http_world) w' r v. http_reach plain_diff demo_http_config (w, [Uuid 0], []) \<and> dict_get (requests w) (uuids demo_http_world) = Some r
     \<and> callback_endpoint (\<lambda>_. Inr \<lparr>renv_request_id = uuids demo_http_world, renv_output = Some (PInt 7), renv_error = None\<rparr>) Valid
          demo_http_config (Some ''body'') w = (Inr 202, w')
     \<and> bus_in w' = [SendEvent (Uuid 0) (Source ''h-left-source'') (PProcessed (ProcessedInput v (PInt 7)))]"
proof -
  from demo_http_input obtain w :: "pyval http_world" and r where
    w: "http_reach plain_diff demo_http_config (w, [Uuid 0], [])" "bus_in w = []"
    "dict_get (requests w) (uuids demo_http_world) = Some r" "req_ctx r = Uuid 0" by blast
  let ?env = "\<lparr>renv_request_id = uuids demo_http_world, renv_output = Some (PInt 7), renv_error = None\<rparr>"
  have ok: "tr_ok (comm_transform (cfg_comm demo_http_config)) = Source ''h-left-source''"
    by (simp add: demo_http_config_def mk_communicator_def mk_fork_def)
  from callback_resolves_request_once [OF plain_diff_total w(1), of "\<lambda>_. Inr ?env" "''body''" ?env Valid] w(2-4)
  obtain v w' where "callback_endpoint (\<lambda>_. Inr ?env) Valid demo_http_config (Some ''body'') w = (Inr 202, w')"
    "w' = w\<lparr>requests := dict_del (uuids demo_http_world) (requests w), bus_in := bus_in w @
       [SendEvent (Uuid 0) (Source ''h-left-source'') (PProcessed (ProcessedInput v (PInt 7)))]\<rparr>"
    by (auto simp: ok callback_verdict_def verdict_events_def)
  with w show ?thesis by auto
qed

text \<open>When the validation of an output raises anything but a \<open>ValidationError\<close>, the callback is answered 500 with
  the request already taken out of the store: no event is emitted and no sweep will find it.\<close>

theorem broken_validation_loses_request:
  assumes "http_inv dd cfg w" and "parse body = Inr \<lparr>renv_request_id = i, renv_output = Some out, renv_error = None\<rparr>"
    and "dict_get (requests w) i = Some r" and "validate out = Broken e"
  shows "callback_endpoint parse validate cfg (Some body) w = (Inr 500, w\<lparr>requests := dict_del i (requests w)\<rparr>)"
  using callback_endpoint_resolves [of dd cfg w parse body _ r validate, OF assms(1,2)] assms(3,4)
  by (auto simp: callback_verdict_def verdict_events_def)

text \<open>Starting the communicator is all or nothing. If none of its background runtimes runs, they all run
  afterwards, or the first failing one is raised and none is left running; a second start raises.\<close>

theorem start_is_all_or_nothing:
  fixes w :: "('d, 'x) http_world_scheme"
  shows "case on_start put cfg sender server sweep w of (res, w') \<Rightarrow>
     (res = Inr () \<longleftrightarrow> \<not> (sender_up w \<or> server_up w \<or> sweep_up w) \<and> (\<exists>a b c. sender = Inr a \<and> server = Inr b \<and> sweep = Inr c))
   \<and> (res = Inr () \<longrightarrow> sender_up w' \<and> server_up w' \<and> sweep_up w')
   \<and> (res \<noteq> Inr () \<longrightarrow> \<not> sender_up w' \<and> \<not> server_up w' \<and> \<not> sweep_up w')"
  by (cases sender; cases server; cases sweep)
    (auto simp: on_start_def ensure_background_threads_started_def start_sender_def start_server_def start_sweep_def
      stop_background_threads_def enqueue_stop_signals_def try_act_def bind_act_def seq_act_def gets_act_def lift_act_def modify_act_def)

theorem start_is_all_or_nothing_witness:
  "\<exists>w'. on_start 0 demo_http_config (Inr ()) (Inl key_error) (Inr ()) (demo_http_world\<lparr>sender_up := False, server_up := False, sweep_up := False\<rparr>)
      = (Inl key_error, w') \<and> \<not> sender_up w'"
proof -
  let ?w = "demo_http_world\<lparr>sender_up := False, server_up := False, sweep_up := False\<rparr>"
  obtain res w' where run: "on_start 0 demo_http_config (Inr ()) (Inl key_error) (Inr ()) ?w = (res, w')" by fastforce
  have "res = Inl key_error"
    using run by (simp add: on_start_def ensure_background_threads_started_def start_sender_def start_server_def
      stop_background_threads_def enqueue_stop_signals_def try_act_def bind_act_def seq_act_def gets_act_def lift_act_def modify_act_def)
  with start_is_all_or_nothing [where put = 0 and cfg = demo_http_config and sender = "Inr ()" and server = "Inl key_error"
      and sweep = "Inr ()" and w = ?w] run show ?thesis by auto
qed

end
