(* ===== verification/HttpServer.thy ===== *)
theory HttpServer
  imports Values
begin

text \<open>
  The life of a web server in a thread, \<open>executor_communicator/http_server_lifecycle.py\<close>, shared by
  the callback server, the REST entry point and the neuron service. What the thread and uvicorn
  report at the k-th poll and the k-th reading of the monotonic clock are functions of k; reading 0
  sets the deadline and reading \<open>Suc k\<close> is the one before poll \<open>k\<close>, so a sleep lies between the
  readings from the first on.
\<close>

record server_poll =
  thread_alive :: bool
  server_started :: bool
  server_sockets :: "pyval list list" \<comment> \<open>the \<open>getsockname()\<close> of each socket of each server\<close>

definition extract_socket_port :: "pyval \<Rightarrow> int option" where
  "extract_socket_port sockaddr =
     (case sockaddr of
        PTuple items \<Rightarrow>
          if length items < 2 then None
          else (case items ! 1 of PInt n \<Rightarrow> Some n | PBool b \<Rightarrow> Some (of_bool b) | _ \<Rightarrow> None)
      | _ \<Rightarrow> None)"

fun first_port :: "pyval list \<Rightarrow> int option" where
  "first_port [] = None"
| "first_port (a # as) = (case extract_socket_port a of Some n \<Rightarrow> Some n | None \<Rightarrow> first_port as)"

definition resolve_bound_port :: "pyval list list \<Rightarrow> int option" where
  "resolve_bound_port servers = first_port (concat servers)"

text \<open>The loop from its \<open>k\<close>-th poll on; \<open>None\<close> is a loop that never ends.\<close>

partial_function (option) poll_server ::
  "(nat \<Rightarrow> int) \<Rightarrow> (nat \<Rightarrow> server_poll) \<Rightarrow> int \<Rightarrow> nat \<Rightarrow> (exn + int) option" where
  [code]: "poll_server now poll deadline k =
     (if \<not> now (Suc k) < deadline then Some (Inl framework_exn)
      else if \<not> thread_alive (poll k) then Some (Inl framework_exn)
      else
        case (if server_started (poll k) then resolve_bound_port (server_sockets (poll k)) else None) of
          Some port \<Rightarrow> Some (Inr port)
        | None \<Rightarrow> poll_server now poll deadline (Suc k))"

definition await_uvicorn_server_startup ::
  "(nat \<Rightarrow> int) \<Rightarrow> (nat \<Rightarrow> server_poll) \<Rightarrow> int \<Rightarrow> (exn + int) option" where
  "await_uvicorn_server_startup now poll startup_timeout = poll_server now poll (now 0 + startup_timeout) 0"

text \<open>The handle of a server: whether it was told to exit, and whether its thread was joined.\<close>

record uvicorn_server =
  should_exit :: bool
  thread_joined :: bool

definition start_uvicorn_server ::
  "(nat \<Rightarrow> int) \<Rightarrow> (nat \<Rightarrow> server_poll) \<Rightarrow> int \<Rightarrow> ((exn + int) \<times> uvicorn_server) option" where
  "start_uvicorn_server now poll startup_timeout =
     map_option
       (\<lambda>r. (r, case r of
                  Inr _ \<Rightarrow> \<lparr>should_exit = False, thread_joined = False\<rparr>
                | Inl _ \<Rightarrow> \<lparr>should_exit = True, thread_joined = True\<rparr>))
       (await_uvicorn_server_startup now poll startup_timeout)"

definition stop_uvicorn_server :: "uvicorn_server option \<Rightarrow> uvicorn_server option" where
  "stop_uvicorn_server server = map_option (\<lambda>s. s\<lparr>should_exit := True, thread_joined := True\<rparr>) server"

section \<open>The polls that decide\<close>

definition bound_port :: "server_poll \<Rightarrow> int option" where
  "bound_port p = (if server_started p then resolve_bound_port (server_sockets p) else None)"

lemma poll_server_later:
  assumes "now (Suc k) < deadline" "thread_alive (poll k)" "bound_port (poll k) = None"
  shows "poll_server now poll deadline k = poll_server now poll deadline (Suc k)"
  using assms by (subst poll_server.simps) (simp add: bound_port_def)

lemma poll_server_ends:
  assumes "\<not> now (Suc k) < deadline \<or> \<not> thread_alive (poll k) \<or> bound_port (poll k) \<noteq> None"
  shows "poll_server now poll deadline k =
     Some (if now (Suc k) < deadline \<and> thread_alive (poll k) then Inr (the (bound_port (poll k))) else Inl framework_exn)"
  using assms by (subst poll_server.simps) (auto simp: bound_port_def)

lemma poll_server_skip:
  assumes "\<forall>j < k. now (Suc j) < deadline \<and> thread_alive (poll j) \<and> bound_port (poll j) = None"
  shows "poll_server now poll deadline 0 = poll_server now poll deadline k"
  using assms
proof (induction k)
  case (Suc k)
  then have "poll_server now poll deadline 0 = poll_server now poll deadline k" by simp
  with Suc.prems show ?case using poll_server_later [of now k deadline poll] by simp
qed simp

lemma clock_advances:
  fixes now :: "nat \<Rightarrow> int"
  assumes "now 0 \<le> now 1" "\<forall>j. now (Suc j) + interval \<le> now (Suc (Suc j))"
  shows "now 0 + int k * interval \<le> now (Suc k)"
proof (induction k)
  case (Suc k)
  with assms(2) [rule_format, of k] show ?case by (simp add: algebra_simps)
qed (use assms(1) in simp)

section \<open>Properties\<close>

text \<open>C29: since every sleep between two polls lasts at least the poll interval, waiting for a server ends,
  and all its sleeps but the last fit in the timeout; it ends at the first poll that is late, sees
  the thread dead, or sees a bound port, and only the last succeeds. A failed start leaves the
  server told to exit and its thread joined.\<close>

theorem server_startup_terminates:
  assumes "0 < interval" and "now 0 \<le> now 1" and "\<forall>j. now (Suc j) + interval \<le> now (Suc (Suc j))"
  shows "\<exists>k r server. start_uvicorn_server now poll startup_timeout = Some (r, server)
      \<and> (k = 0 \<or> int (k - 1) * interval < startup_timeout)
      \<and> (\<forall>j < k. now (Suc j) < now 0 + startup_timeout \<and> thread_alive (poll j) \<and> bound_port (poll j) = None)
      \<and> (case r of
           Inr port \<Rightarrow> now (Suc k) < now 0 + startup_timeout \<and> thread_alive (poll k)
               \<and> bound_port (poll k) = Some port \<and> \<not> should_exit server
         | Inl e \<Rightarrow> (now 0 + startup_timeout \<le> now (Suc k) \<or> \<not> thread_alive (poll k)) \<and> e = framework_exn
               \<and> should_exit server \<and> thread_joined server)"
proof -
  let ?deadline = "now 0 + startup_timeout"
  let ?stop = "\<lambda>k. \<not> now (Suc k) < ?deadline \<or> \<not> thread_alive (poll k) \<or> bound_port (poll k) \<noteq> None"
  define k where "k = (LEAST k. ?stop k)"
  have late: "\<not> now (Suc m) < ?deadline" if "startup_timeout \<le> int m * interval" for m
    using clock_advances [OF assms(2,3), of m] that by linarith
  have "startup_timeout \<le> int (nat startup_timeout) * interval"
  proof (cases "0 \<le> startup_timeout")
    case True
    then show ?thesis using assms(1) mult_left_mono [of 1 interval startup_timeout] by simp
  qed (use assms(1) in simp)
  then have "?stop (nat startup_timeout)" using late by blast
  then have stop: "?stop k" unfolding k_def by (rule LeastI)
  have before: "now (Suc j) < ?deadline \<and> thread_alive (poll j) \<and> bound_port (poll j) = None" if "j < k" for j
    using not_less_Least [of j ?stop] that unfolding k_def by blast
  have bound: "k = 0 \<or> int (k - 1) * interval < startup_timeout"
  proof (cases k)
    case (Suc m)
    with before have "now (Suc m) < ?deadline" by simp
    with late [of m] Suc show ?thesis by (metis not_less diff_Suc_1)
  qed simp
  let ?r = "if now (Suc k) < ?deadline \<and> thread_alive (poll k) then Inr (the (bound_port (poll k))) else Inl framework_exn"
  have "await_uvicorn_server_startup now poll startup_timeout = Some ?r"
    unfolding await_uvicorn_server_startup_def
    using poll_server_skip [of k now ?deadline poll] before poll_server_ends [of now k ?deadline poll, OF stop] by simp
  then have run: "start_uvicorn_server now poll startup_timeout = Some (?r, case ?r of
      Inr _ \<Rightarrow> \<lparr>should_exit = False, thread_joined = False\<rparr> | Inl _ \<Rightarrow> \<lparr>should_exit = True, thread_joined = True\<rparr>)"
    by (simp add: start_uvicorn_server_def)
  show ?thesis
    by (rule exI [of _ k], intro exI conjI, rule run, rule bound)
      (use before stop in \<open>auto split: if_splits\<close>)
qed

text \<open>The first check follows the deadline at once; sleeps of 25, a timeout of 90 and no port: four sleeps, of which
  three fit.\<close>

theorem server_startup_terminates_witness:
  "\<exists>k server. start_uvicorn_server (\<lambda>k. 25 * int (k - 1)) (\<lambda>_. \<lparr>thread_alive = True, server_started = False, server_sockets = []\<rparr>) 90
       = Some (Inl framework_exn, server) \<and> int (k - 1) * 25 < 90 \<and> 90 \<le> 25 * int k \<and> should_exit server"
proof -
  let ?poll = "\<lambda>_. \<lparr>thread_alive = True, server_started = False, server_sockets = []\<rparr>"
  have "(0 :: int) < 25" "25 * int (0 - 1) \<le> 25 * int (1 - 1)" "\<forall>j. 25 * int (Suc j - 1) + 25 \<le> 25 * int (Suc (Suc j) - 1)"
    by simp_all
  from server_startup_terminates [of 25 "\<lambda>k. 25 * int (k - 1)", OF this, of ?poll 90] show ?thesis
  proof (elim exE conjE)
    fix k r server
    assume run: "start_uvicorn_server (\<lambda>k. 25 * int (k - 1)) ?poll 90 = Some (r, server)" "k = 0 \<or> int (k - 1) * 25 < 90"
      and r: "case r of
        Inr port \<Rightarrow> 25 * int (Suc k - 1) < 25 * int (0 - 1) + 90 \<and> thread_alive (?poll k) \<and> bound_port (?poll k) = Some port
          \<and> \<not> should_exit server
      | Inl e \<Rightarrow> (25 * int (0 - 1) + 90 \<le> 25 * int (Suc k - 1) \<or> \<not> thread_alive (?poll k)) \<and> e = framework_exn
          \<and> should_exit server \<and> thread_joined server"
    have "r = Inl framework_exn \<and> 90 \<le> 25 * int k \<and> should_exit server"
      using r by (cases r) (simp_all add: bound_port_def)
    with run show ?thesis by (intro exI [of _ k] exI [of _ server]) auto
  qed
qed

end
