(* ===== verification/Service.thy ===== *)
theory Service
  imports AsyncHttpSafety HttpServer Rest
begin

text \<open>
  The neuron's side of the asynchronous protocol, \<open>async_http_neuron_service.py\<close>: it accepts the
  requests the communicator sends, runs the processor on them in a worker thread each, and posts the
  outcome to the callback URL. JSON, the models of pydantic, URLs and the network are arguments;
  the network acts on a state of its own, so that the callback can be delivered to a communicator.
  A thread is assumed to start.
\<close>

section \<open>The service\<close>

record service_config =
  svc_path :: string
  svc_port :: int
  svc_callback_timeout :: int

record service_job =
  job_request_id :: nat
  job_callback_url :: string
  job_input :: pyval

record service_state =
  svc_server :: "uvicorn_server option"
  svc_bound_port :: "int option"
  svc_workers :: "service_job list"

definition service_init :: "string \<Rightarrow> int \<Rightarrow> int \<Rightarrow> exn + service_config \<times> service_state" where
  "service_init path port callback_timeout =
     (if \<not> (0 \<le> port \<and> port \<le> 65535) then Inl (exn_of ActorMisconfiguredException)
      else
        case validate_positive_timeout callback_timeout of
          Inl e \<Rightarrow> Inl e
        | Inr _ \<Rightarrow>
            (case normalize_http_path path of
               Inl e \<Rightarrow> Inl e
             | Inr p \<Rightarrow> Inr (\<lparr>svc_path = p, svc_port = port, svc_callback_timeout = callback_timeout\<rparr>,
                            \<lparr>svc_server = None, svc_bound_port = None, svc_workers = []\<rparr>)))"

definition service_bound_port :: "service_state \<Rightarrow> exn + int" where
  "service_bound_port s = (case svc_bound_port s of None \<Rightarrow> Inl runtime_error | Some p \<Rightarrow> Inr p)"

text \<open>\<open>started\<close> is the result of \<open>start_uvicorn_server\<close>.\<close>

definition service_start :: "(exn + int) \<times> uvicorn_server \<Rightarrow> (exn, unit, service_state) act" where
  "service_start started =
     bind_act (gets_act svc_server) (\<lambda>server.
       if server \<noteq> None then raise runtime_error
       else
         bind_act (lift_act (fst started)) (\<lambda>port.
           modify_act (\<lambda>s. s\<lparr>svc_server := Some (snd started), svc_bound_port := Some port\<rparr>)))"

text \<open>Stopping returns the handle, told to exit.\<close>

definition service_stop :: "(exn, uvicorn_server option, service_state) act" where
  "service_stop =
     bind_act (gets_act svc_server) (\<lambda>server.
     seq_act (modify_act (\<lambda>s. s\<lparr>svc_server := None, svc_bound_port := None\<rparr>))
       (ret (stop_uvicorn_server server)))"

definition service_running ::
  "(exn + int) \<times> uvicorn_server \<Rightarrow> (exn, unit, service_state) act \<Rightarrow> (exn, unit, service_state) act" where
  "service_running started body =
     seq_act (service_start started)
       (seq_act (try_act body (\<lambda>e. seq_act service_stop (raise e))) (seq_act service_stop (ret ())))"

section \<open>Requests\<close>

record 'w service_env =
  parse_envelope :: "string \<Rightarrow> request_envelope validated"
  validate_input :: "pyval \<Rightarrow> pyval validated"
  svc_processor :: "pyval \<Rightarrow> exn + pyval"
  validate_output :: "pyval \<Rightarrow> exn + pyval"
  dump_output :: "pyval \<Rightarrow> exn + pyval"
  exn_repr :: "exn \<Rightarrow> string"
  dump_json :: "response_envelope \<Rightarrow> exn + string"
  url_parts :: "string \<Rightarrow> exn + string \<times> int option" \<comment> \<open>scheme and port of \<open>httpx.URL\<close>\<close>
  http_post :: "string \<Rightarrow> string \<Rightarrow> 'w \<Rightarrow> http_result \<times> 'w"

definition service_parse :: "('w, 'z) service_env_scheme \<Rightarrow> string \<Rightarrow> (request_envelope \<times> pyval) validated" where
  "service_parse env raw_body =
     (case parse_envelope env raw_body of
        NotValid t \<Rightarrow> NotValid t
      | Broken e \<Rightarrow> Broken e
      | Valid envelope \<Rightarrow>
          (case validate_input env (env_input envelope) of
             NotValid t \<Rightarrow> NotValid t
           | Broken e \<Rightarrow> Broken e
           | Valid x \<Rightarrow> Valid (envelope, x)))"

definition service_accept ::
  "('w, 'z) service_env_scheme \<Rightarrow> rest_request \<Rightarrow> (exn, int \<times> string, service_state) act" where
  "service_accept env rq =
     (case rq_content_length rq of
        None \<Rightarrow> ret (411, ''Content-Length required\<newline>'')
      | Some header \<Rightarrow>
          (case py_int header of
             None \<Rightarrow> ret (400, ''Invalid Content-Length\<newline>'')
           | Some content_length \<Rightarrow>
               (case rq_body rq of
                  Inl _ \<Rightarrow> ret (400, ''Failed reading request body\<newline>'')
                | Inr raw_body \<Rightarrow>
                    if content_length \<noteq> int (length raw_body) then ret (400, ''Invalid Content-Length\<newline>'')
                    else
                      (case service_parse env raw_body of
                         NotValid t \<Rightarrow> ret (400, ''Invalid request body: '' @ t @ ''\<newline>'')
                       | Broken _ \<Rightarrow> ret (400, ''Invalid request body\<newline>'')
                       | Valid (envelope, x) \<Rightarrow>
                           seq_act
                             (modify_act (\<lambda>s. s\<lparr>svc_workers := svc_workers s @
                                [\<lparr>job_request_id = env_request_id envelope, job_callback_url = env_callback_url envelope,
                                  job_input = x\<rparr>]\<rparr>))
                             (ret (202, ''accepted\<newline>''))))))"

definition service_handle_post ::
  "('w, 'z) service_env_scheme \<Rightarrow> service_config \<Rightarrow> rest_request \<Rightarrow> (exn, int \<times> string, service_state) act" where
  "service_handle_post env svc rq =
     (if rq_path rq \<noteq> svc_path svc then ret (404, ''Not Found\<newline>'') else service_accept env rq)"

definition service_handle_get :: "(exn, int \<times> string, service_state) act" where
  "service_handle_get = ret (405, ''Method Not Allowed\<newline>'')"

section \<open>Processing\<close>

definition build_callback_body :: "('w, 'z) service_env_scheme \<Rightarrow> nat \<Rightarrow> pyval \<Rightarrow> exn + string" where
  "build_callback_body env request_id input =
     (let result =
            (case svc_processor env input of
               Inl e \<Rightarrow> Inl e
             | Inr out \<Rightarrow> (case validate_output env out of Inl e \<Rightarrow> Inl e | Inr v \<Rightarrow> dump_output env v))
      in dump_json env
           (case result of
              Inr dumped \<Rightarrow> \<lparr>renv_request_id = request_id, renv_output = Some dumped, renv_error = None\<rparr>
            | Inl e \<Rightarrow> \<lparr>renv_request_id = request_id, renv_output = None,
                        renv_error = Some (''Remote processing failed: '' @ exn_repr env e)\<rparr>))"

definition post_callback :: "('w, 'z) service_env_scheme \<Rightarrow> string \<Rightarrow> string \<Rightarrow> (exn, unit, 'w) act" where
  "post_callback env url body =
     bind_act (lift_act (url_parts env url)) (\<lambda>(scheme, port).
       if scheme \<noteq> ''http'' then raise (exn_of RemoteRequestFailedException)
       else if port = None then raise (exn_of RemoteRequestFailedException)
       else (\<lambda>w. case http_post env url body w of (res, w') \<Rightarrow>
              (case res of
                 HttpStatus _ \<Rightarrow> Inr ()
               | HttpTimeout e \<Rightarrow> Inl (exn_from RemoteRequestFailedException e)
               | HttpRequestError e \<Rightarrow> Inl (exn_from RemoteRequestFailedException e)
               | HttpMtlsError e \<Rightarrow> Inl e
               | HttpOther e \<Rightarrow> Inl e, w')))"

definition process_and_callback :: "('w, 'z) service_env_scheme \<Rightarrow> service_job \<Rightarrow> (exn, unit, 'w) act" where
  "process_and_callback env job =
     bind_act (lift_act (build_callback_body env (job_request_id job) (job_input job))) (\<lambda>body.
       try_act (post_callback env (job_callback_url job) body) (\<lambda>_. ret ()))"

text \<open>The worker thread of the \<open>k\<close>-th job runs to its end and leaves the set of workers.\<close>

definition service_worker_turn ::
  "('w, 'z) service_env_scheme \<Rightarrow> nat \<Rightarrow> service_state \<times> 'w \<Rightarrow> (service_state \<times> 'w) option" where
  "service_worker_turn env k = (\<lambda>(s, w).
     if k < length (svc_workers s)
     then Some (s\<lparr>svc_workers := take k (svc_workers s) @ drop (Suc k) (svc_workers s)\<rparr>,
                snd (process_and_callback env (svc_workers s ! k) w))
     else None)"

section \<open>The two ends of the protocol\<close>

text \<open>A service reached over the network, and a communicator whose callback server is reached over it.\<close>

definition service_network ::
  "('w, 'z) service_env_scheme \<Rightarrow> service_config \<Rightarrow> service_state \<Rightarrow> (request_envelope \<Rightarrow> rest_request) \<Rightarrow>
     request_envelope \<Rightarrow> http_result" where
  "service_network env svc s encode envelope =
     (case fst (service_handle_post env svc (encode envelope) s) of Inr (n, _) \<Rightarrow> HttpStatus n | Inl e \<Rightarrow> HttpOther e)"

definition callback_network ::
  "(string \<Rightarrow> exn + response_envelope) \<Rightarrow> (pyval \<Rightarrow> pyval validated) \<Rightarrow> http_config \<Rightarrow> string \<Rightarrow>
     ('d, 'x) http_world_scheme \<Rightarrow> http_result \<times> ('d, 'x) http_world_scheme" where
  "callback_network parse validate cfg body w =
     (case callback_endpoint parse validate cfg (Some body) w of
        (Inr n, w') \<Rightarrow> (HttpStatus n, w')
      | (Inl e, w') \<Rightarrow> (HttpOther e, w'))"

definition remote_result :: "('w, 'z) service_env_scheme \<Rightarrow> pyval \<Rightarrow> exn + pyval" where
  "remote_result env input =
     (case svc_processor env input of
        Inl e \<Rightarrow> Inl e
      | Inr out \<Rightarrow> (case validate_output env out of Inl e \<Rightarrow> Inl e | Inr v \<Rightarrow> dump_output env v))"

definition remote_envelope :: "('w, 'z) service_env_scheme \<Rightarrow> nat \<Rightarrow> pyval \<Rightarrow> response_envelope" where
  "remote_envelope env request_id input =
     (case remote_result env input of
        Inr dumped \<Rightarrow> \<lparr>renv_request_id = request_id, renv_output = Some dumped, renv_error = None\<rparr>
      | Inl e \<Rightarrow> \<lparr>renv_request_id = request_id, renv_output = None,
                  renv_error = Some (''Remote processing failed: '' @ exn_repr env e)\<rparr>)"

lemma build_callback_body_envelope: "build_callback_body env i x = dump_json env (remote_envelope env i x)"
  by (simp add: build_callback_body_def remote_envelope_def remote_result_def Let_def split: sum.split)

lemma remote_envelope_id [simp]: "renv_request_id (remote_envelope env i x) = i"
  by (simp add: remote_envelope_def split: sum.split)

lemma service_accepts:
  assumes "rq_path rq = svc_path svc" "rq_content_length rq = Some header" "rq_body rq = Inr body"
    "py_int header = Some (int (length body))" "service_parse env body = Valid (envelope, x)"
  shows "service_handle_post env svc rq s = (Inr (202, ''accepted\<newline>''),
      s\<lparr>svc_workers := svc_workers s @ [\<lparr>job_request_id = env_request_id envelope,
           job_callback_url = env_callback_url envelope, job_input = x\<rparr>]\<rparr>)"
  using assms by (simp add: service_handle_post_def service_accept_def seq_act_def bind_act_def modify_act_def)

lemma service_worker_last:
  "service_worker_turn env (length (svc_workers s)) (s\<lparr>svc_workers := svc_workers s @ [job]\<rparr>, w) =
     Some (s, snd (process_and_callback env job w))"
  by (simp add: service_worker_turn_def)

lemma process_and_callback_delivers:
  assumes "url_parts env (job_callback_url job) = Inr (''http'', Some port)"
    and "dump_json env (remote_envelope env (job_request_id job) (job_input job)) = Inr body"
  shows "snd (process_and_callback env job w) = snd (http_post env (job_callback_url job) body w)"
  using assms
  by (auto simp: process_and_callback_def build_callback_body_envelope post_callback_def bind_act_def lift_act_def
      try_act_def split: prod.split sum.split http_result.split)

lemma snd_callback_network:
  "snd (callback_network parse validate cfg body w) = snd (callback_endpoint parse validate cfg (Some body) w)"
  by (simp add: callback_network_def split: prod.split sum.split)

section \<open>Properties\<close>

text \<open>C8: a request sent to a service comes back. When the service receives the envelope of a pending request
  intact and the callback URL is plain HTTP with a port, the sender sees it accepted, and the one
  worker it starts resolves exactly that request: the communicator emits one event with the saved input and either the
  output of the processor, checked by the service and by the communicator, or a remote
  execution failure, or a validation failure, and none only when its own validation breaks.\<close>

theorem remote_round_trip:
  fixes w :: "('d, 'x) http_world_scheme" and env :: "(('d, 'x) http_world_scheme, 'z) service_env_scheme"
  assumes "deepdiff_total dd" and "http_reach dd cfg (w, inputs, outs)"
    and pending: "dict_get (requests w) (ps_request_id ps) = Some r"
    and sent: "callback_url senv cfg = Inr u" "dump_input senv (ps_payload ps) = Inr x"
    and network: "post senv (ps_target ps) (ps_target_url ps) = service_network env svc s encode"
    and arrives: "encode \<lparr>env_request_id = ps_request_id ps, env_callback_url = u, env_input = x\<rparr> =
        \<lparr>rq_path = svc_path svc, rq_method = ''POST'', rq_content_length = Some header, rq_body = Inr body\<rparr>"
    and intact: "py_int header = Some (int (length body))"
      "service_parse env body = Valid (\<lparr>env_request_id = ps_request_id ps, env_callback_url = u, env_input = x\<rparr>, v)"
    and reply: "url_parts env u = Inr (''http'', Some port)" "dump_json env (remote_envelope env (ps_request_id ps) v) = Inr t"
      "parse t = Inr (remote_envelope env (ps_request_id ps) v)" "http_post env u = callback_network parse validate cfg"
  shows "send_request senv cfg ps = Inr ()
    \<and> (\<exists>s' saved w'.
        service_handle_post env svc
          (encode \<lparr>env_request_id = ps_request_id ps, env_callback_url = u, env_input = x\<rparr>) s = (Inr (202, ''accepted\<newline>''), s')
      \<and> service_worker_turn env (length (svc_workers s)) (s', w) = Some (s, w')
      \<and> saved_input (cfg_comm cfg) w (req_ctx r) saved
      \<and> w' = w\<lparr>requests := dict_del (ps_request_id ps) (requests w), bus_in := bus_in w @
          verdict_events cfg (req_ctx r) saved
            (case remote_result env v of
               Inl _ \<Rightarrow> Some (PExn (executor_failure (exn_of RemoteExecutionException)))
             | Inr dumped \<Rightarrow>
                 (case validate dumped of
                    Valid out \<Rightarrow> Some out
                  | NotValid _ \<Rightarrow> Some (PExn (executor_failure (exn_of ResponseValidationException)))
                  | Broken _ \<Rightarrow> None))\<rparr>)"
proof -
  let ?e = "\<lparr>env_request_id = ps_request_id ps, env_callback_url = u, env_input = x\<rparr>"
  let ?job = "\<lparr>job_request_id = ps_request_id ps, job_callback_url = u, job_input = v\<rparr>"
  let ?s = "s\<lparr>svc_workers := svc_workers s @ [?job]\<rparr>"
  let ?m = "remote_envelope env (ps_request_id ps) v"
  have accepted: "service_handle_post env svc (encode ?e) s = (Inr (202, ''accepted\<newline>''), ?s)"
    using service_accepts [of "encode ?e" svc header body env ?e v s] arrives intact by simp
  have "send_request senv cfg ps = Inr ()"
    unfolding send_request_def sent sum.case network by (simp add: service_network_def accepted)
  moreover
  have inv: "http_inv dd cfg w" using http_reach_balanced [OF assms(2,1)] by (simp add: balanced_def)
  have "dict_get (requests w) (renv_request_id ?m) = Some r" using pending by simp
  from callback_endpoint_resolves [of dd cfg w parse t, OF inv reply(3) this, of validate] obtain saved where
    saved: "saved_input (cfg_comm cfg) w (req_ctx r) saved" and
    run: "callback_endpoint parse validate cfg (Some t) w = (Inr (fst (callback_verdict validate ?m)),
        w\<lparr>requests := dict_del (ps_request_id ps) (requests w), bus_in := bus_in w @
          verdict_events cfg (req_ctx r) saved (snd (callback_verdict validate ?m))\<rparr>)" (is "_ = (_, ?w')")
    unfolding remote_envelope_id by blast
  have "snd (process_and_callback env ?job w) = ?w'"
    using process_and_callback_delivers [of env ?job port t w] reply by (simp add: snd_callback_network run)
  then have "service_worker_turn env (length (svc_workers s)) (?s, w) = Some (s, ?w')"
    unfolding service_worker_last by simp
  moreover have "snd (callback_verdict validate ?m) =
      (case remote_result env v of
         Inl _ \<Rightarrow> Some (PExn (executor_failure (exn_of RemoteExecutionException)))
       | Inr dumped \<Rightarrow>
           (case validate dumped of
              Valid out \<Rightarrow> Some out
            | NotValid _ \<Rightarrow> Some (PExn (executor_failure (exn_of ResponseValidationException)))
            | Broken _ \<Rightarrow> None))"
    by (simp add: callback_verdict_def remote_envelope_def split: sum.split validated.split)
  ultimately show ?thesis using accepted saved by auto
qed

text \<open>The service never calls back a URL that \<open>httpx\<close> reads as not plain HTTP or as having no port, which
  is also how it reads the default port; the request then waits for the timeout sweep.\<close>

theorem unreachable_callback_is_dropped:
  assumes "url_parts env (job_callback_url job) = Inr (scheme, port)" and "scheme \<noteq> ''http'' \<or> port = None"
    and "build_callback_body env (job_request_id job) (job_input job) = Inr body"
  shows "process_and_callback env job w = (Inr (), w)"
  using assms by (auto simp: process_and_callback_def post_callback_def bind_act_def lift_act_def try_act_def)

theorem remote_round_trip_witness:
  "\<exists>(w :: pyval http_world) (w' :: pyval http_world) (s' :: service_state) (job :: service_job) saved.
     http_reach plain_diff demo_http_config (w, [Uuid 0], [])
     \<and> svc_workers s' = [job] \<and> job_request_id job = uuids demo_http_world
     \<and> bus_in w' = [SendEvent (Uuid 0) (Source ''h-left-source'') (PProcessed (ProcessedInput saved (PInt 7)))]"
proof -
  from demo_http_input obtain w :: "pyval http_world" and r where
    w: "http_reach plain_diff demo_http_config (w, [Uuid 0], [])" "bus_in w = []"
    "dict_get (requests w) (uuids demo_http_world) = Some r" "req_ctx r = Uuid 0" by blast
  let ?i = "uuids demo_http_world"
  let ?e = "\<lparr>env_request_id = ?i, env_callback_url = ''http://v:8100/cb'', env_input = PInt 3\<rparr>"
  let ?ps = "\<lparr>ps_request_id = ?i, ps_ctx = Uuid 0, ps_target_url = ''t'', ps_target = demo_neuron, ps_payload = PInt 3\<rparr>"
  let ?m = "\<lparr>renv_request_id = ?i, renv_output = Some (PInt 7), renv_error = None\<rparr>"
  let ?rq = "\<lparr>rq_path = ''/work'', rq_method = ''POST'', rq_content_length = Some ''2'', rq_body = Inr ''{}''\<rparr>"
  let ?svc = "\<lparr>svc_path = ''/work'', svc_port = 9000, svc_callback_timeout = 5\<rparr>"
  let ?s = "\<lparr>svc_server = None, svc_bound_port = None, svc_workers = []\<rparr> :: service_state"
  let ?env = "(\<lparr>parse_envelope = (\<lambda>_. Valid ?e), validate_input = Valid, svc_processor = (\<lambda>_. Inr (PInt 7)),
      validate_output = Inr, dump_output = Inr, exn_repr = (\<lambda>_. []), dump_json = (\<lambda>_. Inr ''reply''),
      url_parts = (\<lambda>_. Inr (''http'', Some 8100)), http_post = (\<lambda>_. callback_network (\<lambda>_. Inr ?m) Valid demo_http_config)\<rparr>) :: pyval http_world service_env"
  let ?senv = "\<lparr>validate_url = (\<lambda>_. Inr ''http://v:8100/cb''), dump_input = Inr,
      post = (\<lambda>_ _. service_network ?env ?svc ?s (\<lambda>_. ?rq))\<rparr>"
  have length_ok: "py_int ''2'' = Some (int (length ''{}''))" by code_simp
  have reply: "remote_envelope ?env ?i (PInt 3) = ?m" by (simp add: remote_envelope_def remote_result_def)
  have ok: "tr_ok (comm_transform (cfg_comm demo_http_config)) = Source ''h-left-source''"
    by (simp add: demo_http_config_def mk_communicator_def mk_fork_def)
  have parsed: "service_parse ?env ''{}'' = Valid (?e, PInt 3)" by (simp add: service_parse_def)
  have url: "callback_url ?senv demo_http_config = Inr ''http://v:8100/cb''" by (simp add: callback_url_def)
  have "\<exists>s' saved w'. service_handle_post ?env ?svc ?rq ?s = (Inr (202, ''accepted\<newline>''), s') \<and>
      service_worker_turn ?env 0 (s', w) = Some (?s, w') \<and> bus_in w' =
        [SendEvent (Uuid 0) (Source ''h-left-source'') (PProcessed (ProcessedInput saved (PInt 7)))]"
    using remote_round_trip [of plain_diff demo_http_config w "[Uuid 0]" "[]" ?ps r ?senv "''http://v:8100/cb''" "PInt 3"
        ?env ?svc ?s "\<lambda>_. ?rq" "''2''" "''{}''" "PInt 3" 8100 "''reply''" "\<lambda>_. Inr ?m" Valid,
        OF plain_diff_total w(1)] w length_ok reply parsed url ok
    by (fastforce simp: remote_result_def verdict_events_def)
  then obtain s' saved and w' :: "pyval http_world" where run: "service_handle_post ?env ?svc ?rq ?s = (Inr (202, ''accepted\<newline>''), s')"
    and evs: "bus_in w' = [SendEvent (Uuid 0) (Source ''h-left-source'') (PProcessed (ProcessedInput saved (PInt 7)))]"
    by blast
  let ?job = "\<lparr>job_request_id = ?i, job_callback_url = ''http://v:8100/cb'', job_input = PInt 3\<rparr>"
  have "service_handle_post ?env ?svc ?rq ?s = (Inr (202, ''accepted\<newline>''), ?s\<lparr>svc_workers := svc_workers ?s @
      [\<lparr>job_request_id = env_request_id ?e, job_callback_url = env_callback_url ?e, job_input = PInt 3\<rparr>]\<rparr>)"
    by (rule service_accepts [OF _ _ _ length_ok parsed]) simp_all
  with run have "svc_workers s' = [?job]" by auto
  moreover have "job_request_id ?job = ?i" by simp
  ultimately show ?thesis using w(1) evs by blast
qed

end
