(* ===== verification/SenderLoop.thy ===== *)
theory SenderLoop
  imports AsyncHttpSafety HttpServer
begin

text \<open>
  The life of the communicator's background threads: the bootstrap, the group of workers and the
  stop of \<open>sender_loop_runtime.py\<close>, and the start and stop of \<open>callback_http_server_runtime.py\<close> and
  \<open>timeout_sweep_runtime.py\<close>. The workers of the sender share one queue and one event loop, so
  that their turns never overlap.
\<close>

section \<open>Starting\<close>

text \<open>What the sender's thread puts into the bootstrap queue before the wait for it ends.\<close>

datatype bootstrap = NoBootstrap | BootstrapRaised exn | Bootstrapped

definition run_bootstrap :: "exn + unit \<Rightarrow> bool \<Rightarrow> bootstrap" where
  "run_bootstrap loop_made in_time =
     (if \<not> in_time then NoBootstrap else case loop_made of Inl e \<Rightarrow> BootstrapRaised e | Inr _ \<Rightarrow> Bootstrapped)"

definition sender_start :: "bootstrap \<Rightarrow> exn + unit" where
  "sender_start b =
     (case b of
        NoBootstrap \<Rightarrow> Inl (exn_from InternalFrameworkException (exn_of (OtherException ''Empty'')))
      | BootstrapRaised e \<Rightarrow> Inl (exn_from InternalFrameworkException e)
      | Bootstrapped \<Rightarrow> Inr ())"

text \<open>The outcome of starting the callback server, with its handle; \<open>None\<close> is a start that never ends.\<close>

definition callback_server_start ::
  "(nat \<Rightarrow> int) \<Rightarrow> (nat \<Rightarrow> server_poll) \<Rightarrow> int \<Rightarrow> ((exn + int) \<times> uvicorn_server) option" where
  "callback_server_start now poll start_timeout = start_uvicorn_server now poll start_timeout"

definition callback_server_stop :: "uvicorn_server \<Rightarrow> uvicorn_server option" where
  "callback_server_stop server = stop_uvicorn_server (Some server)"

section \<open>The workers of the sender\<close>

text \<open>At most \<open>n\<close> turns of a loop with \<open>active\<close> workers; a worker that raises ends the loop.\<close>

fun sender_loop_run ::
  "sender_env \<Rightarrow> http_config \<Rightarrow> nat \<Rightarrow> nat \<Rightarrow> ('d, 'x) http_world_scheme \<Rightarrow> (exn + nat) \<times> ('d, 'x) http_world_scheme" where
  "sender_loop_run env cfg 0 active w = (Inr active, w)"
| "sender_loop_run env cfg (Suc n) active w =
     (if active = 0 then (Inr 0, w)
      else
        case sender_worker_turn env cfg w of
          None \<Rightarrow> (Inr active, w)
        | Some (Inl e, w') \<Rightarrow> (Inl e, w')
        | Some (Inr goes_on, w') \<Rightarrow> sender_loop_run env cfg n (if goes_on then active else active - 1) w')"

text \<open>The loop of the sweep over the turns before the stop signal is seen.\<close>

fun timeout_sweep_loop :: "http_config \<Rightarrow> nat \<Rightarrow> (exn, unit, ('d, 'x) http_world_scheme) act" where
  "timeout_sweep_loop cfg 0 = ret ()"
| "timeout_sweep_loop cfg (Suc turns) = seq_act (timeout_sweep_turn cfg) (timeout_sweep_loop cfg turns)"

section \<open>Turns\<close>

lemma fail_pending_result:
  assumes "http_inv dd cfg w"
  shows "\<exists>w'. fail_pending_request (cfg_comm cfg) i e w = (Inr (), w') \<and> http_inv dd cfg w'
     \<and> send_queue w' = send_queue w \<and> requests w' = dict_del i (requests w)"
proof -
  have "\<exists>w'. fail_pending_request (cfg_comm cfg) i e w = (Inr (), w')
     \<and> send_queue w' = send_queue w \<and> requests w' = dict_del i (requests w)"
  proof (cases "dict_get (requests w) i")
    case None
    have "dict_del i (requests w) = requests w" using None by (simp add: AList.delete_idem map_of_eq_None_iff)
    then show ?thesis using None by (simp add: fail_pending_request_def bind_act_def pop_request_def pending_pop_def)
  next
    case (Some r)
    from pop_request_some(1,3) [OF assms Some] obtain v where
      pop: "pop_request i w = (Inr (Some r), w\<lparr>requests := dict_del i (requests w)\<rparr>)" and
      v: "saved_input (cfg_comm cfg) (w\<lparr>requests := dict_del i (requests w)\<rparr>) (req_ctx r) v" by blast
    show ?thesis by (simp add: fail_pending_request_def bind_act_apply [of "pop_request i" w, OF pop] emit_executor_error_run [OF v])
  qed
  moreover have "http_inv dd cfg w'" if "fail_pending_request (cfg_comm cfg) i e w = (Inr (), w')" for w'
    using fail_pending_accounts [OF assms, of i e] that by (auto simp: accounts_def)
  ultimately show ?thesis by blast
qed

lemma http_inv_queue: "http_inv dd cfg w \<Longrightarrow> http_inv dd cfg (w\<lparr>send_queue := q\<rparr>)"
  by (rule http_inv_cong) simp_all

text \<open>A turn on a request: it leaves the queue, and it leaves the store when its sending fails.\<close>

lemma worker_turn_send:
  assumes "http_inv dd cfg w" "send_queue w = SendItem ps # q"
  shows "\<exists>w'. sender_worker_turn env cfg w = Some (Inr True, w') \<and> http_inv dd cfg w' \<and> send_queue w' = q
     \<and> requests w' = (case send_request env cfg ps of Inr _ \<Rightarrow> requests w | Inl _ \<Rightarrow> dict_del (ps_request_id ps) (requests w))"
proof (cases "send_request env cfg ps")
  case (Inr u)
  then show ?thesis using http_inv_queue [OF assms(1)] by (simp add: sender_worker_turn_def assms(2) seq_act_def bind_act_def)
next
  case (Inl e)
  let ?e = "if is_async_http_class (exn_class e) then e else exn_of RemoteRequestFailedException"
  have "http_inv dd cfg (w\<lparr>send_queue := q\<rparr>)" using assms(1) by (rule http_inv_queue)
  from fail_pending_result [OF this, of "ps_request_id ps" ?e] obtain w' where
    "fail_pending_request (cfg_comm cfg) (ps_request_id ps) ?e (w\<lparr>send_queue := q\<rparr>) = (Inr (), w')" "http_inv dd cfg w'"
    "send_queue w' = q" "requests w' = dict_del (ps_request_id ps) (requests w)" by auto
  then show ?thesis by (simp add: sender_worker_turn_def assms(2) Inl seq_act_def bind_act_def)
qed

text \<open>The stop signals end one worker each; the others wait for ever.\<close>

lemma workers_stop:
  "http_inv dd cfg w \<Longrightarrow> send_queue w = replicate m StopSenderLoopSignal \<Longrightarrow> m \<le> a \<Longrightarrow> m \<le> n \<Longrightarrow>
     sender_loop_run env cfg n a w = (Inr (a - m), w\<lparr>send_queue := []\<rparr>)"
proof (induction n arbitrary: w m a)
  case (Suc n)
  show ?case
  proof (cases m)
    case 0
    then have "w\<lparr>send_queue := []\<rparr> = w" using Suc.prems(2) by simp
    with 0 Suc.prems(2) show ?thesis by (simp add: sender_worker_turn_def)
  next
    case (Suc k)
    let ?w = "w\<lparr>send_queue := replicate k StopSenderLoopSignal\<rparr>"
    have "sender_loop_run env cfg n (a - 1) ?w = (Inr (a - 1 - k), ?w\<lparr>send_queue := []\<rparr>)"
      using Suc.IH [of ?w k "a - 1"] Suc.prems Suc by (simp add: http_inv_queue)
    with Suc Suc.prems show ?thesis by (simp add: sender_worker_turn_def)
  qed
qed simp

text \<open>The requests of the items whose sending fails.\<close>

definition unsent :: "sender_env \<Rightarrow> http_config \<Rightarrow> pending_send list \<Rightarrow> nat \<Rightarrow> bool" where
  "unsent env cfg items i \<longleftrightarrow> (\<exists>ps \<in> set items. ps_request_id ps = i \<and> isl (send_request env cfg ps))"

lemma workers_drain:
  "http_inv dd cfg w \<Longrightarrow> send_queue w = map SendItem items @ replicate m StopSenderLoopSignal \<Longrightarrow> m \<le> a \<Longrightarrow> 0 < a \<Longrightarrow>
     \<exists>w'. sender_loop_run env cfg (length items + a) a w = (Inr (a - m), w') \<and> send_queue w' = []
       \<and> (\<forall>i. dict_get (requests w') i = (if unsent env cfg items i then None else dict_get (requests w) i))"
proof (induction items arbitrary: w)
  case Nil
  then have "sender_loop_run env cfg a a w = (Inr (a - m), w\<lparr>send_queue := []\<rparr>)" by (intro workers_stop) simp_all
  then show ?case by (auto simp: unsent_def)
next
  case (Cons ps items)
  from worker_turn_send [OF Cons.prems(1), of ps _ env] Cons.prems(2) obtain w1 where
    w1: "sender_worker_turn env cfg w = Some (Inr True, w1)" "http_inv dd cfg w1"
    "send_queue w1 = map SendItem items @ replicate m StopSenderLoopSignal"
    "requests w1 = (case send_request env cfg ps of Inr _ \<Rightarrow> requests w | Inl _ \<Rightarrow> dict_del (ps_request_id ps) (requests w))"
    by auto
  from Cons.IH [OF w1(2,3) Cons.prems(3,4)] obtain w' where
    w': "sender_loop_run env cfg (length items + a) a w1 = (Inr (a - m), w')" "send_queue w' = []"
    "\<forall>i. dict_get (requests w') i = (if unsent env cfg items i then None else dict_get (requests w1) i)" by blast
  have "sender_loop_run env cfg (length (ps # items) + a) a w = (Inr (a - m), w')"
    using w'(1) w1(1) Cons.prems(4) by simp
  moreover have "dict_get (requests w') i = (if unsent env cfg (ps # items) i then None else dict_get (requests w) i)" for i
    using w'(3) [rule_format, of i] w1(4) by (cases "send_request env cfg ps") (auto simp: unsent_def)
  ultimately show ?case using w'(2) by blast
qed

section \<open>Properties\<close>

text \<open>C30: stopping the sender ends. With the \<open>n\<close> workers the configuration asks for and a queue of requests, the
  workers need no more turns than there are requests and workers: every queued request is sent or its
  record failed first, the queue is empty, no worker raises, and as many workers end as stop
  signals were queued in time, all of them when none was late.\<close>

theorem sender_shutdown_drains:
  fixes w :: "('d, 'x) http_world_scheme"
  assumes "deepdiff_total dd" and "http_reach dd cfg (w, inputs, outs)" and "send_queue w = map SendItem items"
    and "0 < max_in_flight cfg"
  shows "\<exists>w1 w'. enqueue_stop_signals queued cfg w = (Inr (), w1)
    \<and> sender_loop_run env cfg (length items + nat (max_in_flight cfg)) (nat (max_in_flight cfg)) w1
        = (Inr (nat (max_in_flight cfg) - queued), w')
    \<and> send_queue w' = []
    \<and> (\<forall>i. dict_get (requests w') i = (if unsent env cfg items i then None else dict_get (requests w) i))"
proof -
  let ?a = "nat (max_in_flight cfg)"
  let ?q = "send_queue w @ replicate (min queued ?a) StopSenderLoopSignal"
  have "http_inv dd cfg w" using http_reach_balanced [OF assms(2,1)] by (simp add: balanced_def)
  then have "http_inv dd cfg (w\<lparr>send_queue := ?q\<rparr>)" by (rule http_inv_queue)
  from workers_drain [OF this, of items "min queued ?a" ?a env] assms(3,4)
  show ?thesis by (auto simp: enqueue_stop_signals_def modify_act_def min_def)
qed

theorem sender_shutdown_drains_witness:
  "\<exists>(w :: pyval http_world) w'. http_reach plain_diff demo_http_config (w, [], []) \<and> length (send_queue w) = 1
     \<and> sender_loop_run \<lparr>validate_url = Inr, dump_input = (\<lambda>_. Inl value_error), post = (\<lambda>_ _ _. HttpStatus 202)\<rparr> demo_http_config 3 2
         (snd (enqueue_stop_signals 2 demo_http_config w)) = (Inr 0, w') \<and> send_queue w' = []"
proof -
  let ?ps = "\<lparr>ps_request_id = 0, ps_ctx = Uuid 0, ps_target_url = ''t'', ps_target = demo_neuron, ps_payload = PInt 3\<rparr>"
  let ?w = "demo_http_world\<lparr>send_queue := [SendItem ?ps]\<rparr>"
  have start: "http_reach plain_diff demo_http_config (demo_http_world, [], [])"
    by (rule http_reach.start) (simp_all add: demo_http_reach demo_http_eval)
  have "store_inv plain_diff ?w"
    by (rule store_inv_env [OF store_reach_inv [OF demo_http_reach plain_diff_ok]]) simp_all
  with start have reach: "http_reach plain_diff demo_http_config (?w, [], [])"
    by (rule http_reach.elsewhere) (auto simp: saved_input_def)
  have "send_queue ?w = map SendItem [?ps]" by simp
  moreover have two: "max_in_flight demo_http_config = 2" by (simp add: demo_http_config_def)
  moreover have three: "length [?ps] + nat 2 = 3" by simp
  ultimately have "send_queue ?w = map SendItem [?ps]" "0 < max_in_flight demo_http_config" by simp_all
  from sender_shutdown_drains [OF plain_diff_total reach this, of 2 "\<lparr>validate_url = Inr, dump_input = (\<lambda>_. Inl value_error), post = (\<lambda>_ _ _. HttpStatus 202)\<rparr>"]
  have "\<exists>w'. sender_loop_run \<lparr>validate_url = Inr, dump_input = (\<lambda>_. Inl value_error), post = (\<lambda>_ _ _. HttpStatus 202)\<rparr> demo_http_config 3 2
         (snd (enqueue_stop_signals 2 demo_http_config ?w)) = (Inr 0, w') \<and> send_queue w' = []"
    unfolding two three by (auto simp del: sender_loop_run.simps)
  then obtain w' where "sender_loop_run \<lparr>validate_url = Inr, dump_input = (\<lambda>_. Inl value_error), post = (\<lambda>_ _ _. HttpStatus 202)\<rparr> demo_http_config 3 2
         (snd (enqueue_stop_signals 2 demo_http_config ?w)) = (Inr 0, w') \<and> send_queue w' = []" by blast
  moreover have "length (send_queue ?w) = 1" by simp
  ultimately show ?thesis using reach by blast
qed

end
