(* ===== verification/Locks.thy ===== *)
theory Locks
  imports ContextStore "HOL-Library.Product_Lexorder"
begin

text \<open>
  \<open>ThreadContextStoreLocks\<close> of \<open>core/runtime/context_store.py\<close> under threads. Elsewhere a handler
  sees a lock as registered or not; here several threads run at once, each a sequence of lock
  operations, the locks of one thread nested as \<open>with\<close> blocks nest them. A lock is reentrant. A step
  of a body may raise, which makes the thread leave its blocks and end; a thread that waits for a
  lock does nothing else, so threads that wait for each other are stuck. Mutual exclusion holds
  of arbitrary threads. Deadlock freedom is shown of threads that run calls of the store, nested
  upwards: the contexts of one \<open>create_context\<close> by id, and nested calls by level and then id.
  All contexts are of one level but for the timestamper, whose handler of a block beat
  locks the contexts of queued outputs inside the beat's: the outputs are a level above the beats.
\<close>

section \<open>Locks\<close>

datatype rlock = Free | Held nat nat \<comment> \<open>the thread that owns it, and how often\<close>

type_synonym registry = "(context_id, rlock) dict"

fun rlock_acquire :: "nat \<Rightarrow> rlock \<Rightarrow> rlock option" where
  "rlock_acquire t Free = Some (Held t 1)"
| "rlock_acquire t (Held owner n) = (if owner = t then Some (Held t (Suc n)) else None)"

fun rlock_release :: "nat \<Rightarrow> rlock \<Rightarrow> exn + rlock" where
  "rlock_release t Free = Inl runtime_error"
| "rlock_release t (Held owner n) =
     (if owner \<noteq> t then Inl runtime_error else Inr (if n \<le> 1 then Free else Held t (n - 1)))"

text \<open>\<open>register_context\<close>, and \<open>lock_context\<close> up to its body and after it; \<open>None\<close> is a thread that waits. The lock
  that is looked up stays the same object, so the wait for it is one step.\<close>

definition registry_register :: "context_id \<Rightarrow> registry \<Rightarrow> exn + registry" where
  "registry_register c reg = (if dict_has reg c then Inl framework_exn else Inr (dict_set c Free reg))"

definition registry_enter :: "nat \<Rightarrow> context_id \<Rightarrow> registry \<Rightarrow> (exn + registry) option" where
  "registry_enter t c reg =
     (case dict_get reg c of
        None \<Rightarrow> Some (Inl (exn_of InvalidContextIdException))
      | Some l \<Rightarrow> map_option (\<lambda>l'. Inr (dict_set c l' reg)) (rlock_acquire t l))"

definition registry_leave :: "nat \<Rightarrow> context_id \<Rightarrow> registry \<Rightarrow> exn + registry" where
  "registry_leave t c reg =
     (case dict_get reg c of
        None \<Rightarrow> Inl runtime_error
      | Some l \<Rightarrow> (case rlock_release t l of Inl e \<Rightarrow> Inl e | Inr l' \<Rightarrow> Inr (dict_set c l' reg)))"

section \<open>The interface\<close>

text \<open>What the store relies on from \<open>ContextStoreLocks\<close>: \<open>depth\<close> says how often a thread holds the lock of a
  context, and only one thread can hold it.\<close>

locale context_locks =
  fixes sound :: "'s \<Rightarrow> bool"
    and depth :: "'s \<Rightarrow> context_id \<Rightarrow> nat \<Rightarrow> nat"
    and register :: "context_id \<Rightarrow> 's \<Rightarrow> exn + 's"
    and enter :: "nat \<Rightarrow> context_id \<Rightarrow> 's \<Rightarrow> (exn + 's) option"
    and leave :: "nat \<Rightarrow> context_id \<Rightarrow> 's \<Rightarrow> exn + 's"
  assumes one_owner: "sound s \<Longrightarrow> 0 < depth s c t \<Longrightarrow> 0 < depth s c u \<Longrightarrow> t = u"
    and register_new: "sound s \<Longrightarrow> register c s = Inr s' \<Longrightarrow> sound s' \<and> depth s' = depth s"
    and enter_taken: "sound s \<Longrightarrow> enter t c s = Some (Inr s') \<Longrightarrow>
      sound s' \<and> depth s' = (depth s)(c := (depth s c)(t := Suc (depth s c t)))"
    and enter_waits: "sound s \<Longrightarrow> enter t c s = None \<Longrightarrow> \<exists>u. u \<noteq> t \<and> 0 < depth s c u"
    and leave_held: "sound s \<Longrightarrow> 0 < depth s c t \<Longrightarrow>
      \<exists>s'. leave t c s = Inr s' \<and> sound s' \<and> depth s' = (depth s)(c := (depth s c)(t := depth s c t - 1))"
begin

text \<open>The open blocks of a thread are what it holds; its turns change nothing for the others.\<close>

definition holds :: "'s \<Rightarrow> nat \<Rightarrow> context_id list \<Rightarrow> bool" where
  "holds s t held \<longleftrightarrow> (\<forall>c. count_list held c = depth s c t)"

lemma exclusive: "sound s \<Longrightarrow> holds s t xs \<Longrightarrow> holds s u ys \<Longrightarrow> c \<in> set xs \<Longrightarrow> c \<in> set ys \<Longrightarrow> t = u"
  using one_owner [of s c t u] by (metis count_list_0_iff holds_def neq0_conv)

lemma enter_holds:
  "sound s \<Longrightarrow> holds s t held \<Longrightarrow> enter t c s = Some (Inr s') \<Longrightarrow>
     sound s' \<and> holds s' t (c # held) \<and> (\<forall>u. u \<noteq> t \<longrightarrow> (\<forall>c. depth s' c u = depth s c u))"
  using enter_taken [of s t c s'] by (auto simp: holds_def)

lemma leave_holds:
  assumes "sound s" "holds s t (c # held)"
  shows "\<exists>s'. leave t c s = Inr s' \<and> sound s' \<and> holds s' t held \<and> (\<forall>u. u \<noteq> t \<longrightarrow> (\<forall>c. depth s' c u = depth s c u))"
proof -
  have depth: "Suc (count_list held c) = depth s c t" using assms(2) [unfolded holds_def, rule_format, of c] by simp
  with leave_held [OF assms(1), of c t] obtain s' where
    s': "leave t c s = Inr s'" "sound s'" "depth s' = (depth s)(c := (depth s c)(t := depth s c t - 1))" by auto
  have "holds s' t held"
    unfolding holds_def
  proof
    fix c' show "count_list held c' = depth s' c' t"
      using assms(2) [unfolded holds_def, rule_format, of c'] depth by (cases "c' = c") (simp_all add: s'(3))
  qed
  with s' show ?thesis by auto
qed

end

section \<open>Threads\<close>

text \<open>A thread is the stack of the contexts it has locked and what it still does; \<open>Leave\<close> ends the innermost
  block and \<open>Work\<close> is a step inside blocks. A raise replaces what is left by leaving every block.\<close>

datatype lock_op = Register context_id | Enter context_id | Leave | Work

type_synonym thread = "context_id list \<times> lock_op list"

abbreviation unwinding :: "context_id list \<Rightarrow> lock_op list" where
  "unwinding held \<equiv> replicate (length held) Leave"

text \<open>One operation of thread \<open>t\<close>; \<open>None\<close> when it has nothing to do or waits for a lock.\<close>

fun thread_turn :: "nat \<Rightarrow> registry \<Rightarrow> thread \<Rightarrow> (registry \<times> thread) option" where
  "thread_turn t reg (held, []) = None"
| "thread_turn t reg (held, Work # ops) = Some (reg, (held, ops))"
| "thread_turn t reg (held, Register c # ops) =
     (case registry_register c reg of
        Inl _ \<Rightarrow> Some (reg, (held, unwinding held))
      | Inr reg' \<Rightarrow> Some (reg', (held, ops)))"
| "thread_turn t reg (held, Enter c # ops) =
     (case registry_enter t c reg of
        None \<Rightarrow> None
      | Some (Inl _) \<Rightarrow> Some (reg, (held, unwinding held))
      | Some (Inr reg') \<Rightarrow> Some (reg', (c # held, ops)))"
| "thread_turn t reg ([], Leave # ops) = Some (reg, ([], ops))"
| "thread_turn t reg (c # held, Leave # ops) =
     (case registry_leave t c reg of
        Inl _ \<Rightarrow> Some (reg, (held, unwinding held))
      | Inr reg' \<Rightarrow> Some (reg', (held, ops)))"

inductive lock_step :: "registry \<times> thread list \<Rightarrow> registry \<times> thread list \<Rightarrow> bool" where
  turn: "i < length ths \<Longrightarrow> thread_turn i reg (ths ! i) = Some (reg', th) \<Longrightarrow> lock_step (reg, ths) (reg', ths[i := th])"
| raised: "i < length ths \<Longrightarrow> ths ! i = (held, Work # ops) \<Longrightarrow> lock_step (reg, ths) (reg, ths[i := (held, unwinding held)])"

inductive lock_run :: "registry \<times> thread list \<Rightarrow> nat \<Rightarrow> registry \<times> thread list \<Rightarrow> bool" for st0 where
  start: "lock_run st0 0 st0"
| step: "lock_run st0 n st \<Longrightarrow> lock_step st st' \<Longrightarrow> lock_run st0 (Suc n) st'"

definition locks_free :: "registry \<Rightarrow> bool" where
  "locks_free reg \<longleftrightarrow> (\<forall>c l. dict_get reg c = Some l \<longrightarrow> l = Free)"

text \<open>Threads that can move no more and are not done.\<close>

definition deadlocked :: "registry \<times> thread list \<Rightarrow> bool" where
  "deadlocked st \<longleftrightarrow> (\<nexists>st'. lock_step st st') \<and> (\<exists>th \<in> set (snd st). th \<noteq> ([], []))"

section \<open>The calls of the store\<close>

text \<open>The operations of \<open>get_context\<close> around a body, and of \<open>create_context\<close>, whose parents are locked in the order of
  their ids whatever order they are named in. Both look up contexts inside the blocks, which may raise.\<close>

definition get_context_ops :: "context_id \<Rightarrow> lock_op list \<Rightarrow> lock_op list" where
  "get_context_ops c body = Enter c # Work # body @ [Leave]"

definition create_context_ops :: "context_id list \<Rightarrow> context_id \<Rightarrow> lock_op list \<Rightarrow> lock_op list" where
  "create_context_ops parents child body =
     (let parent_ids = sort (dedup parents) in
      map Enter parent_ids @ [Work, Register child, Work] @ replicate (length parent_ids) Leave @ Enter child # body @ [Leave])"

datatype store_call =
  OtherWork
| GetContext context_id "store_call list"
| CreateContext "context_id list" context_id "store_call list"

fun call_ops :: "store_call \<Rightarrow> lock_op list" where
  "call_ops OtherWork = [Work]"
| "call_ops (GetContext c body) = get_context_ops c (concat (map call_ops body))"
| "call_ops (CreateContext parents child body) = create_context_ops parents child (concat (map call_ops body))"

abbreviation calls_ops :: "store_call list \<Rightarrow> lock_op list" where
  "calls_ops calls \<equiv> concat (map call_ops calls)"

text \<open>Threads about to run calls; none holds anything yet.\<close>

definition sessions :: "registry \<Rightarrow> store_call list list \<Rightarrow> registry \<times> thread list" where
  "sessions reg css = (reg, map (\<lambda>calls. ([], calls_ops calls)) css)"

text \<open>Inside a context, a call may lock it again or one above all that is held; the parents of a creation are
  of one level, and the new context is above all that is held around the call.\<close>

definition rank_of :: "(context_id \<Rightarrow> nat) \<Rightarrow> context_id \<Rightarrow> nat \<times> context_id" where
  "rank_of level c = (level c, c)"

fun nested_upwards :: "(context_id \<Rightarrow> nat) \<Rightarrow> context_id list \<Rightarrow> store_call \<Rightarrow> bool" where
  "nested_upwards level held OtherWork \<longleftrightarrow> True"
| "nested_upwards level held (GetContext c body) \<longleftrightarrow>
     (c \<in> set held \<or> (\<forall>h \<in> set held. rank_of level h < rank_of level c)) \<and>
     (\<forall>call \<in> set body. nested_upwards level (c # held) call)"
| "nested_upwards level held (CreateContext parents child body) \<longleftrightarrow>
     (\<forall>p \<in> set parents. p \<in> set held \<or> (\<forall>h \<in> set held. rank_of level h < rank_of level p)) \<and>
     (\<forall>p \<in> set parents. \<forall>q \<in> set parents. level p = level q) \<and>
     (\<forall>h \<in> set held. rank_of level h < rank_of level child) \<and>
     (\<forall>call \<in> set body. nested_upwards level (child # held) call)"

section \<open>The registry provides the interface\<close>

definition lock_depth :: "registry \<Rightarrow> context_id \<Rightarrow> nat \<Rightarrow> nat" where
  "lock_depth reg c t = (case dict_get reg c of Some (Held owner n) \<Rightarrow> (if owner = t then n else 0) | _ \<Rightarrow> 0)"

definition registry_sound :: "registry \<Rightarrow> bool" where
  "registry_sound reg \<longleftrightarrow> (\<forall>c owner n. dict_get reg c = Some (Held owner n) \<longrightarrow> 0 < n)"

lemma lock_depth_set:
  "lock_depth (dict_set c l reg) = (lock_depth reg)(c := (case l of Held owner n \<Rightarrow> \<lambda>t. if owner = t then n else 0 | Free \<Rightarrow> \<lambda>_. 0))"
  by (intro ext) (simp add: lock_depth_def split: rlock.split)

lemma registry_sound_set: "registry_sound reg \<Longrightarrow> (\<forall>owner n. l = Held owner n \<longrightarrow> 0 < n) \<Longrightarrow> registry_sound (dict_set c l reg)"
  by (simp add: registry_sound_def)

lemma lock_depth_pos: "0 < lock_depth reg c t \<longleftrightarrow> (\<exists>n. dict_get reg c = Some (Held t n) \<and> 0 < n)"
  by (auto simp: lock_depth_def split: option.split rlock.split)

interpretation rl: context_locks registry_sound lock_depth registry_register registry_enter registry_leave
proof
  fix s s' :: registry and c t u
  show "0 < lock_depth s c t \<Longrightarrow> 0 < lock_depth s c u \<Longrightarrow> t = u" by (auto simp: lock_depth_pos)
  show "registry_sound s' \<and> lock_depth s' = lock_depth s" if ok: "registry_sound s" and op: "registry_register c s = Inr s'"
  proof -
    have none: "dict_get s c = None" and s': "s' = dict_set c Free s"
      using op by (auto simp: registry_register_def dict_has_def split: if_splits)
    have "lock_depth s c = (\<lambda>_. 0)" by (intro ext) (simp add: lock_depth_def none)
    with ok show ?thesis by (simp add: s' lock_depth_set registry_sound_set fun_upd_idem)
  qed
  show "registry_sound s' \<and> lock_depth s' = (lock_depth s)(c := (lock_depth s c)(t := Suc (lock_depth s c t)))"
    if ok: "registry_sound s" and op: "registry_enter t c s = Some (Inr s')"
  proof -
    obtain l l' where l: "dict_get s c = Some l" "rlock_acquire t l = Some l'" "s' = dict_set c l' s"
      using op by (auto simp: registry_enter_def split: option.splits)
    then have "l' = Held t (Suc (lock_depth s c t))" "\<forall>u. u \<noteq> t \<longrightarrow> lock_depth s c u = 0"
      by (cases l; auto simp: lock_depth_def split: if_splits)+
    with ok show ?thesis by (auto simp: l(3) lock_depth_set registry_sound_set fun_eq_iff)
  qed
  show "\<exists>u. u \<noteq> t \<and> 0 < lock_depth s c u" if ok: "registry_sound s" and op: "registry_enter t c s = None"
  proof -
    obtain l where l: "dict_get s c = Some l" "rlock_acquire t l = None"
      using op by (auto simp: registry_enter_def split: option.splits)
    with ok show ?thesis by (cases l) (auto simp: lock_depth_pos registry_sound_def split: if_splits)
  qed
  show "\<exists>s'. registry_leave t c s = Inr s' \<and> registry_sound s' \<and> lock_depth s' = (lock_depth s)(c := (lock_depth s c)(t := lock_depth s c t - 1))"
    if ok: "registry_sound s" and op: "0 < lock_depth s c t"
  proof -
    obtain n where n: "dict_get s c = Some (Held t n)" "0 < n" using op by (auto simp: lock_depth_pos)
    let ?l = "if n \<le> 1 then Free else Held t (n - 1)"
    have "lock_depth s c = (\<lambda>u. if t = u then n else 0)" by (intro ext) (simp add: lock_depth_def n)
    with n ok show ?thesis
      by (intro exI [of _ "dict_set c ?l s"]) (auto simp: registry_leave_def lock_depth_set registry_sound_set fun_eq_iff)
  qed
qed

section \<open>Mutual exclusion\<close>

text \<open>A turn of any thread keeps its open blocks in step with the locks and leaves the other threads' locks alone.\<close>

definition turn_keeps :: "nat \<Rightarrow> registry \<Rightarrow> registry \<Rightarrow> thread \<Rightarrow> bool" where
  "turn_keeps t reg reg' th' \<longleftrightarrow>
     registry_sound reg' \<and> rl.holds reg' t (fst th') \<and> (\<forall>u. u \<noteq> t \<longrightarrow> (\<forall>c. lock_depth reg' c u = lock_depth reg c u))"

lemma turn_ok:
  assumes "thread_turn t reg (held, ops) = Some (reg', th')" "registry_sound reg" "rl.holds reg t held"
  shows "turn_keeps t reg reg' th'"
proof (cases ops)
  case (Cons op rest)
  show ?thesis
  proof (cases op)
    case (Register c)
    with assms Cons rl.register_new [OF assms(2), of c] show ?thesis
      by (auto simp: turn_keeps_def rl.holds_def split: sum.splits)
  next
    case (Enter c)
    show ?thesis
    proof (cases "registry_enter t c reg")
      case (Some r)
      with assms Cons Enter rl.enter_holds [OF assms(2,3), of c] show ?thesis
        by (cases r) (auto simp: turn_keeps_def)
    qed (use assms(1) Cons Enter in simp)
  next
    case Leave
    show ?thesis
    proof (cases held)
      case (Cons c hs)
      from rl.leave_holds [OF assms(2) assms(3) [unfolded Cons]] obtain reg1 where
        "registry_leave t c reg = Inr reg1" "registry_sound reg1" "rl.holds reg1 t hs"
        "\<forall>u. u \<noteq> t \<longrightarrow> (\<forall>c. lock_depth reg1 c u = lock_depth reg c u)" by blast
      with assms(1) Cons \<open>ops = op # rest\<close> Leave show ?thesis by (auto simp: turn_keeps_def)
    qed (use assms Cons Leave in \<open>auto simp: turn_keeps_def\<close>)
  qed (use assms Cons in \<open>auto simp: turn_keeps_def\<close>)
qed (use assms in simp)

definition locks_ok :: "registry \<times> thread list \<Rightarrow> bool" where
  "locks_ok = (\<lambda>(reg, ths). registry_sound reg \<and> (\<forall>i < length ths. rl.holds reg i (fst (ths ! i))) \<and>
     (\<forall>c i. 0 < lock_depth reg c i \<longrightarrow> i < length ths))"

lemma locks_ok_start:
  assumes "locks_free reg" "\<forall>th \<in> set ths. fst th = []"
  shows "locks_ok (reg, ths)"
proof -
  have free: "dict_get reg c = Some l \<Longrightarrow> l = Free" for c l
    using assms(1) by (simp add: locks_free_def)
  then have "lock_depth reg c i = 0" "registry_sound reg" for c i
    by (auto simp: lock_depth_def registry_sound_def split: option.split rlock.split dest: free)
  with assms(2) show ?thesis by (auto simp: locks_ok_def rl.holds_def)
qed

lemma thread_update_ok:
  assumes ok: "locks_ok (reg, ths)" and i: "i < length ths" and "turn_keeps i reg reg' th"
  shows "locks_ok (reg', ths[i := th])"
proof -
  note new = assms(3) [unfolded turn_keeps_def]
  have "rl.holds reg' j (fst (ths ! j))" if "j < length ths" "j \<noteq> i" for j
    using ok new that by (simp add: locks_ok_def rl.holds_def)
  moreover have "j < length ths" if "0 < lock_depth reg' c j" for c j
    using ok new that i by (cases "j = i") (auto simp: locks_ok_def)
  ultimately show ?thesis using new i by (auto simp: locks_ok_def nth_list_update)
qed

lemma lock_step_ok:
  assumes "lock_step st st'" "locks_ok st"
  shows "locks_ok st'"
  using assms(1)
proof cases
  case (turn i ths reg reg' th)
  have "registry_sound reg" "rl.holds reg i (fst (ths ! i))" using assms(2) turn(1,3) by (simp_all add: locks_ok_def)
  with turn(4) have "turn_keeps i reg reg' th" by (metis prod.collapse turn_ok)
  with thread_update_ok [OF assms(2) [unfolded turn(1)] turn(3)] turn(2) show ?thesis by simp
next
  case (raised i ths held ops reg)
  have "turn_keeps i reg reg (held, unwinding held)"
    using assms(2) raised(1,3,4) by (auto simp: locks_ok_def turn_keeps_def)
  with thread_update_ok [OF assms(2) [unfolded raised(1)] raised(3)] raised(2) show ?thesis by simp
qed

lemma lock_run_ok: "lock_run st0 n st \<Longrightarrow> locks_ok st0 \<Longrightarrow> locks_ok st"
  by (induction rule: lock_run.induct) (simp_all add: lock_step_ok)

text \<open>A held lock has one holder.\<close>

lemma held_owner:
  assumes "locks_ok (reg, ths)" "i < length ths" "c \<in> set (fst (ths ! i))"
  shows "dict_get reg c = Some (Held i (count_list (fst (ths ! i)) c))"
proof -
  have "count_list (fst (ths ! i)) c = lock_depth reg c i" using assms(1,2) by (simp add: locks_ok_def rl.holds_def)
  moreover have "count_list (fst (ths ! i)) c \<noteq> 0" using assms(3) by (simp add: count_list_0_iff)
  ultimately show ?thesis by (auto simp: lock_depth_def split: option.splits rlock.splits if_splits)
qed

section \<open>Lock order\<close>

text \<open>The blocks nest, and a lock not yet held ranks above every lock that is.\<close>

fun disciplined :: "(context_id \<Rightarrow> 'r :: linorder) \<Rightarrow> context_id list \<Rightarrow> lock_op list \<Rightarrow> bool" where
  "disciplined rank held [] \<longleftrightarrow> held = []"
| "disciplined rank held (Work # ops) \<longleftrightarrow> disciplined rank held ops"
| "disciplined rank held (Register c # ops) \<longleftrightarrow> disciplined rank held ops"
| "disciplined rank held (Enter c # ops) \<longleftrightarrow>
     (c \<in> set held \<or> (\<forall>h \<in> set held. rank h < rank c)) \<and> disciplined rank (c # held) ops"
| "disciplined rank held (Leave # ops) \<longleftrightarrow> held \<noteq> [] \<and> disciplined rank (tl held) ops"

lemma disciplined_unwinding [simp]: "disciplined rank held (unwinding held)"
  by (induction held) simp_all

lemma disciplined_length: "disciplined rank held ops \<Longrightarrow> length held \<le> length ops"
  by (induction rank held ops rule: disciplined.induct) auto

lemma disciplined_turn:
  assumes "thread_turn t reg (held, ops) = Some (reg', th')" "registry_sound reg" "rl.holds reg t held" "disciplined rank held ops"
  shows "disciplined rank (fst th') (snd th') \<and> length (snd th') < length ops"
proof (cases ops)
  case (Cons op rest)
  show ?thesis
  proof (cases op)
    case (Enter c)
    with assms(4) Cons have "disciplined rank (c # held) rest" by simp
    from this disciplined_length [OF this] assms(1) Cons Enter show ?thesis
      by (auto split: option.splits sum.splits)
  next
    case Leave
    with assms(4) Cons obtain c hs where held: "held = c # hs" "disciplined rank hs rest" by (cases held) auto
    from rl.leave_holds [OF assms(2) assms(3) [unfolded held(1)]] obtain reg1 where "registry_leave t c reg = Inr reg1" by blast
    with assms(1) Cons Leave held show ?thesis by auto
  qed (use assms(1,4) Cons disciplined_length [of rank held rest] in \<open>auto split: sum.splits\<close>)
qed (use assms(1) in simp)

definition threads_ok :: "(context_id \<Rightarrow> 'r :: linorder) \<Rightarrow> registry \<times> thread list \<Rightarrow> bool" where
  "threads_ok rank st \<longleftrightarrow> locks_ok st \<and> (\<forall>th \<in> set (snd st). disciplined rank (fst th) (snd th))"

definition work :: "registry \<times> thread list \<Rightarrow> nat" where
  "work st = sum_list (map (length \<circ> snd) (snd st))"

lemma sum_list_update_less:
  "i < length xs \<Longrightarrow> f x < f (xs ! i) \<Longrightarrow> sum_list (map f (xs[i := x])) < (sum_list (map f xs) :: nat)"
  by (induction xs arbitrary: i) (auto split: nat.split simp: nth_Cons')

lemma work_update: "i < length ths \<Longrightarrow> length (snd th) < length (snd (ths ! i)) \<Longrightarrow> work (reg', ths[i := th]) < work (reg, ths)"
  unfolding work_def snd_conv by (rule sum_list_update_less) simp_all

lemma lock_step_works:
  assumes "lock_step st st'" "threads_ok rank st"
  shows "threads_ok rank st' \<and> work st' < work st"
proof -
  have ok: "locks_ok st" "locks_ok st'" using assms lock_step_ok by (auto simp: threads_ok_def)
  have all: "\<forall>th \<in> set (snd st). disciplined rank (fst th) (snd th)" using assms(2) by (simp add: threads_ok_def)
  from assms(1) show ?thesis
  proof cases
    case (turn i ths reg reg' th)
    have "registry_sound reg" "rl.holds reg i (fst (ths ! i))" "disciplined rank (fst (ths ! i)) (snd (ths ! i))"
      using ok(1) all turn(1,3) by (simp_all add: locks_ok_def)
    with turn(4) have "disciplined rank (fst th) (snd th) \<and> length (snd th) < length (snd (ths ! i))"
      by (metis prod.collapse disciplined_turn)
    with ok(2) all turn(1-3) work_update [OF turn(3), of th reg' reg] show ?thesis
      by (auto simp: threads_ok_def dest!: subsetD [OF set_update_subset_insert])
  next
    case (raised i ths held ops reg)
    have "disciplined rank held (Work # ops)" using all raised(1,3,4) nth_mem [OF raised(3)] by fastforce
    then have "length held < length (Work # ops)" using disciplined_length [of rank held ops] by simp
    with ok(2) all raised work_update [OF raised(3), of "(held, unwinding held)" reg reg] show ?thesis
      by (auto simp: threads_ok_def dest!: subsetD [OF set_update_subset_insert])
  qed
qed

lemma lock_run_works: "lock_run st0 n st \<Longrightarrow> threads_ok rank st0 \<Longrightarrow> threads_ok rank st \<and> n + work st \<le> work st0"
proof (induction rule: lock_run.induct)
  case (step n st st')
  with lock_step_works [of st st' rank] show ?case by fastforce
qed simp

text \<open>A thread that cannot move is done or waits for a lock that another one holds.\<close>

lemma blocked_waits:
  assumes "thread_turn i reg (held, ops) = None" "registry_sound reg"
  shows "ops = [] \<or> (\<exists>c rest j. ops = Enter c # rest \<and> j \<noteq> i \<and> 0 < lock_depth reg c j)"
proof (cases ops)
  case (Cons op rest)
  show ?thesis
  proof (cases op)
    case (Enter c)
    with assms(1) Cons have "registry_enter i c reg = None" by (auto split: option.splits sum.splits)
    from rl.enter_waits [OF assms(2) this] Cons Enter show ?thesis by auto
  next
    case Leave
    with assms Cons show ?thesis by (cases held) (auto split: sum.splits)
  qed (use assms Cons in \<open>auto split: sum.splits\<close>)
qed simp

lemma no_deadlock:
  assumes ok: "threads_ok rank (reg, ths)" and stuck: "\<forall>i < length ths. thread_turn i reg (ths ! i) = None"
  shows "(\<forall>i < length ths. ths ! i = ([], [])) \<and> (\<forall>c l. dict_get reg c = Some l \<longrightarrow> l = Free)"
proof -
  let ?W = "{i. i < length ths \<and> snd (ths ! i) \<noteq> []}"
  define wants where "wants i = (case hd (snd (ths ! i)) of Enter c \<Rightarrow> c | _ \<Rightarrow> StopCtx)" for i
  have sound: "registry_sound reg" using ok by (simp add: threads_ok_def locks_ok_def)
  have waiting: "\<exists>rest j. snd (ths ! i) = Enter (wants i) # rest \<and> j \<noteq> i \<and> 0 < lock_depth reg (wants i) j" if "i \<in> ?W" for i
    using blocked_waits [OF _ sound, of i "fst (ths ! i)" "snd (ths ! i)"] stuck that by (auto simp: wants_def)
  have th: "rl.holds reg i (fst (ths ! i))" "disciplined rank (fst (ths ! i)) (snd (ths ! i))" if "i < length ths" for i
    using ok that by (simp_all add: threads_ok_def locks_ok_def)
  have next_waiter: "\<exists>j \<in> ?W. rank (wants i) < rank (wants j)" if i: "i \<in> ?W" for i
  proof -
    from waiting [OF i] obtain j where j: "0 < lock_depth reg (wants i) j" "j \<noteq> i" by blast
    with ok have len: "j < length ths" by (auto simp: threads_ok_def locks_ok_def)
    have "0 < count_list (fst (ths ! j)) (wants i)" using th(1) [OF len] j(1) by (simp add: rl.holds_def)
    then have held: "wants i \<in> set (fst (ths ! j))" using count_notin by fastforce
    with th(2) [OF len] have "snd (ths ! j) \<noteq> []" by auto
    with len have W: "j \<in> ?W" by simp
    from waiting [OF W] obtain rest k where
      k: "snd (ths ! j) = Enter (wants j) # rest" "k \<noteq> j" "0 < lock_depth reg (wants j) k" by blast
    have "count_list (fst (ths ! j)) (wants j) = 0"
      using rl.one_owner [OF sound k(3), of j] k(2) th(1) [OF len] by (auto simp: rl.holds_def)
    with th(2) [OF len] k(1) held have "rank (wants i) < rank (wants j)" by (simp add: count_list_0_iff)
    with W show ?thesis by blast
  qed
  have "?W = {}"
  proof (rule ccontr)
    assume "?W \<noteq> {}"
    then have "Max ((rank \<circ> wants) ` ?W) \<in> (rank \<circ> wants) ` ?W" by (intro Max_in) simp_all
    then obtain i where i: "i \<in> ?W" "rank (wants i) = Max ((rank \<circ> wants) ` ?W)" by auto
    from next_waiter [OF i(1)] obtain j where j: "j \<in> ?W" "rank (wants i) < rank (wants j)" by blast
    have "rank (wants j) \<le> Max ((rank \<circ> wants) ` ?W)" using j(1) by (intro Max_ge) auto
    with i(2) j(2) show False by simp
  qed
  then have idle: "ths ! i = ([], [])" if "i < length ths" for i
    using th(2) [OF that] that by (cases "ths ! i") auto
  moreover have "l = Free" if l: "dict_get reg c = Some l" for c l
  proof (cases l)
    case (Held owner n)
    with l sound have "0 < lock_depth reg c owner" by (simp add: lock_depth_pos registry_sound_def)
    with ok idle th(1) [of owner] show ?thesis by (fastforce simp: threads_ok_def locks_ok_def rl.holds_def)
  qed
  ultimately show ?thesis by blast
qed

section \<open>The calls of the store keep the order\<close>

lemma disciplined_enters:
  "sorted_wrt (\<lambda>p q. rank p < rank q) ps \<Longrightarrow> \<forall>p \<in> set ps. p \<in> set held \<or> (\<forall>h \<in> set held. rank h < rank p) \<Longrightarrow>
     disciplined rank (rev ps @ held) ops \<Longrightarrow> disciplined rank held (map Enter ps @ ops)"
proof (induction ps arbitrary: held)
  case (Cons p ps)
  then show ?case using Cons.IH [of "p # held"] by auto
qed simp

lemma disciplined_leaves: "disciplined rank held ops \<Longrightarrow> disciplined rank (hs @ held) (replicate (length hs) Leave @ ops)"
  by (induction hs) simp_all

text \<open>Creating a context locks the parents in the order of their ids, which is the order of the ranks on one level.\<close>

lemma create_context_disciplined:
  assumes "\<forall>p \<in> set parents. p \<in> set held \<or> (\<forall>h \<in> set held. rank_of level h < rank_of level p)"
    and "\<forall>p \<in> set parents. \<forall>q \<in> set parents. level p = level q"
    and "\<forall>h \<in> set held. rank_of level h < rank_of level child"
    and "disciplined (rank_of level) (child # held) (body @ Leave # rest)"
  shows "disciplined (rank_of level) held (create_context_ops parents child body @ rest)"
proof -
  let ?ps = "sort (dedup parents)"
  have "sorted_wrt (<) ?ps" by (simp add: strict_sorted_iff)
  then have "sorted_wrt (\<lambda>p q. rank_of level p < rank_of level q) ?ps"
  proof (rule sorted_wrt_mono_rel [rotated])
    fix p q assume "p \<in> set ?ps" "q \<in> set ?ps" and less: "p < q"
    then have "p \<in> set parents" "q \<in> set parents" by simp_all
    with assms(2) have "level p = level q" by blast
    with less show "rank_of level p < rank_of level q" by (simp add: rank_of_def)
  qed
  moreover have "disciplined (rank_of level) (rev ?ps @ held)
      ([Work, Register child, Work] @ replicate (length ?ps) Leave @ Enter child # body @ Leave # rest)"
    using disciplined_leaves [of "rank_of level" held "Enter child # body @ Leave # rest" "rev ?ps"] assms(3,4) by simp
  ultimately show ?thesis using assms(1)
    by (auto simp: create_context_ops_def Let_def intro!: disciplined_enters)
qed

lemma calls_disciplined_if:
  "(\<And>call rest. call \<in> set calls \<Longrightarrow> disciplined rank held rest \<Longrightarrow> disciplined rank held (call_ops call @ rest)) \<Longrightarrow>
     disciplined rank held rest \<Longrightarrow> disciplined rank held (calls_ops calls @ rest)"
  by (induction calls) simp_all

lemma call_disciplined:
  "nested_upwards level held call \<Longrightarrow> disciplined (rank_of level) held rest \<Longrightarrow>
     disciplined (rank_of level) held (call_ops call @ rest)"
proof (induction level held call arbitrary: rest rule: nested_upwards.induct)
  case (2 level held c body)
  have "disciplined (rank_of level) (c # held) (calls_ops body @ Leave # rest)"
    by (rule calls_disciplined_if) (use 2 in auto)
  with 2(2) show ?case by (simp add: get_context_ops_def)
next
  case (3 level held parents child body)
  have "\<forall>call \<in> set body. nested_upwards level (child # held) call" using 3(2) by simp
  then have "disciplined (rank_of level) (child # held) (calls_ops body @ Leave # rest)"
    by (intro calls_disciplined_if) (simp_all add: 3(1,3))
  with 3(2) show ?case unfolding call_ops.simps nested_upwards.simps
    by (intro create_context_disciplined) (elim conjE, assumption)+
qed simp

lemma sessions_ok:
  assumes "locks_free reg" "\<forall>calls \<in> set css. \<forall>call \<in> set calls. nested_upwards level [] call"
  shows "threads_ok (rank_of level) (sessions reg css)"
proof -
  have "disciplined (rank_of level) [] (calls_ops calls @ [])" if "calls \<in> set css" for calls
    by (rule calls_disciplined_if) (use that assms(2) in \<open>auto intro: call_disciplined\<close>)
  with locks_ok_start [OF assms(1), of "map (\<lambda>calls. ([], calls_ops calls)) css"] show ?thesis
    by (auto simp: threads_ok_def sessions_def)
qed

text \<open>A handler that holds its context, works and creates children of it.\<close>

lemma handler_nested_upwards:
  "\<forall>k \<in> set children. c < k \<and> level c \<le> level k \<Longrightarrow>
     nested_upwards level [] (GetContext c (OtherWork # map (\<lambda>k. CreateContext [c] k [OtherWork]) children))"
  by (auto simp: rank_of_def less_le)

text \<open>Without the order there are deadlocks: two threads that lock two contexts the other way round.\<close>

lemma opposite_orders_deadlock:
  assumes "a \<noteq> b"
  shows "\<exists>st. lock_run (sessions [(a, Free), (b, Free)] [[GetContext a [GetContext b []]], [GetContext b [GetContext a []]]]) 4 st
     \<and> deadlocked st"
proof -
  let ?rest = "[Leave, Leave]"
  let ?reg = "[(a, Held 0 1), (b, Held 1 1)]"
  let ?st = "\<lambda>ops ops'. (?reg, [([a], ops), ([b], ops')])"
  let ?a = "[Enter a, Work, Leave, Leave]" and ?b = "[Enter b, Work, Leave, Leave]"
  have "lock_step (sessions [(a, Free), (b, Free)] [[GetContext a [GetContext b []]], [GetContext b [GetContext a []]]])
      ([(a, Held 0 1), (b, Free)], [([a], Work # ?b), ([], Enter b # Work # ?a)])"
    using lock_step.turn [of 0 "[([], Enter a # Work # ?b), ([], Enter b # Work # ?a)]" "[(a, Free), (b, Free)]"]
    by (simp add: sessions_def get_context_ops_def registry_enter_def)
  moreover have "lock_step ([(a, Held 0 1), (b, Free)], [([a], Work # ?b), ([], Enter b # Work # ?a)]) (?st (Work # ?b) (Work # ?a))"
    using lock_step.turn [of 1 "[([a], Work # ?b), ([], Enter b # Work # ?a)]" "[(a, Held 0 1), (b, Free)]"] assms
    by (simp add: registry_enter_def)
  moreover have "lock_step (?st (Work # ?b) (Work # ?a)) (?st ?b (Work # ?a))"
    using lock_step.turn [of 0 "[([a], Work # ?b), ([b], Work # ?a)]" ?reg] by simp
  moreover have "lock_step (?st ?b (Work # ?a)) (?st ?b ?a)"
    using lock_step.turn [of 1 "[([a], ?b), ([b], Work # ?a)]" ?reg] by simp
  ultimately have "lock_run (sessions [(a, Free), (b, Free)] [[GetContext a [GetContext b []]], [GetContext b [GetContext a []]]])
      (Suc (Suc (Suc (Suc 0)))) (?st ?b ?a)"
    by (blast intro: lock_run.intros)
  moreover have "deadlocked (?st ?b ?a)"
    using assms by (auto simp: deadlocked_def less_Suc_eq nth_Cons' registry_enter_def elim!: lock_step.cases)
  ultimately show ?thesis by (auto simp: numeral_eq_Suc)
qed

section \<open>Properties\<close>

text \<open>C28: threads that share the context store never hold the lock of one context together. From free locks,
  whatever operations the threads run, however they interleave and wherever they raise, a context
  locked by a thread belongs to it alone, with the count of its nested blocks; a thread's locks are
  those of its open blocks.\<close>

theorem lock_mutual_exclusion:
  assumes "locks_free reg0" and "\<forall>th \<in> set ths0. fst th = []" and "lock_run (reg0, ths0) n (reg, ths)"
    and "i < length ths" and "c \<in> set (fst (ths ! i))"
  shows "dict_get reg c = Some (Held i (count_list (fst (ths ! i)) c)) \<and> (\<forall>j < length ths. c \<in> set (fst (ths ! j)) \<longrightarrow> j = i)"
proof -
  have ok: "locks_ok (reg, ths)" using lock_run_ok [OF assms(3) locks_ok_start [OF assms(1,2)]] .
  then have "j = i" if "j < length ths" "c \<in> set (fst (ths ! j))" for j
    using rl.exclusive [of reg j _ i _ c] assms(4,5) that by (auto simp: locks_ok_def)
  with held_owner [OF ok assms(4,5)] show ?thesis by blast
qed

text \<open>C6: the store does not deadlock. Threads that run calls of the store, each nested upwards by level and
  id, take no more steps than they have operations. A thread that waits for a lock
  can do nothing else; still, wherever the threads cannot move any more, all are
  done and every lock is free.\<close>

theorem lock_sessions_end:
  assumes "locks_free reg0" and "\<forall>calls \<in> set css. \<forall>call \<in> set calls. nested_upwards level [] call"
    and "lock_run (sessions reg0 css) n st"
  shows "n \<le> work (sessions reg0 css) \<and> \<not> deadlocked st \<and> ((\<nexists>st'. lock_step st st') \<longrightarrow> locks_free (fst st))"
proof -
  obtain reg ths where st: "st = (reg, ths)" by fastforce
  from lock_run_works [OF assms(3) sessions_ok [OF assms(1,2)]]
  have ok: "threads_ok (rank_of level) (reg, ths)" and bound: "n \<le> work (sessions reg0 css)" by (simp_all add: st)
  have "(\<forall>i < length ths. ths ! i = ([], [])) \<and> (\<forall>c l. dict_get reg c = Some l \<longrightarrow> l = Free)" if "\<nexists>st'. lock_step st st'"
  proof (rule no_deadlock [OF ok])
    show "\<forall>i < length ths. thread_turn i reg (ths ! i) = None"
      using that lock_step.turn [of _ ths reg] by (metis option.exhaust surj_pair st)
  qed
  with bound show ?thesis by (auto simp: deadlocked_def locks_free_def st in_set_conv_nth)
qed

text \<open>Two threads create a child of the same two contexts, named in opposite orders.\<close>

definition demo_calls :: "store_call list list" where
  "demo_calls = [[CreateContext [Uuid 1, Uuid 0] (Uuid 2) [OtherWork]], [CreateContext [Uuid 0, Uuid 1] (Uuid 3) []]]"

definition demo_registry :: registry where
  "demo_registry = [(Uuid 0, Free), (Uuid 1, Free)]"

definition demo_rest :: "context_id \<Rightarrow> lock_op list \<Rightarrow> lock_op list" where
  "demo_rest k body = [Enter (Uuid 1), Work, Register k, Work, Leave, Leave, Enter k] @ body @ [Leave]"

lemma demo_sessions_eval:
  "sessions demo_registry demo_calls = (demo_registry,
     [([], Enter (Uuid 0) # demo_rest (Uuid 2) [Work]), ([], Enter (Uuid 0) # demo_rest (Uuid 3) [])])"
  by (simp add: sessions_def demo_calls_def demo_rest_def create_context_ops_def Let_def)

lemma demo_registry_free: "locks_free demo_registry"
  by (simp add: locks_free_def demo_registry_def)

lemma demo_calls_run:
  "lock_run (sessions demo_registry demo_calls) 1 ([(Uuid 0, Held 0 1), (Uuid 1, Free)],
     [([Uuid 0], demo_rest (Uuid 2) [Work]), ([], Enter (Uuid 0) # demo_rest (Uuid 3) [])])"
proof -
  have "lock_step (sessions demo_registry demo_calls) ([(Uuid 0, Held 0 1), (Uuid 1, Free)],
     [([], Enter (Uuid 0) # demo_rest (Uuid 2) [Work]), ([], Enter (Uuid 0) # demo_rest (Uuid 3) [])]
       [0 := ([Uuid 0], demo_rest (Uuid 2) [Work])])"
    unfolding demo_sessions_eval by (rule lock_step.turn) (simp_all add: registry_enter_def demo_registry_def)
  with lock_run.step [OF lock_run.start] show ?thesis by fastforce
qed

theorem lock_mutual_exclusion_witness:
  "\<exists>reg ths. lock_run (sessions demo_registry demo_calls) 1 (reg, ths) \<and> Uuid 0 \<in> set (fst (ths ! 0))
     \<and> dict_get reg (Uuid 0) = Some (Held 0 1) \<and> Uuid 0 \<notin> set (fst (ths ! 1))"
proof -
  let ?ths = "[([Uuid 0], demo_rest (Uuid 2) [Work]), ([], Enter (Uuid 0) # demo_rest (Uuid 3) [])]"
  have "\<forall>th \<in> set (snd (sessions demo_registry demo_calls)). fst th = []" by (simp add: demo_sessions_eval)
  moreover have "0 < length ?ths" "Uuid 0 \<in> set (fst (?ths ! 0))" by simp_all
  ultimately show ?thesis
    using lock_mutual_exclusion [OF demo_registry_free _ demo_calls_run [unfolded sessions_def], of 0 "Uuid 0"] demo_calls_run
    by (intro exI conjI) (assumption | simp add: sessions_def)+
qed

theorem lock_sessions_end_witness:
  "\<exists>st. lock_run (sessions demo_registry demo_calls) 1 st \<and> 1 \<le> work (sessions demo_registry demo_calls) \<and> \<not> deadlocked st"
proof -
  have "\<forall>calls \<in> set demo_calls. \<forall>call \<in> set calls. nested_upwards (\<lambda>_. 0) [] call"
    by (simp add: demo_calls_def rank_of_def)
  from lock_sessions_end [OF demo_registry_free this demo_calls_run] demo_calls_run show ?thesis by blast
qed

end
