(* ===== verification/Settings.thy ===== *)
theory Settings
  imports Rest
begin

text \<open>
  Configuration: environment variables and the subnet id (\<open>utils/env.py\<close>, \<open>utils/netuid.py\<close>), the
  process-wide registry of settings (\<open>utils/subnet_settings.py\<close>) and the read-only dictionary
  \<open>utils/immutable_map.py\<close>. The environment is a function, and whether settings implement a mixin
  is a predicate.
\<close>

section \<open>Environment\<close>

definition get_optional_env_var :: "(string \<Rightarrow> string option) \<Rightarrow> string \<Rightarrow> string option" where
  "get_optional_env_var env key = (case env key of None \<Rightarrow> None | Some v \<Rightarrow> if length v = 0 then None else Some v)"

definition get_required_env_var :: "(string \<Rightarrow> string option) \<Rightarrow> string \<Rightarrow> exn + string" where
  "get_required_env_var env key =
     (case get_optional_env_var env key of Some v \<Rightarrow> Inr v | None \<Rightarrow> Inl (exn_of SubnetMisconfiguredException))"

definition validate_netuid :: "exn_class \<Rightarrow> int \<Rightarrow> exn + int" where
  "validate_netuid exception_type netuid = (if netuid < 0 then Inl (exn_of exception_type) else Inr netuid)"

definition load_required_netuid_from_env :: "(string \<Rightarrow> string option) \<Rightarrow> string \<Rightarrow> exn + int" where
  "load_required_netuid_from_env env env_var =
     (case get_required_env_var env env_var of
        Inl e \<Rightarrow> Inl e
      | Inr raw \<Rightarrow>
          (case py_int raw of
             None \<Rightarrow> Inl (exn_from SubnetMisconfiguredException value_error)
           | Some n \<Rightarrow> validate_netuid SubnetMisconfiguredException n))"

lemma netuid_is_loaded_iff:
  "load_required_netuid_from_env env v = Inr n \<longleftrightarrow> (\<exists>raw. env v = Some raw \<and> py_int raw = Some n) \<and> 0 \<le> n"
  by (auto simp: load_required_netuid_from_env_def get_required_env_var_def get_optional_env_var_def validate_netuid_def
      py_int_def strip_def split: option.splits if_splits)

section \<open>Settings\<close>

text \<open>The registry is the first half of the state, what a body works on the second.\<close>

definition initialize_settings :: "'s \<Rightarrow> (exn, unit, 's option \<times> 'w) act" where
  "initialize_settings s = (\<lambda>(cur, w). if cur \<noteq> None then (Inl runtime_error, (cur, w)) else (Inr (), (Some s, w)))"

definition get_settings_as :: "('s \<Rightarrow> bool) \<Rightarrow> (exn, 's, 's option \<times> 'w) act" where
  "get_settings_as implements = (\<lambda>(cur, w).
     (case cur of
        None \<Rightarrow> Inl (exn_of SubnetMisconfiguredException)
      | Some s \<Rightarrow> if implements s then Inr s else Inl (exn_of SubnetMisconfiguredException), (cur, w)))"

definition use_settings :: "'s \<Rightarrow> (exn, 'a, 's option \<times> 'w) act \<Rightarrow> (exn, 'a, 's option \<times> 'w) act" where
  "use_settings s body = (\<lambda>(previous, w). case body (Some s, w) of (r, (_, w')) \<Rightarrow> (r, (previous, w')))"

text \<open>The inner scope wins, and it ends with the body however the body ends.\<close>

lemma settings_are_scoped:
  assumes "implements s"
  shows "use_settings s (bind_act (get_settings_as implements) f) (cur, w) = use_settings s (f s) (cur, w)"
    and "fst (snd (use_settings s body (cur, w))) = cur"
    and "use_settings s (seq_act (use_settings s' body) (get_settings_as implements)) (cur, w)
        = (case body (Some s', w) of (Inr _, (_, w')) \<Rightarrow> (Inr s, (cur, w')) | (Inl e, (_, w')) \<Rightarrow> (Inl e, (cur, w')))"
  using assms
  by (auto simp: use_settings_def get_settings_as_def seq_act_def bind_act_def split: prod.split sum.split)

section \<open>Read-only dictionaries\<close>

definition immutable_map_init :: "('k \<times> 'v) list \<Rightarrow> ('k, 'v) dict" where
  "immutable_map_init items = foldl (\<lambda>d (k, v). dict_set k v d) [] items"

definition immutable_map_getitem :: "('k, 'v) dict \<Rightarrow> 'k \<Rightarrow> exn + 'v" where
  "immutable_map_getitem d k = (case dict_get d k of None \<Rightarrow> Inl key_error | Some v \<Rightarrow> Inr v)"

definition immutable_map_iter :: "('k, 'v) dict \<Rightarrow> 'k list" where
  "immutable_map_iter d = dict_keys d"

text \<open>The last of two items with the same key wins, at the place of the first.\<close>

lemma immutable_map_lookup:
  "immutable_map_getitem (immutable_map_init items) k = (case map_of (rev items) k of None \<Rightarrow> Inl key_error | Some v \<Rightarrow> Inr v)"
proof -
  have "dict_get (immutable_map_init items) k = map_of (rev items) k"
  proof (induction items rule: rev_induct)
    case (snoc x xs)
    then show ?case by (cases x) (simp add: immutable_map_init_def)
  qed (simp add: immutable_map_init_def)
  then show ?thesis by (simp add: immutable_map_getitem_def)
qed

lemma immutable_map_keys:
  "distinct (immutable_map_iter (immutable_map_init items)) \<and>
   set (immutable_map_iter (immutable_map_init items)) = fst ` set items"
proof (induction items rule: rev_induct)
  case (snoc x xs)
  obtain k v where x: "x = (k, v)" by fastforce
  have "immutable_map_init (xs @ [x]) = dict_set k v (immutable_map_init xs)" by (simp add: immutable_map_init_def x)
  moreover have "dict_has (immutable_map_init xs) k \<longleftrightarrow> k \<in> fst ` set xs" using snoc by (simp add: immutable_map_iter_def dict_has_iff del: set_map)
  ultimately show ?case using snoc x
    by (auto simp: immutable_map_iter_def dict_distinct_set dict_keys_set simp del: set_map)
qed (simp add: immutable_map_init_def immutable_map_iter_def)

end
