(* ===== verification/Wiring.thy ===== *)
theory Wiring
  imports Runtime Task
begin

text \<open>
  Generic facts on validator graphs: what a list of \<open>connect\<close> calls builds, and when a graph of tasks
  starts. A graph in which a source has one primary, or only taps, is consistent.
\<close>

section \<open>Consistent declarations\<close>

lemma consistent_decls_append:
  assumes "pipes_ok q" "represents q ds" "consistent (ds @ es)"
  shows "consistent (decls_of q @ es)"
    and "declared_primaries (decls_of q @ es) = declared_primaries (ds @ es)"
    and "declared_taps (decls_of q @ es) = declared_taps (ds @ es)"
proof -
  have app: "declared_primaries (xs @ ys) s = declared_primaries xs s \<union> declared_primaries ys s"
    "declared_taps (xs @ ys) s = declared_taps xs s \<union> declared_taps ys s" for xs ys s
    by (auto simp: declared_primaries_def declared_taps_def)
  have "represents q (decls_of q)" by (rule represents_decls_of [OF assms(1)])
  then have same: "declared_primaries (decls_of q) s = declared_primaries ds s" "declared_taps (decls_of q) s = declared_taps ds s" for s
    using assms(2) unfolding represents_def by blast+
  then show prim: "declared_primaries (decls_of q @ es) = declared_primaries (ds @ es)"
    and taps: "declared_taps (decls_of q @ es) = declared_taps (ds @ es)"
    by (simp_all add: fun_eq_iff app)
  have "consistent (decls_of q)" by (rule consistent_decls_of [OF assms(1)])
  then have "\<forall>(s, p, ts) \<in> set (decls_of q @ es). p \<noteq> None \<or> ts \<noteq> []"
    using assms(3) unfolding consistent_def set_append ball_Un by (elim conjE) (intro conjI)
  then show "consistent (decls_of q @ es)"
    using assms(3) unfolding consistent_def prim taps by (elim conjE) (intro conjI)
qed

text \<open>The primaries of a list of declarations, as a dictionary.\<close>

definition primaries_of :: "decl list \<Rightarrow> (source, sink) dict" where
  "primaries_of ds = concat (map (\<lambda>(s, q, _). case q of None \<Rightarrow> [] | Some x \<Rightarrow> [(s, x)]) ds)"

lemma primaries_mem: "(s, x) \<in> set (primaries_of ds) \<longleftrightarrow> x \<in> declared_primaries ds s"
  by (fastforce simp: primaries_of_def declared_primaries_def split: option.splits)

lemma primaries_append [simp]: "primaries_of (ds @ es) = primaries_of ds @ primaries_of es"
  by (simp add: primaries_of_def)

lemma primaries_tap [simp]: "primaries_of ((s, None, ts) # ds) = primaries_of ds"
  by (simp add: primaries_of_def)

definition one_role :: "decl list \<Rightarrow> bool" where
  "one_role ds \<longleftrightarrow> distinct (dict_keys (primaries_of ds))
     \<and> list_all (\<lambda>(s, q, ts). if q = None then ts \<noteq> [] \<and> s \<notin> set (dict_keys (primaries_of ds)) else ts = []) ds"

lemma one_role_primaries: "one_role ds \<Longrightarrow> declared_primaries ds s = set_option (dict_get (primaries_of ds) s)"
proof -
  assume "one_role ds"
  then have "x \<in> declared_primaries ds s \<longleftrightarrow> dict_get (primaries_of ds) s = Some x" for x
    unfolding one_role_def by (simp only: map_of_eq_Some_iff primaries_mem)
  then show ?thesis by (auto simp: elem_set)
qed

lemma one_role_consistent: "one_role ds \<Longrightarrow> consistent ds"
proof -
  assume one: "one_role ds"
  have "declared_primaries ds s \<inter> declared_taps ds s = {}" for s
  proof (rule ccontr)
    assume "declared_primaries ds s \<inter> declared_taps ds s \<noteq> {}"
    then obtain x q ts where x: "x \<in> declared_primaries ds s" and d: "(s, q, ts) \<in> set ds" "x \<in> set ts"
      by (auto simp: declared_taps_def)
    from one d have "s \<notin> set (dict_keys (primaries_of ds))" by (auto simp: one_role_def list_all_iff split: if_splits)
    moreover have "(s, x) \<in> set (primaries_of ds)" using x by (simp add: primaries_mem)
    ultimately show False by force
  qed
  with one show "consistent ds"
    unfolding consistent_def one_role_primaries [OF one] by (auto simp: one_role_def list_all_iff split: if_splits)
qed

section \<open>Connecting\<close>

lemma register_sinks_up: "runtime_up (fold (register_sink ow) snks v) = runtime_up v"
  by (induction snks arbitrary: v) (auto simp: register_sink_def register_owner_effect)

lemma validator_connects_run:
  assumes "represents (flow_pipes (subnet_flow v)) ds" "pipes_ok (flow_pipes (subnet_flow v))" "consistent (ds @ es)"
    and "\<forall>(s, q, ts) \<in> set es. distinct ts"
  shows "\<exists>v'. validator_connects ow es v = (Inr (), v') \<and> represents (flow_pipes (subnet_flow v')) (ds @ es)
     \<and> pipes_ok (flow_pipes (subnet_flow v')) \<and> runtime_up v' = runtime_up v"
  using assms
proof (induction es arbitrary: v ds)
  case (Cons e es)
  obtain s q ts where e: "e = (s, q, ts)" by (rule prod_cases3)
  have ts: "dedup ts = ts" using Cons.prems(4) e by (auto intro: dedup_distinct)
  have "consistent ds" "consistent (ds @ [(s, q, ts)])"
    using Cons.prems(3) by (auto simp: e intro: consistent_mono)
  with flow_connect_represents [OF Cons.prems(1,2), of s q ts] obtain p' where
    run: "flow_connect s q ts (subnet_flow v) = (Inr (), (subnet_flow v)\<lparr>flow_pipes := p',
       flow_sources := insert s (flow_sources (subnet_flow v)), flow_sinks := flow_sinks (subnet_flow v) \<union> set_option q \<union> set ts\<rparr>)"
    and p': "represents p' (ds @ [(s, q, ts)])" "pipes_ok p'" by auto
  obtain v1 where v1: "validator_connect ow s q ts v = (Inr (), v1)" "flow_pipes (subnet_flow v1) = p'" "runtime_up v1 = runtime_up v"
    using run
    by (auto simp: validator_connect_def ts register_sinks_effect register_source_def register_owner_effect register_sinks_up split: option.splits)
  have "consistent ((ds @ [(s, q, ts)]) @ es)" using Cons.prems(3) by (simp add: e)
  with Cons.IH [of v1 "ds @ [(s, q, ts)]"] p' v1 Cons.prems(4) show ?case
    by (auto simp: e seq_act_def bind_act_def)
qed simp

section \<open>Starting a graph of tasks\<close>

definition wires_decls :: "(source, sink) dict \<Rightarrow> decl list" where
  "wires_decls ws = map (\<lambda>(s, k). (s, Some k, [])) ws"

lemma decls_of_sole: "decls_of (map sole ws) = wires_decls ws"
  by (induction ws) (auto simp: decls_of_def wires_decls_def mk_targets_def)

lemma primaries_wires [simp]: "primaries_of (wires_decls ws) = ws"
  by (induction ws) (auto simp: primaries_of_def wires_decls_def)

lemma declared_taps_simps:
  "declared_taps [] src = {}"
  "declared_taps ((s, q, ts) # ds) src = (if src = s then set ts else {}) \<union> declared_taps ds src"
  "declared_taps (ds @ es) src = declared_taps ds src \<union> declared_taps es src"
  "declared_taps (wires_decls ws) src = {}"
  by (auto simp: declared_taps_def wires_decls_def)

text \<open>All declarations of a validator graph with the tasks \<open>ts\<close>, whose internal wires are \<open>wires\<close>.\<close>

definition graph_decls :: "decl list \<Rightarrow> source \<Rightarrow> (nat \<Rightarrow> sink) \<Rightarrow> (nat \<Rightarrow> (source, sink) dict) \<Rightarrow> nat list \<Rightarrow> decl list" where
  "graph_decls ds clk beat wires ts =
     ds @ map (\<lambda>t. (clk, None, [beat t])) ts @ concat (map (\<lambda>t. wires_decls (wires t)) ts)"

lemma connect_clock_state:
  "map_act (\<lambda>t. validator_connect ow clk None [beat t]) ts v = (r, v') \<Longrightarrow>
     validator_connects ow (map (\<lambda>t. (clk, None, [beat t])) ts) v = (map_sum id (\<lambda>_. ()) r, v')"
proof (induction ts arbitrary: v r)
  case (Cons t ts)
  obtain r1 v1 where v1: "validator_connect ow clk None [beat t] v = (r1, v1)" by (rule prod.exhaust)
  obtain r2 v2 where v2: "map_act (\<lambda>t. validator_connect ow clk None [beat t]) ts v1 = (r2, v2)" by (rule prod.exhaust)
  from Cons.prems v1 v2 have "v' = (case r1 of Inl _ \<Rightarrow> v1 | Inr _ \<Rightarrow> v2)" "r = (case r1 of Inl e \<Rightarrow> Inl e | Inr u \<Rightarrow> map_sum id ((#) u) r2)"
    by (auto simp: bind_act_def split: sum.splits)
  with Cons.IH [of v1 r2] v1 v2 show ?case
    by (cases r1; cases r2) (auto simp: seq_act_def bind_act_def)
qed simp

lemma validator_start_run:
  assumes init: "validator_init clk = Inr v0" and ds: "ds \<noteq> []" "\<forall>(s, q, ts) \<in> set ds. distinct ts"
    and tasks: "(\<Union>d \<in> set ds. decl_tasks ow d) = set ts"
    and whole: "one_role (graph_decls ds (Source clk) (\<lambda>t. ti_block_beat (task t)) wires ts)"
    and flows: "\<And>t. t \<in> set ts \<Longrightarrow> flow_pipes (ti_flow (task t)) = map sole (wires t)"
    and node: "\<And>n. sn_build (node n) = Some (Inr (actor n))"
  obtains v rt v' nodes where "validator_connects ow ds v0 = (Inr (), v)" "validator_start ow task node v = (Inr rt, v')"
    "rt_actors rt = map actor nodes" "distinct nodes"
    "set nodes = (\<Union>d \<in> set ds. decl_nodes ow d)
       \<union> (\<Union>t \<in> set ts. set_option (source_node ow (Source clk)) \<union> set_option (sink_node ow (ti_block_beat (task t))) \<union> set (ti_nodes (task t)))"
    "represents (connections (rt_bus rt)) (graph_decls ds (Source clk) (\<lambda>t. ti_block_beat (task t)) wires ts)"
    "\<forall>s. dict_has (sink_owner (rt_bus rt)) s \<longleftrightarrow> (\<exists>n \<in> set nodes. s \<in> set (snd (actor n)))"
proof -
  let ?beat = "\<lambda>t. ti_block_beat (task t)"
  let ?whole = "graph_decls ds (Source clk) ?beat wires ts"
  have con: "consistent ?whole" by (rule one_role_consistent [OF whole])
  have v0: "flow_pipes (subnet_flow v0) = []" "\<not> runtime_up v0" "connected_tasks v0 = []" "subnet_clock v0 = Source clk"
    using init by (auto simp: validator_init_def split: sum.splits)
  have rep0: "represents (flow_pipes (subnet_flow v0)) []" "pipes_ok (flow_pipes (subnet_flow v0))"
    by (simp_all add: v0 represents_Nil)
  have "consistent ([] @ ds)" using con by (auto simp: graph_decls_def intro: consistent_mono)
  from validator_connects_run [OF rep0 this ds(2), of ow] obtain v where
    v: "validator_connects ow ds v0 = (Inr (), v)" "represents (flow_pipes (subnet_flow v)) ds"
      "pipes_ok (flow_pipes (subnet_flow v))" "runtime_up v = runtime_up v0" by auto
  note e = validator_connects_effect [OF v(1)]
  have ct: "set (connected_tasks v) = set ts" "subnet_clock v = Source clk" using e tasks by (auto simp: v0)
  let ?clocks = "map (\<lambda>t. (Source clk, None, [?beat t])) (connected_tasks v)"
  have clocks: "set ?clocks = set (map (\<lambda>t. (Source clk, None :: sink option, [?beat t])) ts)" using ct(1) by auto
  have "set (ds @ ?clocks) \<subseteq> set ?whole" using clocks by (auto simp: graph_decls_def)
  then have "consistent (ds @ ?clocks)" by (rule consistent_mono [OF con])
  moreover have "\<forall>(s, q, ts) \<in> set ?clocks. distinct ts" by auto
  ultimately obtain v' where v': "validator_connects ow ?clocks v = (Inr (), v')" "represents (flow_pipes (subnet_flow v')) (ds @ ?clocks)"
    "pipes_ok (flow_pipes (subnet_flow v'))" "runtime_up v' = runtime_up v"
    using validator_connects_run [OF v(2,3)] by blast
  obtain r v2 where "map_act (\<lambda>t. validator_connect ow (Source clk) None [?beat t]) (connected_tasks v) v = (r, v2)" by fastforce
  moreover from connect_clock_state [OF this] v'(1) obtain us where "r = Inr us" "v2 = v'" by (cases r) auto
  ultimately have clock_run: "map_act (\<lambda>t. validator_connect ow (Source clk) None [?beat t]) (connected_tasks v) v = (Inr us, v')" by simp
  define nodes where "nodes = dedup (connected_nodes v' @ concat (map (\<lambda>t. ti_nodes (task t)) (connected_tasks v)))"
  define b where "b = (builder_init (map node nodes) True)\<lparr>b_flows := subnet_flow v' # map (\<lambda>t. ti_flow (task t)) (connected_tasks v)\<rparr>"
  have builder: "validator_builder ow task node v = (Inr (nodes, b), v')"
    using clock_run by (simp add: validator_builder_def act_defs ct(2) nodes_def b_def Let_def)
  note nodes = validator_builder_run [OF init v(1) builder, unfolded tasks]
  let ?ds = "concat (map flow_decls (b_flows b))"
  let ?es = "concat (map (\<lambda>t. wires_decls (wires t)) (connected_tasks v))"
  have wired: "map (\<lambda>t. flow_decls (ti_flow (task t))) (connected_tasks v) = map (\<lambda>t. wires_decls (wires t)) (connected_tasks v)"
    using flows ct(1) by (intro map_cong) (auto simp: decls_of_sole)
  have b_ds: "?ds = decls_of (flow_pipes (subnet_flow v')) @ ?es" unfolding wired [symmetric] by (simp add: b_def o_def)
  have same: "set ((ds @ ?clocks) @ ?es) = set ?whole" using ct(1) by (auto simp: graph_decls_def)
  with con have "consistent ((ds @ ?clocks) @ ?es)" using consistent_cong by blast
  note all = consistent_decls_append [OF v'(3,2) this, folded b_ds]
  have actor: "\<forall>n \<in> set (b_nodes b). sn_build n = Some (Inr (case sn_build n of Some (Inr a) \<Rightarrow> a))"
    using node by (auto simp: b_def builder_init_def)
  have "\<not> b_built b" "b_flows b \<noteq> []" "b_factories b = map Inr []" by (simp_all add: b_def builder_init_def)
  from build_wires [OF this(1,2) actor this(3), of "[]", unfolded if_P [OF all(1)]] obtain rt where
    rt: "builder_build b = (Inr rt, b\<lparr>b_built := True\<rparr>)" "represents (connections (rt_bus rt)) ?ds"
      "rt_actors rt = map (\<lambda>n. case sn_build n of Some (Inr a) \<Rightarrow> a) (b_nodes b) @ b_actors b @ []"
      "\<And>s. dict_has (sink_owner (rt_bus rt)) s \<longleftrightarrow> (\<exists>a \<in> set (rt_actors rt). s \<in> set (snd a))"
    by (elim exE conjE) simp
  have acts: "rt_actors rt = map actor nodes" using rt(3) node by (simp add: b_def builder_init_def)
  have "build_runtime b = Inr rt" using rt(1)
    by (auto simp: builder_build_def ensure_not_built_def act_defs b_def builder_init_def split: sum.splits)
  then have "validator_start ow task node v = (Inr rt, v'\<lparr>runtime_up := True\<rparr>)"
    using v(4) v0(2) by (simp add: validator_start_def validator_build_runtime_def builder act_defs)
  moreover have "represents (connections (rt_bus rt)) ?whole"
    using rt(2) declared_cong [OF same] by (simp add: represents_def all(2,3))
  ultimately show thesis
    using that [OF v(1) _ acts] nodes rt(4) unfolding acts by (auto simp: image_iff)
qed

end
