(* ===== verification/Startup.thy ===== *)
theory Startup
  imports Settings Wiring Payload
begin

text \<open>
  From the environment to a running validator: the settings mixins and the clients made from them
  (\<open>utils/openrouter_config.py\<close>, \<open>utils/pylon_client_settings.py\<close>, \<open>actors/*_client_provider.py\<close>,
  \<open>OpenRouterClient.from_settings\<close>) and \<open>NexusValidator.run\<close>. What is pydantic's is an argument: which value it finds for a
  field under its alias or its name, where it locates an error of the field, and how it reads a text and a
  number. The clients are arguments too.
\<close>

section \<open>Reading settings\<close>

text \<open>A failed construction: a \<open>ValidationError\<close> with the locations of its errors, or an exception pydantic passes through.\<close>

datatype settings_error = InvalidFields "string list list" | SettingsRaised exn

text \<open>Pydantic on the fields of a model: the location of a field's error and the value it found, if any, from the alias and
  the name; a value read as \<open>str\<close> and as \<open>float\<close>.\<close>

record pydantic =
  py_find :: "string \<Rightarrow> string \<Rightarrow> string list \<times> json option"
  py_str :: "json \<Rightarrow> string option"
  py_float :: "json \<Rightarrow> json option"

definition checked_field ::
  "pydantic \<Rightarrow> string \<Rightarrow> string \<Rightarrow> 'a option \<Rightarrow> (json \<Rightarrow> 'a option) \<Rightarrow> string list list + 'a" where
  "checked_field p al field_name dflt parse =
     (case py_find p al field_name of
        (loc, None) \<Rightarrow> (case dflt of None \<Rightarrow> Inl [loc] | Some v \<Rightarrow> Inr v)
      | (loc, Some j) \<Rightarrow> (case parse j of None \<Rightarrow> Inl [loc] | Some v \<Rightarrow> Inr v))"

text \<open>All fields are read before any error is reported.\<close>

definition field_errors :: "'e list + 'a \<Rightarrow> 'e list" where
  "field_errors r = (case r of Inl es \<Rightarrow> es | Inr _ \<Rightarrow> [])"

definition read_opt_str :: "pydantic \<Rightarrow> json \<Rightarrow> string option option" where
  "read_opt_str p j = (if j = JNull then Some None else map_option Some (py_str p j))"

section \<open>OpenRouter settings\<close>

record openrouter_settings =
  os_url :: string
  os_api_key :: string
  os_model :: string
  os_timeout_seconds :: json
  os_temperature :: json

definition require_non_blank_strings :: "string \<Rightarrow> exn + string" where
  "require_non_blank_strings v = (if length (strip v) = 0 then Inl value_error else Inr v)"

definition reject_bool_numeric_values :: "json \<Rightarrow> exn + json" where
  "reject_bool_numeric_values v = (case v of JBool _ \<Rightarrow> Inl value_error | _ \<Rightarrow> Inr v)"

definition read_non_blank :: "pydantic \<Rightarrow> json \<Rightarrow> string option" where
  "read_non_blank p j =
     (case py_str p j of None \<Rightarrow> None
      | Some s \<Rightarrow> (case require_non_blank_strings s of Inl _ \<Rightarrow> None | Inr v \<Rightarrow> Some v))"

definition read_number :: "pydantic \<Rightarrow> json \<Rightarrow> json option" where
  "read_number p j = (case reject_bool_numeric_values j of Inl _ \<Rightarrow> None | Inr v \<Rightarrow> py_float p v)"


definition openrouter_client_from_settings :: "openrouter_settings \<Rightarrow> openrouter_client" where
  "openrouter_client_from_settings s =
     \<lparr>oc_url = os_url s, oc_api_key = os_api_key s, oc_model = os_model s,
      oc_timeout_seconds = os_timeout_seconds s, oc_temperature = os_temperature s\<rparr>"

section \<open>Pylon settings\<close>

record pylon_settings =
  ps_service_address :: string
  ps_open_access_token :: string
  ps_identity_name :: "string option"
  ps_identity_token :: "string option"
  ps_mtls_cert_path :: "string option"
  ps_mtls_key_path :: "string option"
  ps_neurons_file :: "string option"
  ps_neuron_keepalive_expiry :: json

definition check_identity_fields :: "pylon_settings \<Rightarrow> exn + pylon_settings" where
  "check_identity_fields s =
     (if (ps_identity_name s = None) \<noteq> (ps_identity_token s = None) then Inl (exn_of SubnetMisconfiguredException) else Inr s)"

definition pylon_settings_of :: "pydantic \<Rightarrow> settings_error + pylon_settings" where
  "pylon_settings_of p =
     (let address = checked_field p ''VALIDATOR_PYLON_SERVICE_ADDRESS'' ''pylon_service_address'' None (py_str p);
          token = checked_field p ''VALIDATOR_PYLON_OPEN_ACCESS_TOKEN'' ''pylon_open_access_token'' None (py_str p);
          id_name = checked_field p ''VALIDATOR_PYLON_IDENTITY_NAME'' ''pylon_identity_name'' (Some None) (read_opt_str p);
          id_token = checked_field p ''VALIDATOR_PYLON_IDENTITY_TOKEN'' ''pylon_identity_token'' (Some None) (read_opt_str p);
          cert = checked_field p ''VALIDATOR_MTLS_CERT_PATH'' ''mtls_cert_path'' (Some None) (read_opt_str p);
          key = checked_field p ''VALIDATOR_MTLS_KEY_PATH'' ''mtls_key_path'' (Some None) (read_opt_str p);
          neurons = checked_field p ''VALIDATOR_NEURONS_FILE'' ''neurons_file'' (Some None) (read_opt_str p);
          expiry = checked_field p ''VALIDATOR_NEURON_CONNECTION_KEEPALIVE_EXPIRY'' ''neuron_keepalive_expiry''
                     (Some (JFloat 60 0)) (py_float p)
      in case (address, token, id_name, id_token, cert, key, neurons, expiry) of
           (Inr a, Inr t, Inr n, Inr i, Inr c, Inr k, Inr f, Inr x) \<Rightarrow>
             (case check_identity_fields
                     \<lparr>ps_service_address = a, ps_open_access_token = t, ps_identity_name = n, ps_identity_token = i,
                      ps_mtls_cert_path = c, ps_mtls_key_path = k, ps_neurons_file = f, ps_neuron_keepalive_expiry = x\<rparr> of
                Inl e \<Rightarrow> Inl (SettingsRaised e)
              | Inr s \<Rightarrow> Inr s)
         | _ \<Rightarrow> Inl (InvalidFields (field_errors address @ field_errors token @ field_errors id_name @ field_errors id_token
                    @ field_errors cert @ field_errors key @ field_errors neurons @ field_errors expiry)))"

text \<open>The configuration of a pylon client, synchronous or not.\<close>

record pylon_config =
  pc_address :: string
  pc_open_access_token :: string
  pc_identity_name :: "string option"
  pc_identity_token :: "string option"
  pc_mtls_cert_path :: "string option"
  pc_mtls_key_path :: "string option"
  pc_neurons_file :: "string option"
  pc_neuron_keepalive_expiry :: json

definition pylon_config_of :: "pylon_settings \<Rightarrow> pylon_config" where
  "pylon_config_of s =
     \<lparr>pc_address = ps_service_address s, pc_open_access_token = ps_open_access_token s,
      pc_identity_name = (case ps_identity_name s of None \<Rightarrow> None | Some n \<Rightarrow> Some n),
      pc_identity_token = (case ps_identity_token s of None \<Rightarrow> None | Some t \<Rightarrow> Some t),
      pc_mtls_cert_path = ps_mtls_cert_path s, pc_mtls_key_path = ps_mtls_key_path s,
      pc_neurons_file = ps_neurons_file s, pc_neuron_keepalive_expiry = ps_neuron_keepalive_expiry s\<rparr>"

section \<open>Client providers\<close>

text \<open>\<open>as_mixin\<close> is the settings object as the required mixin, if it implements it; \<open>construct\<close> is the constructor of the client.\<close>

definition get_settings_view :: "('s \<Rightarrow> 'm option) \<Rightarrow> (exn, 'm, 's option \<times> 'w) act" where
  "get_settings_view as_mixin =
     bind_act (get_settings_as (\<lambda>s. as_mixin s \<noteq> None)) (\<lambda>s. case as_mixin s of None \<Rightarrow> raise (exn_of SubnetMisconfiguredException) | Some m \<Rightarrow> ret m)"

definition get_pylon_client :: "('s \<Rightarrow> pylon_settings option) \<Rightarrow> (pylon_config \<Rightarrow> exn + 'c) \<Rightarrow> (exn, 'c, 's option \<times> 'w) act" where
  "get_pylon_client as_mixin construct = bind_act (get_settings_view as_mixin) (\<lambda>s. lift_act (construct (pylon_config_of s)))"

definition get_async_pylon_client :: "('s \<Rightarrow> pylon_settings option) \<Rightarrow> (pylon_config \<Rightarrow> exn + 'c) \<Rightarrow> (exn, 'c, 's option \<times> 'w) act" where
  "get_async_pylon_client as_mixin construct = bind_act (get_settings_view as_mixin) (\<lambda>s. lift_act (construct (pylon_config_of s)))"

definition get_openrouter_client :: "('s \<Rightarrow> openrouter_settings option) \<Rightarrow> (exn, openrouter_client, 's option \<times> 'w) act" where
  "get_openrouter_client as_mixin = bind_act (get_settings_view as_mixin) (\<lambda>s. ret (openrouter_client_from_settings s))"

text \<open>The S3 provider has no settings of its own: its configuration is how buckets are addressed.\<close>

definition default_s3_config :: string where "default_s3_config = ''virtual''"

definition get_s3_client :: "(string \<Rightarrow> exn + 'c) \<Rightarrow> string \<Rightarrow> exn + 'c" where
  "get_s3_client construct config = construct config"

section \<open>A validator process\<close>

datatype process_end = ProcessExits int "string list" | ProcessCrashes exn

definition configuration_fields :: "string list list \<Rightarrow> string" where
  "configuration_fields locs = join_text '', '' (map last (filter (\<lambda>l. l \<noteq> []) locs))"

definition load_settings_or_exit :: "settings_error + 's \<Rightarrow> process_end + 's" where
  "load_settings_or_exit constructed =
     (case constructed of
        Inr s \<Rightarrow> Inr s
      | Inl (InvalidFields locs) \<Rightarrow>
          Inl (ProcessExits 1 [''Configuration error: missing or invalid fields: '' @ configuration_fields locs,
                               ''Check your .env file or environment variables.''])
      | Inl (SettingsRaised e) \<Rightarrow> Inl (ProcessCrashes e))"

text \<open>
  The state of a process: the registry of settings, the validator and the world of its runtime. The body of the \<open>with\<close>
  block, and what the threads do meanwhile, may read the registry.
\<close>

definition start_runtime ::
  "'s \<Rightarrow> owners \<Rightarrow> (nat \<Rightarrow> task_info) \<Rightarrow> (nat \<Rightarrow> subnet_node) \<Rightarrow> int \<Rightarrow> (nat \<Rightarrow> bool) \<Rightarrow>
     ('s option \<Rightarrow> (exn, 'a, ('d, 'x) runtime_world_scheme) act) \<Rightarrow>
     (exn, 'a, 's option \<times> validator \<times> ('d, 'x) runtime_world_scheme) act" where
  "start_runtime settings ow task node timeout outlives body =
     use_settings settings (\<lambda>(cur, v, w).
       case validator_start ow task node v of
         (Inl e, v') \<Rightarrow> (Inl e, (cur, v', w))
       | (Inr rt, v') \<Rightarrow>
           (case running rt timeout outlives (body cur) w of
              (r, w') \<Rightarrow> (r, (cur, snd (validator_finish v'), w'))))"

text \<open>Sleeping until something is raised in the main thread.\<close>

definition until_interrupted :: "(exn, unit, 'w) act \<Rightarrow> (exn, unit, 'w) act" where
  "until_interrupted sleeping =
     try_act sleeping (\<lambda>e. if exn_class e = OtherException ''KeyboardInterrupt'' then ret () else raise e)"

definition validator_run ::
  "settings_error + 's \<Rightarrow> ('s \<Rightarrow> exn + validator) \<Rightarrow> owners \<Rightarrow> (nat \<Rightarrow> task_info) \<Rightarrow> (nat \<Rightarrow> subnet_node) \<Rightarrow> (nat \<Rightarrow> bool) \<Rightarrow>
     ('s option \<Rightarrow> (exn, unit, ('d, 'x) runtime_world_scheme) act) \<Rightarrow>
     's option \<Rightarrow> ('d, 'x) runtime_world_scheme \<Rightarrow>
     (process_end + unit) \<times> 's option \<times> validator option \<times> ('d, 'x) runtime_world_scheme" where
  "validator_run constructed construct ow task node outlives sleeping cur w =
     (case load_settings_or_exit constructed of
        Inl f \<Rightarrow> (Inl f, cur, None, w)
      | Inr s \<Rightarrow>
          (case initialize_settings s (cur, w) of
             (Inl e, cur, w) \<Rightarrow> (Inl (ProcessCrashes e), cur, None, w)
           | (Inr _, cur, w) \<Rightarrow>
               (case construct s of
                  Inl e \<Rightarrow> (Inl (ProcessCrashes e), cur, None, w)
                | Inr v \<Rightarrow>
                    (case start_runtime s ow task node 30 outlives (\<lambda>c. until_interrupted (sleeping c)) (cur, v, w) of
                       (Inl e, cur, v, w) \<Rightarrow> (Inl (ProcessCrashes e), cur, Some v, w)
                     | (Inr _, cur, v, w) \<Rightarrow> (Inr (), cur, Some v, w)))))"

section \<open>Settings are read completely\<close>

text \<open>What a field takes, and the fields of the mixins in the order of their declaration.\<close>

datatype field_kind = NonBlankText | NonBoolNumber | PlainText | OptionalText | OptionalNumber

fun takes :: "pydantic \<Rightarrow> field_kind \<Rightarrow> json option \<Rightarrow> bool" where
  "takes p kind None \<longleftrightarrow> kind \<in> {OptionalText, OptionalNumber}"
| "takes p NonBlankText (Some j) \<longleftrightarrow> (case py_str p j of None \<Rightarrow> False | Some t \<Rightarrow> strip t \<noteq> [])"
| "takes p NonBoolNumber (Some j) \<longleftrightarrow> j \<notin> {JBool True, JBool False} \<and> py_float p j \<noteq> None"
| "takes p PlainText (Some j) \<longleftrightarrow> py_str p j \<noteq> None"
| "takes p OptionalText (Some j) \<longleftrightarrow> j = JNull \<or> py_str p j \<noteq> None"
| "takes p OptionalNumber (Some j) \<longleftrightarrow> py_float p j \<noteq> None"


definition pylon_fields :: "(string \<times> string \<times> field_kind) list" where
  "pylon_fields =
     [(''VALIDATOR_PYLON_SERVICE_ADDRESS'', ''pylon_service_address'', PlainText),
      (''VALIDATOR_PYLON_OPEN_ACCESS_TOKEN'', ''pylon_open_access_token'', PlainText),
      (''VALIDATOR_PYLON_IDENTITY_NAME'', ''pylon_identity_name'', OptionalText),
      (''VALIDATOR_PYLON_IDENTITY_TOKEN'', ''pylon_identity_token'', OptionalText),
      (''VALIDATOR_MTLS_CERT_PATH'', ''mtls_cert_path'', OptionalText),
      (''VALIDATOR_MTLS_KEY_PATH'', ''mtls_key_path'', OptionalText),
      (''VALIDATOR_NEURONS_FILE'', ''neurons_file'', OptionalText),
      (''VALIDATOR_NEURON_CONNECTION_KEEPALIVE_EXPIRY'', ''neuron_keepalive_expiry'', OptionalNumber)]"

text \<open>Where pydantic locates the errors of the fields that are missing or hold what they do not take.\<close>

definition bad_fields :: "pydantic \<Rightarrow> (string \<times> string \<times> field_kind) list \<Rightarrow> string list list" where
  "bad_fields p table =
     concat (map (\<lambda>(al, nm, kind). if takes p kind (snd (py_find p al nm)) then [] else [fst (py_find p al nm)]) table)"

text \<open>The text of an optional field.\<close>

definition found_text :: "pydantic \<Rightarrow> string \<Rightarrow> string \<Rightarrow> string option" where
  "found_text p al nm = (case snd (py_find p al nm) of None \<Rightarrow> None | Some j \<Rightarrow> if j = JNull then None else py_str p j)"

named_theorems field_cases \<comment> \<open>a field is read exactly when it takes what was found\<close>

lemma text_field_cases [field_cases]:
  "checked_field p al nm None (read_non_blank p) =
     (if takes p NonBlankText (snd (py_find p al nm)) then Inr (the (py_str p (the (snd (py_find p al nm)))))
      else Inl [fst (py_find p al nm)])"
  by (cases "py_find p al nm"; cases "snd (py_find p al nm)")
    (auto simp: checked_field_def read_non_blank_def require_non_blank_strings_def split: option.split)

lemma number_field_cases [field_cases]:
  "checked_field p al nm None (read_number p) =
     (if takes p NonBoolNumber (snd (py_find p al nm)) then Inr (the (py_float p (the (snd (py_find p al nm)))))
      else Inl [fst (py_find p al nm)])"
  by (cases "py_find p al nm"; cases "snd (py_find p al nm)")
    (auto simp: checked_field_def read_number_def reject_bool_numeric_values_def split: option.split json.split)

lemma plain_field_cases [field_cases]:
  "checked_field p al nm None (py_str p) =
     (if takes p PlainText (snd (py_find p al nm)) then Inr (the (py_str p (the (snd (py_find p al nm)))))
      else Inl [fst (py_find p al nm)])"
  by (cases "py_find p al nm"; cases "snd (py_find p al nm)") (auto simp: checked_field_def split: option.split)

lemma optional_text_cases [field_cases]:
  "checked_field p al nm (Some None) (read_opt_str p) =
     (if takes p OptionalText (snd (py_find p al nm)) then Inr (found_text p al nm) else Inl [fst (py_find p al nm)])"
  by (cases "py_find p al nm"; cases "snd (py_find p al nm)")
    (auto simp: checked_field_def read_opt_str_def found_text_def split: option.split)

lemma optional_number_cases [field_cases]:
  "checked_field p al nm (Some d) (py_float p) =
     (if takes p OptionalNumber (snd (py_find p al nm))
      then Inr (case snd (py_find p al nm) of None \<Rightarrow> d | Some j \<Rightarrow> the (py_float p j)) else Inl [fst (py_find p al nm)])"
  by (cases "py_find p al nm"; cases "snd (py_find p al nm)") (auto simp: checked_field_def split: option.split)

text \<open>All fields are read, or the errors of all are reported.\<close>

lemma field_errors_if [simp]: "field_errors (if b then Inr x else Inl es) = (if b then [] else es)"
  by (simp add: field_errors_def)


lemma eight_fields:
  "(case (if b1 then Inr x1 else Inl e1, if b2 then Inr x2 else Inl e2, if b3 then Inr x3 else Inl e3, if b4 then Inr x4 else Inl e4,
          if b5 then Inr x5 else Inl e5, if b6 then Inr x6 else Inl e6, if b7 then Inr x7 else Inl e7, if b8 then Inr x8 else Inl e8) of
      (Inr a, Inr t, Inr n, Inr i, Inr c, Inr k, Inr h, Inr x) \<Rightarrow> f a t n i c k h x | _ \<Rightarrow> bad) =
   (if b1 \<and> b2 \<and> b3 \<and> b4 \<and> b5 \<and> b6 \<and> b7 \<and> b8 then f x1 x2 x3 x4 x5 x6 x7 x8 else bad)"
  by (cases b1; simp; cases b2; simp; cases b3; simp; cases b4; simp; cases b5; simp; cases b6; simp; cases b7; simp)


definition half_identity :: "pydantic \<Rightarrow> bool" where
  "half_identity p \<longleftrightarrow>
     (found_text p ''VALIDATOR_PYLON_IDENTITY_NAME'' ''pylon_identity_name'' = None)
       \<noteq> (found_text p ''VALIDATOR_PYLON_IDENTITY_TOKEN'' ''pylon_identity_token'' = None)"

lemma pylon_settings_cases:
  "pylon_settings_of p =
     (if bad_fields p pylon_fields \<noteq> [] then Inl (InvalidFields (bad_fields p pylon_fields))
      else if half_identity p then Inl (SettingsRaised (exn_of SubnetMisconfiguredException))
      else Inr \<lparr>ps_service_address = the (py_str p (the (snd (py_find p ''VALIDATOR_PYLON_SERVICE_ADDRESS'' ''pylon_service_address'')))),
        ps_open_access_token = the (py_str p (the (snd (py_find p ''VALIDATOR_PYLON_OPEN_ACCESS_TOKEN'' ''pylon_open_access_token'')))),
        ps_identity_name = found_text p ''VALIDATOR_PYLON_IDENTITY_NAME'' ''pylon_identity_name'',
        ps_identity_token = found_text p ''VALIDATOR_PYLON_IDENTITY_TOKEN'' ''pylon_identity_token'',
        ps_mtls_cert_path = found_text p ''VALIDATOR_MTLS_CERT_PATH'' ''mtls_cert_path'',
        ps_mtls_key_path = found_text p ''VALIDATOR_MTLS_KEY_PATH'' ''mtls_key_path'',
        ps_neurons_file = found_text p ''VALIDATOR_NEURONS_FILE'' ''neurons_file'',
        ps_neuron_keepalive_expiry =
          (case snd (py_find p ''VALIDATOR_NEURON_CONNECTION_KEEPALIVE_EXPIRY'' ''neuron_keepalive_expiry'') of
             None \<Rightarrow> JFloat 60 0 | Some j \<Rightarrow> the (py_float p j))\<rparr>)"
  unfolding pylon_settings_of_def bad_fields_def pylon_fields_def field_cases Let_def eight_fields
  by (simp add: check_identity_fields_def half_identity_def del: takes.simps)

section \<open>A run of a validator\<close>

definition started :: "subnet_runtime \<Rightarrow> ('d, 'x) runtime_world_scheme \<Rightarrow> ('d, 'x) runtime_world_scheme" where
  "started rt w = w\<lparr>actor_starts := actor_starts w @ map fst (dedup (rt_actors rt)), bus_starts := Suc (bus_starts w), is_started := True\<rparr>"

definition stopped :: "('d, 'x) runtime_world_scheme \<Rightarrow> ('d, 'x) runtime_world_scheme" where
  "stopped w = w\<lparr>stop_requested := True, bus_in := bus_in w @ [StopBusEvent]\<rparr>"

definition some_outlive :: "(nat \<Rightarrow> bool) \<Rightarrow> ('d, 'x) runtime_world_scheme \<Rightarrow> bool" where
  "some_outlive outlives w \<longleftrightarrow> (\<exists>k < length (actor_starts w) + bus_starts w. outlives k)"

lemma shutdown_run:
  assumes "0 \<le> timeout" and "is_started w" and "\<not> stop_requested w"
  shows "seq_act request_stop (wait_for_stop timeout outlives) w =
    (if some_outlive outlives w then Inl (exn_of (OtherException ''TimeoutError'')) else Inr (), stopped w)"
proof -
  have "request_stop w = (Inr (), stopped w)"
    using assms(2,3) by (simp add: request_stop_def act_defs put_bus_def stopped_def)
  moreover have "wait_for_stop timeout outlives (stopped w) =
      (if some_outlive outlives w then Inl (exn_of (OtherException ''TimeoutError'')) else Inr (), stopped w)"
    using assms(1) by (auto simp: wait_for_stop_def act_defs some_outlive_def stopped_def filter_empty_conv)
  ultimately show ?thesis by (simp add: seq_act_apply)
qed

lemma running_run:
  assumes "0 \<le> timeout" and "\<not> is_started w" and "body (started rt w) = (r, w1)" and "is_started w1" and "\<not> stop_requested w1"
  shows "running rt timeout outlives body w =
    (if some_outlive outlives w1 then Inl (exn_of (OtherException (case r of Inl _ \<Rightarrow> ''BaseExceptionGroup'' | Inr _ \<Rightarrow> ''TimeoutError'')))
     else r, stopped w1)"
proof -
  have "run_loop rt w = (Inr (), started rt w)" using assms(2) by (simp add: run_loop_def act_defs started_def)
  moreover note shutdown_run [OF assms(1,4,5), of outlives]
  ultimately show ?thesis using assms(1,3)
    by (cases r) (simp_all add: running_def Let_def seq_act_apply seq_act_def [of _ "ret _"] bind_act_def)
qed




text \<open>An identity with only one of name and token is not reported like a bad field: the exception is not a \<open>ValueError\<close>,
  so it leaves the constructor as it is and the handler for bad fields does not see it.\<close>

lemma half_identity_crashes:
  assumes "bad_fields p pylon_fields = []" and "half_identity p"
  shows "load_settings_or_exit (pylon_settings_of p) = Inl (ProcessCrashes (exn_of SubnetMisconfiguredException))"
  using assms by (simp add: pylon_settings_cases load_settings_or_exit_def)

text \<open>While a body runs, a provider builds its client from the settings of the run.\<close>

lemma provider_sees_scope:
  assumes "as_mixin s = Some m"
  shows "use_settings s (get_openrouter_client as_mixin) (cur, w) = (Inr (openrouter_client_from_settings m), (cur, w))"
    and "use_settings s (get_pylon_client as_pylon construct) (cur, w) =
      (case as_pylon s of None \<Rightarrow> Inl (exn_of SubnetMisconfiguredException) | Some p \<Rightarrow> construct (pylon_config_of p), (cur, w))"
    and "get_openrouter_client as_mixin (None, w) = (Inl (exn_of SubnetMisconfiguredException), (None, w))"
  using assms
  by (auto simp: use_settings_def get_openrouter_client_def get_pylon_client_def get_settings_view_def get_settings_as_def act_defs
      split: option.split)

text \<open>C22: A validator that starts is shut down whatever ends it. Its threads run under its own settings; when sleeping ends, by
  Ctrl+C or by any other exception, the runtime is asked to stop, the validator has no runtime any more and the
  settings stay registered. The process ends cleanly exactly on Ctrl+C when every thread ended in time.\<close>

theorem validator_run_shuts_down:
  fixes w w1 :: "('d, 'x) runtime_world_scheme"
  assumes "construct s = Inr v" and "validator_start ow task node v = (Inr rt, v')" and "\<not> is_started w"
    and "sleeping (Some s) (started rt w) = (Inl e, w1)" and "is_started w1" and "\<not> stop_requested w1"
  shows "validator_run (Inr s) construct ow task node outlives sleeping None w =
     (if exn_class e = OtherException ''KeyboardInterrupt''
      then if some_outlive outlives w1 then Inl (ProcessCrashes (exn_of (OtherException ''TimeoutError''))) else Inr ()
      else Inl (ProcessCrashes (if some_outlive outlives w1 then exn_of (OtherException ''BaseExceptionGroup'') else e)),
      Some s, Some (v'\<lparr>runtime_up := False\<rparr>), stopped w1)"
proof -
  let ?r = "if exn_class e = OtherException ''KeyboardInterrupt'' then Inr () else Inl e"
  have "until_interrupted (sleeping (Some s)) (started rt w) = (?r, w1)"
    using assms(4) by (simp add: until_interrupted_def try_act_def)
  note run = running_run [of 30 w "until_interrupted (sleeping (Some s))" rt ?r w1 outlives, OF _ assms(3) this assms(5,6)]
  show ?thesis
    using assms(1,2) run
    by (simp add: validator_run_def load_settings_or_exit_def initialize_settings_def start_runtime_def use_settings_def
        validator_finish_def modify_act_def)
qed

definition run_demo_owners :: owners where
  "run_demo_owners = \<lparr>source_node = (\<lambda>s. if s = Source ''a'' then Some 0 else None),
     sink_node = (\<lambda>s. if s = Sink ''b'' then Some 1 else None), source_task = (\<lambda>_. None), sink_task = (\<lambda>_. None)\<rparr>"

definition run_demo_node :: "nat \<Rightarrow> subnet_node" where
  "run_demo_node n =
     \<lparr>sn_node = \<lparr>node_id = ''n'', node_sinks_table = \<lparr>sinks_of = [], default_sink = None\<rparr>, node_sources_table = \<lparr>sources_of = [], default_source = None\<rparr>\<rparr>,
      sn_build = Some (Inr (n, [Sink ''b'']))\<rparr>"

definition run_demo_validator :: "openrouter_settings \<Rightarrow> exn + validator" where
  "run_demo_validator s =
     (case validator_init ''clk'' of
        Inl e \<Rightarrow> Inl e
      | Inr v0 \<Rightarrow> (case validator_connects run_demo_owners [(Source ''a'', Some (Sink ''b''), [])] v0 of
                    (Inl e, _) \<Rightarrow> Inl e | (Inr _, v) \<Rightarrow> Inr v))"

theorem validator_run_shuts_down_witness:
  "\<forall>s. fst (validator_run (Inr s) run_demo_validator run_demo_owners (\<lambda>_. demo_task_info) run_demo_node (\<lambda>_. False)
     (\<lambda>_. raise (exn_of (OtherException ''KeyboardInterrupt''))) None (runtime_world_init :: pyval runtime_world)) = Inr ()"
proof
  fix s
  obtain v0 where v0: "validator_init ''clk'' = Inr v0"
    by (simp add: validator_init_def node_sinks_init_def node_sources_init_def)
  let ?ds = "[(Source ''a'', Some (Sink ''b''), [])]"
  obtain v rt v' nodes where v: "validator_connects run_demo_owners ?ds v0 = (Inr (), v)"
    and start: "validator_start run_demo_owners (\<lambda>_. demo_task_info) run_demo_node v = (Inr rt, v')"
    by (rule validator_start_run [OF v0, of ?ds run_demo_owners "[]" "\<lambda>_. demo_task_info" "\<lambda>_. []" run_demo_node "\<lambda>n. (n, [Sink ''b''])"])
      (simp_all add: decl_tasks_def run_demo_owners_def one_role_def graph_decls_def primaries_of_def run_demo_node_def)
  have "run_demo_validator s = Inr v" by (simp only: run_demo_validator_def v0 v sum.case prod.case)
  from validator_run_shuts_down [of run_demo_validator s v, OF this start, of "runtime_world_init :: pyval runtime_world"
      "\<lambda>_. raise (exn_of (OtherException ''KeyboardInterrupt''))" "exn_of (OtherException ''KeyboardInterrupt'')"
      "started rt runtime_world_init" "\<lambda>_. False"]
  show "fst (validator_run (Inr s) run_demo_validator run_demo_owners (\<lambda>_. demo_task_info) run_demo_node (\<lambda>_. False)
      (\<lambda>_. raise (exn_of (OtherException ''KeyboardInterrupt''))) None (runtime_world_init :: pyval runtime_world)) = Inr ()"
    by (simp add: started_def runtime_world_init_def exn_of_def some_outlive_def)
qed

end
