(* ===== verification/Deltas.thy ===== *)
theory Deltas
  imports Values
begin

text \<open>
  How the store reads a pickled delta back (\<open>core/runtime/serialization.py\<close>). The unpickler of the standard library is
  an argument: it is given the bytes and the method it calls for a persistent id.
\<close>

datatype pickle_content = ContentBytes string | ContentStr string

text \<open>A persistent id stands for an object that was not pickled; the only one known is the type of \<open>None\<close>.\<close>

datatype persistent_object = NoneTypeObject

definition persistent_load :: "string \<Rightarrow> exn + persistent_object" where
  "persistent_load pid =
     (if pid = ''<<NoneType>>'' then Inr NoneTypeObject else Inl (exn_of (OtherException ''UnpicklingError'')))"

definition unsafe_pickle_load ::
  "(string \<Rightarrow> string) \<Rightarrow> ((string \<Rightarrow> exn + persistent_object) \<Rightarrow> string \<Rightarrow> exn + 'a) \<Rightarrow>
     pickle_content option \<Rightarrow> string option \<Rightarrow> 'b option \<Rightarrow> exn + 'a" where
  "unsafe_pickle_load encode unpickle content file_obj safe_to_import =
     (if content = None \<and> file_obj = None then Inl value_error
      else
        let content = (case content of Some (ContentStr s) \<Rightarrow> Some (encode s) | Some (ContentBytes b) \<Rightarrow> Some b | None \<Rightarrow> None)
        in case content of
             Some b \<Rightarrow> unpickle persistent_load b
           | None \<Rightarrow>
               (case file_obj of
                  None \<Rightarrow> Inl framework_exn
                | Some f \<Rightarrow> unpickle persistent_load f))"

text \<open>A content is read as it is or encoded, whether or not a file is given too; a file is read only without one, and
  the allow-list of importable classes is never looked at.\<close>

lemma unsafe_pickle_load_reads:
  "unsafe_pickle_load encode unpickle content file_obj allowed =
     (case content of
        Some (ContentBytes b) \<Rightarrow> unpickle persistent_load b
      | Some (ContentStr s) \<Rightarrow> unpickle persistent_load (encode s)
      | None \<Rightarrow> (case file_obj of Some f \<Rightarrow> unpickle persistent_load f | None \<Rightarrow> Inl value_error))"
  by (auto simp: unsafe_pickle_load_def split: option.split pickle_content.split)

text \<open>So the error for having nothing to read from is never the framework's own, unless unpickling raises it.\<close>

lemma missing_input_is_a_value_error:
  assumes "\<And>p b. unpickle p b \<noteq> Inl framework_exn"
  shows "unsafe_pickle_load encode unpickle content file_obj allowed \<noteq> Inl framework_exn"
  using assms by (auto simp: unsafe_pickle_load_reads exn_of_def split: option.split pickle_content.split)

end
