(* ===== verification/Weighing.thy ===== *)
theory Weighing
  imports Complex_Main Router Payload Chain
begin

text \<open>
  The weighing function of the cat-images demo, \<open>demos/cat-images/cat_images/validator/weighing_algorithm.py\<close>:
  from the stored results of two epochs to one weight per hotkey. A Python float is the rational it
  denotes, and every arithmetic operation is the exact one followed by the rounding \<open>rnd\<close>; reading
  the attributes of the payloads is an argument, and so is the text of a result's id.
\<close>

section \<open>Scores\<close>

record weighing_env =
  payload_fields :: "pyval \<Rightarrow> exn + fields list"
  scores_by_id :: "pyval \<Rightarrow> exn + (string, int) dict"
  id_text :: "nat \<Rightarrow> string"
  rnd :: "rat \<Rightarrow> rat"

definition requested_task_result_id :: "fields \<Rightarrow> exn + string" where
  "requested_task_result_id selected_item =
     (case dict_get selected_item ''task_result_id'' of
        Some (ScalarField (ScStr v)) \<Rightarrow> Inr v
      | _ \<Rightarrow> Inl framework_exn)"

text \<open>The set of ids, in the order of their first occurrence.\<close>

fun requested_ids :: "fields list \<Rightarrow> exn + string list" where
  "requested_ids [] = Inr []"
| "requested_ids (item # items) =
     (case requested_task_result_id item of
        Inl e \<Rightarrow> Inl e
      | Inr i \<Rightarrow> (case requested_ids items of Inl e \<Rightarrow> Inl e | Inr ids \<Rightarrow> Inr (i # ids)))"

definition requested_task_result_ids :: "weighing_env \<Rightarrow> pyval \<Rightarrow> exn + string list" where
  "requested_task_result_ids env v =
     (case payload_fields env v of
        Inl e \<Rightarrow> Inl e
      | Inr items \<Rightarrow> map_sum id dedup (requested_ids items))"

text \<open>The first loop of \<open>weighing_func\<close>; only \<open>InternalFrameworkException\<close> makes it skip a result.\<close>

fun collect_scores :: "weighing_env \<Rightarrow> pyval succ_result list \<Rightarrow> (string, int) dict \<Rightarrow> exn + (string, int) dict" where
  "collect_scores env [] scores = Inr scores"
| "collect_scores env (r # rs) scores =
     (case requested_task_result_ids env (succ_payload r) of
        Inl e \<Rightarrow> if exn_class e = InternalFrameworkException then collect_scores env rs scores else Inl e
      | Inr ids \<Rightarrow>
          (case scores_by_id env (succ_output r) of
             Inl e \<Rightarrow> Inl e
           | Inr returned \<Rightarrow>
               if length ids = 1 \<and> set (dict_keys returned) \<noteq> set ids then collect_scores env rs scores
               else collect_scores env rs
                      (fold (\<lambda>i d. case dict_get returned i of None \<Rightarrow> d | Some s \<Rightarrow> dict_set i s d) ids scores)))"

section \<open>Weights\<close>

record accumulator =
  mining_count :: nat
  scored_count :: nat
  scored_sum :: rat
  unscored_success_count :: nat

definition accumulator_init :: accumulator where
  "accumulator_init = \<lparr>mining_count = 0, scored_count = 0, scored_sum = 0, unscored_success_count = 0\<rparr>"

text \<open>\<open>defaultdict\<close>: a missing key reads as a new accumulator, which is then stored.\<close>

definition accumulator_of :: "(string, accumulator) dict \<Rightarrow> string \<Rightarrow> accumulator" where
  "accumulator_of accs h = (case dict_get accs h of None \<Rightarrow> accumulator_init | Some a \<Rightarrow> a)"

definition add_mining_success ::
  "weighing_env \<Rightarrow> (string, int) dict \<Rightarrow> pyval succ_result \<Rightarrow> (string, accumulator) dict \<Rightarrow> (string, accumulator) dict" where
  "add_mining_success env scores r accs =
     (let h = hotkey (succ_target r); a = accumulator_of accs h; a1 = a\<lparr>mining_count := mining_count a + 1\<rparr> in
      dict_set h
        (case dict_get scores (id_text env (succ_id r)) of
           None \<Rightarrow> a1\<lparr>unscored_success_count := unscored_success_count a + 1\<rparr>
         | Some s \<Rightarrow> a1\<lparr>scored_count := scored_count a + 1, scored_sum := rnd env (scored_sum a + rnd env (of_int s))\<rparr>) accs)"

definition add_mining_failure :: "pyval fail_result \<Rightarrow> (string, accumulator) dict \<Rightarrow> (string, accumulator) dict" where
  "add_mining_failure r accs =
     (let h = hotkey (fail_target r); a = accumulator_of accs h in
      dict_set h (a\<lparr>mining_count := mining_count a + 1, scored_count := scored_count a + 1\<rparr>) accs)"

definition accumulator_weight :: "weighing_env \<Rightarrow> accumulator \<Rightarrow> rat" where
  "accumulator_weight env a =
     (let average = (if 0 < scored_count a then rnd env (scored_sum a / rnd env (of_nat (scored_count a))) else 0)
      in rnd env (rnd env (of_nat (mining_count a)) * average))"

definition weighing_func :: "weighing_env \<Rightarrow> string \<Rightarrow> string \<Rightarrow> epoch \<Rightarrow> result_store \<Rightarrow> exn + (string \<times> rat) list" where
  "weighing_func env mining_task validation_task current_epoch store =
     (case epoch_previous current_epoch of
        Inl e \<Rightarrow> Inl e
      | Inr previous_epoch \<Rightarrow>
          (let successes = get_successful_tasks_for_epoch mining_task previous_epoch store;
               failures = get_executor_failures_for_epoch mining_task previous_epoch store;
               validations = get_successful_tasks_for_epoch validation_task previous_epoch store
                 @ get_successful_tasks_for_epoch validation_task current_epoch store
           in case collect_scores env validations [] of
                Inl e \<Rightarrow> Inl e
              | Inr scores \<Rightarrow>
                  (let accs = fold add_mining_failure failures (fold (add_mining_success env scores) successes [])
                   in Inr (map (\<lambda>h. (h, accumulator_weight env (accumulator_of accs h))) (sort (dict_keys accs))))))"

section \<open>What the scores mean\<close>

text \<open>The pairs that one validation result contributes: none when its payload is malformed or a lone request was
  answered for other ids, otherwise those requested ids that it scored.\<close>

definition contributed :: "weighing_env \<Rightarrow> pyval succ_result \<Rightarrow> exn + (string \<times> int) list" where
  "contributed env r =
     (case requested_task_result_ids env (succ_payload r) of
        Inl e \<Rightarrow> if exn_class e = InternalFrameworkException then Inr [] else Inl e
      | Inr ids \<Rightarrow>
          map_sum id (\<lambda>returned. if length ids = 1 \<and> set (dict_keys returned) \<noteq> set ids then []
             else map (\<lambda>i. (i, the (dict_get returned i))) (filter (dict_has returned) ids)) (scores_by_id env (succ_output r)))"

text \<open>The latest contribution counts.\<close>

definition score_of :: "weighing_env \<Rightarrow> pyval succ_result list \<Rightarrow> string \<Rightarrow> int option" where
  "score_of env validations = map_of (rev (concat (map (\<lambda>r. case contributed env r of Inr ps \<Rightarrow> ps | Inl _ \<Rightarrow> []) validations)))"

lemma map_of_rev_snoc: "map_of (rev (xs @ ys)) k = (case map_of (rev ys) k of None \<Rightarrow> map_of (rev xs) k | Some v \<Rightarrow> Some v)"
  by (simp add: map_add_def)

lemma fold_scores:
  "dict_get (fold (\<lambda>i d. case dict_get returned i of None \<Rightarrow> d | Some s \<Rightarrow> dict_set i s d) ids d) k =
     (case map_of (rev (map (\<lambda>i. (i, the (dict_get returned i))) (filter (dict_has returned) ids))) k of
        None \<Rightarrow> dict_get d k | Some s \<Rightarrow> Some s)"
proof (induction ids rule: rev_induct)
  case (snoc i ids)
  then show ?case by (cases "dict_get returned i") (auto simp: dict_has_def)
qed simp

lemma collect_scores_run:
  "\<forall>r \<in> set rs. \<exists>ps. contributed env r = Inr ps \<Longrightarrow>
     \<exists>d. collect_scores env rs d0 = Inr d
       \<and> (\<forall>k. dict_get d k = (case score_of env rs k of None \<Rightarrow> dict_get d0 k | Some s \<Rightarrow> Some s))"
proof (induction rs arbitrary: d0)
  case Nil
  then show ?case by (simp add: score_of_def)
next
  case (Cons r rs)
  from Cons.prems obtain ps where ps: "contributed env r = Inr ps" by auto
  have "\<exists>d1. collect_scores env (r # rs) d0 = collect_scores env rs d1
     \<and> (\<forall>k. dict_get d1 k = (case map_of (rev ps) k of None \<Rightarrow> dict_get d0 k | Some s \<Rightarrow> Some s))"
  proof (cases "requested_task_result_ids env (succ_payload r)")
    case (Inl e)
    with ps show ?thesis by (auto simp: contributed_def split: if_splits)
  next
    case ids: (Inr ids)
    with ps obtain returned where returned: "scores_by_id env (succ_output r) = Inr returned"
      by (cases "scores_by_id env (succ_output r)") (auto simp: contributed_def)
    show ?thesis
    proof (cases "length ids = 1 \<and> set (dict_keys returned) \<noteq> set ids")
      case True
      then have "ps = []" using ps ids returned unfolding contributed_def by simp
      moreover have "collect_scores env (r # rs) d0 = collect_scores env rs d0"
        using True ids returned unfolding collect_scores.simps by simp
      ultimately show ?thesis by auto
    next
      case False
      then have "ps = map (\<lambda>i. (i, the (dict_get returned i))) (filter (dict_has returned) ids)"
        using ps ids returned unfolding contributed_def by (simp del: set_map split: if_splits)
      then show ?thesis unfolding collect_scores.simps ids returned sum.case if_not_P [OF False]
        using fold_scores [of returned ids d0] by blast
    qed
  qed
  then obtain d1 where d1: "collect_scores env (r # rs) d0 = collect_scores env rs d1"
    "\<forall>k. dict_get d1 k = (case map_of (rev ps) k of None \<Rightarrow> dict_get d0 k | Some s \<Rightarrow> Some s)" by blast
  from Cons.IH [of d1] Cons.prems obtain d where d: "collect_scores env rs d1 = Inr d"
    "\<forall>k. dict_get d k = (case score_of env rs k of None \<Rightarrow> dict_get d1 k | Some s \<Rightarrow> Some s)" by auto
  have "score_of env (r # rs) k = (case score_of env rs k of None \<Rightarrow> map_of (rev ps) k | Some s \<Rightarrow> Some s)" for k
    unfolding score_of_def list.map concat.simps ps sum.case by (rule map_of_rev_snoc)
  with d d1 show ?case by (auto split: option.split)
qed

section \<open>What the accumulators hold\<close>

text \<open>Rounding to a binary64 float: monotone, and exact on the integers up to \<open>2 ^ 53\<close>.\<close>

definition binary64 :: "(rat \<Rightarrow> rat) \<Rightarrow> bool" where
  "binary64 f \<longleftrightarrow> mono f \<and> (\<forall>n :: int. \<bar>n\<bar> \<le> 2 ^ 53 \<longrightarrow> f (of_int n) = of_int n)"

lemma binary64_nat: "binary64 f \<Longrightarrow> n \<le> 2 ^ 53 \<Longrightarrow> f (of_nat n) = of_nat n"
  unfolding binary64_def by (metis abs_of_nat of_int_of_nat_eq of_nat_le_iff of_nat_numeral of_nat_power)

text \<open>The scores that the successes of a hotkey earned, in order.\<close>

definition earned :: "weighing_env \<Rightarrow> (string \<Rightarrow> int option) \<Rightarrow> pyval succ_result list \<Rightarrow> string \<Rightarrow> int list" where
  "earned env score rs h =
     concat (map (\<lambda>r. if hotkey (succ_target r) = h then (case score (id_text env (succ_id r)) of None \<Rightarrow> [] | Some s \<Rightarrow> [s]) else []) rs)"

definition of_hotkey :: "('r \<Rightarrow> neuron) \<Rightarrow> string \<Rightarrow> 'r list \<Rightarrow> 'r list" where
  "of_hotkey target h rs = filter (\<lambda>r. hotkey (target r) = h) rs"

lemma accumulator_of_set [simp]: "accumulator_of (dict_set h a accs) h' = (if h' = h then a else accumulator_of accs h')"
  by (simp add: accumulator_of_def)

lemma earned_bounds:
  assumes "\<forall>i s. score i = Some s \<longrightarrow> 0 \<le> s \<and> s \<le> 100"
  shows "0 \<le> sum_list (earned env score rs h) \<and> sum_list (earned env score rs h) \<le> 100 * int (length (earned env score rs h))
    \<and> length (earned env score rs h) \<le> length (of_hotkey succ_target h rs)"
  using assms by (induction rs) (fastforce simp: earned_def of_hotkey_def split: option.split)+

lemma snoc_simps [simp]:
  "of_hotkey target h (rs @ [r]) = of_hotkey target h rs @ (if hotkey (target r) = h then [r] else [])"
  "earned env score (xs @ [x]) h = earned env score xs h @
     (if hotkey (succ_target x) = h then (case score (id_text env (succ_id x)) of None \<Rightarrow> [] | Some s \<Rightarrow> [s]) else [])"
  by (simp_all add: earned_def of_hotkey_def)

lemma add_success_step:
  "accumulator_of (add_mining_success env scores r accs) h =
     (let a = accumulator_of accs h in
      if h \<noteq> hotkey (succ_target r) then a
      else case dict_get scores (id_text env (succ_id r)) of
             None \<Rightarrow> a\<lparr>mining_count := mining_count a + 1, unscored_success_count := unscored_success_count a + 1\<rparr>
           | Some s \<Rightarrow> a\<lparr>mining_count := mining_count a + 1, scored_count := scored_count a + 1,
                          scored_sum := rnd env (scored_sum a + rnd env (of_int s))\<rparr>)"
  by (simp add: add_mining_success_def Let_def split: option.split)

lemma add_success_of:
  assumes "binary64 (rnd env)" and "\<forall>i s. dict_get scores i = Some s \<longrightarrow> 0 \<le> s \<and> s \<le> 100" and "100 * length rs \<le> 2 ^ 53"
  shows "accumulator_of (fold (add_mining_success env scores) rs []) h =
     \<lparr>mining_count = length (of_hotkey succ_target h rs), scored_count = length (earned env (dict_get scores) rs h),
      scored_sum = of_int (sum_list (earned env (dict_get scores) rs h)),
      unscored_success_count = length (of_hotkey succ_target h rs) - length (earned env (dict_get scores) rs h)\<rparr>"
  using assms(3)
proof (induction rs arbitrary: h rule: rev_induct)
  case Nil
  show ?case by (simp add: accumulator_of_def accumulator_init_def earned_def of_hotkey_def)
next
  case (snoc r rs)
  let ?e = "\<lambda>xs h. earned env (dict_get scores) xs h"
  have IH: "accumulator_of (fold (add_mining_success env scores) rs []) k =
     \<lparr>mining_count = length (of_hotkey succ_target k rs), scored_count = length (?e rs k), scored_sum = of_int (sum_list (?e rs k)),
      unscored_success_count = length (of_hotkey succ_target k rs) - length (?e rs k)\<rparr>" for k
    using snoc by simp
  show ?case
  proof (cases "dict_get scores (id_text env (succ_id r))")
    case None
    with earned_bounds [OF assms(2), of env rs h] show ?thesis
      by (auto simp: IH add_success_step Let_def Suc_diff_le)
  next
    case (Some s)
    with assms(2) have s: "0 \<le> s" "s \<le> 100" by auto
    let ?k = "hotkey (succ_target r)"
    note b = earned_bounds [OF assms(2), of env rs ?k]
    have "length (of_hotkey succ_target ?k rs) \<le> length rs" by (simp add: of_hotkey_def)
    with b snoc.prems s have "\<bar>sum_list (?e rs ?k) + s\<bar> \<le> 2 ^ 53" "\<bar>s\<bar> \<le> 2 ^ 53" by simp_all
    with assms(1) have "rnd env (of_int s) = of_int s" "rnd env (of_int (sum_list (?e rs ?k) + s)) = of_int (sum_list (?e rs ?k) + s)"
      unfolding binary64_def by blast+
    then have "rnd env (of_int (sum_list (?e rs ?k)) + rnd env (of_int s)) = of_int (sum_list (?e rs ?k)) + of_int s" by simp
    with Some show ?thesis by (simp add: IH add_success_step Let_def)
  qed
qed

lemma add_failure_of:
  "accumulator_of (fold add_mining_failure rs accs) h = (let n = length (of_hotkey fail_target h rs); a = accumulator_of accs h in
     a\<lparr>mining_count := mining_count a + n, scored_count := scored_count a + n\<rparr>)"
  by (induction rs arbitrary: accs) (simp_all add: add_mining_failure_def Let_def of_hotkey_def)

text \<open>The hotkeys with an accumulator, each once.\<close>

lemma add_success_keys:
  "distinct (dict_keys accs) \<Longrightarrow> distinct (dict_keys (fold (add_mining_success env scores) rs accs))
     \<and> set (dict_keys (fold (add_mining_success env scores) rs accs)) = set (dict_keys accs) \<union> (\<lambda>r. hotkey (succ_target r)) ` set rs"
proof (induction rs arbitrary: accs)
  case (Cons r rs)
  have "distinct (dict_keys (add_mining_success env scores r accs))
    \<and> set (dict_keys (add_mining_success env scores r accs)) = insert (hotkey (succ_target r)) (set (dict_keys accs))"
    using Cons.prems by (auto simp: add_mining_success_def Let_def dict_keys_set dict_has_iff simp del: set_map)
  with Cons.IH [of "add_mining_success env scores r accs"] show ?case by auto
qed simp

lemma add_failure_keys:
  "distinct (dict_keys accs) \<Longrightarrow> distinct (dict_keys (fold add_mining_failure rs accs))
     \<and> set (dict_keys (fold add_mining_failure rs accs)) = set (dict_keys accs) \<union> (\<lambda>r. hotkey (fail_target r)) ` set rs"
proof (induction rs arbitrary: accs)
  case (Cons r rs)
  have "distinct (dict_keys (add_mining_failure r accs))
    \<and> set (dict_keys (add_mining_failure r accs)) = insert (hotkey (fail_target r)) (set (dict_keys accs))"
    using Cons.prems by (auto simp: add_mining_failure_def Let_def dict_keys_set dict_has_iff simp del: set_map)
  with Cons.IH [of "add_mining_failure r accs"] show ?case by auto
qed simp

text \<open>A share of \<open>n\<close> results at most 100 each on average, rounded twice, stays between 0 and \<open>100 * n\<close>.\<close>

lemma rounded_share:
  assumes "binary64 f" "0 \<le> s" "s \<le> 100 * int k" "k \<le> n" "100 * n \<le> 2 ^ 53"
  shows "0 < k \<longrightarrow> 0 \<le> f (of_nat n * f (of_int s / of_nat k)) \<and> f (of_nat n * f (of_int s / of_nat k)) \<le> 100 * of_nat n"
proof
  assume k: "0 < k"
  have mono: "mono f" using assms(1) by (simp add: binary64_def)
  have exact: "f 0 = 0" "f 100 = 100" "f (of_nat (100 * n)) = of_nat (100 * n)"
    using binary64_nat [OF assms(1), of 0] binary64_nat [OF assms(1), of 100] binary64_nat [OF assms(1,5)] by simp_all
  have "(of_int s :: rat) \<le> of_int (100 * int k)" using assms(3) by (simp only: of_int_le_iff)
  then have "(of_int s :: rat) / of_nat k \<le> 100" using k by (simp add: divide_le_eq)
  moreover have "(0 :: rat) \<le> of_int s / of_nat k" using assms(2) by simp
  ultimately have avg: "0 \<le> f (of_int s / of_nat k)" "f (of_int s / of_nat k) \<le> 100"
    using monoD [OF mono, of 0] monoD [OF mono, of _ 100] exact(1,2) by metis+
  then have "0 \<le> of_nat n * f (of_int s / of_nat k)" "of_nat n * f (of_int s / of_nat k) \<le> of_nat (100 * n)"
    using mult_left_mono [OF avg(2), of "of_nat n"] by simp_all
  then show "0 \<le> f (of_nat n * f (of_int s / of_nat k)) \<and> f (of_nat n * f (of_int s / of_nat k)) \<le> 100 * of_nat n"
    using monoD [OF mono, of 0] monoD [OF mono, of _ "of_nat (100 * n)"] exact(1,3) by simp
qed

section \<open>Properties\<close>

text \<open>C4: the weights are what the scored work of the previous epoch earned. When the payloads can be read and the scores are
  those the output model admits, every hotkey with a result gets one weight, in the order of the
  hotkeys: the number of its results times the average over the scored ones and the failures, a
  failure counting as zero, rounded twice; it lies between 0 and 100 per result.\<close>

theorem weights_follow_scores:
  fixes env mining validation e store p
  defines "S \<equiv> get_successful_tasks_for_epoch mining p store" and "F \<equiv> get_executor_failures_for_epoch mining p store"
    and "V \<equiv> get_successful_tasks_for_epoch validation p store @ get_successful_tasks_for_epoch validation e store"
  assumes "binary64 (rnd env)" and "epoch_previous e = Inr p" and "\<forall>r \<in> set V. \<exists>ps. contributed env r = Inr ps"
    and "\<forall>i s. score_of env V i = Some s \<longrightarrow> 1 \<le> s \<and> s \<le> 100" and "100 * (length S + length F) \<le> 2 ^ 53"
  shows "\<exists>weight. weighing_func env mining validation e store =
        Inr (map (\<lambda>h. (h, weight h)) (sorted_list_of_set ((\<lambda>r. hotkey (succ_target r)) ` set S \<union> (\<lambda>r. hotkey (fail_target r)) ` set F)))
      \<and> (\<forall>h. let n = length (of_hotkey succ_target h S) + length (of_hotkey fail_target h F);
                  scored = earned env (score_of env V) S h;
                  k = length scored + length (of_hotkey fail_target h F)
             in weight h = (if k = 0 then 0 else rnd env (of_nat n * rnd env (of_int (sum_list scored) / of_nat k)))
                \<and> 0 \<le> weight h \<and> weight h \<le> 100 * of_nat n)"
proof -
  let ?rnd = "rnd env"
  obtain d where d: "collect_scores env V [] = Inr d" "dict_get d = score_of env V"
  proof -
    from collect_scores_run [OF assms(6), of "[]"] obtain d where
      "collect_scores env V [] = Inr d" "\<forall>k. dict_get d k = (case score_of env V k of None \<Rightarrow> dict_get [] k | Some s \<Rightarrow> Some s)"
      by blast
    moreover from this(2) have "dict_get d = score_of env V" by (intro ext) (simp split: option.split)
    ultimately show ?thesis using that by blast
  qed
  define accs where "accs = fold add_mining_failure F (fold (add_mining_success env d) S [])"
  define weight where "weight h = accumulator_weight env (accumulator_of accs h)" for h
  have keys: "distinct (dict_keys accs)"
    "set (dict_keys accs) = (\<lambda>r. hotkey (succ_target r)) ` set S \<union> (\<lambda>r. hotkey (fail_target r)) ` set F"
    using add_success_keys [of "[]" env d S] add_failure_keys [of "fold (add_mining_success env d) S []" F] by (simp_all add: accs_def)
  have run: "weighing_func env mining validation e store = Inr (map (\<lambda>h. (h, weight h)) (sort (dict_keys accs)))"
    unfolding weighing_func_def assms(5) sum.case Let_def S_def [symmetric] F_def [symmetric] V_def [symmetric] d(1)
    by (simp add: accs_def weight_def)
  have sorted: "sort (dict_keys accs) = sorted_list_of_set (set (dict_keys accs))"
    unfolding sorted_list_of_set_sort_remdups distinct_remdups_id [OF keys(1)] ..
  have scores: "\<forall>i s. dict_get d i = Some s \<longrightarrow> 0 \<le> s \<and> s \<le> 100" using assms(7) by (fastforce simp: d(2))
  have "let n = length (of_hotkey succ_target h S) + length (of_hotkey fail_target h F);
            scored = earned env (score_of env V) S h;
            k = length scored + length (of_hotkey fail_target h F)
        in weight h = (if k = 0 then 0 else ?rnd (of_nat n * ?rnd (of_int (sum_list scored) / of_nat k)))
           \<and> 0 \<le> weight h \<and> weight h \<le> 100 * of_nat n" for h
  proof -
    define scored n k where "scored = earned env (score_of env V) S h"
      and "n = length (of_hotkey succ_target h S) + length (of_hotkey fail_target h F)"
      and "k = length scored + length (of_hotkey fail_target h F)"
    have acc: "mining_count (accumulator_of accs h) = n" "scored_count (accumulator_of accs h) = k"
      "scored_sum (accumulator_of accs h) = of_int (sum_list scored)"
      using add_success_of [OF assms(4) scores, of S h] assms(8)
      by (simp_all add: accs_def add_failure_of Let_def d(2) n_def k_def scored_def)
    have b: "0 \<le> sum_list scored" "sum_list scored \<le> 100 * int (length scored)"
      "length scored \<le> length (of_hotkey succ_target h S)"
      using earned_bounds [of "score_of env V" env S h] scores by (simp_all add: d(2) scored_def)
    have "length (of_hotkey succ_target h S) \<le> length S" "length (of_hotkey fail_target h F) \<le> length F" by (simp_all add: of_hotkey_def)
    with assms(8) b(3) have nk: "k \<le> n" "100 * n \<le> 2 ^ 53" by (simp_all add: n_def k_def)
    then have "n \<le> 2 ^ 53" "k \<le> 2 ^ 53" by linarith+
    with nk(2) have exact: "?rnd (of_nat n) = of_nat n" "?rnd (of_nat k) = of_nat k" "?rnd (of_nat (100 * n)) = of_nat (100 * n)"
      by (simp_all only: binary64_nat [OF assms(4)])
    have exact01: "?rnd 0 = 0" "?rnd 100 = 100"
      using binary64_nat [OF assms(4), of 0] binary64_nat [OF assms(4), of 100] by simp_all
    have weight: "weight h = (if k = 0 then 0 else ?rnd (of_nat n * ?rnd (of_int (sum_list scored) / of_nat k)))"
      by (simp add: weight_def accumulator_weight_def acc Let_def exact(1,2) exact01(1))
    have "sum_list scored \<le> 100 * int k" using b(2) by (simp add: k_def)
    with rounded_share [OF assms(4) b(1) _ nk] have "0 \<le> weight h \<and> weight h \<le> 100 * of_nat n" by (simp add: weight)
    with weight show ?thesis by (simp add: Let_def scored_def n_def k_def)
  qed
  with run show ?thesis unfolding sorted keys(2) by blast
qed

text \<open>One success scored 80 and one failure of the same neuron: two results with an average of 40.\<close>

definition weighing_demo_env :: weighing_env where
  "weighing_demo_env = \<lparr>payload_fields = (\<lambda>_. Inr [[(''task_result_id'', ScalarField (ScStr ''0''))]]),
     scores_by_id = (\<lambda>_. Inr [(''0'', 80)]), id_text = nat_text, rnd = id\<rparr>"

definition weighing_demo_store :: result_store where
  "weighing_demo_store =
     (let b = \<lparr>block_number = 5, block_timestamp = 0, block_hash = ''h''\<rparr>; n = demo_neuron in
      insert_success ''v'' (SuccessfulTaskResult 1 0 0 b PNone n PNone PNone)
        (insert_failure ''m'' (ExecutorFailureTaskResult 2 0 0 b PNone n framework_exn)
          (insert_success ''m'' (SuccessfulTaskResult 0 0 0 b PNone n PNone PNone) result_store_init)))"

theorem weights_follow_scores_witness:
  "weighing_func weighing_demo_env ''m'' ''v'' \<lparr>first_block = 361, last_block = 721\<rparr> weighing_demo_store
     = Inr [(hotkey demo_neuron, 80)]"
proof -
  let ?p = "\<lparr>first_block = 0, last_block = 360\<rparr> :: epoch" and ?e = "\<lparr>first_block = 361, last_block = 721\<rparr> :: epoch"
  let ?b = "\<lparr>block_number = 5, block_timestamp = 0, block_hash = ''h''\<rparr> :: block_beat"
  have queries: "get_successful_tasks_for_epoch ''m'' ?p weighing_demo_store = [SuccessfulTaskResult 0 0 0 ?b PNone demo_neuron PNone PNone]"
    "get_executor_failures_for_epoch ''m'' ?p weighing_demo_store = [ExecutorFailureTaskResult 2 0 0 ?b PNone demo_neuron framework_exn]"
    "get_successful_tasks_for_epoch ''v'' ?p weighing_demo_store = [SuccessfulTaskResult 1 0 0 ?b PNone demo_neuron PNone PNone]"
    "get_successful_tasks_for_epoch ''v'' ?e weighing_demo_store = []"
    by (simp_all add: weighing_demo_store_def Let_def insert_success_def insert_failure_def ensure_task_def result_store_init_def
        get_successful_tasks_for_epoch_def get_executor_failures_for_epoch_def entry_or_def epoch_contains_def dict_has_def)
  have contributed: "contributed weighing_demo_env (SuccessfulTaskResult 1 0 0 ?b PNone demo_neuron PNone PNone) = Inr [(''0'', 80)]"
    by (simp add: contributed_def requested_task_result_ids_def requested_task_result_id_def weighing_demo_env_def dict_has_def)
  then have score: "score_of weighing_demo_env [SuccessfulTaskResult 1 0 0 ?b PNone demo_neuron PNone PNone] = [''0'' \<mapsto> 80]"
    by (simp add: score_of_def)
  have earned: "earned weighing_demo_env [''0'' \<mapsto> 80] [SuccessfulTaskResult 0 0 0 ?b PNone demo_neuron PNone PNone] (hotkey demo_neuron) = [80]"
    by (simp add: earned_def weighing_demo_env_def nat_text.simps)
  have env: "binary64 (rnd weighing_demo_env)" "rnd weighing_demo_env = id" by (simp_all add: binary64_def weighing_demo_env_def mono_def)
  have previous: "epoch_previous ?e = Inr ?p" by code_simp
  have "\<forall>r \<in> set [SuccessfulTaskResult 1 0 0 ?b PNone demo_neuron PNone PNone]. \<exists>ps. contributed weighing_demo_env r = Inr ps"
    "\<forall>i s. [''0'' \<mapsto> 80] i = Some s \<longrightarrow> 1 \<le> s \<and> s \<le> (100 :: int)" "100 * (1 + 1 :: nat) \<le> 2 ^ 53"
    using contributed by auto
  from weights_follow_scores [OF env(1) previous, of "''v''" weighing_demo_store "''m''"] this obtain weight where
    run: "weighing_func weighing_demo_env ''m'' ''v'' ?e weighing_demo_store = Inr [(hotkey demo_neuron, weight (hotkey demo_neuron))]"
    and weight: "weight (hotkey demo_neuron) = of_nat 2 * (of_int (sum_list [80]) / of_nat 2)"
    unfolding queries append_Nil2 score Let_def env(2)
    by (auto simp: earned of_hotkey_def dest: spec [of _ "hotkey demo_neuron"])
  then show ?thesis by simp
qed

end
