(* ===== verification/Facilitator.thy ===== *)
theory Facilitator
  imports Values
begin

text \<open>
  The facilitator of the cat-images demo, \<open>demos/cat-images/cat_images/facilitator/\<close>: the stores of
  validators and jobs (\<open>stores.py\<close>, \<open>models.py\<close>, \<open>types.py\<close>), routing, the submission of a job with its
  retries, the background worker with its ticker, and the handlers and the event stream of the web
  interface (\<open>routes/ui.py\<close>). S3, HTTP and the random choice are arguments; each operation of a store runs
  under its lock and is one step.
\<close>

section \<open>Jobs\<close>

datatype job_liveness = IN_PROGRESS | SUCCESS | FAILED

definition is_terminal :: "job_liveness \<Rightarrow> bool" where
  "is_terminal l \<longleftrightarrow> l \<noteq> IN_PROGRESS"

record validator_result =
  result_image_url :: string
  image_hash :: string

record status_update =
  su_status :: string
  su_liveness :: job_liveness
  su_result :: "validator_result option"

record job =
  job_key :: string
  job_image_key :: string
  job_spec :: string \<comment> \<open>\<open>image_s3_url\<close> of the \<open>UserImageInput\<close>\<close>
  job_validator :: string
  status_updates :: "status_update list"

definition liveness_of :: "job \<Rightarrow> job_liveness" where
  "liveness_of j = (if status_updates j = [] then IN_PROGRESS else su_liveness (last (status_updates j)))"

definition job_is_terminal :: "job \<Rightarrow> bool" where
  "job_is_terminal j = is_terminal (liveness_of j)"

definition job_result :: "job \<Rightarrow> validator_result option" where
  "job_result j = (if status_updates j \<noteq> [] \<and> liveness_of j = SUCCESS then su_result (last (status_updates j)) else None)"

definition latest_status :: "job \<Rightarrow> string" where
  "latest_status j = (if status_updates j = [] then ''Submitted'' else su_status (last (status_updates j)))"

section \<open>Stores\<close>

record registered_validator =
  rv_hotkey :: string
  rv_url :: string
  rv_available :: bool

type_synonym validators = "(string, registered_validator) dict"
type_synonym jobs = "(string, job) dict"

definition validators_init :: "(string \<times> string) list \<Rightarrow> validators" where
  "validators_init config =
     foldl (\<lambda>vs (h, url). dict_set h \<lparr>rv_hotkey = h, rv_url = url, rv_available = True\<rparr> vs) [] config"

definition list_available :: "validators \<Rightarrow> registered_validator list" where
  "list_available vs = filter rv_available (map snd vs)"

definition list_validators :: "validators \<Rightarrow> registered_validator list" where
  "list_validators vs = map snd vs"

definition update_validator :: "(bool \<Rightarrow> bool) \<Rightarrow> string \<Rightarrow> validators \<Rightarrow> registered_validator option \<times> validators" where
  "update_validator f h vs =
     (case dict_get vs h of
        None \<Rightarrow> (None, vs)
      | Some v \<Rightarrow> (let v' = v\<lparr>rv_available := f (rv_available v)\<rparr> in (Some v', dict_set h v' vs)))"

definition mark_unavailable :: "string \<Rightarrow> validators \<Rightarrow> validators" where
  "mark_unavailable h vs = snd (update_validator (\<lambda>_. False) h vs)"

definition mark_available :: "string \<Rightarrow> validators \<Rightarrow> validators" where
  "mark_available h vs = snd (update_validator (\<lambda>_. True) h vs)"

definition toggle_validator :: "string \<Rightarrow> validators \<Rightarrow> registered_validator option \<times> validators" where
  "toggle_validator h vs = update_validator Not h vs"

definition delete_validator :: "string \<Rightarrow> validators \<Rightarrow> bool \<times> validators" where
  "delete_validator h vs = (dict_has vs h, dict_del h vs)"

definition create_job :: "string \<Rightarrow> string \<Rightarrow> string \<Rightarrow> string \<Rightarrow> jobs \<Rightarrow> job \<times> jobs" where
  "create_job i spec h key js =
     (let j = \<lparr>job_key = i, job_image_key = key, job_spec = spec, job_validator = h, status_updates = []\<rparr> in (j, dict_set i j js))"

definition list_jobs :: "jobs \<Rightarrow> job list" where
  "list_jobs js = rev (map snd js)"

definition append_status :: "string \<Rightarrow> status_update \<Rightarrow> jobs \<Rightarrow> bool \<times> jobs" where
  "append_status i u js =
     (case dict_get js i of
        None \<Rightarrow> (False, js)
      | Some j \<Rightarrow>
          if job_is_terminal j then (False, js)
          else (True, dict_set i (j\<lparr>status_updates := status_updates j @ [u]\<rparr>) js))"

definition status_count :: "string \<Rightarrow> jobs \<Rightarrow> nat" where
  "status_count i js = (case dict_get js i of None \<Rightarrow> 0 | Some j \<Rightarrow> length (status_updates j))"

section \<open>Routing and submission\<close>

definition random_pick :: "(registered_validator list \<Rightarrow> registered_validator) \<Rightarrow> registered_validator list \<Rightarrow> registered_validator option" where
  "random_pick choice vs = (if vs = [] then None else Some (choice vs))"

definition select_validator ::
  "(registered_validator list \<Rightarrow> registered_validator option) \<Rightarrow> validators \<Rightarrow> registered_validator option" where
  "select_validator pick vs = (let available = list_available vs in if available = [] then None else pick available)"

text \<open>The attempts that are left; each posts the job and validates the answer, or raises.\<close>

fun submit_attempts :: "(nat \<Rightarrow> exn + validator_result) \<Rightarrow> nat \<Rightarrow> nat \<Rightarrow> validator_result option" where
  "submit_attempts post attempt 0 = None"
| "submit_attempts post attempt (Suc left) =
     (case post attempt of Inr r \<Rightarrow> Some r | Inl _ \<Rightarrow> submit_attempts post (Suc attempt) left)"

definition submission_error :: exn where
  "submission_error = exn_of (OtherException ''SubmissionError'')"

definition submit :: "(nat \<Rightarrow> exn + validator_result) \<Rightarrow> int \<Rightarrow> exn + validator_result" where
  "submit post max_retries =
     (case submit_attempts post 1 (nat max_retries) of Some r \<Rightarrow> Inr r | None \<Rightarrow> Inl submission_error)"

section \<open>The worker\<close>

definition in_progress :: "string \<Rightarrow> status_update" where
  "in_progress t = \<lparr>su_status = t, su_liveness = IN_PROGRESS, su_result = None\<rparr>"

definition sent_status :: status_update where
  "sent_status = in_progress ''Sent to validator, waiting...''"

definition verdict_status :: "(exn \<Rightarrow> string) \<Rightarrow> exn + validator_result \<Rightarrow> status_update" where
  "verdict_status text outcome =
     (case outcome of
        Inr r \<Rightarrow> \<lparr>su_status = ''Done!'', su_liveness = SUCCESS, su_result = Some r\<rparr>
      | Inl e \<Rightarrow> \<lparr>su_status = ''Failed: '' @ text e, su_liveness = FAILED, su_result = None\<rparr>)"

section \<open>The web interface\<close>

datatype page =
    ErrorPage string
  | ProgressPage job
  | JobPage job
  | JobListPage "job list"
  | ImagePage string string
  | ValidatorsPage "registered_validator list"
  | ValidatorRow registered_validator
  | EmptyPage

definition not_found_exn :: exn where
  "not_found_exn = exn_of (OtherException ''NotFoundException'')"

record facilitator =
  fc_validators :: validators
  fc_jobs :: jobs
  fc_pool :: "(string \<times> string \<times> registered_validator) list" \<comment> \<open>what the worker was handed and has not begun\<close>
  fc_running :: "(string \<times> string \<times> registered_validator) list" \<comment> \<open>whose \<open>_run\<close> waits for the validator\<close>
  fc_verdicts :: "(string \<times> (exn + validator_result)) list" \<comment> \<open>whose \<open>_run\<close> has ended, and how\<close>

text \<open>\<open>file\<close> is the uploaded file and its type, \<open>upload\<close> and \<open>presign\<close> the calls to S3, \<open>i\<close> the new id.\<close>

definition catify ::
  "(string \<Rightarrow> string \<Rightarrow> exn + string) \<Rightarrow> (string \<Rightarrow> exn + string) \<Rightarrow> (registered_validator list \<Rightarrow> registered_validator option) \<Rightarrow>
     string \<Rightarrow> (string \<times> string option) option \<Rightarrow> (exn, page, facilitator) act" where
  "catify upload presign pick i file =
     (case file of
        None \<Rightarrow> ret (ErrorPage ''No image file provided'')
      | Some (bytes, content_type) \<Rightarrow>
          bind_act (lift_act (upload bytes (case content_type of None \<Rightarrow> ''image/png'' | Some t \<Rightarrow> if t = [] then ''image/png'' else t))) (\<lambda>key.
          bind_act (lift_act (presign key)) (\<lambda>url.
          bind_act (gets_act (\<lambda>s. select_validator pick (fc_validators s))) (\<lambda>chosen.
            case chosen of
              None \<Rightarrow> ret (ErrorPage ''No validators available'')
            | Some v \<Rightarrow>
                bind_act (gets_act (\<lambda>s. fst (create_job i url (rv_hotkey v) key (fc_jobs s)))) (\<lambda>j.
                seq_act (modify_act (\<lambda>s. s\<lparr>fc_jobs := snd (create_job i url (rv_hotkey v) key (fc_jobs s)),
                                            fc_pool := fc_pool s @ [(job_key j, url, v)]\<rparr>))
                  (ret (ProgressPage j)))))))"

definition job_detail :: "string \<Rightarrow> (exn, page, facilitator) act" where
  "job_detail i = bind_act (gets_act (\<lambda>s. dict_get (fc_jobs s) i)) (\<lambda>j. case j of None \<Rightarrow> raise not_found_exn | Some j \<Rightarrow> ret (JobPage j))"

definition job_list :: "(exn, page, facilitator) act" where
  "job_list = bind_act (gets_act (\<lambda>s. list_jobs (fc_jobs s))) (\<lambda>js. ret (JobListPage js))"

definition proxy_image ::
  "(string \<Rightarrow> exn + string \<times> string) \<Rightarrow> (string \<Rightarrow> exn + string \<times> string option) \<Rightarrow> string \<Rightarrow> string \<Rightarrow> (exn, page, facilitator) act" where
  "proxy_image download fetch i kind =
     bind_act (gets_act (\<lambda>s. dict_get (fc_jobs s) i)) (\<lambda>found.
       case found of
         None \<Rightarrow> raise not_found_exn
       | Some j \<Rightarrow>
           if kind = ''original'' then bind_act (lift_act (download (job_image_key j))) (\<lambda>(data, t). ret (ImagePage data t))
           else if kind = ''result''
           then (case job_result j of
                   None \<Rightarrow> raise not_found_exn
                 | Some r \<Rightarrow>
                     if result_image_url r = [] then raise not_found_exn
                     else bind_act (lift_act (fetch (result_image_url r)))
                       (\<lambda>(data, t). ret (ImagePage data (case t of None \<Rightarrow> ''image/png'' | Some x \<Rightarrow> x))))
           else raise not_found_exn)"

definition validators_page :: "(exn, page, facilitator) act" where
  "validators_page = bind_act (gets_act (\<lambda>s. list_validators (fc_validators s))) (\<lambda>vs. ret (ValidatorsPage vs))"

definition delete_validator_page :: "string \<Rightarrow> (exn, page, facilitator) act" where
  "delete_validator_page h =
     seq_act (modify_act (\<lambda>s. s\<lparr>fc_validators := snd (delete_validator h (fc_validators s))\<rparr>)) (ret EmptyPage)"

definition toggle_validator_page :: "string \<Rightarrow> (exn, page, facilitator) act" where
  "toggle_validator_page h =
     bind_act (gets_act (\<lambda>s. toggle_validator h (fc_validators s))) (\<lambda>(v, vs).
       case v of
         None \<Rightarrow> raise not_found_exn
       | Some v \<Rightarrow> seq_act (modify_act (\<lambda>s. s\<lparr>fc_validators := vs\<rparr>)) (ret (ValidatorRow v)))"

section \<open>The worker's threads\<close>

definition facilitator_init :: "(string \<times> string) list \<Rightarrow> facilitator" where
  "facilitator_init config =
     \<lparr>fc_validators = validators_init config, fc_jobs = [], fc_pool = [], fc_running = [], fc_verdicts = []\<rparr>"

definition waiting_messages :: "string list" where
  "waiting_messages =
     [''Teaching the cat to hold a paintbrush...'',
      ''Negotiating with a very stubborn tabby...'',
      ''Cat knocked the image off the table, retrieving...'',
      ''Untangling yarn from the GPU...'',
      ''Cat is napping on the keyboard, please wait...'',
      ''Bribing cat with treats to cooperate...'',
      ''Cat demands a belly rub before continuing...'',
      ''Chasing a laser pointer for inspiration...'',
      ''Cat is judging your image... silently...'',
      ''Removing cat hair from the neural network...'',
      ''Cat sat on the submit button again...'',
      ''Consulting the ancient feline oracle...'',
      ''Cat is doing zoomies across the server room...'',
      ''Warming up the purr engine...'',
      ''Cat found a box and refuses to leave it...'']"

definition worker_append :: "string \<Rightarrow> status_update \<Rightarrow> facilitator \<Rightarrow> facilitator" where
  "worker_append i u s = s\<lparr>fc_jobs := snd (append_status i u (fc_jobs s))\<rparr>"

text \<open>\<open>_run\<close> up to its call of the submitter, of the \<open>k\<close>-th waiting job: the threads of the pool take jobs in
  order, and the first of them to get here may be any.\<close>

definition worker_start :: "nat \<Rightarrow> facilitator \<Rightarrow> facilitator" where
  "worker_start k s =
     (let entry = fc_pool s ! k in
      worker_append (fst entry) sent_status
        (s\<lparr>fc_pool := take k (fc_pool s) @ drop (Suc k) (fc_pool s), fc_running := fc_running s @ [entry]\<rparr>))"

text \<open>One turn of the ticker of job \<open>i\<close>, the \<open>idx\<close>-th, over its shuffled messages.\<close>

definition worker_tick :: "string list \<Rightarrow> nat \<Rightarrow> string \<Rightarrow> facilitator \<Rightarrow> facilitator" where
  "worker_tick messages idx i s = worker_append i (in_progress (messages ! (idx mod length messages))) s"

text \<open>\<open>_run\<close> from its call of the submitter, of the \<open>k\<close>-th running job; \<open>answer\<close> is what each attempt to post a
  job to a URL is answered. Setting the ticker's stop event is not a change of state, since a turn of the ticker
  may follow it: the thread is joined for two seconds only.\<close>

definition worker_finish ::
  "(exn \<Rightarrow> string) \<Rightarrow> (string \<Rightarrow> string \<Rightarrow> string \<Rightarrow> nat \<Rightarrow> exn + validator_result) \<Rightarrow> int \<Rightarrow> nat \<Rightarrow> facilitator \<Rightarrow> facilitator" where
  "worker_finish text answer max_retries k s =
     (case fc_running s ! k of (i, spec, v) \<Rightarrow>
        let outcome = submit (answer i (rv_url v) spec) max_retries in
        worker_append i (verdict_status text outcome)
          (s\<lparr>fc_running := take k (fc_running s) @ drop (Suc k) (fc_running s), fc_verdicts := fc_verdicts s @ [(i, outcome)]\<rparr>))"

section \<open>The event stream of a job\<close>

datatype sse_event = StatusEvent status_update | ResultEvent job | ErrorEvent job | CloseEvent

definition render_terminal :: "job \<Rightarrow> sse_event" where
  "render_terminal j = (if liveness_of j = SUCCESS then ResultEvent j else ErrorEvent j)"

text \<open>One round of \<open>_generate_events\<close>, with the job as it is when the new statuses are listed and as it is when, after
  they are sent, the test for its end is made. The job is one object, so it is the
  same one both times; \<open>None\<close> is a job that is gone. The last component tells whether the stream goes on.\<close>

definition stream_round :: "nat \<Rightarrow> job option \<Rightarrow> job \<Rightarrow> sse_event list \<times> nat \<times> bool" where
  "stream_round seen found later =
     (case found of
        None \<Rightarrow> ([], seen, False)
      | Some j \<Rightarrow>
          (let updates = drop seen (status_updates j); seen' = seen + length updates in
           if job_is_terminal later then (map StatusEvent updates @ [render_terminal later, CloseEvent], seen', False)
           else (map StatusEvent updates, seen', True)))"

fun generate_events :: "nat \<Rightarrow> (job \<times> job) list \<Rightarrow> sse_event list \<times> nat \<times> bool" where
  "generate_events seen [] = ([], seen, True)"
| "generate_events seen ((j, later) # rounds) =
     (case stream_round seen (Some j) later of
        (evs, seen', True) \<Rightarrow> (case generate_events seen' rounds of (evs', r) \<Rightarrow> (evs @ evs', r))
      | (evs, seen', False) \<Rightarrow> (evs, seen', False))"

end
