(* ===== verification/FacilitatorSafety.thy ===== *)
theory FacilitatorSafety
  imports Facilitator "HOL-Library.Multiset"
begin

text \<open>
  What the facilitator promises: every job it accepts gets one verdict, whatever the web handlers, the
  worker's threads and the tickers do in between, and the event stream of a job shows its statuses in
  order. The concurrent system is the step relation \<open>facilitator_step\<close>.
\<close>

section \<open>Appending\<close>

definition job_grows :: "job \<Rightarrow> job \<Rightarrow> bool" where
  "job_grows j j' \<longleftrightarrow> (\<exists>us. j' = j\<lparr>status_updates := status_updates j @ us\<rparr> \<and> (job_is_terminal j \<longrightarrow> us = []))"

lemma job_grows_refl [simp, intro]: "job_grows j j"
  unfolding job_grows_def by (rule exI [of _ "[]"]) simp

lemma job_grows_append: "\<not> job_is_terminal j \<Longrightarrow> job_grows j (j\<lparr>status_updates := status_updates j @ [u]\<rparr>)"
  unfolding job_grows_def by blast

lemma terminal_grows: "job_grows j j' \<Longrightarrow> job_is_terminal j \<Longrightarrow> j' = j"
  by (auto simp: job_grows_def)

lemma job_grows_trans: "job_grows j j' \<Longrightarrow> job_grows j' j'' \<Longrightarrow> job_grows j j''"
  by (cases "job_is_terminal j") (auto simp: job_grows_def)

lemma append_status_get:
  "dict_get (snd (append_status i u js)) i' =
     (if i' = i then map_option (\<lambda>j. if job_is_terminal j then j else j\<lparr>status_updates := status_updates j @ [u]\<rparr>) (dict_get js i)
      else dict_get js i')"
  by (cases "dict_get js i") (auto simp: append_status_def)

lemma append_status_grows:
  "dict_get js i' = Some j \<Longrightarrow> \<exists>j'. dict_get (snd (append_status i u js)) i' = Some j' \<and> job_grows j j'"
  by (cases "job_is_terminal j") (auto simp: append_status_get job_grows_append)

lemma append_status_keys: "dict_keys (snd (append_status i u js)) = dict_keys js"
  by (auto simp: append_status_def dict_keys_set dict_has_def simp del: set_map split: option.splits)

lemma worker_append_simps [simp]:
  "fc_validators (worker_append i u s) = fc_validators s" "fc_pool (worker_append i u s) = fc_pool s"
  "fc_running (worker_append i u s) = fc_running s" "fc_verdicts (worker_append i u s) = fc_verdicts s"
  "fc_jobs (worker_append i u s) = snd (append_status i u (fc_jobs s))"
  by (simp_all add: worker_append_def)

lemma liveness_snoc [simp]: "liveness_of (j\<lparr>status_updates := us @ [u]\<rparr>) = su_liveness u"
  by (simp add: liveness_of_def)

lemma in_progress_not_terminal [simp]: "su_liveness (in_progress t) = IN_PROGRESS" "su_liveness sent_status = IN_PROGRESS"
  by (simp_all add: in_progress_def sent_status_def)

lemma verdict_terminal [simp]: "is_terminal (su_liveness (verdict_status text r))"
  by (auto simp: verdict_status_def is_terminal_def split: sum.splits)

section \<open>The system\<close>

record facilitator_env =
  env_upload :: "string \<Rightarrow> string \<Rightarrow> exn + string"
  env_presign :: "string \<Rightarrow> exn + string"
  env_text :: "exn \<Rightarrow> string"
  env_answer :: "string \<Rightarrow> string \<Rightarrow> string \<Rightarrow> nat \<Rightarrow> exn + validator_result"
    \<comment> \<open>what the run of a job is answered at a URL for a posted image, at each attempt\<close>
  env_max_retries :: int
  env_max_workers :: nat

text \<open>
  The identifiers of new jobs are new, and a routing strategy picks one of the validators it is given.
\<close>

inductive facilitator_step :: "facilitator_env \<Rightarrow> facilitator \<Rightarrow> facilitator \<Rightarrow> bool" for env :: facilitator_env where
  step_catify: "\<not> dict_has (fc_jobs s) i \<Longrightarrow> (\<And>vs v. pick vs = Some v \<Longrightarrow> v \<in> set vs) \<Longrightarrow>
    facilitator_step env s (snd (catify (env_upload env) (env_presign env) pick i file s))"
| step_toggle: "facilitator_step env s (snd (toggle_validator_page h s))"
| step_delete: "facilitator_step env s (snd (delete_validator_page h s))"
| step_start: "length (fc_running s) + k < env_max_workers env \<Longrightarrow> k < length (fc_pool s) \<Longrightarrow>
    facilitator_step env s (worker_start k s)"
| step_tick: "mset messages = mset waiting_messages \<Longrightarrow>
    i \<in> fst ` set (fc_running s) \<or> i \<in> fst ` set (fc_verdicts s) \<Longrightarrow>
    facilitator_step env s (worker_tick messages idx i s)"
| step_finish: "k < length (fc_running s) \<Longrightarrow>
    facilitator_step env s (worker_finish (env_text env) (env_answer env) (env_max_retries env) k s)"

abbreviation facilitator_reaches :: "facilitator_env \<Rightarrow> facilitator \<Rightarrow> facilitator \<Rightarrow> bool" where
  "facilitator_reaches env \<equiv> (facilitator_step env)\<^sup>*\<^sup>*"

inductive_cases facilitator_stepE: "facilitator_step env s s'"

text \<open>What became of a job: its statuses tell where its \<open>_run\<close> is.\<close>

definition ticked :: "status_update list \<Rightarrow> bool" where
  "ticked us \<longleftrightarrow> (\<exists>ts. us = sent_status # map in_progress ts \<and> set ts \<subseteq> set waiting_messages)"

definition fc_ids :: "facilitator \<Rightarrow> string list" where
  "fc_ids s = map fst (fc_pool s) @ map fst (fc_running s) @ map fst (fc_verdicts s)"

definition handed_ok :: "(string \<times> string) list \<Rightarrow> facilitator \<Rightarrow> string \<times> string \<times> registered_validator \<Rightarrow> bool" where
  "handed_ok config s entry \<longleftrightarrow>
     (case entry of (i, url, v) \<Rightarrow>
        (\<exists>j. dict_get (fc_jobs s) i = Some j \<and> job_spec j = url \<and> job_validator j = rv_hotkey v \<and> rv_available v)
        \<and> (rv_hotkey v, rv_url v) \<in> set config)"

text \<open>A verdict is what the attempts to submit its own job to the validator it was routed to came to.\<close>

definition verdict_ok :: "(string \<times> string) list \<Rightarrow> facilitator_env \<Rightarrow> facilitator \<Rightarrow> string \<times> (exn + validator_result) \<Rightarrow> bool" where
  "verdict_ok config env s = (\<lambda>(i, r). \<exists>j. \<exists>v :: registered_validator. dict_get (fc_jobs s) i = Some j \<and> job_validator j = rv_hotkey v
     \<and> (rv_hotkey v, rv_url v) \<in> set config \<and> r = submit (env_answer env i (rv_url v) (job_spec j)) (env_max_retries env))"

definition validators_known :: "(string \<times> string) list \<Rightarrow> validators \<Rightarrow> bool" where
  "validators_known config vs \<longleftrightarrow> (\<forall>v \<in> snd ` set vs. (rv_hotkey v, rv_url v) \<in> set config)"

definition statuses_ok :: "(exn \<Rightarrow> string) \<Rightarrow> facilitator \<Rightarrow> string \<Rightarrow> status_update list \<Rightarrow> bool" where
  "statuses_ok text s i us \<longleftrightarrow>
     (i \<in> fst ` set (fc_pool s) \<longrightarrow> us = [])
     \<and> (i \<in> fst ` set (fc_running s) \<longrightarrow> ticked us)
     \<and> (\<forall>r. (i, r) \<in> set (fc_verdicts s) \<longrightarrow> (\<exists>us'. ticked us' \<and> us = us' @ [verdict_status text r]))"

definition facilitator_inv :: "(string \<times> string) list \<Rightarrow> facilitator_env \<Rightarrow> facilitator \<Rightarrow> bool" where
  "facilitator_inv config env s \<longleftrightarrow>
     distinct (fc_ids s) \<and> set (fc_ids s) = set (dict_keys (fc_jobs s))
     \<and> length (fc_running s) \<le> env_max_workers env
     \<and> (\<forall>entry \<in> set (fc_pool s) \<union> set (fc_running s). handed_ok config s entry)
     \<and> (\<forall>i j. dict_get (fc_jobs s) i = Some j \<longrightarrow> job_key j = i \<and> statuses_ok (env_text env) s i (status_updates j))
     \<and> validators_known config (fc_validators s) \<and> (\<forall>entry \<in> set (fc_verdicts s). verdict_ok config env s entry)"

section \<open>The invariant\<close>

lemma fc_ids_init [simp]: "fc_ids (facilitator_init config) = []"
  by (simp add: fc_ids_def facilitator_init_def)

lemma validators_known_set:
  "validators_known config vs \<Longrightarrow> (rv_hotkey v, rv_url v) \<in> set config \<Longrightarrow> validators_known config (dict_set h v vs)"
  unfolding validators_known_def by (induction vs) auto

lemma validators_known_get: "validators_known config vs \<Longrightarrow> dict_get vs h = Some v \<Longrightarrow> (rv_hotkey v, rv_url v) \<in> set config"
  by (force simp: validators_known_def dest: map_of_SomeD)

lemma validators_known_init: "validators_known config (validators_init config)"
proof -
  have "set xs \<subseteq> set config \<Longrightarrow> validators_known config vs \<Longrightarrow> validators_known config
      (foldl (\<lambda>vs (h, url). dict_set h \<lparr>rv_hotkey = h, rv_url = url, rv_available = True\<rparr> vs) vs xs)" for xs vs
    by (induction xs arbitrary: vs) (auto simp: validators_known_set)
  from this [of config "[]"] show ?thesis by (simp add: validators_init_def validators_known_def)
qed

lemma facilitator_inv_init: "facilitator_inv config env (facilitator_init config)"
  using validators_known_init [of config] by (auto simp: facilitator_inv_def) (simp_all add: facilitator_init_def)

text \<open>A handler that leaves the jobs and the worker alone keeps the invariant.\<close>

lemma facilitator_inv_frame:
  assumes "facilitator_inv config env s" "fc_jobs s' = fc_jobs s" "fc_pool s' = fc_pool s" "fc_running s' = fc_running s"
    "fc_verdicts s' = fc_verdicts s" "validators_known config (fc_validators s')"
  shows "facilitator_inv config env s'"
  using assms by (simp add: facilitator_inv_def fc_ids_def handed_ok_def statuses_ok_def verdict_ok_def)

lemma page_frames:
  "fc_jobs (snd (toggle_validator_page h s)) = fc_jobs s" "fc_pool (snd (toggle_validator_page h s)) = fc_pool s"
  "fc_running (snd (toggle_validator_page h s)) = fc_running s" "fc_verdicts (snd (toggle_validator_page h s)) = fc_verdicts s"
  "fc_jobs (snd (delete_validator_page h s)) = fc_jobs s" "fc_pool (snd (delete_validator_page h s)) = fc_pool s"
  "fc_running (snd (delete_validator_page h s)) = fc_running s" "fc_verdicts (snd (delete_validator_page h s)) = fc_verdicts s"
  by (simp_all add: toggle_validator_page_def delete_validator_page_def act_defs split: prod.splits option.splits)

lemma validators_known_pages:
  assumes "validators_known config (fc_validators s)"
  shows "validators_known config (fc_validators (snd (toggle_validator_page h s)))"
    "validators_known config (fc_validators (snd (delete_validator_page h s)))"
proof -
  show "validators_known config (fc_validators (snd (toggle_validator_page h s)))"
    using assms validators_known_get [OF assms, of h]
    by (auto simp: toggle_validator_page_def toggle_validator_def update_validator_def Let_def act_defs intro!: validators_known_set
        split: option.splits)
  have "validators_known config (dict_del h vs)" if "validators_known config vs" for vs
    using that unfolding validators_known_def by (induction vs) auto
  with assms show "validators_known config (fc_validators (snd (delete_validator_page h s)))"
    by (simp add: delete_validator_page_def delete_validator_def act_defs)
qed

text \<open>What \<open>catify\<close> does: nothing, or one job is created and handed to the worker.\<close>

lemma catify_run:
  "snd (catify upload presign pick i file s) = s
   \<or> (\<exists>key url v. pick (list_available (fc_validators s)) = Some v \<and>
        fst (catify upload presign pick i file s) = Inr (ProgressPage (fst (create_job i url (rv_hotkey v) key (fc_jobs s)))) \<and>
        snd (catify upload presign pick i file s) =
          s\<lparr>fc_jobs := snd (create_job i url (rv_hotkey v) key (fc_jobs s)), fc_pool := fc_pool s @ [(i, url, v)]\<rparr>)"
proof (cases "file")
  case (Some f)
  then show ?thesis
    by (cases f; cases "upload (fst f) (case snd f of None \<Rightarrow> ''image/png'' | Some t \<Rightarrow> if t = [] then ''image/png'' else t)")
       (auto simp: catify_def act_defs select_validator_def create_job_def Let_def split: option.splits sum.splits if_splits)
qed (simp add: catify_def act_defs)

lemma job_grows_step:
  assumes "facilitator_step env s s'" and "dict_get (fc_jobs s) i = Some j"
  shows "\<exists>j'. dict_get (fc_jobs s') i = Some j' \<and> job_grows j j'"
  using assms
proof (cases rule: facilitator_step.cases)
  case (step_catify i' pick form)
  then show ?thesis using catify_run [of "env_upload env" "env_presign env" pick i' form s] assms(2)
    by (auto simp: create_job_def Let_def dict_has_def)
next
  case (step_start k)
  then show ?thesis using assms(2) by (simp add: worker_start_def Let_def append_status_grows)
next
  case (step_tick messages i' idx)
  then show ?thesis using assms(2) by (simp add: worker_tick_def append_status_grows)
next
  case (step_finish k)
  then show ?thesis using assms(2) by (simp add: worker_finish_def Let_def append_status_grows split: prod.splits)
qed (auto simp: page_frames)

lemma job_grows_reaches:
  assumes "facilitator_reaches env s s'" and "dict_get (fc_jobs s) i = Some j"
  shows "\<exists>j'. dict_get (fc_jobs s') i = Some j' \<and> job_grows j j'"
  using assms
proof (induction rule: rtranclp_induct)
  case (step y z)
  then show ?case using job_grows_step [OF step.hyps(2)] job_grows_trans by blast
qed auto

lemma ticked_not_terminal: "ticked us \<Longrightarrow> us \<noteq> [] \<and> (\<forall>u \<in> set us. su_liveness u = IN_PROGRESS)"
  by (auto simp: ticked_def)

lemma ticked_open: "ticked (status_updates j) \<Longrightarrow> \<not> job_is_terminal j"
  using ticked_not_terminal [of "status_updates j"] by (simp add: job_is_terminal_def liveness_of_def is_terminal_def)

lemma empty_open: "status_updates j = [] \<Longrightarrow> \<not> job_is_terminal j"
  by (simp add: job_is_terminal_def liveness_of_def is_terminal_def)

lemma ended_terminal: "status_updates j = us @ [verdict_status f r] \<Longrightarrow> job_is_terminal j"
  using verdict_terminal [of f r] by (simp add: job_is_terminal_def liveness_of_def)

lemma ticked_sent [simp]: "ticked [sent_status]"
  by (simp add: ticked_def)

lemma ticked_snoc: "ticked us \<Longrightarrow> t \<in> set waiting_messages \<Longrightarrow> ticked (us @ [in_progress t])"
proof -
  assume t: "t \<in> set waiting_messages" and "ticked us"
  then obtain ts where "us = sent_status # map in_progress ts" "set ts \<subseteq> set waiting_messages" unfolding ticked_def by blast
  with t have "us @ [in_progress t] = sent_status # map in_progress (ts @ [t]) \<and> set (ts @ [t]) \<subseteq> set waiting_messages"
    by simp
  then show ?thesis unfolding ticked_def by blast
qed

text \<open>Appending a status to the job \<open>i\<close> keeps what is known of the jobs that are handed over.\<close>

lemma handed_ok_append:
  assumes "handed_ok config s entry" and "fc_jobs s' = snd (append_status i u (fc_jobs s))"
  shows "handed_ok config s' entry"
proof -
  obtain i' url v j where "entry = (i', url, v)" "dict_get (fc_jobs s) i' = Some j" "job_spec j = url"
    "job_validator j = rv_hotkey v" "rv_available v" "(rv_hotkey v, rv_url v) \<in> set config"
    using assms(1) by (auto simp: handed_ok_def split: prod.splits)
  moreover obtain j' where "dict_get (fc_jobs s') i' = Some j'" "job_grows j j'"
    using append_status_grows [OF calculation(2)] unfolding assms(2) by blast
  ultimately show ?thesis by (auto simp: handed_ok_def job_grows_def)
qed

lemma verdict_ok_append:
  assumes "verdict_ok config env s entry" and "fc_jobs s' = snd (append_status i u (fc_jobs s))"
  shows "verdict_ok config env s' entry"
proof -
  obtain i' r where entry: "entry = (i', r)" by fastforce
  obtain j and v :: registered_validator where j: "dict_get (fc_jobs s) i' = Some j" "job_validator j = rv_hotkey v"
    "(rv_hotkey v, rv_url v) \<in> set config" "r = submit (env_answer env i' (rv_url v) (job_spec j)) (env_max_retries env)"
    using assms(1) unfolding verdict_ok_def entry prod.case by blast
  moreover obtain j' where "dict_get (fc_jobs s') i' = Some j'" "job_grows j j'"
    using append_status_grows [OF j(1)] unfolding assms(2) by blast
  ultimately show ?thesis unfolding verdict_ok_def entry prod.case job_grows_def by fastforce
qed

lemma inv_start:
  assumes inv: "facilitator_inv config env s" and k: "k < length (fc_pool s)" and room: "length (fc_running s) < env_max_workers env"
  shows "facilitator_inv config env (worker_start k s)"
proof -
  obtain i u v where e: "fc_pool s ! k = (i, u, v)" by (cases "fc_pool s ! k")
  define A B where "A = take k (fc_pool s)" and "B = drop (Suc k) (fc_pool s)"
  have pool: "fc_pool s = A @ (i, u, v) # B"
    using id_take_nth_drop [OF k] e by (simp add: A_def B_def)
  let ?s = "worker_start k s"
  have new: "fc_pool ?s = A @ B" "fc_running ?s = fc_running s @ [(i, u, v)]" "fc_verdicts ?s = fc_verdicts s"
    "fc_jobs ?s = snd (append_status i sent_status (fc_jobs s))"
    by (simp_all add: worker_start_def e A_def B_def)
  have ids: "distinct (fc_ids s)" "set (fc_ids s) = set (dict_keys (fc_jobs s))" using inv by (simp_all add: facilitator_inv_def)
  from ids(1) have fresh: "i \<notin> fst ` set A" "i \<notin> fst ` set B" "i \<notin> fst ` set (fc_running s)" "i \<notin> fst ` set (fc_verdicts s)"
    by (auto simp: fc_ids_def pool)
  obtain j where j: "dict_get (fc_jobs s) i = Some j" "status_updates j = []" "job_key j = i"
    using inv by (auto simp: facilitator_inv_def handed_ok_def statuses_ok_def pool)
  have "distinct (fc_ids ?s) \<and> set (fc_ids ?s) = set (dict_keys (fc_jobs ?s))"
    using ids fresh unfolding new append_status_keys fc_ids_def by (auto simp: pool new)
  moreover have "length (fc_running ?s) \<le> env_max_workers env" using room by (simp add: new)
  moreover have "\<forall>entry \<in> set (fc_pool ?s) \<union> set (fc_running ?s). handed_ok config ?s entry"
    using inv unfolding new(1,2) by (auto simp: facilitator_inv_def pool intro: handed_ok_append [OF _ new(4)])
  moreover have "job_key j' = i' \<and> statuses_ok (env_text env) ?s i' (status_updates j')"
    if get: "dict_get (fc_jobs ?s) i' = Some j'" for i' j'
  proof (cases "i' = i")
    case True
    with get j have "j' = j\<lparr>status_updates := [sent_status]\<rparr>" by (simp add: new append_status_get empty_open)
    with True j(3) fresh show ?thesis by (auto simp: statuses_ok_def new image_iff)
  next
    case False
    with get inv have "job_key j' = i' \<and> statuses_ok (env_text env) s i' (status_updates j')"
      by (simp add: facilitator_inv_def new append_status_get)
    with False show ?thesis by (auto simp: statuses_ok_def new pool)
  qed
  moreover have "validators_known config (fc_validators ?s) \<and> (\<forall>entry \<in> set (fc_verdicts ?s). verdict_ok config env ?s entry)"
  proof -
    have "verdict_ok config env ?s entry" if "verdict_ok config env s entry" for entry
      using that new(4) by (rule verdict_ok_append)
    moreover have "fc_validators ?s = fc_validators s" by (simp add: worker_start_def Let_def)
    ultimately show ?thesis using inv unfolding new(3) by (simp add: facilitator_inv_def)
  qed
  ultimately show ?thesis by (simp add: facilitator_inv_def)
qed

lemma inv_tick:
  assumes inv: "facilitator_inv config env s" and shuffled: "mset messages = mset waiting_messages"
    and known: "i \<in> fst ` set (fc_running s) \<or> i \<in> fst ` set (fc_verdicts s)"
  shows "facilitator_inv config env (worker_tick messages idx i s)"
proof -
  have "length messages > 0" "set messages = set waiting_messages"
    using mset_eq_length [OF shuffled] mset_eq_setD [OF shuffled] by (simp_all add: waiting_messages_def)
  then obtain t where t: "t \<in> set waiting_messages" "worker_tick messages idx i s = worker_append i (in_progress t) s"
    using nth_mem [of "idx mod length messages" messages] by (simp add: worker_tick_def)
  let ?s = "worker_append i (in_progress t) s"
  have "fc_ids ?s = fc_ids s" by (simp add: fc_ids_def)
  moreover have "handed_ok config s entry \<Longrightarrow> handed_ok config ?s entry" for entry
    by (erule handed_ok_append) simp
  moreover have "verdict_ok config env s entry \<Longrightarrow> verdict_ok config env ?s entry" for entry
    by (erule verdict_ok_append) simp
  moreover have "job_key j' = i' \<and> statuses_ok (env_text env) ?s i' (status_updates j')"
    if get: "dict_get (fc_jobs ?s) i' = Some j'" for i' j'
  proof -
    obtain j where j: "dict_get (fc_jobs s) i' = Some j"
      "j' = (if i' \<noteq> i \<or> job_is_terminal j then j else j\<lparr>status_updates := status_updates j @ [in_progress t]\<rparr>)"
      using get by (cases "dict_get (fc_jobs s) i'") (auto simp: append_status_get split: if_splits)
    with inv have old: "job_key j = i' \<and> statuses_ok (env_text env) s i' (status_updates j)" by (simp add: facilitator_inv_def)
    show ?thesis
    proof (cases "i' = i \<and> \<not> job_is_terminal j")
      case True
      have none: "(i, r) \<notin> set (fc_verdicts s)" for r
        using True old ended_terminal by (auto simp: statuses_ok_def)
      with known have "i \<in> fst ` set (fc_running s)" by force
      moreover have "i \<notin> fst ` set (fc_pool s)"
        using inv calculation by (auto simp: facilitator_inv_def fc_ids_def)
      ultimately show ?thesis using True old none j(2) ticked_snoc t(1) by (simp add: statuses_ok_def)
    qed (use old j(2) in \<open>auto simp: statuses_ok_def\<close>)
  qed
  ultimately show ?thesis using inv unfolding t(2) by (simp add: facilitator_inv_def append_status_keys del: set_map)
qed

lemma inv_finish:
  assumes inv: "facilitator_inv config env s" and k: "k < length (fc_running s)"
  shows "facilitator_inv config env (worker_finish (env_text env) (env_answer env) (env_max_retries env) k s)"
proof -
  obtain i u v where e: "fc_running s ! k = (i, u, v)" by (cases "fc_running s ! k")
  define A B where "A = take k (fc_running s)" and "B = drop (Suc k) (fc_running s)"
  have running: "fc_running s = A @ (i, u, v) # B"
    using id_take_nth_drop [OF k] e by (simp add: A_def B_def)
  define r where "r = submit (env_answer env i (rv_url v) u) (env_max_retries env)"
  let ?s = "worker_finish (env_text env) (env_answer env) (env_max_retries env) k s"
  have new: "fc_pool ?s = fc_pool s" "fc_running ?s = A @ B" "fc_verdicts ?s = fc_verdicts s @ [(i, r)]"
    "fc_jobs ?s = snd (append_status i (verdict_status (env_text env) r) (fc_jobs s))" "fc_validators ?s = fc_validators s"
    by (simp_all add: worker_finish_def e A_def B_def r_def Let_def)
  have ids: "distinct (fc_ids s)" "set (fc_ids s) = set (dict_keys (fc_jobs s))" using inv by (simp_all add: facilitator_inv_def)
  from ids(1) have fresh: "i \<notin> fst ` set A" "i \<notin> fst ` set B" "i \<notin> fst ` set (fc_pool s)" "i \<notin> fst ` set (fc_verdicts s)"
    by (auto simp: fc_ids_def running)
  obtain j where j: "dict_get (fc_jobs s) i = Some j" "ticked (status_updates j)" "job_key j = i"
    and sent: "job_spec j = u" "job_validator j = rv_hotkey v" "(rv_hotkey v, rv_url v) \<in> set config"
    using inv by (auto simp: facilitator_inv_def handed_ok_def statuses_ok_def running)
  have "distinct (fc_ids ?s) \<and> set (fc_ids ?s) = set (dict_keys (fc_jobs ?s))"
    using ids fresh unfolding new append_status_keys fc_ids_def by (auto simp: running new)
  moreover have "length (fc_running ?s) \<le> env_max_workers env" using inv by (simp add: facilitator_inv_def new running)
  moreover have "\<forall>entry \<in> set (fc_pool ?s) \<union> set (fc_running ?s). handed_ok config ?s entry"
    using inv unfolding new(1,2) by (auto simp: facilitator_inv_def running intro: handed_ok_append [OF _ new(4)])
  moreover have "job_key j' = i' \<and> statuses_ok (env_text env) ?s i' (status_updates j')"
    if get: "dict_get (fc_jobs ?s) i' = Some j'" for i' j'
  proof (cases "i' = i")
    case True
    with get j have "j' = j\<lparr>status_updates := status_updates j @ [verdict_status (env_text env) r]\<rparr>"
      by (simp add: new append_status_get ticked_open)
    with True j fresh show ?thesis by (auto simp: statuses_ok_def new image_iff)
  next
    case False
    with get inv have "job_key j' = i' \<and> statuses_ok (env_text env) s i' (status_updates j')"
      by (simp add: facilitator_inv_def new append_status_get)
    with False show ?thesis by (auto simp: statuses_ok_def new running)
  qed
  moreover have "validators_known config (fc_validators ?s) \<and> (\<forall>entry \<in> set (fc_verdicts ?s). verdict_ok config env ?s entry)"
  proof -
    have "verdict_ok config env s (i, r)" using j(1) sent by (auto simp: verdict_ok_def r_def)
    moreover have "verdict_ok config env ?s entry" if "verdict_ok config env s entry" for entry
      using that new(4) by (rule verdict_ok_append)
    ultimately show ?thesis using inv unfolding new(3,5) by (simp add: facilitator_inv_def)
  qed
  ultimately show ?thesis by (simp add: facilitator_inv_def)
qed

lemma inv_catify:
  assumes inv: "facilitator_inv config env s" and fresh: "\<not> dict_has (fc_jobs s) i"
    and pick: "\<And>vs v. pick vs = Some v \<Longrightarrow> v \<in> set vs"
  shows "facilitator_inv config env (snd (catify upload presign pick i form s))"
  using catify_run [of upload presign pick i form s]
proof (elim disjE exE conjE)
  fix key url and v :: registered_validator
  let ?j = "\<lparr>job_key = i, job_image_key = key, job_spec = url, job_validator = rv_hotkey v, status_updates = []\<rparr>"
  let ?s = "s\<lparr>fc_jobs := snd (create_job i url (rv_hotkey v) key (fc_jobs s)), fc_pool := fc_pool s @ [(i, url, v)]\<rparr>"
  assume "pick (list_available (fc_validators s)) = Some v"
  then have v: "rv_available v" "(rv_hotkey v, rv_url v) \<in> set config"
    using pick [of "list_available (fc_validators s)" v] inv
    by (auto simp: list_available_def facilitator_inv_def validators_known_def)
  have jobs: "fc_jobs ?s = dict_set i ?j (fc_jobs s)" by (simp add: create_job_def Let_def)
  have ids: "distinct (fc_ids s)" "set (fc_ids s) = set (dict_keys (fc_jobs s))" using inv by (simp_all add: facilitator_inv_def)
  then have new: "i \<notin> set (fc_ids s)" using fresh by (simp add: dict_has_iff)
  have "distinct (fc_ids ?s) \<and> set (fc_ids ?s) = set (dict_keys (fc_jobs ?s))"
    using ids new fresh unfolding jobs dict_keys_set by (auto simp: fc_ids_def)
  moreover have "\<forall>entry \<in> set (fc_pool ?s) \<union> set (fc_running ?s). handed_ok config ?s entry"
  proof -
    have "handed_ok config s entry \<Longrightarrow> handed_ok config ?s entry" for entry
      using fresh unfolding handed_ok_def jobs by (auto simp: dict_has_def split: prod.splits)
    moreover have "handed_ok config ?s (i, url, v)" using v unfolding handed_ok_def jobs by simp
    ultimately show ?thesis using inv by (auto simp: facilitator_inv_def)
  qed
  moreover have "job_key j' = i' \<and> statuses_ok (env_text env) ?s i' (status_updates j')"
    if get: "dict_get (fc_jobs ?s) i' = Some j'" for i' j'
  proof (cases "i' = i")
    case True
    with get have "j' = ?j" by (simp add: create_job_def Let_def)
    with True new show ?thesis by (force simp: statuses_ok_def fc_ids_def)
  next
    case False
    with get inv have "job_key j' = i' \<and> statuses_ok (env_text env) s i' (status_updates j')"
      unfolding jobs by (simp add: facilitator_inv_def)
    with False show ?thesis by (auto simp: statuses_ok_def)
  qed
  moreover have "length (fc_running ?s) \<le> env_max_workers env \<and> validators_known config (fc_validators ?s)
      \<and> (\<forall>entry \<in> set (fc_verdicts ?s). verdict_ok config env ?s entry)"
  proof -
    have "verdict_ok config env s entry \<Longrightarrow> verdict_ok config env ?s entry" for entry
      using fresh unfolding verdict_ok_def jobs by (auto simp: dict_has_def split: prod.splits)
    then show ?thesis using inv by (simp add: facilitator_inv_def)
  qed
  moreover assume "snd (catify upload presign pick i form s) = ?s"
  ultimately show ?thesis by (simp add: facilitator_inv_def)
qed (use inv in simp)

lemma inv_pages:
  assumes "facilitator_inv config env s"
  shows "facilitator_inv config env (snd (toggle_validator_page h s))" "facilitator_inv config env (snd (delete_validator_page h s))"
proof -
  have known: "validators_known config (fc_validators s)" using assms by (simp add: facilitator_inv_def)
  show "facilitator_inv config env (snd (toggle_validator_page h s))" "facilitator_inv config env (snd (delete_validator_page h s))"
    by (rule facilitator_inv_frame [OF assms]; simp add: page_frames validators_known_pages [OF known])+
qed

lemma inv_step:
  assumes "facilitator_step env s s'" and "facilitator_inv config env s"
  shows "facilitator_inv config env s'"
  using assms
  by (cases rule: facilitator_step.cases)
     (auto intro: inv_catify inv_start inv_tick inv_finish inv_pages)

lemma inv_reaches: "facilitator_reaches env s s' \<Longrightarrow> facilitator_inv config env s \<Longrightarrow> facilitator_inv config env s'"
  by (induction rule: rtranclp_induct) (auto intro: inv_step)

section \<open>Verdicts\<close>

lemma submit_attempts_iff:
  "submit_attempts post a n = Some r \<longleftrightarrow> (\<exists>k < n. post (a + k) = Inr r \<and> (\<forall>k' < k. isl (post (a + k'))))"
proof (induction n arbitrary: a)
  case (Suc n)
  have split: "(\<exists>k < Suc n. P k) \<longleftrightarrow> P 0 \<or> (\<exists>k < n. P (Suc k))" for P
    using less_Suc_eq_0_disj by auto
  have shift: "(\<forall>k' < Suc k. Q k') \<longleftrightarrow> Q 0 \<and> (\<forall>k' < k. Q (Suc k'))" for Q k
    using less_Suc_eq_0_disj by auto
  show ?case by (subst split) (auto simp: shift Suc.IH split: sum.splits)
qed simp

lemma submit_Inr_iff:
  "submit post n = Inr r \<longleftrightarrow>
     (\<exists>k. 1 \<le> k \<and> int k \<le> n \<and> post k = Inr r \<and> (\<forall>k'. 1 \<le> k' \<and> k' < k \<longrightarrow> isl (post k')))"
proof -
  have "(\<exists>k < nat n. post (1 + k) = Inr r \<and> (\<forall>k' < k. isl (post (1 + k')))) \<longleftrightarrow>
     (\<exists>k. 1 \<le> k \<and> int k \<le> n \<and> post k = Inr r \<and> (\<forall>k'. 1 \<le> k' \<and> k' < k \<longrightarrow> isl (post k')))" (is "?l \<longleftrightarrow> ?r")
  proof
    assume ?l
    then obtain k where "k < nat n" "post (1 + k) = Inr r" "\<forall>k' < k. isl (post (1 + k'))" by blast
    then have "1 \<le> 1 + k \<and> int (1 + k) \<le> n \<and> post (1 + k) = Inr r \<and> (\<forall>k'. 1 \<le> k' \<and> k' < 1 + k \<longrightarrow> isl (post k'))"
      by (auto simp: Suc_le_eq gr0_conv_Suc)
    then show ?r by blast
  next
    assume ?r
    then obtain k where k: "1 \<le> k" "int k \<le> n" "post k = Inr r" "\<forall>k'. 1 \<le> k' \<and> k' < k \<longrightarrow> isl (post k')" by blast
    then obtain m where "k = Suc m" by (cases k) auto
    with k have "m < nat n \<and> post (1 + m) = Inr r \<and> (\<forall>k' < m. isl (post (1 + k')))" by auto
    then show ?l by blast
  qed
  moreover have "submit post n = Inr r \<longleftrightarrow> submit_attempts post 1 (nat n) = Some r"
    by (auto simp: submit_def split: option.splits)
  ultimately show ?thesis by (simp only: submit_attempts_iff)
qed

lemma submit_attempts_None: "submit_attempts post a n = None \<longleftrightarrow> (\<forall>k. a \<le> k \<and> k < a + n \<longrightarrow> isl (post k))"
proof (induction n arbitrary: a)
  case (Suc n)
  have "(\<forall>k. a \<le> k \<and> k < a + Suc n \<longrightarrow> P k) \<longleftrightarrow> P a \<and> (\<forall>k. Suc a \<le> k \<and> k < Suc a + n \<longrightarrow> P k)" for P
    by (metis Suc_leD Suc_leI add_Suc_right add_Suc le_eq_less_or_eq le_add1 less_Suc_eq_le)
  with Suc show ?case by (auto split: sum.splits)
qed auto

text \<open>What \<open>submit\<close> reports: the answer to an attempt, or that none of them was answered.\<close>

definition submitted :: "int \<Rightarrow> (nat \<Rightarrow> exn + validator_result) \<Rightarrow> exn + validator_result \<Rightarrow> bool" where
  "submitted n post r \<longleftrightarrow>
     (case r of
        Inl e \<Rightarrow> e = submission_error \<and> (\<forall>k. 1 \<le> k \<and> int k \<le> n \<longrightarrow> isl (post k))
      | Inr x \<Rightarrow> (\<exists>k. 1 \<le> k \<and> int k \<le> n \<and> post k = Inr x \<and> (\<forall>k'. 1 \<le> k' \<and> k' < k \<longrightarrow> isl (post k'))))"

lemma submit_submitted: "submitted n post (submit post n)"
proof (cases "submit post n")
  case (Inl e)
  then have e: "e = submission_error" "submit_attempts post 1 (nat n) = None" by (auto simp: submit_def split: option.splits)
  have "isl (post k)" if "1 \<le> k" "int k \<le> n" for k
    using e(2) that unfolding submit_attempts_None by auto
  with e(1) Inl show ?thesis by (simp add: submitted_def)
next
  case (Inr x)
  show ?thesis using iffD1 [OF submit_Inr_iff Inr] unfolding Inr submitted_def by simp
qed

lemma verdict_result:
  "status_updates j = us @ [verdict_status f r] \<Longrightarrow> job_result j = (case r of Inl _ \<Rightarrow> None | Inr x \<Rightarrow> Some x)"
  by (auto simp: job_result_def liveness_of_def verdict_status_def split: sum.splits)

text \<open>The worker can always go on: what it was handed gets its verdict.\<close>

lemma worker_drains:
  "0 < env_max_workers env \<Longrightarrow>
     \<exists>s'. facilitator_reaches env s s' \<and> fc_pool s' = [] \<and> fc_running s' = [] \<and> set (fc_ids s) \<subseteq> set (fc_ids s')"
proof (induction "2 * length (fc_pool s) + length (fc_running s)" arbitrary: s rule: less_induct)
  case less
  consider "fc_running s \<noteq> []" | "fc_running s = []" "fc_pool s \<noteq> []" | "fc_running s = []" "fc_pool s = []" by blast
  then show ?case
  proof cases
    case 1
    then obtain e es where r: "fc_running s = e # es" by (cases "fc_running s") auto
    let ?s = "worker_finish (env_text env) (env_answer env) (env_max_retries env) 0 s"
    have step: "facilitator_step env s ?s" using 1 by (intro step_finish) simp
    have new: "fc_pool ?s = fc_pool s" "fc_running ?s = es" "set (fc_ids ?s) = set (fc_ids s)"
      by (auto simp: worker_finish_def Let_def r fc_ids_def split: prod.splits)
    then obtain s' where "facilitator_reaches env ?s s'" "fc_pool s' = []" "fc_running s' = []" "set (fc_ids ?s) \<subseteq> set (fc_ids s')"
      using less.hyps [of ?s] less.prems r by auto
    with step new(3) show ?thesis by (metis converse_rtranclp_into_rtranclp)
  next
    case 2
    then obtain e es where p: "fc_pool s = e # es" by (cases "fc_pool s") auto
    let ?s = "worker_start 0 s"
    have step: "facilitator_step env s ?s" using 2 less.prems by (intro step_start) simp_all
    have new: "fc_pool ?s = es" "fc_running ?s = [e]" "set (fc_ids ?s) = set (fc_ids s)"
      using 2(1) by (auto simp: worker_start_def Let_def p fc_ids_def)
    then obtain s' where "facilitator_reaches env ?s s'" "fc_pool s' = []" "fc_running s' = []" "set (fc_ids ?s) \<subseteq> set (fc_ids s')"
      using less.hyps [of ?s] less.prems 2(1) p by auto
    with step new(3) show ?thesis by (metis converse_rtranclp_into_rtranclp)
  next
    case 3
    then show ?thesis by auto
  qed
qed

text \<open>C11: In any state the facilitator reaches, a job is in one place: not begun and without a status, waiting for
  its validator with \<open>Sent to validator\<close> and the ticker's messages, or ended, with the same followed by
  exactly one verdict, the last status, which no late tick follows. The verdict is what the run of this job
  came to: its image posted to the configured URL of the validator it was routed to, with the
  answer to the first answered of at most \<open>max_retries\<close> attempts, or the error when none of
  them was answered. No more than \<open>max_workers\<close> submissions are open, and the worker can always
  go on until every job has its verdict.\<close>

theorem jobs_reach_one_verdict:
  assumes run: "facilitator_reaches env (facilitator_init config) s" and job: "dict_get (fc_jobs s) i = Some j"
    and workers: "0 < env_max_workers env"
  shows "distinct (fc_ids s) \<and> i \<in> set (fc_ids s) \<and> length (fc_running s) \<le> env_max_workers env
    \<and> (i \<in> fst ` set (fc_pool s) \<longrightarrow> status_updates j = [])
    \<and> (i \<in> fst ` set (fc_running s) \<longrightarrow> ticked (status_updates j) \<and> \<not> job_is_terminal j)
    \<and> (\<forall>r. (i, r) \<in> set (fc_verdicts s) \<longrightarrow>
         (\<exists>us. ticked us \<and> status_updates j = us @ [verdict_status (env_text env) r]) \<and> job_is_terminal j
         \<and> job_result j = (case r of Inl _ \<Rightarrow> None | Inr x \<Rightarrow> Some x)
         \<and> (\<exists>url. (job_validator j, url) \<in> set config \<and> submitted (env_max_retries env) (env_answer env i url (job_spec j)) r))
    \<and> (\<exists>s' r. facilitator_reaches env s s' \<and> (i, r) \<in> set (fc_verdicts s'))"
proof -
  have inv: "facilitator_inv config env s" by (rule inv_reaches [OF run facilitator_inv_init])
  then have place: "distinct (fc_ids s)" "i \<in> set (fc_ids s)" "length (fc_running s) \<le> env_max_workers env"
    and ok: "statuses_ok (env_text env) s i (status_updates j)"
    and sent: "\<And>r. (i, r) \<in> set (fc_verdicts s) \<Longrightarrow> verdict_ok config env s (i, r)"
    using job by (auto simp: facilitator_inv_def domI simp flip: dom_map_of_conv_image_fst)
  have verdict: "(\<exists>us. ticked us \<and> status_updates j = us @ [verdict_status (env_text env) r]) \<and> job_is_terminal j
      \<and> job_result j = (case r of Inl _ \<Rightarrow> None | Inr x \<Rightarrow> Some x)
      \<and> (\<exists>url. (job_validator j, url) \<in> set config \<and> submitted (env_max_retries env) (env_answer env i url (job_spec j)) r)"
    if r: "(i, r) \<in> set (fc_verdicts s)" for r
  proof -
    obtain us where us: "ticked us" "status_updates j = us @ [verdict_status (env_text env) r]"
      using ok r by (auto simp: statuses_ok_def)
    obtain j' and v :: registered_validator where "dict_get (fc_jobs s) i = Some j'" "job_validator j' = rv_hotkey v"
      "(rv_hotkey v, rv_url v) \<in> set config" "r = submit (env_answer env i (rv_url v) (job_spec j')) (env_max_retries env)"
      using sent [OF r] unfolding verdict_ok_def prod.case by blast
    with job have "job_validator j = rv_hotkey v" "(rv_hotkey v, rv_url v) \<in> set config"
      "r = submit (env_answer env i (rv_url v) (job_spec j)) (env_max_retries env)" by simp_all
    then have "\<exists>url. (job_validator j, url) \<in> set config \<and> submitted (env_max_retries env) (env_answer env i url (job_spec j)) r"
      using submit_submitted by metis
    with us ended_terminal [OF us(2)] verdict_result [OF us(2)] show ?thesis by blast
  qed
  obtain s' where s': "facilitator_reaches env s s'" "fc_pool s' = []" "fc_running s' = []" "set (fc_ids s) \<subseteq> set (fc_ids s')"
    using worker_drains [OF workers, of s] by blast
  then have "i \<in> fst ` set (fc_verdicts s')" using place(2) by (auto simp: fc_ids_def)
  then have "\<exists>s' r. facilitator_reaches env s s' \<and> (i, r) \<in> set (fc_verdicts s')" using s'(1) by force
  with place ok verdict ticked_open show ?thesis by (simp add: statuses_ok_def)
qed

definition example_env :: facilitator_env where
  "example_env = \<lparr>env_upload = (\<lambda>b t. Inr b), env_presign = (\<lambda>k. Inr (''https://s3/'' @ k)), env_text = (\<lambda>_. ''x''),
     env_answer = (\<lambda>i url spec n. if url = ''http://two'' \<and> spec = ''https://s3/cat'' \<and> n = 2
        then Inr \<lparr>result_image_url = ''http://r'', image_hash = ''h''\<rparr> else Inl key_error),
     env_max_retries = 3, env_max_workers = 4\<rparr>"

definition example_config :: "(string \<times> string) list" where
  "example_config = [(''hk1'', ''http://one''), (''hk2'', ''http://two'')]"

definition second_of :: "registered_validator list \<Rightarrow> registered_validator option" where
  "second_of vs = (case vs of _ # v # _ \<Rightarrow> Some v | _ \<Rightarrow> None)"

definition example_waiting :: facilitator where
  "example_waiting = snd (catify (env_upload example_env) (env_presign example_env) second_of ''j1'' (Some (''cat'', None))
     (facilitator_init example_config))"

definition example_submitted :: facilitator where
  "example_submitted = worker_tick waiting_messages 16 ''j1'' (worker_start 0 example_waiting)"

definition example_ended :: facilitator where
  "example_ended = worker_finish (env_text example_env) (env_answer example_env) (env_max_retries example_env) 0 example_submitted"

lemma example_run:
  "facilitator_step example_env (facilitator_init example_config) example_waiting"
  "facilitator_step example_env example_waiting (worker_start 0 example_waiting)"
  "facilitator_step example_env (worker_start 0 example_waiting) example_submitted"
  "facilitator_step example_env example_submitted example_ended"
proof -
  have second: "second_of vs = Some v \<Longrightarrow> v \<in> set vs" for vs v by (auto simp: second_of_def split: list.splits)
  show "facilitator_step example_env (facilitator_init example_config) example_waiting"
    unfolding example_waiting_def by (intro step_catify second) (simp_all add: facilitator_init_def dict_has_def)
  have pool: "fc_pool example_waiting = [(''j1'', ''https://s3/cat'', \<lparr>rv_hotkey = ''hk2'', rv_url = ''http://two'', rv_available = True\<rparr>)]"
    "fc_running example_waiting = []"
    by (simp_all add: example_waiting_def catify_def act_defs facilitator_init_def validators_init_def example_config_def example_env_def
        select_validator_def list_available_def second_of_def create_job_def Let_def)
  then show "facilitator_step example_env example_waiting (worker_start 0 example_waiting)"
    by (intro step_start) (simp_all add: example_env_def)
  have running: "fst ` set (fc_running (worker_start 0 example_waiting)) = {''j1''}"
    using pool by (simp add: worker_start_def Let_def)
  show "facilitator_step example_env (worker_start 0 example_waiting) example_submitted"
    unfolding example_submitted_def by (rule step_tick [OF refl]) (unfold running, blast)
  have "fc_running example_submitted \<noteq> []" using running unfolding example_submitted_def worker_tick_def worker_append_simps by force
  then show "facilitator_step example_env example_submitted example_ended"
    unfolding example_ended_def by (intro step_finish) simp
qed

theorem jobs_reach_one_verdict_witness:
  "\<exists>j. dict_get (fc_jobs example_ended) ''j1'' = Some j \<and> job_is_terminal j
     \<and> job_result j = Some \<lparr>result_image_url = ''http://r'', image_hash = ''h''\<rparr>
     \<and> map su_status (status_updates j) = [''Sent to validator, waiting...'', ''Negotiating with a very stubborn tabby...'', ''Done!'']"
proof -
  have run: "facilitator_reaches example_env (facilitator_init example_config) example_ended"
    using example_run by (meson converse_rtranclp_into_rtranclp r_into_rtranclp)
  let ?r = "\<lparr>result_image_url = ''http://r'', image_hash = ''h''\<rparr>"
  have "dict_get (fc_jobs example_ended) ''j1'' \<noteq> None \<and> (''j1'', Inr ?r) \<in> set (fc_verdicts example_ended)
     \<and> map_option (\<lambda>j. map su_status (status_updates j)) (dict_get (fc_jobs example_ended) ''j1'') =
          Some [''Sent to validator, waiting...'', ''Negotiating with a very stubborn tabby...'', ''Done!'']"
    by code_simp
  then obtain j where j: "dict_get (fc_jobs example_ended) ''j1'' = Some j" "(''j1'', Inr ?r) \<in> set (fc_verdicts example_ended)"
    "map su_status (status_updates j) = [''Sent to validator, waiting...'', ''Negotiating with a very stubborn tabby...'', ''Done!'']"
    by auto
  have "0 < env_max_workers example_env" by (simp add: example_env_def)
  note all = jobs_reach_one_verdict [OF run j(1) this]
  have "job_is_terminal j \<and> job_result j = (case (Inr ?r :: exn + validator_result) of Inl _ \<Rightarrow> None | Inr x \<Rightarrow> Some x)"
    using all j(2) by blast
  with j(1,3) show ?thesis by simp
qed

section \<open>The event stream\<close>

text \<open>The jobs the rounds of a stream see, in the order of time.\<close>

definition seen_jobs :: "(job \<times> job) list \<Rightarrow> job list" where
  "seen_jobs rounds = concat (map (\<lambda>(j, later). [j, later]) rounds)"

lemma grows_chain:
  "successively job_grows (j # js) \<Longrightarrow> job_grows j (last (j # js))"
  by (induction js arbitrary: j) (auto simp: successively.simps(3) intro: job_grows_trans)

lemma seen_jobs_simps [simp]:
  "seen_jobs [] = []" "seen_jobs (r # rounds) = fst r # snd r # seen_jobs rounds"
  by (simp_all add: seen_jobs_def split: prod.splits)

lemma seen_jobs_Nil [simp]: "seen_jobs rounds = [] \<longleftrightarrow> rounds = []"
  by (cases rounds) simp_all

lemma last_seen_jobs: "rounds \<noteq> [] \<Longrightarrow> last (seen_jobs rounds) = snd (last rounds)"
  by (induction rounds) auto

lemma grows_prefix: "job_grows j j' \<Longrightarrow> \<exists>us. status_updates j' = status_updates j @ us"
  by (auto simp: job_grows_def)

lemma stream_of_rounds:
  assumes "successively job_grows (seen_jobs rounds)" and "rounds \<noteq> []" and "seen \<le> length (status_updates (fst (hd rounds)))"
    and "generate_events seen rounds = (evs, seen', go)"
  shows "seen \<le> seen' \<and> seen' \<le> length (status_updates (snd (last rounds)))
    \<and> (go \<longleftrightarrow> \<not> job_is_terminal (snd (last rounds)))
    \<and> evs = map StatusEvent (take (seen' - seen) (drop seen (status_updates (snd (last rounds)))))
        @ (if go then [] else [render_terminal (snd (last rounds)), CloseEvent])
    \<and> ((\<forall>(j, later) \<in> set rounds. j = later) \<longrightarrow> seen' = length (status_updates (snd (last rounds))))"
  using assms
proof (induction rounds arbitrary: seen evs)
  case (Cons round rounds)
  obtain j later where round: "round = (j, later)" by (cases round)
  define jl where "jl = snd (last (round # rounds))"
  have seen: "seen \<le> length (status_updates j)" using Cons.prems(3) by (simp add: round)
  have chain: "successively job_grows (j # later # seen_jobs rounds)" using Cons.prems(1) by (simp add: round)
  then have g1: "job_grows j later" and tail: "successively job_grows (later # seen_jobs rounds)" by simp_all
  have jl: "last (later # seen_jobs rounds) = jl"
    using last_seen_jobs [of rounds] by (cases "rounds = []") (auto simp: jl_def round)
  have g2: "job_grows later jl" using grows_chain [OF tail] jl by simp
  obtain us where us: "status_updates jl = status_updates j @ us" using grows_prefix [OF job_grows_trans [OF g1 g2]] by blast
  have new: "drop seen (status_updates j) = take (length (status_updates j) - seen) (drop seen (status_updates jl))"
    using seen by (simp add: us)
  have snd_last: "snd (last (round # rounds)) = jl" by (simp add: jl_def)
  show ?case
  proof (cases "job_is_terminal later")
    case True
    then have same: "jl = later" using terminal_grows [OF g2] by simp
    have ev: "evs = map StatusEvent (drop seen (status_updates j)) @ [render_terminal jl, CloseEvent]"
      "seen' = length (status_updates j)" "\<not> go"
      using Cons.prems(4) seen True by (auto simp: round stream_round_def Let_def same)
    have "seen \<le> seen' \<and> seen' \<le> length (status_updates jl)" using ev(2) seen us by simp
    moreover have "evs = map StatusEvent (take (seen' - seen) (drop seen (status_updates jl))) @ [render_terminal jl, CloseEvent]"
      unfolding ev(1,2) new by (rule refl)
    moreover have "j = later \<Longrightarrow> seen' = length (status_updates jl)" using ev(2) same by simp
    ultimately show ?thesis unfolding snd_last using ev(3) True same by (simp add: round)
  next
    case False
    obtain evs' seen2 go2 where rest: "generate_events (length (status_updates j)) rounds = (evs', seen2, go2)"
      by (cases "generate_events (length (status_updates j)) rounds") auto
    have ev: "evs = map StatusEvent (drop seen (status_updates j)) @ evs'" "seen' = seen2" "go = go2"
      using Cons.prems(4) seen False rest by (auto simp: round stream_round_def Let_def)
    show ?thesis
    proof (cases rounds)
      case Nil
      then have same: "jl = later" by (simp add: jl_def round)
      have fin: "evs = map StatusEvent (drop seen (status_updates j))" "seen' = length (status_updates j)" go
        using rest ev Nil by simp_all
      have "seen \<le> seen' \<and> seen' \<le> length (status_updates jl)" using fin(2) seen us by simp
      moreover have "evs = map StatusEvent (take (seen' - seen) (drop seen (status_updates jl)))"
        unfolding fin(1,2) new by (rule refl)
      moreover have "j = later \<Longrightarrow> seen' = length (status_updates jl)" using fin(2) same by simp
      ultimately show ?thesis unfolding snd_last using fin(3) False same by (simp add: round Nil)
    next
      case (Cons r rs)
      have len: "length (status_updates j) \<le> length (status_updates (fst (hd rounds)))"
      proof -
        have "job_grows later (fst r)" using tail by (simp add: Cons)
        then show ?thesis using grows_prefix [OF job_grows_trans [OF g1]] by (fastforce simp: Cons)
      qed
      have last_r: "snd (last rounds) = jl" by (simp add: jl_def Cons)
      have IH: "length (status_updates j) \<le> seen2 \<and> seen2 \<le> length (status_updates jl)
        \<and> (go2 \<longleftrightarrow> \<not> job_is_terminal jl)
        \<and> evs' = map StatusEvent (take (seen2 - length (status_updates j)) (drop (length (status_updates j)) (status_updates jl)))
            @ (if go2 then [] else [render_terminal jl, CloseEvent])
        \<and> ((\<forall>(j, later) \<in> set rounds. j = later) \<longrightarrow> seen2 = length (status_updates jl))"
        using Cons.IH [OF _ _ len rest [folded ev(2,3)]] tail Cons unfolding last_r ev(2,3) by (simp add: successively_Cons)
      have cat: "take (seen2 - seen) (drop seen (status_updates jl)) =
          drop seen (status_updates j) @ take (seen2 - length (status_updates j)) (drop (length (status_updates j)) (status_updates jl))"
        using IH seen by (simp add: us diff_le_mono)
      show ?thesis unfolding snd_last using IH ev seen cat by auto
    qed
  qed
qed simp

definition job_at :: "string \<Rightarrow> facilitator \<Rightarrow> job" where
  "job_at i s = the (dict_get (fc_jobs s) i)"

lemma observed_jobs_grow:
  assumes "successively (facilitator_reaches env) (concat (map (\<lambda>(a, b). [a, b]) (r # rs)))"
    and "dict_has (fc_jobs (fst r)) i"
  shows "successively job_grows (seen_jobs (map (\<lambda>(a, b). (job_at i a, job_at i b)) (r # rs)))"
  using assms
proof (induction rs arbitrary: r)
  case Nil
  then show ?case using job_grows_reaches [of env "fst r" "snd r" i] by (cases r) (auto simp: job_at_def dict_has_def)
next
  case (Cons r' rs)
  obtain a b a' b' where r: "r = (a, b)" "r' = (a', b')" by (cases r, cases r')
  have "facilitator_reaches env a b" "facilitator_reaches env b a'" using Cons.prems(1) by (simp_all add: r)
  with Cons.prems(2) have "job_grows (job_at i a) (job_at i b)" "job_grows (job_at i b) (job_at i a')" "dict_has (fc_jobs a') i"
    using job_grows_reaches [of env a b i] job_grows_reaches [of env b a' i] by (auto simp: job_at_def dict_has_def r)
  moreover from this(3) have "successively job_grows (seen_jobs (map (\<lambda>(a, b). (job_at i a, job_at i b)) (r' # rs)))"
    using Cons.prems(1) by (intro Cons.IH) (auto simp: r)
  ultimately show ?case by (simp add: r)
qed

text \<open>C35: While the worker and the web handlers go on, the event stream of a job sends its statuses in order, each
  once and none that the job does not have; it goes on exactly as long as the job has no verdict, and then ends
  with one result or error event and a close event. When in each round nothing is
  appended between the listing and the test for the end, no status is left out.\<close>

theorem stream_delivers_statuses:
  assumes run: "successively (facilitator_reaches env) (concat (map (\<lambda>(a, b). [a, b]) (r # rs)))"
    and job: "dict_has (fc_jobs (fst r)) i"
    and stream: "generate_events 0 (map (\<lambda>(a, b). (job_at i a, job_at i b)) (r # rs)) = (evs, seen, goes_on)"
    and final: "final = job_at i (snd (last (r # rs)))"
  shows "seen \<le> length (status_updates final) \<and> (goes_on \<longleftrightarrow> \<not> job_is_terminal final)
    \<and> evs = map StatusEvent (take seen (status_updates final)) @ (if goes_on then [] else [render_terminal final, CloseEvent])
    \<and> ((\<forall>(a, b) \<in> set (r # rs). job_at i a = job_at i b) \<longrightarrow> seen = length (status_updates final))"
proof -
  let ?rounds = "map (\<lambda>(a, b). (job_at i a, job_at i b)) (r # rs)"
  have "snd (last ?rounds) = final" by (simp add: final last_map split_def)
  then show ?thesis using stream_of_rounds [of ?rounds 0 evs seen goes_on] stream observed_jobs_grow [OF run job] by auto
qed

definition example_states :: "(facilitator \<times> facilitator) list" where
  "example_states = [(example_waiting, example_waiting), (example_submitted, example_submitted), (example_ended, example_ended)]"

theorem stream_delivers_statuses_witness:
  "\<exists>evs seen. generate_events 0 (map (\<lambda>(a, b). (job_at ''j1'' a, job_at ''j1'' b)) example_states) = (evs, seen, False) \<and> seen = 3
     \<and> evs = map StatusEvent (status_updates (job_at ''j1'' example_ended)) @ [render_terminal (job_at ''j1'' example_ended), CloseEvent]"
proof -
  have steps: "facilitator_reaches example_env example_waiting example_submitted" "facilitator_reaches example_env example_submitted example_ended"
    using example_run by (meson converse_rtranclp_into_rtranclp r_into_rtranclp)+
  have len: "length (status_updates (job_at ''j1'' example_ended)) = 3 \<and> job_is_terminal (job_at ''j1'' example_ended)
     \<and> dict_has (fc_jobs example_waiting) ''j1''" by code_simp
  obtain evs seen goes_on where ev:
    "generate_events 0 (map (\<lambda>(a, b). (job_at ''j1'' a, job_at ''j1'' b)) example_states) = (evs, seen, goes_on)"
    by (cases "generate_events 0 (map (\<lambda>(a, b). (job_at ''j1'' a, job_at ''j1'' b)) example_states)") auto
  have chain: "successively (facilitator_reaches example_env) (concat (map (\<lambda>(a, b). [a, b]) example_states))"
    using steps by (simp add: example_states_def)
  have has: "dict_has (fc_jobs (fst (example_waiting, example_waiting))) ''j1''" using len by simp
  note all = stream_delivers_statuses [OF chain [unfolded example_states_def] has ev [unfolded example_states_def] refl]
  have "seen = 3" "\<not> goes_on" using all len by simp_all
  with all ev len show ?thesis by simp
qed

text \<open>A job that ends between a round's listing and its test loses its last status: the stream shows the result
  and closes without \<open>Done!\<close>.\<close>

lemma stream_can_skip_the_verdict:
  "generate_events 0 [(job_at ''j1'' example_submitted, job_at ''j1'' example_ended)] =
     (map StatusEvent (butlast (status_updates (job_at ''j1'' example_ended))) @ [ResultEvent (job_at ''j1'' example_ended), CloseEvent], 2, False)"
  by code_simp

end
