(* ===== verification/Demo.thy ===== *)
theory Demo
  imports Rest Facilitator
begin

text \<open>
  What the programs of the cat-images demo share: the wire models of \<open>demos/cat-images/cat_images/subnet_models.py\<close> and the
  reading of attributes and JSON. A pydantic model is a Python value \<open>PDict\<close> of its fields. Here is also one attempt of the facilitator's
  submitter, which posts a job and validates the answer against such a model.
\<close>

section \<open>Reading values\<close>

definition res_bind :: "'e + 'a \<Rightarrow> ('a \<Rightarrow> 'e + 'b) \<Rightarrow> 'e + 'b" where
  "res_bind r f = (case r of Inl e \<Rightarrow> Inl e | Inr x \<Rightarrow> f x)"

lemma res_bind_simps [simp]: "res_bind (Inl e) f = Inl e" "res_bind (Inr x) f = f x"
  by (simp_all add: res_bind_def)

lemma res_bind_Inr: "res_bind r f = Inr y \<longleftrightarrow> (\<exists>x. r = Inr x \<and> f x = Inr y)"
  by (cases r) simp_all

definition attribute :: "string \<Rightarrow> pyval \<Rightarrow> exn + pyval" where
  "attribute a v = (case v of PDict d \<Rightarrow> (case dict_get d a of None \<Rightarrow> Inl attribute_error | Some x \<Rightarrow> Inr x) | _ \<Rightarrow> Inl attribute_error)"

text \<open>\<open>text_of\<close> is \<open>str\<close> on the values that are not strings.\<close>

definition str_of :: "(pyval \<Rightarrow> string) \<Rightarrow> pyval \<Rightarrow> string" where
  "str_of text_of v = (case v of PStr t \<Rightarrow> t | _ \<Rightarrow> text_of v)"

text \<open>\<open>j[k]\<close> and \<open>j[0]\<close> on decoded JSON.\<close>

definition json_key :: "string \<Rightarrow> json \<Rightarrow> exn + json" where
  "json_key k j =
     (case j of
        JDict d \<Rightarrow> (case dict_get d k of None \<Rightarrow> Inl key_error | Some x \<Rightarrow> Inr x)
      | _ \<Rightarrow> Inl (exn_of (OtherException ''TypeError'')))"

definition json_first :: "json \<Rightarrow> exn + json" where
  "json_first j =
     (case j of
        JList (x # _) \<Rightarrow> Inr x
      | JList [] \<Rightarrow> Inl (exn_of (OtherException ''IndexError''))
      | JDict _ \<Rightarrow> Inl key_error
      | JStr (c # _) \<Rightarrow> Inr (JStr [c])
      | JStr [] \<Rightarrow> Inl (exn_of (OtherException ''IndexError''))
      | _ \<Rightarrow> Inl (exn_of (OtherException ''TypeError'')))"

section \<open>\<open>ValidatorResult\<close>\<close>

text \<open>The value found under an alias path, \<open>AliasChoices\<close> taking the first path that is there.\<close>

fun alias_path :: "string list \<Rightarrow> json \<Rightarrow> json option" where
  "alias_path [] j = Some j"
| "alias_path (k # ks) j = (case j of JDict d \<Rightarrow> (case dict_get d k of None \<Rightarrow> None | Some x \<Rightarrow> alias_path ks x) | _ \<Rightarrow> None)"

fun alias_choices :: "string list list \<Rightarrow> json \<Rightarrow> json option" where
  "alias_choices [] j = None"
| "alias_choices (p # ps) j = (case alias_path p j of None \<Rightarrow> alias_choices ps j | Some x \<Rightarrow> Some x)"

definition validation_error :: exn where
  "validation_error = exn_of (OtherException ''ValidationError'')"

definition string_field :: "string list list \<Rightarrow> json \<Rightarrow> exn + string" where
  "string_field choices j = (case alias_choices choices j of Some (JStr t) \<Rightarrow> Inr t | _ \<Rightarrow> Inl validation_error)"

definition validator_result_of :: "json \<Rightarrow> exn + validator_result" where
  "validator_result_of j =
     (case j of
        JDict _ \<Rightarrow>
          res_bind (string_field [[''result_image_url''], [''presigned_url'']] j) (\<lambda>url.
          res_bind (string_field [[''input'', ''image_hash''], [''image_hash'']] j) (\<lambda>h.
            Inr \<lparr>result_image_url = url, image_hash = h\<rparr>))
      | _ \<Rightarrow> Inl validation_error)"

section \<open>An attempt of the submitter\<close>

text \<open>\<open>exchange url body\<close> is the POST: the status and the body, decoded or not; or the client raises.\<close>

definition submission_attempt :: "(string \<Rightarrow> json \<Rightarrow> exn + int \<times> (exn + json)) \<Rightarrow> string \<Rightarrow> string \<Rightarrow> exn + validator_result" where
  "submission_attempt exchange url image_s3_url =
     res_bind (exchange url (JDict [(''image_s3_url'', JStr image_s3_url)])) (\<lambda>(status, body).
       if \<not> (200 \<le> status \<and> status < 300) then Inl (exn_of (OtherException ''HTTPStatusError''))
       else res_bind body validator_result_of)"

text \<open>The validator answers with the miner's result and its presigned URL, or with an error body; the
  facilitator's attempt reads back the hash and the URL in the first case and fails in the second.\<close>

lemma answer_is_read_back:
  assumes "exchange url (JDict [(''image_s3_url'', JStr s)]) = Inr (200, Inr (JDict [(''input'', JDict [(''image_hash'', JStr h)]), (''presigned_url'', JStr u)]))"
  shows "submission_attempt exchange url s = Inr \<lparr>result_image_url = u, image_hash = h\<rparr>"
  using assms by (simp add: submission_attempt_def validator_result_of_def string_field_def)

lemma error_is_an_error:
  assumes "exchange url (JDict [(''image_s3_url'', JStr s)]) = Inr (500, body)"
  shows "isl (submission_attempt exchange url s)"
  using assms by (simp add: submission_attempt_def)

end
