(* ===== verification/DemoValidator.thy ===== *)
theory DemoValidator
  imports Demo Weighing Wiring Beats AsyncHttp
begin

text \<open>
  The validator graph of the cat-images demo, \<open>demos/cat-images/cat_images/validator/validator.py\<close>: the nodes and
  tasks its constructor makes, the calls of \<open>connect\<close>, and the item selector that feeds the results of the miners to
  the validation task. Node objects are numbered; the actor of a node handles the sinks of the node.
\<close>

section \<open>The parts\<close>

record cat_settings =
  rest_entry_point_port :: int
  miner_callback_port :: int
  validation_prompt :: string
  cat_netuid :: int
  cat_mechanism_id :: int
  external_ip :: string
  s3_bucket :: string

definition normalize_validation_prompt :: "string \<Rightarrow> cat_settings \<Rightarrow> cat_settings" where
  "normalize_validation_prompt default_prompt s =
     (if length (strip (validation_prompt s)) = 0 then s\<lparr>validation_prompt := default_prompt\<rparr> else s)"

record cat_validator =
  cv_entry :: rest_entry_point
  cv_upload :: presigned_spec
  cv_download :: presigned_spec
  cv_miner_communicator :: http_config
  cv_mining_task :: nexus_task
  cv_miner_result_sampler :: transform
  cv_validation_task :: nexus_task
  cv_set_weights_beat :: weights_beat_spec
  cv_weight_setter :: transform

definition MINING_TASK_NAME :: string where "MINING_TASK_NAME = ''add-cat-to-image''"
definition VALIDATION_TASK_NAME :: string where "VALIDATION_TASK_NAME = ''validation-task''"

definition addressing_style :: "(string \<Rightarrow> string option) \<Rightarrow> string" where
  "addressing_style environ = (case environ ''AWS_ENDPOINT_URL'' of Some (_ # _) \<Rightarrow> ''path'' | _ \<Rightarrow> ''virtual'')"

definition cat_validator_parts :: "(string \<Rightarrow> exn + string) \<Rightarrow> cat_settings \<Rightarrow> exn + cat_validator" where
  "cat_validator_parts check_url s =
     res_bind (rest_entry_point_init ''cat-images-user-requests'' ''0.0.0.0'' ''/cat-images'' (rest_entry_point_port s)) (\<lambda>entry.
     res_bind (presigned_url_creator_init ''miner-upload-url'' (s3_bucket s) 900 None ''PUT'') (\<lambda>upload.
     res_bind (neuron_router_init ''mining-router'' (cat_netuid s) miners_only) (\<lambda>mining_router.
     res_bind (http_communicator_init check_url ''miner-communicator'' ''/process'' 1000000 60000000 16 (miner_callback_port s)
                 ''/mined-image'' (''http://'' @ external_ip s @ '':'' @ int_text (miner_callback_port s))) (\<lambda>miner.
     res_bind (presigned_url_creator_init ''create-get-url-for-miner-image'' (s3_bucket s) 900 (Some ''miner-upload-url'') ''GET'') (\<lambda>download.
     res_bind (nexus_task_init MINING_TASK_NAME (mk_retry ''mining-task-retry'' 6) (mk_fork ''miner-upload-url'') mining_router
                 (cfg_comm miner) (mk_fork ''create-get-url-for-miner-image'')) (\<lambda>mining_task.
     res_bind (noop_router_init ''validation-router'') (\<lambda>validation_router.
     res_bind (nexus_task_init VALIDATION_TASK_NAME (mk_retry ''validation-task-retry'' 1) (mk_fork ''create-payload-for-validation-task'')
                 validation_router (mk_communicator ''validator-communicator'') (mk_fork ''validation-result-converter'')) (\<lambda>validation_task.
     res_bind (weights_beat_init ''weight-setting-trigger'' (cat_netuid s) 20 (cat_mechanism_id s) 4 DEFAULT_TEMPO) (\<lambda>beat.
       Inr \<lparr>cv_entry = entry, cv_upload = upload, cv_download = download, cv_miner_communicator = miner, cv_mining_task = mining_task,
            cv_miner_result_sampler = mk_fork ''miner-result-sampler'', cv_validation_task = validation_task,
            cv_set_weights_beat = beat, cv_weight_setter = mk_fork ''cat-images-weight-setter''\<rparr>)))))))))"

section \<open>The connections\<close>

definition cat_clock :: string where "cat_clock = ''internal-subnet-clock''"

definition cat_connections :: "cat_validator \<Rightarrow> decl list" where
  "cat_connections v =
     [(rest_source (cv_entry v), Some (task_input (cv_mining_task v)), []),
      (task_output (cv_mining_task v), Some (rest_sink (cv_entry v)), []),
      (task_error (cv_mining_task v), Some (rest_sink (cv_entry v)), []),
      (task_success (cv_mining_task v), Some (fork_sink (cv_miner_result_sampler v)), []),
      (tr_ok (cv_miner_result_sampler v), Some (task_input (cv_validation_task v)), []),
      (Source cat_clock, None, [wb_block_beat (cv_set_weights_beat v)]),
      (wb_source (cv_set_weights_beat v), Some (fork_sink (cv_weight_setter v)), [])]"

text \<open>The node objects, numbered: the five of the graph itself, then those of the two tasks in build order.\<close>

definition cat_nodes :: "cat_validator \<Rightarrow> (exn + node) list" where
  "cat_nodes v =
     [build_node (rest_id (cv_entry v)) (node_sinks_init [(''miner-responses'', rest_sink (cv_entry v))] None)
        (node_sources_init [(''user-requests'', rest_source (cv_entry v))] None),
      build_node cat_clock (producer_sinks (mk_producer cat_clock)) (producer_sources (mk_producer cat_clock)),
      build_node (fork_id (cv_miner_result_sampler v)) (sampler_sinks (cv_miner_result_sampler v)) (sampler_sources (cv_miner_result_sampler v)),
      build_node ''weight-setting-trigger'' (weights_beat_sinks (cv_set_weights_beat v)) (weights_beat_sources (cv_set_weights_beat v)),
      build_node (fork_id (cv_weight_setter v)) (fork_sinks (cv_weight_setter v)) (fork_sources (cv_weight_setter v))]
     @ internal_nodes (cv_mining_task v) @ internal_nodes (cv_validation_task v)"

text \<open>The owners that the constructors write into the endpoints the graph connects.\<close>

definition cat_owners :: "cat_validator \<Rightarrow> owners" where
  "cat_owners v =
     (let mining = cv_mining_task v; validation = cv_validation_task v in
      \<lparr>source_node = dict_get
         [(rest_source (cv_entry v), 0), (Source cat_clock, 1), (tr_ok (cv_miner_result_sampler v), 2),
          (wb_source (cv_set_weights_beat v), 3), (task_output mining, 5 + 9), (task_success mining, 5 + 9), (task_error mining, 5 + 10)],
       sink_node = dict_get
         [(rest_sink (cv_entry v), 0), (fork_sink (cv_miner_result_sampler v), 2), (wb_block_beat (cv_set_weights_beat v), 3),
          (fork_sink (cv_weight_setter v), 4), (task_input mining, 5), (task_block_beat mining, 5 + 3),
          (task_input validation, 16), (task_block_beat validation, 16 + 3)],
       source_task = dict_get [(task_output mining, 0), (task_success mining, 0), (task_error mining, 0)],
       sink_task = dict_get [(task_input mining, 0), (task_block_beat mining, 0), (task_input validation, 1), (task_block_beat validation, 1)]\<rparr>)"

definition cat_task :: "cat_validator \<Rightarrow> nat \<Rightarrow> task_info" where
  "cat_task v k =
     (if k = 0 then \<lparr>ti_block_beat = task_block_beat (cv_mining_task v), ti_flow = internal_flow (cv_mining_task v), ti_nodes = [5..<16]\<rparr>
      else \<lparr>ti_block_beat = task_block_beat (cv_validation_task v), ti_flow = internal_flow (cv_validation_task v), ti_nodes = [16..<27]\<rparr>)"

definition cat_node_at :: "cat_validator \<Rightarrow> nat \<Rightarrow> node" where
  "cat_node_at v k = (case cat_nodes v ! k of Inr n \<Rightarrow> n)"

definition cat_actor :: "cat_validator \<Rightarrow> nat \<Rightarrow> built_actor" where
  "cat_actor v k = (k, map snd (sinks_of (node_sinks_table (cat_node_at v k))))"

definition cat_subnet_node :: "cat_validator \<Rightarrow> nat \<Rightarrow> subnet_node" where
  "cat_subnet_node v k = \<lparr>sn_node = cat_node_at v k, sn_build = Some (Inr (cat_actor v k))\<rparr>"

text \<open>\<open>Validator(settings)\<close>: \<open>super().__init__\<close>, the parts, and the connections.\<close>

definition cat_validator_init :: "(string \<Rightarrow> exn + string) \<Rightarrow> cat_settings \<Rightarrow> exn + cat_validator \<times> validator" where
  "cat_validator_init check_url s =
     res_bind (validator_init cat_clock) (\<lambda>base.
     res_bind (cat_validator_parts check_url s) (\<lambda>v.
       case validator_connects (cat_owners v) (cat_connections v) base of
         (Inl e, _) \<Rightarrow> Inl e
       | (Inr _, base') \<Rightarrow> Inr (v, base')))"

definition cat_validator_start :: "cat_validator \<Rightarrow> (exn, subnet_runtime, validator) act" where
  "cat_validator_start v = validator_start (cat_owners v) (cat_task v) (cat_subnet_node v)"

section \<open>The item selector\<close>

definition cat_item_selector :: "(nat \<Rightarrow> string) \<Rightarrow> (pyval \<Rightarrow> string) \<Rightarrow> pyval \<Rightarrow> exn + fields option" where
  "cat_item_selector id_of text_of item =
     (case item of
        PSucc r \<Rightarrow>
          res_bind (attribute ''input'' (succ_payload r)) (\<lambda>input.
          res_bind (attribute ''image_s3_url'' input) (\<lambda>original.
          res_bind (attribute ''presigned_url'' (succ_public r)) (\<lambda>generated.
            Inr (Some [(''original_image_url'', ImageUrlField (str_of text_of original)),
                       (''generated_image_url'', ImageUrlField (str_of text_of generated)),
                       (''task_result_id'', ScalarField (ScStr (id_of (succ_id r))))]))))
      | _ \<Rightarrow> Inl attribute_error)"

section \<open>What the graph looks like\<close>

text \<open>The settings change nothing but numbers, buckets and addresses: the graph is that of one fixed validator.\<close>

definition cat_settings_ok :: "(string \<Rightarrow> exn + string) \<Rightarrow> cat_settings \<Rightarrow> bool" where
  "cat_settings_ok check_url s \<longleftrightarrow>
     0 \<le> cat_netuid s \<and> 0 \<le> cat_mechanism_id s \<and> 0 \<le> miner_callback_port s \<and> miner_callback_port s \<le> 65535
     \<and> (case check_url (''http://'' @ external_ip s @ '':'' @ int_text (miner_callback_port s)) of
          Inl _ \<Rightarrow> False | Inr base \<Rightarrow> url_query base = [] \<and> url_fragment base = [])"

definition shape_router :: "string \<Rightarrow> neuron_router" where
  "shape_router i = \<lparr>router_id = i, router_transform = mk_fork i, router_netuid = 0, neuron_filter = keep_all_neurons\<rparr>"

definition mining_shape :: nexus_task where
  "mining_shape = task_parts MINING_TASK_NAME (mk_retry ''mining-task-retry'' 6) (mk_fork ''miner-upload-url'') (shape_router ''mining-router'')
     (mk_communicator ''miner-communicator'') (mk_fork ''create-get-url-for-miner-image'')
     \<lparr>sinks_of = [], default_sink = None\<rparr> no_sources"

definition validation_shape :: nexus_task where
  "validation_shape = task_parts VALIDATION_TASK_NAME (mk_retry ''validation-task-retry'' 1) (mk_fork ''create-payload-for-validation-task'')
     (shape_router ''validation-router'') (mk_communicator ''validator-communicator'') (mk_fork ''validation-result-converter'')
     \<lparr>sinks_of = [], default_sink = None\<rparr> no_sources"

definition cat_shape :: cat_validator where
  "cat_shape =
     \<lparr>cv_entry = \<lparr>rest_id = ''cat-images-user-requests'', rest_bind_ip = [], rest_path = [], rest_port = 0,
        rest_source = Source ''cat-images-user-requests-source'', rest_sink = Sink ''cat-images-user-requests-sink''\<rparr>,
      cv_upload = \<lparr>pu_id = [], pu_bucket = [], pu_expiration = 0, load_s3_key = None, pu_method = []\<rparr>,
      cv_download = \<lparr>pu_id = [], pu_bucket = [], pu_expiration = 0, load_s3_key = None, pu_method = []\<rparr>,
      cv_miner_communicator = \<lparr>cfg_comm = mk_communicator [], target_path = [], send_timeout = 0, total_processing_timeout = 0,
        max_in_flight = 0, callback_port = 0, response_path = [], callback_base_url = []\<rparr>,
      cv_mining_task = mining_shape, cv_miner_result_sampler = mk_fork ''miner-result-sampler'', cv_validation_task = validation_shape,
      cv_set_weights_beat = \<lparr>wb_block_beat = Sink ''weight-setting-trigger-block-beat-sink'', wb_source = Source ''weight-setting-trigger-source'',
        wb_netuid = 0, mechanism_id = 0, epoch_start_offset = 0, attempts_cooldown = 0, wb_tempo = 0\<rparr>,
      cv_weight_setter = mk_fork ''cat-images-weight-setter''\<rparr>"

definition cat_wires :: "nat \<Rightarrow> (source, sink) dict" where
  "cat_wires t = (if t = 0 then task_connections mining_shape else task_connections validation_shape)"

lemma shape_wires_distinct:
  "distinct (dict_keys (task_connections mining_shape))" "distinct (dict_keys (task_connections validation_shape))"
  by code_simp+

definition cat_decls :: "decl list" where
  "cat_decls = graph_decls (cat_connections cat_shape) (Source cat_clock) (\<lambda>t. ti_block_beat (cat_task cat_shape t)) cat_wires [0, 1]"

lemma cat_decls_one_role: "one_role cat_decls"
  by code_simp

lemma task_connections_router:
  "task_connections (task_parts name rt pc \<lparr>router_id = i, router_transform = tr, router_netuid = n, neuron_filter = flt\<rparr> comm conv entry exits)
     = task_connections (task_parts name rt pc \<lparr>router_id = i, router_transform = tr, router_netuid = n', neuron_filter = flt'\<rparr> comm conv entry' exits')"
  "internal_nodes (task_parts name rt pc \<lparr>router_id = i, router_transform = tr, router_netuid = n, neuron_filter = flt\<rparr> comm conv entry exits)
     = internal_nodes (task_parts name rt pc \<lparr>router_id = i, router_transform = tr, router_netuid = n', neuron_filter = flt'\<rparr> comm conv entry' exits')"
  by (simp_all add: task_connections_def internal_nodes_def task_parts_def Let_def router_sinks_def router_sources_def)

text \<open>Two tasks look alike: they have the same endpoints, wires and nodes.\<close>

definition looks_like :: "nexus_task \<Rightarrow> nexus_task \<Rightarrow> bool" where
  "looks_like t u \<longleftrightarrow> task_connections t = task_connections u \<and> internal_nodes t = internal_nodes u
     \<and> task_input t = task_input u \<and> task_block_beat t = task_block_beat u
     \<and> task_success t = task_success u \<and> task_failure t = task_failure u \<and> task_output t = task_output u \<and> task_error t = task_error u"

lemma task_of_shape:
  assumes "shape = task_parts name rt pc (shape_router i) comm conv \<lparr>sinks_of = [], default_sink = None\<rparr> no_sources"
    and "distinct (dict_keys (task_connections shape))"
  obtains t where "nexus_task_init name rt pc \<lparr>router_id = i, router_transform = mk_fork i, router_netuid = n, neuron_filter = flt\<rparr> comm conv = Inr t"
    "looks_like t shape" "flow_pipes (internal_flow t) = map sole (task_connections shape)"
proof -
  let ?r = "\<lparr>router_id = i, router_transform = mk_fork i, router_netuid = n, neuron_filter = flt\<rparr>"
  let ?t = "task_parts name rt pc ?r comm conv (task_entry rt) (task_exits name)"
  let ?s = "task_parts name rt pc ?r comm conv \<lparr>sinks_of = [], default_sink = None\<rparr> no_sources"
  have conns: "task_connections ?s = task_connections shape" "internal_nodes ?t = internal_nodes shape"
    unfolding assms(1) shape_router_def by (rule task_connections_router)+
  have dist: "distinct (dict_keys (task_connections ?s))" unfolding conns(1) by (rule assms(2))
  obtain f where f: "nexus_task_init name rt pc ?r comm conv = Inr (?t\<lparr>internal_flow := f\<rparr>)"
    "flow_pipes f = map sole (task_connections ?s)" "task_connections ?t = task_connections ?s"
    by (rule nexus_task_run [OF refl dist])
  have ends: "task_input (?t\<lparr>internal_flow := f\<rparr>) = task_input shape" "task_block_beat (?t\<lparr>internal_flow := f\<rparr>) = task_block_beat shape"
    "task_success (?t\<lparr>internal_flow := f\<rparr>) = task_success shape" "task_failure (?t\<lparr>internal_flow := f\<rparr>) = task_failure shape"
    "task_output (?t\<lparr>internal_flow := f\<rparr>) = task_output shape" "task_error (?t\<lparr>internal_flow := f\<rparr>) = task_error shape"
    unfolding assms(1) by (simp_all add: task_parts_def Let_def)
  have "looks_like (?t\<lparr>internal_flow := f\<rparr>) shape"
    unfolding looks_like_def ends connections_flow nodes_flow f(3) conns by simp
  moreover have "flow_pipes (internal_flow (?t\<lparr>internal_flow := f\<rparr>)) = map sole (task_connections shape)"
    using f(2) unfolding conns by simp
  ultimately show thesis using f(1) that by blast
qed

lemma cat_validator_parts_run:
  assumes "cat_settings_ok check_url s"
  obtains v where "cat_validator_parts check_url s = Inr v" "looks_like (cv_mining_task v) mining_shape"
    "looks_like (cv_validation_task v) validation_shape" "rest_id (cv_entry v) = rest_id (cv_entry cat_shape)"
    "rest_source (cv_entry v) = rest_source (cv_entry cat_shape)" "rest_sink (cv_entry v) = rest_sink (cv_entry cat_shape)"
    "wb_block_beat (cv_set_weights_beat v) = wb_block_beat (cv_set_weights_beat cat_shape)"
    "wb_source (cv_set_weights_beat v) = wb_source (cv_set_weights_beat cat_shape)"
    "cv_miner_result_sampler v = cv_miner_result_sampler cat_shape" "cv_weight_setter v = cv_weight_setter cat_shape"
    "flow_pipes (internal_flow (cv_mining_task v)) = map sole (cat_wires 0)"
    "flow_pipes (internal_flow (cv_validation_task v)) = map sole (cat_wires 1)"
    "cfg_comm (cv_miner_communicator v) = task_communicator (cv_mining_task v)"
proof -
  obtain entry where entry: "rest_entry_point_init ''cat-images-user-requests'' ''0.0.0.0'' ''/cat-images'' (rest_entry_point_port s) = Inr entry"
    "rest_id entry = rest_id (cv_entry cat_shape)"
    "rest_source entry = rest_source (cv_entry cat_shape)" "rest_sink entry = rest_sink (cv_entry cat_shape)"
    by (auto simp: rest_entry_point_init_def normalize_http_path_def strip_def is_space_def cat_shape_def)
  obtain base where base: "check_url (''http://'' @ external_ip s @ '':'' @ int_text (miner_callback_port s)) = Inr base"
    "url_query base = []" "url_fragment base = []"
    using assms by (auto simp: cat_settings_ok_def split: sum.splits)
  obtain miner where miner: "http_communicator_init check_url ''miner-communicator'' ''/process'' 1000000 60000000 16 (miner_callback_port s)
       ''/mined-image'' (''http://'' @ external_ip s @ '':'' @ int_text (miner_callback_port s)) = Inr miner"
    "cfg_comm miner = mk_communicator ''miner-communicator''"
    using assms base(2,3) unfolding http_communicator_init_def base(1)
    by (auto simp: cat_settings_ok_def validate_positive_timeout_def normalize_http_path_def strip_def is_space_def)
  obtain mining where mining: "nexus_task_init MINING_TASK_NAME (mk_retry ''mining-task-retry'' 6) (mk_fork ''miner-upload-url'')
       \<lparr>router_id = ''mining-router'', router_transform = mk_fork ''mining-router'', router_netuid = cat_netuid s, neuron_filter = miners_only\<rparr>
       (mk_communicator ''miner-communicator'') (mk_fork ''create-get-url-for-miner-image'') = Inr mining"
    "looks_like mining mining_shape" "flow_pipes (internal_flow mining) = map sole (task_connections mining_shape)"
    by (rule task_of_shape [OF mining_shape_def shape_wires_distinct(1)])
  obtain validation where validation: "nexus_task_init VALIDATION_TASK_NAME (mk_retry ''validation-task-retry'' 1)
       (mk_fork ''create-payload-for-validation-task'')
       \<lparr>router_id = ''validation-router'', router_transform = mk_fork ''validation-router'', router_netuid = 0, neuron_filter = keep_all_neurons\<rparr>
       (mk_communicator ''validator-communicator'') (mk_fork ''validation-result-converter'') = Inr validation"
    "looks_like validation validation_shape" "flow_pipes (internal_flow validation) = map sole (task_connections validation_shape)"
    by (rule task_of_shape [OF validation_shape_def shape_wires_distinct(2)])
  have comm: "task_communicator mining = mk_communicator ''miner-communicator''"
    using mining(1) by (auto simp: nexus_task_init_def task_parts_def Let_def split: sum.splits prod.splits)
  have pos: "0 \<le> cat_netuid s" "0 \<le> cat_mechanism_id s" using assms by (simp_all add: cat_settings_ok_def)
  let ?v = "\<lparr>cv_entry = entry,
      cv_upload = \<lparr>pu_id = ''miner-upload-url'', pu_bucket = s3_bucket s, pu_expiration = 900, load_s3_key = None, pu_method = ''PUT''\<rparr>,
      cv_download = \<lparr>pu_id = ''create-get-url-for-miner-image'', pu_bucket = s3_bucket s, pu_expiration = 900,
        load_s3_key = Some ''miner-upload-url'', pu_method = ''GET''\<rparr>,
      cv_miner_communicator = miner, cv_mining_task = mining, cv_miner_result_sampler = mk_fork ''miner-result-sampler'',
      cv_validation_task = validation,
      cv_set_weights_beat = \<lparr>wb_block_beat = Sink ''weight-setting-trigger-block-beat-sink'',
        wb_source = Source ''weight-setting-trigger-source'', wb_netuid = cat_netuid s, mechanism_id = cat_mechanism_id s,
        epoch_start_offset = 20, attempts_cooldown = 4, wb_tempo = DEFAULT_TEMPO\<rparr>,
      cv_weight_setter = mk_fork ''cat-images-weight-setter''\<rparr>"
  have nodes: "presigned_url_creator_init ''miner-upload-url'' (s3_bucket s) 900 None ''PUT'' = Inr (cv_upload ?v)"
    "presigned_url_creator_init ''create-get-url-for-miner-image'' (s3_bucket s) 900 (Some ''miner-upload-url'') ''GET'' = Inr (cv_download ?v)"
    "neuron_router_init ''mining-router'' (cat_netuid s) miners_only =
       Inr \<lparr>router_id = ''mining-router'', router_transform = mk_fork ''mining-router'', router_netuid = cat_netuid s, neuron_filter = miners_only\<rparr>"
    "noop_router_init ''validation-router'' =
       Inr \<lparr>router_id = ''validation-router'', router_transform = mk_fork ''validation-router'', router_netuid = 0, neuron_filter = keep_all_neurons\<rparr>"
    "weights_beat_init ''weight-setting-trigger'' (cat_netuid s) 20 (cat_mechanism_id s) 4 DEFAULT_TEMPO = Inr (cv_set_weights_beat ?v)"
    using pos by (simp_all add: presigned_url_creator_init_def neuron_router_init_def noop_router_init_def weights_beat_init_def)
  have "cat_validator_parts check_url s = Inr ?v"
    unfolding cat_validator_parts_def res_bind_def entry(1) nodes sum.case miner(1) miner(2) mining(1) validation(1) by simp
  then show thesis
    by (rule that)
      (use mining(2,3) validation(2,3) entry(2-4) miner(2) comm in \<open>simp_all add: cat_shape_def cat_wires_def\<close>)
qed

lemma cat_same_graph:
  assumes "looks_like (cv_mining_task v) mining_shape" "looks_like (cv_validation_task v) validation_shape"
    "rest_id (cv_entry v) = rest_id (cv_entry cat_shape)"
    "rest_source (cv_entry v) = rest_source (cv_entry cat_shape)" "rest_sink (cv_entry v) = rest_sink (cv_entry cat_shape)"
    "wb_block_beat (cv_set_weights_beat v) = wb_block_beat (cv_set_weights_beat cat_shape)"
    "wb_source (cv_set_weights_beat v) = wb_source (cv_set_weights_beat cat_shape)"
    "cv_miner_result_sampler v = cv_miner_result_sampler cat_shape" "cv_weight_setter v = cv_weight_setter cat_shape"
  shows "cat_connections v = cat_connections cat_shape" "cat_owners v = cat_owners cat_shape" "cat_nodes v = cat_nodes cat_shape"
    "ti_block_beat (cat_task v t) = ti_block_beat (cat_task cat_shape t)" "ti_nodes (cat_task v t) = ti_nodes (cat_task cat_shape t)"
proof -
  have shape: "cv_mining_task cat_shape = mining_shape" "cv_validation_task cat_shape = validation_shape" by (simp_all add: cat_shape_def)
  note like = assms(1,2) [unfolded looks_like_def]
  show "cat_connections v = cat_connections cat_shape" unfolding cat_connections_def using like assms by (simp add: shape)
  show "cat_owners v = cat_owners cat_shape" unfolding cat_owners_def using like assms by (simp add: shape)
  show "cat_nodes v = cat_nodes cat_shape"
    unfolding cat_nodes_def weights_beat_sinks_def weights_beat_sources_def using like assms by (simp add: shape)
  show "ti_block_beat (cat_task v t) = ti_block_beat (cat_task cat_shape t)" "ti_nodes (cat_task v t) = ti_nodes (cat_task cat_shape t)"
    unfolding cat_task_def using like by (simp_all add: shape)
qed

definition all_node_sources :: "cat_validator \<Rightarrow> source list" where
  "all_node_sources v = concat (map (\<lambda>r. case r of Inl _ \<Rightarrow> [] | Inr n \<Rightarrow> map snd (sources_of (node_sources_table n))) (cat_nodes v))"

definition unwired_sources :: "cat_validator \<Rightarrow> source list" where
  "unwired_sources v =
     (let m = cv_mining_task v; k = cv_validation_task v in
      [tr_error (cv_miner_result_sampler v), tr_ok (cv_weight_setter v), tr_error (cv_weight_setter v), task_failure m,
       task_success k, task_failure k, task_output k, task_error k])"

lemma cat_tasks_evaluated: "(\<Union>d \<in> set (cat_connections cat_shape). decl_tasks (cat_owners cat_shape) d) = set [0, 1]"
  by code_simp

lemma cat_owners_evaluated:
  "(\<Union>d \<in> set (cat_connections cat_shape). decl_nodes (cat_owners cat_shape) d)
     \<union> (\<Union>t \<in> set [0, 1]. set_option (source_node (cat_owners cat_shape) (Source cat_clock))
          \<union> set_option (sink_node (cat_owners cat_shape) (ti_block_beat (cat_task cat_shape t))) \<union> set (ti_nodes (cat_task cat_shape t)))
     = set [0..<27]"
  by code_simp

lemma cat_taps_evaluated: "list_all (\<lambda>(s, q, ts). distinct ts) (cat_connections cat_shape)"
  by code_simp

definition all_node_sinks :: "cat_validator \<Rightarrow> sink list" where
  "all_node_sinks v = concat (map (\<lambda>r. case r of Inl _ \<Rightarrow> [] | Inr n \<Rightarrow> map snd (sinks_of (node_sinks_table n))) (cat_nodes v))"

lemma cat_targets_evaluated:
  "list_all (\<lambda>k. k \<in> set (all_node_sinks cat_shape)) (concat (map (\<lambda>(s, q, ts). (case q of None \<Rightarrow> [] | Some x \<Rightarrow> [x]) @ ts) cat_decls))"
  by code_simp

lemma cat_unwired_evaluated:
  "filter (\<lambda>s. s \<notin> set (dict_keys (primaries_of cat_decls)) \<and> s \<noteq> Source cat_clock) (all_node_sources cat_shape) = unwired_sources cat_shape"
  by code_simp

lemma cat_responses_evaluated:
  "map fst (filter (\<lambda>(s, k). k = rest_sink (cv_entry cat_shape)) (primaries_of cat_decls)) =
     [task_output (cv_mining_task cat_shape), task_error (cv_mining_task cat_shape)]"
  by code_simp

lemma cat_nodes_evaluated: "length (cat_nodes cat_shape) = 27 \<and> list_all (\<lambda>r. case r of Inl _ \<Rightarrow> False | Inr _ \<Rightarrow> True) (cat_nodes cat_shape)"
  by code_simp

lemma cat_sink_handled:
  assumes "k \<in> set (all_node_sinks cat_shape)"
  shows "\<exists>n \<in> {..<27}. k \<in> set (snd (cat_actor cat_shape n))"
proof -
  from assms obtain r where r: "r \<in> set (cat_nodes cat_shape)"
    "k \<in> set (case r of Inl _ \<Rightarrow> [] | Inr n \<Rightarrow> map snd (sinks_of (node_sinks_table n)))"
    unfolding all_node_sinks_def by auto
  then obtain x where "r = Inr x" "k \<in> snd ` set (sinks_of (node_sinks_table x))" by (cases r) auto
  moreover from r(1) obtain n where "n < length (cat_nodes cat_shape)" "cat_nodes cat_shape ! n = r" by (auto simp: in_set_conv_nth)
  ultimately show ?thesis
    using cat_nodes_evaluated by (intro bexI [of _ n]) (simp_all add: cat_actor_def cat_node_at_def)
qed

text \<open>C9: The graph of the demo starts for every valid setting: each of its 27 node objects has one actor; a source
  has the primary its task or the constructor names, and only the clock has taps, the three block beats;
  whatever a message is sent to is handled by an actor. The answers to users come from the executor output and
  the error of the mining task only, where every request goes; and the
  sources that nothing hears are the eight listed.\<close>

theorem cat_graph_is_wired:
  assumes "cat_settings_ok check_url s"
  shows "\<exists>v base rt base' nodes pipes. cat_validator_init check_url s = Inr (v, base) \<and> cat_validator_start v base = (Inr rt, base')
     \<and> pipes = connections (rt_bus rt)
     \<and> rt_actors rt = map (cat_actor v) nodes \<and> distinct nodes \<and> set nodes = {..<27} \<and> length (cat_nodes v) = 27
     \<and> (\<forall>src. primary (pipes_get pipes src)
           = dict_get (primaries_of (cat_connections v) @ task_connections (cv_mining_task v) @ task_connections (cv_validation_task v)) src)
     \<and> (\<forall>src. set (taps (pipes_get pipes src)) =
           (if src = Source cat_clock then {wb_block_beat (cv_set_weights_beat v), task_block_beat (cv_mining_task v), task_block_beat (cv_validation_task v)}
            else {}))
     \<and> (\<forall>src snk. primary (pipes_get pipes src) = Some snk \<or> snk \<in> set (taps (pipes_get pipes src)) \<longrightarrow> dict_has (sink_owner (rt_bus rt)) snk)
     \<and> primary (pipes_get pipes (rest_source (cv_entry v))) = Some (task_input (cv_mining_task v))
     \<and> {src. primary (pipes_get pipes src) = Some (rest_sink (cv_entry v))} = {task_output (cv_mining_task v), task_error (cv_mining_task v)}
     \<and> {src \<in> set (all_node_sources v). pipes_get pipes src = mk_targets None []} = set (unwired_sources v)"
proof -
  obtain v where parts: "cat_validator_parts check_url s = Inr v" "looks_like (cv_mining_task v) mining_shape"
    "looks_like (cv_validation_task v) validation_shape" "rest_id (cv_entry v) = rest_id (cv_entry cat_shape)"
    "rest_source (cv_entry v) = rest_source (cv_entry cat_shape)" "rest_sink (cv_entry v) = rest_sink (cv_entry cat_shape)"
    "wb_block_beat (cv_set_weights_beat v) = wb_block_beat (cv_set_weights_beat cat_shape)"
    "wb_source (cv_set_weights_beat v) = wb_source (cv_set_weights_beat cat_shape)"
    "cv_miner_result_sampler v = cv_miner_result_sampler cat_shape" "cv_weight_setter v = cv_weight_setter cat_shape"
    and wires: "flow_pipes (internal_flow (cv_mining_task v)) = map sole (cat_wires 0)"
      "flow_pipes (internal_flow (cv_validation_task v)) = map sole (cat_wires 1)"
    by (rule cat_validator_parts_run [OF assms])
  note same = cat_same_graph [OF parts(2-10)]
  obtain v0 where v0: "validator_init cat_clock = Inr v0"
    by (simp add: validator_init_def node_sinks_init_def node_sources_init_def)
  have distinct_taps: "\<forall>(s, q, ts) \<in> set (cat_connections cat_shape). distinct ts" using cat_taps_evaluated by (simp add: list_all_iff)
  have flows: "flow_pipes (ti_flow (cat_task v t)) = map sole (cat_wires t)" if "t \<in> set [0, 1]" for t
    using that wires by (auto simp: cat_task_def)
  have node: "sn_build (cat_subnet_node v n) = Some (Inr (cat_actor v n))" for n by (simp add: cat_subnet_node_def)
  have some: "cat_connections cat_shape \<noteq> []" by (simp add: cat_connections_def)
  obtain base rt base' nodes where run: "validator_connects (cat_owners cat_shape) (cat_connections cat_shape) v0 = (Inr (), base)"
    "validator_start (cat_owners cat_shape) (cat_task v) (cat_subnet_node v) base = (Inr rt, base')"
    and rt: "rt_actors rt = map (cat_actor v) nodes" "distinct nodes" "set nodes = set [0..<27]"
      "represents (connections (rt_bus rt)) cat_decls"
      "\<forall>s. dict_has (sink_owner (rt_bus rt)) s \<longleftrightarrow> (\<exists>n \<in> set nodes. s \<in> set (snd (cat_actor v n)))"
    by (rule validator_start_run [OF v0 some distinct_taps cat_tasks_evaluated, of "cat_task v" cat_wires "cat_subnet_node v" "cat_actor v",
        unfolded same(4,5) cat_owners_evaluated, folded cat_decls_def, OF cat_decls_one_role flows node]) (assumption, rule that)
  let ?pipes = "connections (rt_bus rt)"
  have init: "cat_validator_init check_url s = Inr (v, base)"
    by (simp add: cat_validator_init_def res_bind_def v0 parts(1) same(1,2) run(1))
  have start: "cat_validator_start v base = (Inr rt, base')" by (simp add: cat_validator_start_def same(2) run(2))
  have actors: "cat_actor v = cat_actor cat_shape" by (simp add: cat_actor_def cat_node_at_def same(3) fun_eq_iff)
  have primary: "primary (pipes_get ?pipes src) = dict_get (primaries_of cat_decls) src" for src
    using rt(4) one_role_primaries [OF cat_decls_one_role, of src] unfolding represents_def
    by (metis not_None_eq option.set_intros option.set_cases)
  have taps: "set (taps (pipes_get ?pipes src)) = declared_taps cat_decls src" for src
    using rt(4) unfolding represents_def by blast
  have like: "task_connections (cv_mining_task v) = cat_wires 0" "task_connections (cv_validation_task v) = cat_wires 1"
    using parts(2,3) by (simp_all add: looks_like_def cat_wires_def)
  have prims: "primaries_of cat_decls = primaries_of (cat_connections cat_shape) @ cat_wires 0 @ cat_wires 1"
    by (simp add: cat_decls_def graph_decls_def)
  have clock_taps: "declared_taps cat_decls src = (if src = Source cat_clock then {wb_block_beat (cv_set_weights_beat cat_shape),
      task_block_beat (cv_mining_task cat_shape), task_block_beat (cv_validation_task cat_shape)} else {})" for src
    by (simp add: cat_decls_def graph_decls_def cat_connections_def cat_task_def declared_taps_simps insert_commute)
  have targets: "\<exists>n \<in> {..<27}. snk \<in> set (snd (cat_actor cat_shape n))"
    if "snk \<in> declared_primaries cat_decls src \<union> declared_taps cat_decls src" for src snk
    using that cat_targets_evaluated
    by (intro cat_sink_handled) (fastforce simp: list_all_iff declared_primaries_def declared_taps_def)
  have fed: "dict_has (sink_owner (rt_bus rt)) snk" if "primary (pipes_get ?pipes src) = Some snk \<or> snk \<in> set (taps (pipes_get ?pipes src))" for src snk
    using that targets [of snk src] rt(3,5) one_role_primaries [OF cat_decls_one_role, of src]
    unfolding primary taps actors by (auto simp: atLeast0LessThan)
  have shape: "cv_mining_task cat_shape = mining_shape" "cv_validation_task cat_shape = validation_shape" by (simp_all add: cat_shape_def)
  have ends: "task_input (cv_mining_task v) = task_input mining_shape" "task_output (cv_mining_task v) = task_output mining_shape"
    "task_error (cv_mining_task v) = task_error mining_shape" "task_block_beat (cv_mining_task v) = task_block_beat mining_shape"
    "task_block_beat (cv_validation_task v) = task_block_beat validation_shape"
    "unwired_sources v = unwired_sources cat_shape"
    using parts(2,3,9,10) by (simp_all add: looks_like_def unwired_sources_def shape)
  have request: "primary (pipes_get ?pipes (rest_source (cv_entry v))) = Some (task_input (cv_mining_task v))"
    unfolding primary prims parts(5) ends by (simp add: cat_connections_def primaries_of_def shape)
  have distinct_primaries: "distinct (dict_keys (primaries_of cat_decls))" using cat_decls_one_role by (simp add: one_role_def)
  have "src \<in> {src. primary (pipes_get ?pipes src) = Some (rest_sink (cv_entry v))}
     \<longleftrightarrow> src \<in> set (map fst (filter (\<lambda>(s, k). k = rest_sink (cv_entry cat_shape)) (primaries_of cat_decls)))" for src
    using map_of_eq_Some_iff [OF distinct_primaries, of src] by (force simp: primary parts(6))
  then have answers: "{src. primary (pipes_get ?pipes src) = Some (rest_sink (cv_entry v))} = {task_output (cv_mining_task v), task_error (cv_mining_task v)}"
    unfolding cat_responses_evaluated by (auto simp: ends shape)
  have none: "pipes_get ?pipes src = mk_targets None [] \<longleftrightarrow> src \<notin> set (dict_keys (primaries_of cat_decls)) \<and> src \<noteq> Source cat_clock" for src
  proof -
    have "pipes_get ?pipes src = mk_targets None [] \<longleftrightarrow> primary (pipes_get ?pipes src) = None \<and> set (taps (pipes_get ?pipes src)) = {}"
      by (cases "pipes_get ?pipes src") (simp add: mk_targets_def)
    then show ?thesis by (simp add: primary taps clock_taps map_of_eq_None_iff)
  qed
  have "{src \<in> set (all_node_sources v). pipes_get ?pipes src = mk_targets None []} =
      set (filter (\<lambda>s. s \<notin> set (dict_keys (primaries_of cat_decls)) \<and> s \<noteq> Source cat_clock) (all_node_sources cat_shape))"
    unfolding none by (auto simp: all_node_sources_def same(3))
  then have unwired: "{src \<in> set (all_node_sources v). pipes_get ?pipes src = mk_targets None []} = set (unwired_sources v)"
    unfolding cat_unwired_evaluated ends .
  show ?thesis
    using init start rt(1,2,3) cat_nodes_evaluated fed request answers unwired
    by (intro exI [of _ v] exI [of _ base] exI [of _ rt] exI [of _ base'] exI [of _ nodes] exI [of _ ?pipes])
      (simp add: primary prims like same(1,3) taps clock_taps parts(7) ends shape atLeast0LessThan)
qed

definition cat_demo_settings :: cat_settings where
  "cat_demo_settings = \<lparr>rest_entry_point_port = 8081, miner_callback_port = 9091, validation_prompt = ''score'', cat_netuid = 1,
     cat_mechanism_id = 0, external_ip = ''10.0.0.1'', s3_bucket = ''b''\<rparr>"

theorem cat_graph_is_wired_witness:
  "\<exists>v base rt base'. cat_validator_init Inr cat_demo_settings = Inr (v, base) \<and> cat_validator_start v base = (Inr rt, base')
     \<and> length (rt_actors rt) = 27"
proof -
  have ok: "cat_settings_ok Inr cat_demo_settings" by (simp add: cat_settings_ok_def cat_demo_settings_def url_query_def url_fragment_def int_text_def nat_text.simps)
  have len: "length nodes = 27" if "distinct nodes" "set nodes = {..<27}" for nodes :: "nat list"
    using distinct_card [OF that(1)] unfolding that(2) by simp
  show ?thesis
    using cat_graph_is_wired [OF ok]
    apply (elim exE conjE)
    subgoal for v base rt base' nodes pipes
      apply (intro exI conjI)
        apply assumption
       apply assumption
      apply (simp only: length_map len)
      done
    done
qed

end
