(* ===== verification/DemoScores.thy ===== *)
theory DemoScores
  imports DemoValidator
begin

text \<open>
  The way of a score in the cat-images demo: the validation request is made from the results of the miners by the
  item selector, and the weighing function reads the ids back from the stored request.
\<close>

section \<open>From a validated result to its score\<close>

lemma selected_items:
  assumes "map_res (build_selected_item (cat_item_selector id_of text_of) check) (map PSucc rs) = Inr picked"
    and "\<And>fs. check fs = Inr fs"
  shows "requested_ids (List.map_filter (\<lambda>x. x) picked) = Inr (map (\<lambda>r. id_of (succ_id r)) rs)"
  using assms(1)
proof (induction rs arbitrary: picked)
  case Nil
  then show ?case by (simp add: map_filter_simps)
next
  case (Cons r rs)
  then show ?case
    by (auto simp: map_filter_simps build_selected_item_def cat_item_selector_def res_bind_def assms(2) requested_task_result_id_def
        split: sum.splits)
qed

lemma collect_scores_append:
  "collect_scores env (xs @ ys) d = (case collect_scores env xs d of Inl e \<Rightarrow> Inl e | Inr d1 \<Rightarrow> collect_scores env ys d1)"
  by (induction xs arbitrary: d) (simp_all split: sum.split)

lemma fold_returned:
  "dict_get (fold (\<lambda>i d. case dict_get returned i of None \<Rightarrow> d | Some s \<Rightarrow> dict_set i s d) ids d) k =
     (if k \<in> set ids \<and> dict_has returned k then dict_get returned k else dict_get d k)"
  by (induction ids arbitrary: d) (auto simp: dict_has_def split: option.split)

text \<open>C14: The ids the weighing function reads back from the stored payload of a validation are those of the results
  the request was made from. Collecting the scores of a lone result with its score sets exactly that score, over any earlier
  one; a lone result answered for any other set of ids changes no score; of a batch, exactly the requested ids
  that the answer scores get their scores.\<close>

theorem validated_result_is_scored:
  assumes "openrouter_payload_transform (cat_item_selector (id_text env) text_of) check prompt (map PSucc rs) = Inr req"
    and "\<And>fs. check fs = Inr fs" and "payload_fields env (succ_payload r) = Inr (or_fields req)"
    and "scores_by_id env (succ_output r) = Inr returned" and "collect_scores env earlier [] = Inr d"
  defines "ids \<equiv> map (\<lambda>m. id_text env (succ_id m)) rs"
  shows "requested_task_result_ids env (succ_payload r) = Inr (dedup ids)
    \<and> (\<forall>i n. ids = [i] \<and> returned = [(i, n)] \<longrightarrow> collect_scores env (earlier @ [r]) [] = Inr (dict_set i n d))
    \<and> (\<forall>i. ids = [i] \<and> set (dict_keys returned) \<noteq> {i} \<longrightarrow> collect_scores env (earlier @ [r]) [] = Inr d)
    \<and> (length (dedup ids) \<noteq> 1 \<longrightarrow> (\<exists>d'. collect_scores env (earlier @ [r]) [] = Inr d'
         \<and> (\<forall>k. dict_get d' k = (if k \<in> set ids \<and> dict_has returned k then dict_get returned k else dict_get d k))))"
proof -
  obtain picked where "map_res (build_selected_item (cat_item_selector (id_text env) text_of) check) (map PSucc rs) = Inr picked"
    "or_fields req = List.map_filter (\<lambda>x. x) picked"
    using assms(1) by (auto simp: openrouter_payload_transform_def openrouter_request_init_def Let_def split: sum.splits if_splits)
  with selected_items [OF this(1) assms(2)] have
    requested: "requested_task_result_ids env (succ_payload r) = Inr (dedup ids)"
    by (simp add: requested_task_result_ids_def assms(3) ids_def)
  have last: "collect_scores env (earlier @ [r]) [] = collect_scores env [r] d"
    by (simp add: collect_scores_append assms(5))
  have one: "collect_scores env [r] d = Inr (dict_set i n d)" if "ids = [i]" "returned = [(i, n)]" for i n
    using that by (simp add: requested assms(4))
  have other: "collect_scores env [r] d = Inr d" if "ids = [i]" "set (dict_keys returned) \<noteq> {i}" for i
    using that by (simp add: requested assms(4))
  have batch: "\<exists>d'. collect_scores env [r] d = Inr d'
      \<and> (\<forall>k. dict_get d' k = (if k \<in> set ids \<and> dict_has returned k then dict_get returned k else dict_get d k))"
    if "length (dedup ids) \<noteq> 1"
    using that fold_returned [of returned "dedup ids" d] by (simp add: requested assms(4))
  show ?thesis unfolding last using requested one other batch by blast
qed

definition scored_demo_result :: "pyval succ_result" where
  "scored_demo_result = SuccessfulTaskResult 7 0 1 \<lparr>block_number = 5, block_timestamp = 0, block_hash = ''h''\<rparr>
     (PDict [(''input'', PDict [(''image_s3_url'', PStr ''http://in'')]), (''presigned_url'', PStr ''http://put'')]) demo_neuron
     (PDict [(''image_hash'', PStr ''h'')]) (PDict [(''input'', PNone), (''presigned_url'', PStr ''http://get'')])"

definition scored_demo_fields :: fields where
  "scored_demo_fields = [(''original_image_url'', ImageUrlField ''http://in''), (''generated_image_url'', ImageUrlField ''http://get''),
     (''task_result_id'', ScalarField (ScStr ''7''))]"

text \<open>The result was scored before; the new score replaces the old one.\<close>

definition scored_demo_env :: weighing_env where
  "scored_demo_env = \<lparr>payload_fields = (\<lambda>_. Inr [scored_demo_fields]), scores_by_id = (\<lambda>v. Inr [(''7'', if v = PNone then 20 else 80)]),
     id_text = nat_text, rnd = id\<rparr>"

definition rescored_demo_result :: "pyval succ_result" where
  "rescored_demo_result = SuccessfulTaskResult 9 0 1 \<lparr>block_number = 6, block_timestamp = 0, block_hash = ''i''\<rparr>
     PNone demo_neuron PNone PNone"

theorem validated_result_is_scored_witness:
  "collect_scores scored_demo_env [rescored_demo_result] [] = Inr [(''7'', 20)]
     \<and> collect_scores scored_demo_env [rescored_demo_result, scored_demo_result] [] = Inr [(''7'', 80)]"
proof
  have sel: "openrouter_payload_transform (cat_item_selector (id_text scored_demo_env) (\<lambda>_. [])) Inr ''score'' (map PSucc [scored_demo_result])
     = Inr \<lparr>or_fields = [scored_demo_fields], or_content = render_content ''score'' [scored_demo_fields]\<rparr>"
    by code_simp
  show before: "collect_scores scored_demo_env [rescored_demo_result] [] = Inr [(''7'', 20)]" by code_simp
  have stored: "payload_fields scored_demo_env (succ_payload scored_demo_result) =
      Inr (or_fields \<lparr>or_fields = [scored_demo_fields], or_content = render_content ''score'' [scored_demo_fields]\<rparr>)"
    by (simp add: scored_demo_env_def)
  have id_is: "nat_text (succ_id scored_demo_result) = ''7''" by code_simp
  have returned: "scores_by_id scored_demo_env (succ_output scored_demo_result) = Inr [(''7'', 80)]" by code_simp
  have "collect_scores scored_demo_env ([rescored_demo_result] @ [scored_demo_result]) [] = Inr (dict_set ''7'' 80 [(''7'', 20)])"
    using validated_result_is_scored [OF sel refl stored returned before] by (simp add: scored_demo_env_def id_is)
  then show "collect_scores scored_demo_env [rescored_demo_result, scored_demo_result] [] = Inr [(''7'', 80)]"
    by simp
qed

end
