(* ===== verification/Miner.thy ===== *)
theory Miner
  imports Demo Payload Service
begin

text \<open>
  The miner of the cat-images demo: the processor it gives to the neuron service (\<open>miner/miner.py\<close>) and the service that
  keeps its address on chain (\<open>miner/axon_updater.py\<close>). HTTP, base64, the hash and the bittensor SDK are arguments; a client call
  is an action on a world of its own, so that an upload is a change one can see.
\<close>

section \<open>Settings\<close>

record miner_settings =
  ms_api_key :: string
  ms_openrouter_url :: string
  ms_openrouter_model :: string
  ms_prompt :: string
  ms_port :: int
  ms_path :: string
  ms_update_axon :: bool
  ms_wallet_name :: string
  ms_hotkey_name :: string
  ms_subtensor_network :: string
  ms_netuid :: "int option"
  ms_external_ip :: "string option"
  ms_external_port :: "int option"
  ms_serve_interval :: int

definition axon_updater_requires_netuid :: "miner_settings \<Rightarrow> exn + miner_settings" where
  "axon_updater_requires_netuid s = (if ms_update_axon s \<and> ms_netuid s = None then Inl value_error else Inr s)"

section \<open>The processor\<close>

record 'w web =
  web_get :: "string \<Rightarrow> (exn, string, 'w) act" \<comment> \<open>\<open>get\<close>, with \<open>raise_for_status\<close>\<close>
  web_post :: "string \<Rightarrow> json \<Rightarrow> string \<Rightarrow> (exn, json, 'w) act" \<comment> \<open>address, payload and authorization\<close>
  web_put :: "string \<Rightarrow> string \<Rightarrow> (exn, unit, 'w) act"
  b64encode :: "string \<Rightarrow> string"
  b64decode :: "string \<Rightarrow> exn + string"
  sha256 :: "string \<Rightarrow> string"

definition download_image :: "('w, 'z) web_scheme \<Rightarrow> string \<Rightarrow> (exn, string, 'w) act" where
  "download_image web url = web_get web url"

definition cat_payload :: "('w, 'z) web_scheme \<Rightarrow> miner_settings \<Rightarrow> string \<Rightarrow> json" where
  "cat_payload web s image_bytes =
     JDict [(''model'', JStr (ms_openrouter_model s)), (''modalities'', JList [JStr ''image'', JStr ''text'']),
       (''messages'', JList [JDict [(''role'', JStr ''user''),
          (''content'', JList [JDict [(''type'', JStr ''text''), (''text'', JStr (ms_prompt s))],
             JDict [(''type'', JStr ''image_url''), (''image_url'', JDict [(''url'', JStr (''data:image/png;base64,'' @ b64encode web image_bytes))])]])]])]"

text \<open>The data URL in the reply, and what follows its first comma.\<close>

definition reply_image_url :: "json \<Rightarrow> exn + json" where
  "reply_image_url j =
     res_bind (json_key ''choices'' j) (\<lambda>j. res_bind (json_first j) (\<lambda>j. res_bind (json_key ''message'' j) (\<lambda>j.
     res_bind (json_key ''images'' j) (\<lambda>j. res_bind (json_first j) (\<lambda>j. res_bind (json_key ''image_url'' j) (json_key ''url''))))))"

definition after_comma :: "json \<Rightarrow> exn + string" where
  "after_comma j =
     (case j of
        JStr t \<Rightarrow> if CHR '','' \<in> set t then Inr (drop 1 (dropWhile (\<lambda>c. c \<noteq> CHR '','') t)) else Inl (exn_of (OtherException ''IndexError''))
      | _ \<Rightarrow> Inl attribute_error)"

definition image_of_reply :: "('w, 'z) web_scheme \<Rightarrow> json \<Rightarrow> exn + string" where
  "image_of_reply web j = res_bind (reply_image_url j) (\<lambda>u. res_bind (after_comma u) (b64decode web))"

definition add_cat_to_image :: "('w, 'z) web_scheme \<Rightarrow> miner_settings \<Rightarrow> string \<Rightarrow> (exn, string, 'w) act" where
  "add_cat_to_image web s image_bytes =
     bind_act (web_post web (ms_openrouter_url s) (cat_payload web s image_bytes) (''Bearer '' @ ms_api_key s)) (\<lambda>reply.
       lift_act (image_of_reply web reply))"

definition miner_process :: "('w, 'z) web_scheme \<Rightarrow> (pyval \<Rightarrow> string) \<Rightarrow> miner_settings \<Rightarrow> pyval \<Rightarrow> (exn, pyval, 'w) act" where
  "miner_process web text_of s task =
     bind_act (lift_act (res_bind (attribute ''input'' task) (attribute ''image_s3_url''))) (\<lambda>source_url.
     bind_act (download_image web (str_of text_of source_url)) (\<lambda>source_bytes.
     bind_act (add_cat_to_image web s source_bytes) (\<lambda>cat_bytes.
     bind_act (lift_act (attribute ''presigned_url'' task)) (\<lambda>target.
     seq_act (web_put web (str_of text_of target) cat_bytes)
       (ret (PDict [(''image_hash'', PStr (sha256 web cat_bytes))]))))))"

definition make_miner_service :: "miner_settings \<Rightarrow> int \<Rightarrow> exn + service_config \<times> service_state" where
  "make_miner_service s callback_timeout = service_init (ms_path s) (ms_port s) callback_timeout"

section \<open>The address on chain\<close>

record axon_config =
  ax_wallet_name :: string
  ax_hotkey_name :: string
  ax_subtensor_network :: string
  ax_netuid :: int
  ax_port :: int
  ax_external_ip :: "string option"
  ax_external_port :: "int option"
  ax_interval :: int

definition make_axon_updater_service :: "miner_settings \<Rightarrow> exn + axon_config option" where
  "make_axon_updater_service s =
     (if \<not> ms_update_axon s then Inr None
      else case ms_netuid s of
             None \<Rightarrow> Inl runtime_error
           | Some n \<Rightarrow> Inr (Some \<lparr>ax_wallet_name = ms_wallet_name s, ax_hotkey_name = ms_hotkey_name s,
               ax_subtensor_network = ms_subtensor_network s, ax_netuid = n, ax_port = ms_port s,
               ax_external_ip = ms_external_ip s, ax_external_port = ms_external_port s, ax_interval = ms_serve_interval s\<rparr>))"

record axon_info =
  info_ip :: string
  info_port :: int
  info_protocol :: int

text \<open>The SDK: the address of a hotkey, the address of the host, a neuron's axon on chain, and serving it with an external address.\<close>

record 'c bittensor =
  bt_hotkey :: "string \<Rightarrow> string \<Rightarrow> (exn, string, 'c) act"
  bt_connect :: "string \<Rightarrow> (exn, unit, 'c) act"
  bt_own_ip :: "(exn, string, 'c) act"
  bt_axon_info :: "string \<Rightarrow> int \<Rightarrow> (exn, axon_info option, 'c) act"
  bt_serve_axon :: "int \<Rightarrow> string \<Rightarrow> string \<Rightarrow> int \<Rightarrow> string \<Rightarrow> int \<Rightarrow> (exn, unit, 'c) act" \<comment> \<open>netuid, wallet, port, external address\<close>

definition address_text :: "string \<Rightarrow> int \<Rightarrow> string" where
  "address_text ip port = ip @ '':'' @ int_text port"

definition update_axon :: "('c, 'z) bittensor_scheme \<Rightarrow> axon_config \<Rightarrow> (exn, bool \<times> string, 'c) act" where
  "update_axon bt cfg =
     seq_act (bt_connect bt (ax_subtensor_network cfg))
     (bind_act (bt_hotkey bt (ax_wallet_name cfg) (ax_hotkey_name cfg)) (\<lambda>hotkey.
      bind_act (case ax_external_ip cfg of Some (c # cs) \<Rightarrow> ret (c # cs) | _ \<Rightarrow> bt_own_ip bt) (\<lambda>ip.
      let port = (case ax_external_port cfg of Some p \<Rightarrow> if p = 0 then ax_port cfg else p | None \<Rightarrow> ax_port cfg) in
      bind_act (bt_axon_info bt hotkey (ax_netuid cfg)) (\<lambda>info.
        if (case info of None \<Rightarrow> False
            | Some a \<Rightarrow> info_ip a \<noteq> ''0.0.0.0'' \<and> info_ip a = ip \<and> info_port a = port \<and> info_protocol a = 4)
        then ret (False, ''Axon unchanged at '' @ address_text ip port)
        else seq_act (bt_serve_axon bt (ax_netuid cfg) (ax_wallet_name cfg) (ax_hotkey_name cfg) (ax_port cfg) ip port)
               (ret (True, ''Axon updated to '' @ address_text ip port))))))"

text \<open>The subprocess reports an exception as text; the two that are not \<open>Exception\<close> are told apart by \<open>reported\<close>.\<close>

definition update_axon_subprocess :: "(exn \<Rightarrow> string) \<Rightarrow> ('c, 'z) bittensor_scheme \<Rightarrow> axon_config \<Rightarrow> (exn, bool \<times> string, 'c) act" where
  "update_axon_subprocess exn_text bt cfg =
     try_act (update_axon bt cfg) (\<lambda>e.
       if exn_class e = OtherException ''KeyboardInterrupt'' then ret (False, ''Axon update interrupted'')
       else if exn_class e \<in> {OtherException ''SystemExit'', OtherException ''GeneratorExit''} then raise e
       else ret (False, ''Axon update failed: '' @ exn_text e))"

text \<open>The loop of the updater: what the pool returned for each round, and whether the stop event was set in the wait after it.\<close>

datatype round_outcome = RoundReported "bool \<times> string" | PoolTerminated | RoundTimedOut | RoundRaised exn

datatype loop_end = LoopOpen | LoopStopped | LoopFailed exn

fun updater_loop :: "(round_outcome \<times> bool) list \<Rightarrow> string list \<times> loop_end" where
  "updater_loop [] = ([], LoopOpen)"
| "updater_loop ((r, stop) # rounds) =
     (case r of
        PoolTerminated \<Rightarrow> ([''Process pool terminated, shutting down''], LoopStopped)
      | RoundRaised e \<Rightarrow> ([], LoopFailed e)
      | _ \<Rightarrow>
          (let line = (case r of RoundReported (_, msg) \<Rightarrow> msg | _ \<Rightarrow> ''Axon update timed out after 120s'')
           in if stop then ([line], LoopStopped) else (case updater_loop rounds of (ls, e) \<Rightarrow> (line # ls, e))))"

text \<open>The one worker of the default pool in seconds: \<open>free\<close> is when it can take the next task (\<open>None\<close>: never), and
  a task takes \<open>d\<close> seconds (\<open>None\<close>: it hangs). A task that times out is not taken from the worker.\<close>

fun updater_rounds :: "int \<Rightarrow> int \<Rightarrow> int \<Rightarrow> int option \<Rightarrow> int option list \<Rightarrow> bool list" where
  "updater_rounds timeout interval now free [] = []"
| "updater_rounds timeout interval now free (d # ds) =
     (let finish = (case (free, d) of (Some f, Some k) \<Rightarrow> Some (max now f + k) | _ \<Rightarrow> None) in
      case finish of
        Some t \<Rightarrow> if t \<le> now + timeout then True # updater_rounds timeout interval (t + interval) finish ds
                  else False # updater_rounds timeout interval (now + timeout + interval) finish ds
      | None \<Rightarrow> False # updater_rounds timeout interval (now + timeout + interval) None ds)"

section \<open>What a miner reports\<close>

text \<open>An object host: a successful upload is what the host then has, and nothing else changes what it has.\<close>

definition host_ok :: "('w, 'z) web_scheme \<Rightarrow> ('w \<Rightarrow> string \<Rightarrow> string option) \<Rightarrow> bool" where
  "host_ok web stored \<longleftrightarrow>
     (\<forall>url w r w'. web_get web url w = (r, w') \<longrightarrow> stored w' = stored w)
     \<and> (\<forall>url p key w r w'. web_post web url p key w = (r, w') \<longrightarrow> stored w' = stored w)
     \<and> (\<forall>url b w w'. web_put web url b w = (Inr (), w') \<longrightarrow> stored w' = (stored w)(url \<mapsto> b))"

lemma bind_act_eq: "bind_act m f w = (case m w of (Inl e, w1) \<Rightarrow> (Inl e, w1) | (Inr x, w1) \<Rightarrow> f x w1)"
  by (simp add: bind_act_def)

text \<open>C32: What the miner tells its validator is what it stored: when the processor returns, the presigned URL of the task
  holds the image decoded from OpenRouter's reply to the original image, the answer is the hash of just these bytes, and no
  other URL has changed; when it raises, nothing has changed unless the upload itself raised.\<close>

theorem miner_reports_what_it_stored:
  assumes host: "host_ok web stored" and run: "miner_process web text_of s task w = (r, w')"
  shows "case r of
      Inr v \<Rightarrow> (\<exists>source target original reply image w1 w2 w3.
          res_bind (attribute ''input'' task) (attribute ''image_s3_url'') = Inr source \<and> attribute ''presigned_url'' task = Inr target
        \<and> web_get web (str_of text_of source) w = (Inr original, w1)
        \<and> web_post web (ms_openrouter_url s) (cat_payload web s original) (''Bearer '' @ ms_api_key s) w1 = (Inr reply, w2)
        \<and> image_of_reply web reply = Inr image \<and> web_put web (str_of text_of target) image w2 = (Inr (), w3)
        \<and> w' = w3 \<and> stored w' = (stored w)(str_of text_of target \<mapsto> image)
        \<and> v = PDict [(''image_hash'', PStr (sha256 web image))])
    | Inl e \<Rightarrow> stored w' = stored w \<or> (\<exists>target image w2. web_put web (str_of text_of target) image w2 = (Inl e, w'))"
proof (cases "res_bind (attribute ''input'' task) (attribute ''image_s3_url'')")
  case (Inl e)
  then have "r = Inl e \<and> w' = w" using run by (simp add: miner_process_def bind_act_eq lift_act_def)
  then show ?thesis by simp
next
  case source: (Inr source)
  obtain r1 w1 where get: "web_get web (str_of text_of source) w = (r1, w1)" by (rule prod.exhaust)
  then have s1: "stored w1 = stored w" using host by (auto simp: host_ok_def)
  show ?thesis
  proof (cases r1)
    case (Inl e)
    then have "r = Inl e \<and> w' = w1" using run get by (simp add: miner_process_def bind_act_eq lift_act_def source download_image_def)
    then show ?thesis using s1 by simp
  next
    case original: (Inr original)
    obtain r2 w2 where post: "web_post web (ms_openrouter_url s) (cat_payload web s original) (''Bearer '' @ ms_api_key s) w1 = (r2, w2)"
      by (rule prod.exhaust)
    then have s2: "stored w2 = stored w" using host s1 by (auto simp: host_ok_def)
    have cat: "add_cat_to_image web s original w1 = (res_bind r2 (image_of_reply web), w2)"
      unfolding add_cat_to_image_def bind_act_eq post by (cases r2) (simp_all add: lift_act_def)
    show ?thesis
    proof (cases "res_bind r2 (image_of_reply web)")
      case (Inl e)
      then have "r = Inl e \<and> w' = w2"
        using run get by (simp add: miner_process_def bind_act_eq lift_act_def source download_image_def original cat)
      then show ?thesis using s2 by simp
    next
      case image: (Inr image)
      then obtain reply where reply: "r2 = Inr reply" "image_of_reply web reply = Inr image" by (auto simp: res_bind_Inr)
      show ?thesis
      proof (cases "attribute ''presigned_url'' task")
        case (Inl e)
        then have "r = Inl e \<and> w' = w2"
          using run get by (simp add: miner_process_def bind_act_eq lift_act_def source download_image_def original cat image)
        then show ?thesis using s2 by simp
      next
        case target: (Inr target)
        obtain r3 w3 where put: "web_put web (str_of text_of target) image w2 = (r3, w3)" by (rule prod.exhaust)
        have end_run: "(r, w') = (map_sum id (\<lambda>_. PDict [(''image_hash'', PStr (sha256 web image))]) r3, w3)"
          unfolding run [symmetric]
          by (cases r3) (simp_all add: miner_process_def bind_act_eq seq_act_def lift_act_def source download_image_def original get cat image target put)
        show ?thesis
        proof (cases r3)
          case (Inl e)
          with end_run put show ?thesis by auto
        next
          case (Inr u)
          with put have "stored w3 = (stored w)(str_of text_of target \<mapsto> image)" using host s2 by (auto simp: host_ok_def)
          moreover have "r = Inr (PDict [(''image_hash'', PStr (sha256 web image))])" "w' = w3" using end_run Inr by simp_all
          ultimately show ?thesis using source target get post reply put Inr original by fastforce
        qed
      qed
    qed
  qed
qed

definition demo_web :: "(string \<Rightarrow> string option) web" where
  "demo_web = \<lparr>web_get = (\<lambda>url w. case w url of None \<Rightarrow> (Inl key_error, w) | Some b \<Rightarrow> (Inr b, w)),
     web_post = (\<lambda>_ _ _. ret (JDict [(''choices'', JList [JDict [(''message'', JDict [(''images'',
        JList [JDict [(''image_url'', JDict [(''url'', JStr ''data:image/png;base64,Y2F0'')])]])])]])])),
     web_put = (\<lambda>url b w. (Inr (), w(url \<mapsto> b))),
     b64encode = (\<lambda>b. b), b64decode = (\<lambda>t. Inr (''cat:'' @ t)), sha256 = rev\<rparr>"

definition demo_miner_settings :: miner_settings where
  "demo_miner_settings = \<lparr>ms_api_key = ''k'', ms_openrouter_url = ''http://or'', ms_openrouter_model = ''m'', ms_prompt = ''add a cat'',
     ms_port = 9090, ms_path = ''/process'', ms_update_axon = True, ms_wallet_name = ''w'', ms_hotkey_name = ''h'',
     ms_subtensor_network = ''finney'', ms_netuid = Some 1, ms_external_ip = None, ms_external_port = None, ms_serve_interval = 60\<rparr>"

definition demo_miner_task :: pyval where
  "demo_miner_task = PDict [(''input'', PDict [(''image_s3_url'', PStr ''http://in'')]), (''presigned_url'', PStr ''http://out'')]"

theorem miner_reports_what_it_stored_witness:
  "\<exists>w'. miner_process demo_web (\<lambda>_. []) demo_miner_settings demo_miner_task [''http://in'' \<mapsto> ''dog'']
      = (Inr (PDict [(''image_hash'', PStr (rev ''cat:Y2F0''))]), w')
     \<and> w' = [''http://in'' \<mapsto> ''dog'', ''http://out'' \<mapsto> ''cat:Y2F0'']"
proof -
  have host: "host_ok demo_web (\<lambda>w. w)" by (auto simp: host_ok_def demo_web_def split: option.splits)
  obtain r w' where run: "miner_process demo_web (\<lambda>_. []) demo_miner_settings demo_miner_task [''http://in'' \<mapsto> ''dog''] = (r, w')"
    by (rule prod.exhaust)
  have "\<exists>v. r = Inr v" using run
    by (auto simp: miner_process_def bind_act_eq seq_act_def lift_act_def download_image_def add_cat_to_image_def demo_web_def
        demo_miner_task_def attribute_def str_of_def image_of_reply_def reply_image_url_def json_key_def json_first_def after_comma_def)
  then obtain v where r: "r = Inr v" ..
  from miner_reports_what_it_stored [OF host run] r obtain target image reply w2 w1 original where
    facts: "attribute ''presigned_url'' demo_miner_task = Inr target" "web_post demo_web (ms_openrouter_url demo_miner_settings)
      (cat_payload demo_web demo_miner_settings original) (''Bearer '' @ ms_api_key demo_miner_settings) w1 = (Inr reply, w2)"
    "image_of_reply demo_web reply = Inr image" "w' = [''http://in'' \<mapsto> ''dog''](str_of (\<lambda>_. []) target \<mapsto> image)"
    "v = PDict [(''image_hash'', PStr (sha256 demo_web image))]" by auto
  have "target = PStr ''http://out''" using facts(1) by (simp add: demo_miner_task_def attribute_def)
  moreover have "image = ''cat:Y2F0''" using facts(2,3)
    by (auto simp: demo_web_def image_of_reply_def reply_image_url_def json_key_def json_first_def after_comma_def)
  ultimately show ?thesis using run r facts(4,5) by (simp add: str_of_def demo_web_def)
qed

section \<open>The address on chain, kept\<close>

text \<open>The SDK on a chain: an axon that is served is what the chain then has, and nothing else changes it.\<close>

definition bittensor_ok :: "('c, 'z) bittensor_scheme \<Rightarrow> ('c \<Rightarrow> string \<times> int \<Rightarrow> axon_info option) \<Rightarrow> (string \<Rightarrow> string \<Rightarrow> string) \<Rightarrow> string \<Rightarrow> bool" where
  "bittensor_ok bt chain key own \<longleftrightarrow>
     (\<forall>wallet hk c. bt_hotkey bt wallet hk c = (Inr (key wallet hk), c)) \<and> (\<forall>net c. bt_connect bt net c = (Inr (), c))
     \<and> (\<forall>c. bt_own_ip bt c = (Inr own, c)) \<and> (\<forall>h n c. bt_axon_info bt h n c = (Inr (chain c (h, n)), c))
     \<and> (\<forall>n wallet hk p ip port c. \<exists>c'. bt_serve_axon bt n wallet hk p ip port c = (Inr (), c')
          \<and> chain c' = (chain c)((key wallet hk, n) \<mapsto> \<lparr>info_ip = ip, info_port = port, info_protocol = 4\<rparr>))"

text \<open>The address a configuration asks for.\<close>

definition wanted_axon :: "axon_config \<Rightarrow> string \<Rightarrow> axon_info" where
  "wanted_axon cfg own =
     \<lparr>info_ip = (case ax_external_ip cfg of Some (c # cs) \<Rightarrow> c # cs | _ \<Rightarrow> own),
      info_port = (case ax_external_port cfg of Some p \<Rightarrow> if p = 0 then ax_port cfg else p | None \<Rightarrow> ax_port cfg), info_protocol = 4\<rparr>"

lemma axon_update_run:
  assumes "bittensor_ok bt chain key own" and "info_ip (wanted_axon cfg own) \<noteq> ''0.0.0.0''"
  defines "slot \<equiv> (key (ax_wallet_name cfg) (ax_hotkey_name cfg), ax_netuid cfg)"
  shows "\<exists>msg c'. update_axon_subprocess exn_text bt cfg c = (Inr (chain c slot \<noteq> Some (wanted_axon cfg own), msg), c')
     \<and> chain c' = (chain c)(slot \<mapsto> wanted_axon cfg own)"
proof -
  define ip where "ip = info_ip (wanted_axon cfg own)"
  define port where "port = info_port (wanted_axon cfg own)"
  have wanted: "wanted_axon cfg own = \<lparr>info_ip = ip, info_port = port, info_protocol = 4\<rparr>"
    by (simp add: ip_def port_def wanted_axon_def)
  have ip_run: "(case ax_external_ip cfg of Some (c # cs) \<Rightarrow> ret (c # cs) | _ \<Rightarrow> bt_own_ip bt) c = (Inr ip, c)"
    using assms(1) by (auto simp: ip_def wanted_axon_def bittensor_ok_def split: option.split list.split)
  have port_is: "(case ax_external_port cfg of Some p \<Rightarrow> if p = 0 then ax_port cfg else p | None \<Rightarrow> ax_port cfg) = port"
    by (simp add: port_def wanted_axon_def)
  have same: "(case chain c slot of None \<Rightarrow> False
      | Some a \<Rightarrow> info_ip a \<noteq> ''0.0.0.0'' \<and> info_ip a = ip \<and> info_port a = port \<and> info_protocol a = 4)
      \<longleftrightarrow> chain c slot = Some (wanted_axon cfg own)"
    using assms(2) unfolding wanted by (auto split: option.split)
  obtain c' where serve: "bt_serve_axon bt (ax_netuid cfg) (ax_wallet_name cfg) (ax_hotkey_name cfg) (ax_port cfg) ip port c = (Inr (), c')"
    "chain c' = (chain c)(slot \<mapsto> wanted_axon cfg own)"
    using assms(1) unfolding bittensor_ok_def slot_def wanted by blast
  have run: "update_axon bt cfg c =
      (if chain c slot = Some (wanted_axon cfg own) then (Inr (False, ''Axon unchanged at '' @ address_text ip port), c)
       else (Inr (True, ''Axon updated to '' @ address_text ip port), c'))"
    using assms(1) serve(1)
    by (simp add: update_axon_def seq_act_def bind_act_eq ip_run port_is Let_def bittensor_ok_def same [unfolded slot_def] slot_def)
  show ?thesis
  proof (cases "chain c slot = Some (wanted_axon cfg own)")
    case True
    then have "chain c = (chain c)(slot \<mapsto> wanted_axon cfg own)" by (simp add: fun_upd_idem)
    with True show ?thesis by (simp add: update_axon_subprocess_def try_act_def run)
  next
    case False
    with serve(2) show ?thesis by (simp add: update_axon_subprocess_def try_act_def run)
  qed
qed

text \<open>The checks of one run of the loop, one after the other.\<close>

fun axon_checks :: "(exn \<Rightarrow> string) \<Rightarrow> ('c, 'z) bittensor_scheme \<Rightarrow> axon_config \<Rightarrow> nat \<Rightarrow> 'c \<Rightarrow> (exn + bool \<times> string) list \<times> 'c" where
  "axon_checks exn_text bt cfg 0 c = ([], c)"
| "axon_checks exn_text bt cfg (Suc n) c =
     (case update_axon_subprocess exn_text bt cfg c of
        (r, c') \<Rightarrow> (case axon_checks exn_text bt cfg n c' of (rs, c'') \<Rightarrow> (r # rs, c'')))"

definition served :: "exn + bool \<times> string \<Rightarrow> bool" where
  "served r = (case r of Inr (changed, _) \<Rightarrow> changed | Inl _ \<Rightarrow> False)"

lemma settled_checks:
  assumes "bittensor_ok bt chain key own" and "info_ip (wanted_axon cfg own) \<noteq> ''0.0.0.0''"
    and "chain c (key (ax_wallet_name cfg) (ax_hotkey_name cfg), ax_netuid cfg) = Some (wanted_axon cfg own)"
  shows "map served (fst (axon_checks exn_text bt cfg n c)) = replicate n False
     \<and> chain (snd (axon_checks exn_text bt cfg n c)) = chain c"
  using assms(3)
proof (induction n arbitrary: c)
  case (Suc n)
  obtain msg c' where run: "update_axon_subprocess exn_text bt cfg c = (Inr (False, msg), c')" and "chain c' = chain c"
    using axon_update_run [OF assms(1,2), of exn_text c] Suc.prems by (auto simp: fun_upd_idem)
  with Suc.IH [of c'] Suc.prems show ?case by (auto simp: served_def split: prod.split)
qed simp

text \<open>A hotkey gets the axon it asks for and keeps it. Whatever the chain has for the hotkey, after the first of any
  number of checks it has the address, port and protocol of the configuration, nothing else on chain is touched, the first
  check serves exactly when the chain had something else, and no later check serves again.\<close>

theorem axon_updates_settle:
  assumes "bittensor_ok bt chain key own" and "info_ip (wanted_axon cfg own) \<noteq> ''0.0.0.0''"
  defines "slot \<equiv> (key (ax_wallet_name cfg) (ax_hotkey_name cfg), ax_netuid cfg)"
  shows "map served (fst (axon_checks exn_text bt cfg (Suc n) c)) = (chain c slot \<noteq> Some (wanted_axon cfg own)) # replicate n False"
    and "chain (snd (axon_checks exn_text bt cfg (Suc n) c)) = (chain c)(slot \<mapsto> wanted_axon cfg own)"
proof -
  obtain msg c' where run: "update_axon_subprocess exn_text bt cfg c = (Inr (chain c slot \<noteq> Some (wanted_axon cfg own), msg), c')"
    and c': "chain c' = (chain c)(slot \<mapsto> wanted_axon cfg own)"
    using axon_update_run [OF assms(1,2), of exn_text c] unfolding slot_def by blast
  have "chain c' slot = Some (wanted_axon cfg own)" using c' by simp
  note rest = settled_checks [OF assms(1,2) this [unfolded slot_def], of exn_text n]
  show "map served (fst (axon_checks exn_text bt cfg (Suc n) c)) = (chain c slot \<noteq> Some (wanted_axon cfg own)) # replicate n False"
    using rest by (auto simp: run served_def split: prod.split)
  show "chain (snd (axon_checks exn_text bt cfg (Suc n) c)) = (chain c)(slot \<mapsto> wanted_axon cfg own)"
    using rest c' by (auto simp: run split: prod.split)
qed

definition demo_chain :: "(string \<times> int \<rightharpoonup> axon_info) bittensor" where
  "demo_chain =
     \<lparr>bt_hotkey = (\<lambda>wallet hk c. (Inr (wallet @ hk), c)), bt_connect = (\<lambda>net c. (Inr (), c)), bt_own_ip = (\<lambda>c. (Inr ''10.0.0.1'', c)),
      bt_axon_info = (\<lambda>h n c. (Inr (c (h, n)), c)),
      bt_serve_axon = (\<lambda>n wallet hk p ip port c.
        (Inr (), c((wallet @ hk, n) \<mapsto> \<lparr>info_ip = ip, info_port = port, info_protocol = 4\<rparr>)))\<rparr>"

definition demo_axon :: axon_config where
  "demo_axon = \<lparr>ax_wallet_name = ''w'', ax_hotkey_name = ''h'', ax_subtensor_network = ''test'', ax_netuid = 7,
     ax_port = 8091, ax_external_ip = None, ax_external_port = None, ax_interval = 60\<rparr>"

theorem axon_updates_settle_witness:
  "map served (fst (axon_checks (\<lambda>_. []) demo_chain demo_axon 3 Map.empty)) = [True, False, False]"
proof -
  have "bittensor_ok demo_chain id (@) ''10.0.0.1''" by (simp add: bittensor_ok_def demo_chain_def)
  moreover have "info_ip (wanted_axon demo_axon ''10.0.0.1'') \<noteq> ''0.0.0.0''" by (simp add: wanted_axon_def demo_axon_def)
  ultimately show ?thesis
    using axon_updates_settle(1) [of demo_chain id "(@)" "''10.0.0.1''" demo_axon "\<lambda>_. []" 2 Map.empty]
    by (simp add: numeral_2_eq_2 numeral_3_eq_3)
qed

text \<open>An update that never returns keeps the only worker, so no later one returns in time either.\<close>

lemma hung_update_blocks_later_ones: "updater_rounds timeout interval now None ds = replicate (length ds) False"
  by (induction ds arbitrary: now) (simp_all add: Let_def)

lemma hung_update_is_the_last: "updater_rounds timeout interval now free (None # ds) = replicate (Suc (length ds)) False"
  by (cases free) (simp_all add: hung_update_blocks_later_ones Let_def)

end
