(* ===== verification/MinerProcess.thy ===== *)
theory MinerProcess
  imports Miner Startup
begin

text \<open>
  The process of a miner: starting and stopping the axon updater (\<open>miner/axon_updater.py\<close>) and \<open>main\<close> of \<open>miner/miner.py\<close>, which
  runs the neuron service and, if it is configured, the updater until Ctrl+C.
\<close>

section \<open>The updater as a service\<close>

record updater_state =
  up_pool :: bool \<comment> \<open>there is an executor\<close>
  up_stop_set :: bool
  up_thread :: bool
  up_starts :: nat \<comment> \<open>threads started so far\<close>

definition updater_init :: updater_state where
  "updater_init = \<lparr>up_pool = False, up_stop_set = False, up_thread = False, up_starts = 0\<rparr>"

text \<open>\<open>executor\<close> is what the executor factory does.\<close>

definition updater_start :: "exn + unit \<Rightarrow> (exn, unit, updater_state) act" where
  "updater_start executor =
     seq_act (lift_act executor)
       (modify_act (\<lambda>u. u\<lparr>up_pool := True, up_thread := True, up_starts := Suc (up_starts u)\<rparr>))"

definition updater_stop :: "(exn, unit, updater_state) act" where
  "updater_stop =
     seq_act (modify_act (\<lambda>u. u\<lparr>up_stop_set := True\<rparr>))
    (seq_act (modify_act (\<lambda>u. if up_pool u then u\<lparr>up_pool := False\<rparr> else u))
             (modify_act (\<lambda>u. if up_thread u then u\<lparr>up_thread := False\<rparr> else u)))"

text \<open>The loop of a thread whose rounds end as given, as long as nobody calls \<open>stop\<close>.\<close>

definition updater_thread :: "updater_state \<Rightarrow> round_outcome list \<Rightarrow> string list \<times> loop_end" where
  "updater_thread u rounds = updater_loop (map (\<lambda>r. (r, up_stop_set u)) rounds)"

text \<open>A first start checks round after round; a start after a stop finds the event still set and ends after one check.\<close>

lemma restarted_updater_checks_once:
  assumes "updater_start (Inr ()) updater_init = (Inr (), u1)" and "updater_stop u1 = (Inr (), u2)"
    and "updater_start (Inr ()) u2 = (Inr (), u3)"
  shows "updater_thread u1 (map RoundReported reports) = (map snd reports, LoopOpen)"
    and "updater_thread u3 (RoundReported report # rounds) = ([snd report], LoopStopped)"
proof -
  have "\<not> up_stop_set u1" using assms(1) by (auto simp: updater_start_def updater_init_def act_defs)
  then show "updater_thread u1 (map RoundReported reports) = (map snd reports, LoopOpen)"
    by (induction reports) (auto simp: updater_thread_def split: prod.split)
  have "up_stop_set u3" using assms by (auto simp: updater_start_def updater_stop_def updater_init_def act_defs split: if_splits)
  then show "updater_thread u3 (RoundReported report # rounds) = ([snd report], LoopStopped)"
    by (cases report) (simp add: updater_thread_def)
qed

section \<open>The process\<close>

text \<open>A \<open>with\<close> block: what was started is stopped however the body ends.\<close>

definition with_running :: "(exn, unit, 'w) act \<Rightarrow> (exn, 'b, 'w) act \<Rightarrow> (exn, unit, 'w) act \<Rightarrow> (exn, unit, 'w) act" where
  "with_running start stop body =
     seq_act start (seq_act (try_act body (\<lambda>e. seq_act stop (raise e))) (seq_act stop (ret ())))"

lemma service_running_with: "service_running srv body = with_running (service_start srv) service_stop body"
  by (simp add: service_running_def with_running_def)

definition updater_running :: "exn + unit \<Rightarrow> (exn, unit, updater_state) act \<Rightarrow> (exn, unit, updater_state) act" where
  "updater_running executor = with_running (updater_start executor) updater_stop"

text \<open>\<open>main\<close>: the services it makes, and the blocks inside each other. \<open>sleeping\<close> is the loop in the main thread with all that
  the services do meanwhile.\<close>

type_synonym miner_world = "service_state \<times> updater_state"

definition miner_block ::
  "axon_config option \<Rightarrow> (exn + int) \<times> uvicorn_server \<Rightarrow> exn + unit \<Rightarrow> (exn, unit, miner_world) act \<Rightarrow> (exn, unit, miner_world) act" where
  "miner_block updater srv executor sleeping =
     (let body = seq_act (bind_act (gets_act (service_bound_port \<circ> fst)) lift_act) (until_interrupted sleeping) in
      with_running (on_fst (service_start srv)) (on_fst service_stop)
        (case updater of
           None \<Rightarrow> body
         | Some _ \<Rightarrow> with_running (on_snd (updater_start executor)) (on_snd updater_stop) body))"

definition miner_main ::
  "settings_error + miner_settings \<Rightarrow> int \<Rightarrow> (exn + int) \<times> uvicorn_server \<Rightarrow> exn + unit \<Rightarrow> (exn, unit, miner_world) act \<Rightarrow>
     (process_end + unit) \<times> miner_world option" where
  "miner_main constructed callback_timeout srv executor sleeping =
     (case load_settings_or_exit constructed of
        Inl f \<Rightarrow> (Inl f, None)
      | Inr s \<Rightarrow>
          (case make_miner_service s callback_timeout of
             Inl e \<Rightarrow> (Inl (ProcessCrashes e), None)
           | Inr (_, service) \<Rightarrow>
               (case make_axon_updater_service s of
                  Inl e \<Rightarrow> (Inl (ProcessCrashes e), None)
                | Inr updater \<Rightarrow>
                    (case miner_block updater srv executor sleeping (service, updater_init) of
                       (Inl e, w) \<Rightarrow> (Inl (ProcessCrashes e), Some w)
                     | (Inr _, w) \<Rightarrow> (Inr (), Some w)))))"

section \<open>Nothing stays up\<close>

text \<open>A block leaves a world as a failed start or as the stop leaves it.\<close>

lemma with_running_leaves:
  assumes "with_running start stop body w = (r, w')"
  shows "(\<exists>e. start w = (Inl e, w') \<and> r = Inl e) \<or> (\<exists>w1 r1 w2. start w = (Inr (), w1) \<and> body w1 = (r1, w2) \<and> snd (stop w2) = w')"
proof -
  obtain r0 w1 where start: "start w = (r0, w1)" by fastforce
  obtain r1 w2 where body: "body w1 = (r1, w2)" by fastforce
  obtain r2 w3 where stop: "stop w2 = (r2, w3)" by fastforce
  show ?thesis
  proof (cases r0)
    case (Inl e)
    then show ?thesis using assms start by (auto simp: with_running_def seq_act_def bind_act_def)
  next
    case (Inr x)
    then have "(r, w') = seq_act (try_act body (\<lambda>e. seq_act stop (raise e))) (seq_act stop (ret ())) w1"
      using assms start by (simp add: with_running_def seq_act_apply)
    also have "snd \<dots> = w3"
      using body stop by (cases r1; cases r2) (simp_all add: seq_act_def try_act_def bind_act_def)
    finally show ?thesis using start body stop Inr by (metis snd_conv old.unit.exhaust)
  qed
qed

lemma with_running_keeps:
  assumes "with_running start stop body w = (r, w')" and "Q w"
    and "\<And>w r w'. start w = (r, w') \<Longrightarrow> Q w \<Longrightarrow> Q w'" and "\<And>w r w'. body w = (r, w') \<Longrightarrow> Q w \<Longrightarrow> Q w'"
    and "\<And>w. Q w \<Longrightarrow> Q (snd (stop w))"
  shows "Q w'"
  using with_running_leaves [OF assms(1)] assms(2-5) by metis

text \<open>What a \<open>with\<close> block asks of a service: a stop brings it down from wherever it is, and a start that fails leaves it down.\<close>

locale managed_service =
  fixes start :: "(exn, unit, 'w) act" and stop :: "(exn, 'b, 'w) act" and down :: "'w \<Rightarrow> bool"
  assumes failed_start: "start w = (Inl e, w') \<Longrightarrow> down w \<Longrightarrow> down w'"
    and stop_down: "down (snd (stop w))"
begin

lemma block_down: "with_running start stop body w = (r, w') \<Longrightarrow> down w \<Longrightarrow> down w'"
  using with_running_leaves [of start stop body w r w'] failed_start stop_down by metis

end

abbreviation server_down :: "service_state \<times> 'u \<Rightarrow> bool" where
  "server_down w \<equiv> svc_server (fst w) = None"

abbreviation updater_down :: "'s \<times> updater_state \<Rightarrow> bool" where
  "updater_down w \<equiv> \<not> up_pool (snd w) \<and> \<not> up_thread (snd w)"

interpretation svc: managed_service "on_fst (service_start srv)" "on_fst service_stop" server_down for srv
  by unfold_locales
    (auto simp: on_fst_def service_start_def service_stop_def act_defs split: prod.splits sum.splits if_splits)

interpretation upd: managed_service "on_snd (updater_start executor)" "on_snd updater_stop" updater_down for executor
  by unfold_locales
    (auto simp: on_snd_def updater_start_def updater_stop_def act_defs split: prod.splits sum.splits)

lemma blocks_leave_nothing_up:
  assumes "miner_block updater srv executor sleeping (sv, updater_init) = (r, w')" and "svc_server sv = None"
  shows "server_down w'" and "updater \<noteq> None \<Longrightarrow> updater_down w'"
proof -
  note block = assms(1) [unfolded miner_block_def Let_def]
  show "server_down w'" by (rule svc.block_down [OF block]) (simp add: assms(2))
  assume "updater \<noteq> None"
  then obtain cfg where cfg: "updater = Some cfg" by blast
  show "updater_down w'"
  proof (rule with_running_keeps [OF block, of updater_down, unfolded cfg option.case])
    fix w r w' assume "with_running (on_snd (updater_start executor)) (on_snd updater_stop)
      (seq_act (bind_act (gets_act (service_bound_port \<circ> fst)) lift_act) (until_interrupted sleeping)) w = (r, w')"
      and "updater_down w"
    then show "updater_down w'" by (rule upd.block_down)
  qed (auto simp: updater_init_def on_fst_def service_start_def service_stop_def act_defs split: prod.splits sum.splits if_splits)
qed

text \<open>However a miner ends, by Ctrl+C, by an exception or because a service does not start, its server is down, and so are
  the executor and the thread of its updater; bad settings end it before anything is made.\<close>

theorem miner_leaves_nothing_up:
  "case miner_main constructed callback_timeout srv executor sleeping of
     (r, None) \<Rightarrow> (\<exists>f. r = Inl f)
   | (r, Some (sv, u)) \<Rightarrow> \<exists>s. constructed = Inr s \<and> svc_server sv = None
       \<and> (ms_update_axon s \<longrightarrow> \<not> up_pool u \<and> \<not> up_thread u)"
proof (cases "load_settings_or_exit constructed")
  case (Inl f)
  then show ?thesis by (simp add: miner_main_def)
next
  case (Inr s)
  then have s: "constructed = Inr s" by (auto simp: load_settings_or_exit_def split: sum.splits settings_error.splits)
  show ?thesis
  proof (cases "\<exists>cfg sv updater. make_miner_service s callback_timeout = Inr (cfg, sv) \<and> make_axon_updater_service s = Inr updater")
    case False
    then show ?thesis by (auto simp: miner_main_def Inr split: sum.splits)
  next
    case True
    then obtain cfg sv updater where made: "make_miner_service s callback_timeout = Inr (cfg, sv)"
      "make_axon_updater_service s = Inr updater" by blast
    have fresh: "svc_server sv = None"
      using made(1) by (auto simp: make_miner_service_def service_init_def split: if_splits sum.splits)
    have wanted: "ms_update_axon s \<Longrightarrow> updater \<noteq> None"
      using made(2) by (auto simp: make_axon_updater_service_def split: option.splits)
    obtain r sv' u' where run: "miner_block updater srv executor sleeping (sv, updater_init) = (r, (sv', u'))"
      by (metis surj_pair)
    note down = blocks_leave_nothing_up [OF run fresh]
    have "miner_main constructed callback_timeout srv executor sleeping =
        (case r of Inl e \<Rightarrow> Inl (ProcessCrashes e) | Inr _ \<Rightarrow> Inr (), Some (sv', u'))"
      by (simp add: miner_main_def Inr made run split: sum.split)
    then show ?thesis using down wanted s by (auto split: sum.split)
  qed
qed

text \<open>Settings that passed their own check always give an updater when one is asked for.\<close>

lemma checked_settings_give_updater:
  assumes "axon_updater_requires_netuid s = Inr s'"
  shows "\<exists>updater. make_axon_updater_service s' = Inr updater \<and> (updater \<noteq> None \<longleftrightarrow> ms_update_axon s)"
  using assms by (auto simp: axon_updater_requires_netuid_def make_axon_updater_service_def split: if_splits option.splits)

end
