(* ===== verification/Spec2Isabelle.thy ===== *)
theory Spec2Isabelle
  imports Beats RestSafety ActorLife Task Runtime Payload BusSafety Service SenderLoop Locks Settings Startup Deltas
    Weighing FacilitatorSafety DemoScores MinerProcess
begin

text \<open>
  A verification development for the Nexus library (\<open>src/nexus\<close>), the Python framework on which validators
  of Bittensor subnets are built, and for the subnet written with it under \<open>demos/cat-images\<close>. This theory only
  gathers the others; what follows says how they correspond to the code. Paths below are relative to
  \<open>src/nexus/_internal\<close>, those of the demo to \<open>demos/cat-images/cat_images\<close>.

  \<^bold>\<open>The program.\<close> A validator is a graph. Nodes (\<open>core/dsl/nodes.py\<close>) declare sources and sinks; flows
  (\<open>core/dsl/flow.py\<close>, \<open>piping.py\<close>) and \<open>NexusValidator.connect\<close> connect each source to at most one primary
  sink and any number of taps; \<open>SubnetBuilder\<close> (\<open>core/runtime/subnet_runtime.py\<close>) turns the graph into one
  actor thread per node and one event bus. A message belongs to a context. The bus logs it in the
  context store, passes it to the primary sink in the same context and to each tap in a fresh child
  context (\<open>event_bus.py\<close>), and an actor's handler answers with further messages (\<open>actor.py\<close>,
  \<open>actor_patterns.py\<close>). The store (\<open>context_store.py\<close>) appends every change to a persistent log from which
  it can be rebuilt. On top of this sit the nodes of a task (\<open>nexus_task.py\<close>): retry, payload creation,
  routing to a neuron, an executor communicator, time stamping, preparing, storing and dispatching
  results; and at the edges the REST entry point, the clocks of the chain, the weight setter, and the
  asynchronous HTTP protocol with its two ends, communicator and neuron service. The demo is one such
  subnet: a validator graph with a mining and a validation task, the miner that answers it, and a web
  site, the facilitator, that takes images from users and submits them to validators.

  \<^bold>\<open>Conventions.\<close> A Python call that reads or changes shared state and may raise is a function from
  the state to a result and a new state, the state kept on both branches (type \<open>act\<close> of \<open>Prelude\<close>);
  an exception is a value with its class, cause and context (\<open>Values\<close>). A loop of a thread
  is given by its turn; threads together are inductive step relations over turns, so every theorem on a
  \<open>_reach\<close> predicate holds for every interleaving. Calls that the source makes under one lock are
  single steps. Python's integers are \<open>int\<close>, instants and durations are numbers of microseconds, a \<open>dict\<close> is an
  association list in insertion order, an object passed between actors is a \<open>pyval\<close>. Third-party code
  enters as arguments: \<open>deepdiff\<close> (with the laws \<open>deepdiff_ok\<close>, that a delta applied to the old value
  gives the new one, and \<open>deepdiff_total\<close>, that a delta exists), the clients of pylon, S3 and OpenRouter,
  pydantic's validation, the web frameworks, the network. Drawing a uuid is a counter.

  \<^bold>\<open>Foundations.\<close>
  \<^item> \<open>Prelude\<close>: the state-and-exception combinators, dictionaries, lists.
  \<^item> \<open>Values\<close>: exceptions (\<open>utils/exceptions.py\<close>), chain data (\<open>utils/types.py\<close>), payloads.
  \<^item> \<open>Chain\<close>: epochs (\<open>utils/chain.py\<close>) tile the block line.
  \<^item> \<open>Settings\<close>: environment, subnet id, scoped settings, read-only dictionaries (\<open>utils/\<close>).
  \<^item> \<open>Deltas\<close>: reading a pickled delta (\<open>core/runtime/serialization.py\<close>).

  \<^bold>\<open>The graph.\<close>
  \<^item> \<open>Nodes\<close>: endpoints, endpoint tables, \<open>Pipes\<close>. A declaration set determines the graph.
  \<^item> \<open>Flow\<close>: \<open>Flow.then\<close>, all its error branches, and \<open>Piping\<close>. \<open>then\<close> refines the abstract set of
    declared connections.
  \<^item> \<open>Task\<close>: the parts and the wiring of \<open>NexusTask\<close>.
  \<^item> \<open>Runtime\<close>: \<open>SubnetBuilder\<close>, \<open>SubnetRuntime\<close>, \<open>NexusValidator\<close>. Building wires exactly what was declared,
    every node once; a runtime starts and stops once; which failures end the bus thread.
  \<^item> \<open>Wiring\<close>: when the connections of a validator and its tasks fit together, the validator starts.
  \<^item> \<open>Startup\<close>: the settings of OpenRouter and pylon, the client providers, and \<open>NexusValidator.run\<close> from its settings
    to its end: bad settings stop it before anything runs, and what runs is shut down. What pydantic finds and
    how it reads a text are arguments.

  \<^bold>\<open>Contexts and messages.\<close>
  \<^item> \<open>ContextLog\<close>: log entries and the in-memory persistence, behind the locale \<open>log_persistence\<close>.
  \<^item> \<open>ContextStore\<close>: the operations on contexts. \<open>Recovery\<close>, \<open>StoreProperties\<close>: the meaning of a log, the
    invariant that live contexts are the replay of their logs, lossless recovery after any sequence of
    operations, rejection of corrupt logs. \<open>StoreRuns\<close>: the effects of operations that succeed.
  \<^item> \<open>Locks\<close>: the reentrant locks of the store under interleaving threads, behind the locale \<open>context_locks\<close>:
    mutual exclusion whatever the threads lock, and no deadlock, since parents are locked in the order of their
    ids and a child after its parents.
  \<^item> \<open>Bus\<close>: events, bus and actor loop. \<open>Patterns\<close>: the actor patterns. \<open>BusSafety\<close>: however bus,
    actors and other threads interleave, the bus never multiplies a message. \<open>ActorLife\<close>: the thread of one actor
    handles all that is in its inbox before its stop.

  \<^bold>\<open>The actors of a task.\<close>
  \<^item> \<open>Retry\<close> (the exact account of attempts under any order of reports and timers), \<open>Router\<close>, \<open>Timestamper\<close>
    (which outputs are sent, dropped or kept, under any clock), \<open>ResultActors\<close> (mux, preparer, storers, dispatcher, sampler, input
    and output creator), \<open>Payload\<close> (presigned URLs, OpenRouter requests and client), \<open>Beats\<close>
    (block and epoch clock, weights beat, weight setter, metagraph source).
  \<^item> \<open>ResultStore\<close>: \<open>core/runtime/task_result_store.py\<close>, behind the locale \<open>result_log\<close>.

  \<^bold>\<open>The edges.\<close>
  \<^item> \<open>Communicator\<close>: the base of the communicators and the two that run in the process.
  \<^item> \<open>Pending\<close>: pending requests, behind the locale \<open>pending_requests\<close>. \<open>AsyncHttp\<close>, \<open>AsyncHttpSafety\<close>: the actor,
    its sender workers, callback server and timeout sweep; every accepted input is answered exactly once.
  \<^item> \<open>SenderLoop\<close>: start and stop of those threads; stopping drains the queue.
  \<^item> \<open>Service\<close>: the neuron's end (\<open>async_http_neuron_service.py\<close>), composed with the communicator.
  \<^item> \<open>HttpServer\<close>: waiting for a web server to start (\<open>http_server_lifecycle.py\<close>).
  \<^item> \<open>Rest\<close>, \<open>RestSafety\<close>: the REST entry point; every request gets at most one answer, its own.

  \<^bold>\<open>The cat-images subnet.\<close>
  \<^item> \<open>Weighing\<close>: \<open>validator/weighing_algorithm.py\<close> against a closed form over the stored results.
  \<^item> \<open>Facilitator\<close>, \<open>FacilitatorSafety\<close>: stores, routes, worker threads and event streams (\<open>facilitator/\<close>) as a step
    relation; every job can reach its one verdict, that of its own attempts, and a stream sends the statuses in order.
  \<^item> \<open>Demo\<close>: the wire models (\<open>subnet_models.py\<close>) and one attempt of the submitter.
  \<^item> \<open>DemoValidator\<close>: the graph of \<open>validator/validator.py\<close>, built with the definitions of \<open>Task\<close>, \<open>Router\<close>,
    \<open>Rest\<close>, \<open>AsyncHttp\<close>, \<open>Payload\<close> and \<open>Beats\<close> and started with those of \<open>Runtime\<close>. \<open>DemoScores\<close>: a score finds its
    way from the validation request back to the mining result.
  \<^item> \<open>Miner\<close>, \<open>MinerProcess\<close>: the processor, the axon updater and the process of \<open>miner/\<close>; its
    \<open>with\<close> blocks rest on the locale \<open>managed_service\<close>, which server and updater interpret.

  \<^bold>\<open>Abstract specifications.\<close> \<open>slot_step\<close> (\<open>ResultActors\<close>) is the preparer's contract; \<open>local_run\<close>
  (\<open>Recovery\<close>) the meaning of a log; \<open>changes\<close> (\<open>Beats\<close>) that of the block clock; \<open>answers\<close> and \<open>waits\<close>
  (\<open>AsyncHttpSafety\<close>) the account of the communicator; \<open>callback_verdict\<close> what a callback means;
  \<open>score_of\<close> and \<open>earned\<close> (\<open>Weighing\<close>) the score of a mining result and the work of a hotkey.

  \<^bold>\<open>Loops and bounds.\<close> \<open>poll_server\<close> is a partial function, \<open>None\<close> being a loop without end; the theorem bounds
  its sleeps: all but the last end before the deadline. \<open>sender_loop_run\<close> has fuel, and as much fuel as requests plus workers
  empties the queue. \<open>lock_run\<close> counts its steps, bounded by the operations of all threads. The loops of
  producers and clocks are functions of the finite list of inputs they had until they were stopped. All
  other recursion is structural. \<open>updater_loop\<close> and \<open>generate_events\<close> are functions of the rounds they had, and
  \<open>actor_turns\<close> has fuel: one turn more than there are messages before a stop is enough to stop.

  \<^bold>\<open>Assumptions worth knowing.\<close> An output model whose validation raises anything but a \<open>ValidationError\<close> loses the
  request (\<open>broken_validation_loses_request\<close>), so the account of the communicator excludes it. Waiting
  for a lock is modelled in \<open>Locks\<close> only; elsewhere a handler runs as one step, which the mutual exclusion of
  \<open>Locks\<close> justifies: a handler holds the lock of its context, and a second message of that context, which an
  actor may well send (\<open>failure_storer_stores_then_retries\<close>), waits for it. Starting a thread succeeds.

  \<^bold>\<open>Not modelled.\<close> The texts of exceptions the framework raises and log output, except the log text of exceptions
  on the bus and the error bodies of the REST entry point; the configuration of loggers; the re-exports under
  \<open>nexus/v1\<close>; of the demo its templates, the S3 client and the defaults of its settings, which only call or configure
  third-party code; the build script; thread scheduling below the granularity described above.
\<close>

end
